(* ===== verification/Contracts.thy ===== *)
theory Contracts
  imports BB_Prelude
begin

text \<open>
  Contracts several components share. \<open>one_shot\<close> is the discipline of every teardown path in the
  sources: many parties race to close, cancel or finish something, and exactly one of them is told
  that it did the work. \<open>registry\<close> is what a listener needs of the table of live peers.
  \<open>codec\<close> and \<open>wire_codec\<close> are what a pair of a writer and a reader promise.
  \<open>attenuation\<close> is the rule that narrowing never widens. Each locale is interpreted by the
  components that promise it.
\<close>

section \<open>One winner\<close>

text \<open>
  The results of a run: \<open>None\<close> is an attempt to fire, whose answer is recorded, and \<open>Some e\<close> is
  anything else the environment does to the object in between.
\<close>

fun shots :: "('s \<Rightarrow> 's \<times> bool) \<Rightarrow> ('e \<Rightarrow> 's \<Rightarrow> 's) \<Rightarrow> 'e option list \<Rightarrow> 's \<Rightarrow> bool list" where
  "shots fire env [] s = []"
| "shots fire env (None # es) s = snd (fire s) # shots fire env es (fst (fire s))"
| "shots fire env (Some e # es) s = shots fire env es (env e s)"

locale one_shot =
  fixes fire :: "'s \<Rightarrow> 's \<times> bool"
    and fired :: "'s \<Rightarrow> bool"
    and env :: "'e \<Rightarrow> 's \<Rightarrow> 's"
  assumes fire_wins: "snd (fire s) \<longleftrightarrow> \<not> fired s"
    and fire_fired: "fired (fst (fire s))"
    and env_fired: "fired (env e s) \<longleftrightarrow> fired s"
begin

lemma shots_fired: "fired s \<Longrightarrow> count_list (shots fire env es s) True = 0"
proof (induction es arbitrary: s)
  case Nil
  then show ?case by simp
next
  case (Cons a es)
  then show ?case
    by (cases a) (simp_all add: fire_wins fire_fired env_fired)
qed

lemma shots_once:
  "\<not> fired s \<Longrightarrow> count_list (shots fire env es s) True = (if None \<in> set es then 1 else 0)"
proof (induction es arbitrary: s)
  case Nil
  then show ?case by simp
next
  case (Cons a es)
  then show ?case
    by (cases a) (simp_all add: fire_wins fire_fired env_fired shots_fired)
qed

lemma shots_first: "\<not> fired s \<Longrightarrow> shots fire env (None # es) s = True # shots fire env es (fst (fire s))"
  by (simp add: fire_wins)

end

section \<open>Encodings\<close>

text \<open>
  An encoding is read back exactly. A wire codec is moreover canonical: the reader accepts nothing but
  what the writer produces, so no two byte strings mean the same message.
\<close>

locale codec =
  fixes enc :: "'m \<Rightarrow> 'b list"
    and dec :: "'b list \<Rightarrow> 'm option"
    and wf :: "'m \<Rightarrow> bool"
  assumes dec_enc: "wf m \<Longrightarrow> dec (enc m) = Some m"
begin

lemma enc_inj: "wf m \<Longrightarrow> wf m' \<Longrightarrow> enc m = enc m' \<longleftrightarrow> m = m'"
  by (metis dec_enc option.inject)

end

locale wire_codec = codec enc dec wf
  for enc :: "'m \<Rightarrow> 'b list" and dec :: "'b list \<Rightarrow> 'm option" and wf :: "'m \<Rightarrow> bool" +
  assumes dec_sound: "dec bs = Some m \<Longrightarrow> wf m \<and> enc m = bs"
begin

lemma dec_unique: "dec bs = Some m \<Longrightarrow> dec bs' = Some m \<Longrightarrow> bs = bs'"
  using dec_sound by blast

lemma dec_iff: "dec bs = Some m \<longleftrightarrow> wf m \<and> bs = enc m"
  using dec_enc dec_sound by blast

end

section \<open>A table of live peers\<close>

locale registry =
  fixes get :: "'t \<Rightarrow> 'k \<Rightarrow> 'p option"
    and add :: "'k \<Rightarrow> 'p \<Rightarrow> 't \<Rightarrow> 't \<times> bool"
    and forget :: "'k \<Rightarrow> 'p \<Rightarrow> 't \<Rightarrow> 't"
    and invar :: "'t \<Rightarrow> bool"
  assumes add_ok: "invar t \<Longrightarrow> add k p t = (t', True) \<Longrightarrow> get t k = None \<and> get t' = (get t)(k \<mapsto> p)"
    and add_refused: "invar t \<Longrightarrow> add k p t = (t', False) \<Longrightarrow> t' = t"
    and get_forget: "invar t \<Longrightarrow>
      get (forget k p t) = (if get t k = Some p then (get t)(k := None) else get t)"
    and invar_add: "invar t \<Longrightarrow> invar (fst (add k p t))"
    and invar_forget: "invar t \<Longrightarrow> invar (forget k p t)"
begin

text \<open>A peer that reused the identifier survives the late teardown of its predecessor.\<close>

lemma forget_stale:
  assumes "invar t" "get t k = Some new" "old \<noteq> new"
  shows "get (forget k old t) k = Some new"
  using assms by (simp add: get_forget)

lemma add_forget:
  assumes "invar t" "add k p t = (t', True)"
  shows "get (forget k p t') = get t"
proof -
  have "invar t'"
    using invar_add [OF assms(1), of k p] assms(2) by simp
  then show ?thesis
    using add_ok [OF assms] by (auto simp: get_forget)
qed

lemma add_taken: "invar t \<Longrightarrow> get t k = Some q \<Longrightarrow> snd (add k p t) = False"
  using add_ok by (cases "add k p t") fastforce

lemma forget_other: "invar t \<Longrightarrow> k' \<noteq> k \<Longrightarrow> get (forget k p t) k' = get t k'"
  by (simp add: get_forget)

end

section \<open>Attenuation\<close>

text \<open>
  A grant reaches a set of things; narrowing it by a request either fails or yields a grant that
  reaches no more than the one it came from.
\<close>

fun narrow_chain :: "('g \<Rightarrow> 'r \<Rightarrow> 'e + 'g) \<Rightarrow> 'r list \<Rightarrow> 'g \<Rightarrow> 'e + 'g" where
  "narrow_chain nrw [] g = Inr g"
| "narrow_chain nrw (r # rs) g =
     (case nrw g r of Inl e \<Rightarrow> Inl e | Inr g' \<Rightarrow> narrow_chain nrw rs g')"

text \<open>Every grant on the way of a chain is good.\<close>

fun chain_good :: "('g \<Rightarrow> 'r \<Rightarrow> 'e + 'g) \<Rightarrow> ('g \<Rightarrow> bool) \<Rightarrow> 'r list \<Rightarrow> 'g \<Rightarrow> bool" where
  "chain_good nrw good [] g = good g"
| "chain_good nrw good (r # rs) g =
     (good g \<and> (case nrw g r of Inl _ \<Rightarrow> True | Inr g' \<Rightarrow> chain_good nrw good rs g'))"

locale attenuation =
  fixes reach :: "'g \<Rightarrow> 'x \<Rightarrow> bool"
    and nrw :: "'g \<Rightarrow> 'r \<Rightarrow> 'e + 'g"
    and good :: "'g \<Rightarrow> bool"
  assumes nrw_le: "good g \<Longrightarrow> nrw g r = Inr g' \<Longrightarrow> good g' \<Longrightarrow> reach g' x \<Longrightarrow> reach g x"
begin

text \<open>A chain of narrowings through good grants reaches no more than its first grant.\<close>

lemma chain_good_head: "chain_good nrw good rs g \<Longrightarrow> good g"
  by (cases rs) auto

lemma chain_le:
  "chain_good nrw good rs g \<Longrightarrow> narrow_chain nrw rs g = Inr g' \<Longrightarrow> reach g' x \<Longrightarrow> reach g x"
proof (induction rs arbitrary: g)
  case Nil
  then show ?case by simp
next
  case (Cons r rs)
  then obtain h where h: "nrw g r = Inr h" "narrow_chain nrw rs h = Inr g'"
    by (auto split: sum.splits)
  with Cons have "chain_good nrw good rs h" "reach h x" by simp_all
  with Cons.prems h show ?case
    using nrw_le chain_good_head by fastforce
qed

end

end
