(* ===== verification/Swsp.thy ===== *)
theory Swsp
  imports Contracts
begin

unbundle bit_operations_syntax

text \<open>
  The SWSP wire format (\<^verbatim>\<open>internal/protocol/swsp.go\<close>): an 8-byte little-endian header of stream
  identifier, flags and payload length, followed by the payload. \<open>BuildFrame\<close> and \<open>ParseFrame\<close>
  are the two directions; \<open>FlowBytes\<close> is what a frame costs against a receive window.
\<close>

section \<open>Constants\<close>

definition FlagSYN :: u16 where "FlagSYN = 0x0001"
definition FlagFIN :: u16 where "FlagFIN = 0x0004"
definition FlagDAT :: u16 where "FlagDAT = 0x0000"
definition FlagMORE :: u16 where "FlagMORE = 0x0002"

definition MaxChunkSize :: nat where "MaxChunkSize = 32768"
definition HeaderSize :: nat where "HeaderSize = 8"
definition SWSPVersion :: int where "SWSPVersion = 4"
definition InitialStreamWindow :: nat where "InitialStreamWindow = 2 ^ 20"
definition StreamWindowUpdateThreshold :: nat where
  "StreamWindowUpdateThreshold = InitialStreamWindow div 2"
definition MaxQueuedStreamFrames :: nat where "MaxQueuedStreamFrames = 256"

lemmas swsp_consts =
  FlagSYN_def FlagFIN_def FlagDAT_def FlagMORE_def MaxChunkSize_def HeaderSize_def
  SWSPVersion_def InitialStreamWindow_def StreamWindowUpdateThreshold_def MaxQueuedStreamFrames_def

section \<open>Frames\<close>

record frame =
  StreamID :: u32
  Flags :: u16
  Payload :: "byte list"

datatype frame_error = FrameTooShort nat | FrameLengthMismatch nat nat | PayloadTooLarge nat

text \<open>\<^verbatim>\<open>binary.LittleEndian\<close> on four and two bytes.\<close>

definition PutUint32 :: "u32 \<Rightarrow> byte list" where
  "PutUint32 w = [ucast w, ucast (drop_bit 8 w), ucast (drop_bit 16 w), ucast (drop_bit 24 w)]"

definition PutUint16 :: "u16 \<Rightarrow> byte list" where
  "PutUint16 w = [ucast w, ucast (drop_bit 8 w)]"

definition Uint32 :: "byte list \<Rightarrow> u32" where
  "Uint32 b = ucast (b ! 0) OR push_bit 8 (ucast (b ! 1)) OR push_bit 16 (ucast (b ! 2))
     OR push_bit 24 (ucast (b ! 3))"

definition Uint16 :: "byte list \<Rightarrow> u16" where
  "Uint16 b = ucast (b ! 0) OR push_bit 8 (ucast (b ! 1))"

definition ParseFrame :: "byte list \<Rightarrow> (frame_error, frame) go_result" where
  "ParseFrame data =
     (if length data < HeaderSize then Err (FrameTooShort (length data))
      else
        let streamID = Uint32 (take 4 data);
            flags = Uint16 (take 2 (drop 4 data));
            len = Uint16 (take 2 (drop 6 data))
        in if length data \<noteq> HeaderSize + unat len
           then Err (FrameLengthMismatch (unat len) (length data - HeaderSize))
           else Ok \<lparr>StreamID = streamID, Flags = flags,
                    Payload = take (unat len) (drop HeaderSize data)\<rparr>)"

definition ValidateFramePayload :: "byte list \<Rightarrow> (frame_error, unit) go_result" where
  "ValidateFramePayload payload =
     (if length payload > MaxChunkSize then Err (PayloadTooLarge (length payload)) else Ok ())"

definition BuildFrame :: "u32 \<Rightarrow> u16 \<Rightarrow> byte list \<Rightarrow> byte list" where
  "BuildFrame streamID flags payload =
     PutUint32 streamID @ PutUint16 flags @ PutUint16 (of_nat (length payload)) @ payload"

definition IsSYN :: "frame \<Rightarrow> bool" where "IsSYN f \<longleftrightarrow> Flags f AND FlagSYN \<noteq> 0"
definition IsFIN :: "frame \<Rightarrow> bool" where "IsFIN f \<longleftrightarrow> Flags f AND FlagFIN \<noteq> 0"
definition IsMORE :: "frame \<Rightarrow> bool" where "IsMORE f \<longleftrightarrow> Flags f AND FlagMORE \<noteq> 0"

definition FlowBytes :: "frame \<Rightarrow> nat" where
  "FlowBytes f = (if IsSYN f then 0 else length (Payload f))"

definition NegotiateSWSPVersion :: "int \<Rightarrow> int" where
  "NegotiateSWSPVersion peerVersion =
     (if peerVersion \<le> 0 then 2 else if peerVersion > SWSPVersion then SWSPVersion else peerVersion)"

section \<open>Byte-level lemmas\<close>

lemma length_Put [simp]: "length (PutUint32 w) = 4" "length (PutUint16 v) = 2"
  by (simp_all add: PutUint32_def PutUint16_def)

lemma Uint16_Put [simp]: "Uint16 (PutUint16 w) = w"
  unfolding Uint16_def PutUint16_def
  by (rule bit_word_eqI) (auto simp: bit_simps)

lemma Uint32_Put [simp]: "Uint32 (PutUint32 w) = w"
proof (rule bit_word_eqI)
  fix n assume n: "n < LENGTH(32)"
  have "n < 24 \<or> 24 + (n - 24) = n" "n < 24 \<longleftrightarrow> n < 16 \<or> n - 16 < 8" by auto
  with n show "bit (Uint32 (PutUint32 w)) n = bit w n"
    unfolding Uint32_def PutUint32_def by (auto simp: bit_simps)
qed

lemma Put_Uint16: "length b = 2 \<Longrightarrow> PutUint16 (Uint16 b) = b"
proof -
  assume "length b = 2"
  then obtain x y where b: "b = [x, y]"
    by (cases b; cases "tl b"; auto)
  have "ucast (ucast x OR push_bit 8 (ucast y) :: u16) = x"
    by (rule bit_word_eqI) (auto simp: bit_simps)
  moreover have "ucast (drop_bit 8 (ucast x OR push_bit 8 (ucast y) :: u16)) = y"
    by (rule bit_word_eqI) (auto simp: bit_simps dest: bit_imp_le_length)
  ultimately show ?thesis
    by (simp add: b PutUint16_def Uint16_def)
qed


lemma Put_Uint32: "length b = 4 \<Longrightarrow> PutUint32 (Uint32 b) = b"
proof -
  assume "length b = 4"
  then obtain x y z u where b: "b = [x, y, z, u]"
    by (auto simp: numeral_eq_Suc length_Suc_conv)
  let ?w = "ucast x OR push_bit 8 (ucast y) OR push_bit 16 (ucast z) OR push_bit 24 (ucast u) :: u32"
  have "ucast ?w = x" "ucast (drop_bit 8 ?w) = y" "ucast (drop_bit 16 ?w) = z" "ucast (drop_bit 24 ?w) = u"
    by (rule bit_word_eqI; auto simp: bit_simps dest: bit_imp_le_length)+
  then show ?thesis
    by (simp add: b PutUint32_def Uint32_def)
qed

lemma BuildFrame_split [simp]:
  "take 4 (BuildFrame i fl p) = PutUint32 i"
  "take 2 (drop 4 (BuildFrame i fl p)) = PutUint16 fl"
  "take 2 (drop 6 (BuildFrame i fl p)) = PutUint16 (of_nat (length p))"
  "drop HeaderSize (BuildFrame i fl p) = p"
  "length (BuildFrame i fl p) = HeaderSize + length p"
  by (simp_all add: BuildFrame_def HeaderSize_def)

lemma ParseFrame_BuildFrame:
  "ParseFrame (BuildFrame i fl p) =
     (if length p < 2 ^ 16 then Ok \<lparr>StreamID = i, Flags = fl, Payload = p\<rparr>
      else Err (FrameLengthMismatch (length p mod 2 ^ 16) (length p)))"
proof (cases "length p < 2 ^ 16")
  case True
  then have "unat (of_nat (length p) :: u16) = length p"
    by (simp add: unat_of_nat)
  with True show ?thesis by (simp add: ParseFrame_def Let_def)
next
  case False
  have "unat (of_nat (length p) :: u16) = length p mod 2 ^ 16"
    by (simp add: unat_of_nat)
  moreover have "length p mod 2 ^ 16 < 2 ^ 16" by simp
  ultimately show ?thesis
    using False by (simp add: ParseFrame_def Let_def)
qed

lemma BuildFrame_ParseFrame:
  assumes "ParseFrame bs = Ok f"
  shows "BuildFrame (StreamID f) (Flags f) (Payload f) = bs" "length (Payload f) < 2 ^ 16"
proof -
  let ?len = "Uint16 (take 2 (drop 6 bs))"
  define n where "n = unat ?len"
  have lt: "n < 2 ^ 16"
    using unsigned_less [of ?len, where ?'a = nat] by (simp add: n_def)
  have "ParseFrame bs =
      (if length bs < HeaderSize then Err (FrameTooShort (length bs))
       else if length bs \<noteq> HeaderSize + n then Err (FrameLengthMismatch n (length bs - HeaderSize))
       else Ok \<lparr>StreamID = Uint32 (take 4 bs), Flags = Uint16 (take 2 (drop 4 bs)),
                Payload = take n (drop HeaderSize bs)\<rparr>)"
    unfolding ParseFrame_def n_def Let_def by (rule refl)
  with assms have len: "length bs = HeaderSize + n"
    and f: "f = \<lparr>StreamID = Uint32 (take 4 bs), Flags = Uint16 (take 2 (drop 4 bs)),
               Payload = drop HeaderSize bs\<rparr>"
    by (simp_all split: if_splits)
  have "length (drop HeaderSize bs) = n"
    using len by simp
  moreover have "of_nat n = ?len"
    by (simp add: n_def)
  ultimately have pay: "of_nat (length (drop HeaderSize bs)) = ?len"
    by (simp only:)
  have "PutUint32 (Uint32 (take 4 bs)) = take 4 bs"
    "PutUint16 (Uint16 (take 2 (drop 4 bs))) = take 2 (drop 4 bs)"
    "PutUint16 ?len = take 2 (drop 6 bs)"
    using len by (simp_all add: Put_Uint32 Put_Uint16 HeaderSize_def)
  moreover have "bs = take 4 bs @ take 2 (drop 4 bs) @ take 2 (drop 6 bs) @ drop 8 bs"
  proof -
    have "drop 4 bs = take 2 (drop 4 bs) @ drop 6 bs" "drop 6 bs = take 2 (drop 6 bs) @ drop 8 bs"
      using append_take_drop_id [of 2 "drop 4 bs"] append_take_drop_id [of 2 "drop 6 bs"] by simp_all
    then show ?thesis by (metis append_take_drop_id)
  qed
  ultimately show "BuildFrame (StreamID f) (Flags f) (Payload f) = bs"
    unfolding f BuildFrame_def frame.select_convs pay by (simp add: HeaderSize_def)
  show "length (Payload f) < 2 ^ 16"
    using lt len by (simp add: f)
qed

definition frame_enc :: "frame \<Rightarrow> byte list" where
  "frame_enc f = BuildFrame (StreamID f) (Flags f) (Payload f)"

definition frame_dec :: "byte list \<Rightarrow> frame option" where
  "frame_dec bs = (case ParseFrame bs of Inl _ \<Rightarrow> None | Inr f \<Rightarrow> Some f)"

interpretation swsp: wire_codec frame_enc frame_dec "\<lambda>f. length (Payload f) < 2 ^ 16"
proof
  fix f :: frame assume "length (Payload f) < 2 ^ 16"
  then show "frame_dec (frame_enc f) = Some f"
    by (simp add: frame_dec_def frame_enc_def ParseFrame_BuildFrame)
next
  fix bs f assume "frame_dec bs = Some f"
  then have "ParseFrame bs = Ok f"
    by (auto simp: frame_dec_def split: sum.splits)
  then show "length (Payload f) < 2 ^ 16 \<and> frame_enc f = bs"
    using BuildFrame_ParseFrame by (simp add: frame_enc_def)
qed

section \<open>Flags, version and cost\<close>

lemma FlowBytes_le: "FlowBytes f \<le> length (Payload f)"
  by (simp add: FlowBytes_def)

lemma Negotiate_range: "2 \<le> NegotiateSWSPVersion v \<or> v = 1"
  by (auto simp: NegotiateSWSPVersion_def SWSPVersion_def)

lemma Negotiate_le: "NegotiateSWSPVersion v \<le> SWSPVersion"
  by (auto simp: NegotiateSWSPVersion_def SWSPVersion_def)

text \<open>
  C15. The wire format is exact: a byte string parses to a frame if and only if it is what
  \<^verbatim>\<open>BuildFrame\<close> writes for that frame and the payload length fits the 16-bit length field. So
  every frame that fits survives the trip bit for bit, no two byte strings mean the same frame, and
  truncated, padded or length-forged input is refused.
\<close>

theorem frame_wire_exact:
  "ParseFrame bs = Ok f \<longleftrightarrow> length (Payload f) < 2 ^ 16 \<and> bs = BuildFrame (StreamID f) (Flags f) (Payload f)"
  using swsp.dec_iff [of bs f]
  by (auto simp: frame_dec_def frame_enc_def split: sum.splits)

text \<open>
  Version negotiation: both ends, each applying the rule to the other's announced version,
  agree, and the result is never newer than either implementation; a peer that announces nothing is
  taken for version 2.
\<close>

theorem version_negotiation_agrees:
  "NegotiateSWSPVersion v \<le> SWSPVersion \<and>
   (NegotiateSWSPVersion v = (if v \<le> 0 then 2 else min v SWSPVersion)) \<and>
   NegotiateSWSPVersion (NegotiateSWSPVersion v) = NegotiateSWSPVersion v"
  by (auto simp: NegotiateSWSPVersion_def SWSPVersion_def)

end
