(* ===== verification/PeerSet.thy ===== *)
theory PeerSet
  imports Contracts "HOL-Library.AList"
begin

text \<open>
  The registry of live peers and the handshake deadline (\<^verbatim>\<open>internal/peerset/peerset.go\<close>). Every
  method of \<^verbatim>\<open>Set\<close> runs under one mutex, so each is one atomic operation. The Go map is an
  association list with distinct keys; \<^verbatim>\<open>All\<close> and \<^verbatim>\<open>Close\<close> return its values in the list's
  order, one of the orders Go's map iteration may take.
\<close>

section \<open>State and operations\<close>

record 'p peer_set =
  ps_peers :: "(string \<times> 'p) list"
  ps_closed :: bool

definition NewSet :: "'p peer_set" where
  "NewSet = \<lparr>ps_peers = [], ps_closed = False\<rparr>"

definition AddLimited :: "string \<Rightarrow> 'p \<Rightarrow> int \<Rightarrow> 'p peer_set \<Rightarrow> 'p peer_set \<times> bool" where
  "AddLimited clientID p mx s =
     (if ps_closed s then (s, False)
      else if mx > 0 \<and> int (length (ps_peers s)) \<ge> mx then (s, False)
      else if map_of (ps_peers s) clientID \<noteq> None then (s, False)
      else (s\<lparr>ps_peers := AList.update clientID p (ps_peers s)\<rparr>, True))"

definition Add :: "string \<Rightarrow> 'p \<Rightarrow> 'p peer_set \<Rightarrow> 'p peer_set \<times> bool" where
  "Add clientID p s = AddLimited clientID p 0 s"

definition Get :: "'p peer_set \<Rightarrow> string \<Rightarrow> 'p option" where
  "Get s clientID = map_of (ps_peers s) clientID"

definition Has :: "'p peer_set \<Rightarrow> string \<Rightarrow> bool" where
  "Has s clientID \<longleftrightarrow> map_of (ps_peers s) clientID \<noteq> None"

definition Forget :: "string \<Rightarrow> 'p \<Rightarrow> 'p peer_set \<Rightarrow> 'p peer_set" where
  "Forget clientID p s =
     (case map_of (ps_peers s) clientID of
        None \<Rightarrow> s
      | Some cur \<Rightarrow> if cur = p then s\<lparr>ps_peers := AList.delete clientID (ps_peers s)\<rparr> else s)"

definition All :: "'p peer_set \<Rightarrow> 'p list" where
  "All s = map snd (ps_peers s)"

definition CloseSet :: "'p peer_set \<Rightarrow> 'p peer_set \<times> 'p list" where
  "CloseSet s = (s\<lparr>ps_closed := True, ps_peers := []\<rparr>, map snd (ps_peers s))"

definition Len :: "'p peer_set \<Rightarrow> nat" where
  "Len s = length (ps_peers s)"

definition ps_inv :: "'p peer_set \<Rightarrow> bool" where
  "ps_inv s \<longleftrightarrow> distinct (map fst (ps_peers s))"

text \<open>One call of the registry's mutating interface, for runs.\<close>

datatype 'p ps_op = OpAdd string 'p int | OpForget string 'p | OpClose

fun ps_do :: "'p ps_op \<Rightarrow> 'p peer_set \<Rightarrow> 'p peer_set" where
  "ps_do (OpAdd k p mx) s = fst (AddLimited k p mx s)"
| "ps_do (OpForget k p) s = Forget k p s"
| "ps_do OpClose s = fst (CloseSet s)"

text \<open>
  The deadline: \<^verbatim>\<open>done\<close> is an atomic flag that the timer callback and \<^verbatim>\<open>Done\<close> both try to
  swap; the winner of the compare-and-swap acts. \<open>dl_fired\<close> counts runs of the expiry callback and
  \<open>dl_stopped\<close> the calls of \<^verbatim>\<open>timer.Stop\<close>.
\<close>

record deadline =
  dl_done :: bool
  dl_fired :: nat
  dl_stopped :: nat

definition NewDeadline :: deadline where
  "NewDeadline = \<lparr>dl_done = False, dl_fired = 0, dl_stopped = 0\<rparr>"

definition CompareAndSwap :: "deadline \<Rightarrow> deadline \<times> bool" where
  "CompareAndSwap d = (if dl_done d then (d, False) else (d\<lparr>dl_done := True\<rparr>, True))"

definition Expire :: "deadline \<Rightarrow> deadline" where
  "Expire d = (let (d', won) = CompareAndSwap d in if won then d'\<lparr>dl_fired := Suc (dl_fired d')\<rparr> else d')"

definition Done :: "deadline option \<Rightarrow> deadline option" where
  "Done od = map_option (\<lambda>d. let (d', won) = CompareAndSwap d in
      if won then d'\<lparr>dl_stopped := Suc (dl_stopped d')\<rparr> else d') od"

datatype dl_event = TimerFires | CallDone

definition dl_do :: "dl_event \<Rightarrow> deadline \<Rightarrow> deadline" where
  "dl_do e d = (case e of TimerFires \<Rightarrow> Expire d | CallDone \<Rightarrow> the (Done (Some d)))"

section \<open>Lemmas\<close>

lemma ps_inv_New [simp]: "ps_inv NewSet"
  by (simp add: ps_inv_def NewSet_def)

lemma ps_inv_AddLimited [inv_step]: "ps_inv s \<Longrightarrow> ps_inv (fst (AddLimited k p mx s))"
  by (auto simp: ps_inv_def AddLimited_def distinct_update)

lemma ps_inv_Forget [inv_step]: "ps_inv s \<Longrightarrow> ps_inv (Forget k p s)"
  by (auto simp: ps_inv_def Forget_def distinct_delete split: option.splits)

lemma ps_inv_Close [inv_step]: "ps_inv (fst (CloseSet s))"
  by (simp add: ps_inv_def CloseSet_def)

lemma ps_inv_do: "ps_inv s \<Longrightarrow> ps_inv (ps_do op s)"
  by (cases op) (auto intro: inv_step)

lemma length_update_new:
  "map_of xs k = None \<Longrightarrow> length (AList.update k v xs) = Suc (length xs)"
  by (induction xs) (auto split: if_splits)

lemma length_delete_le: "length (AList.delete k xs) \<le> length xs"
  by (simp add: AList.delete_eq)

interpretation ps: registry Get Add Forget ps_inv
proof
  fix t :: "'a peer_set" and k p t'
  assume inv: "ps_inv t"
  show "Add k p t = (t', True) \<Longrightarrow> Get t k = None \<and> Get t' = (Get t)(k \<mapsto> p)"
    by (auto simp: Add_def AddLimited_def Get_def update_conv' fun_eq_iff split: if_splits)
  show "Add k p t = (t', False) \<Longrightarrow> t' = t"
    by (auto simp: Add_def AddLimited_def split: if_splits)
  show "Get (Forget k p t) = (if Get t k = Some p then (Get t)(k := None) else Get t)"
    by (auto simp: Get_def Forget_def delete_conv' fun_eq_iff split: option.splits)
  show "ps_inv (fst (Add k p t))" "ps_inv (Forget k p t)"
    using inv by (auto simp: Add_def intro: inv_step)
qed

lemma Len_AddLimited:
  "Len (fst (AddLimited k p mx s)) = Len s + (if snd (AddLimited k p mx s) then 1 else 0)"
  by (auto simp: AddLimited_def Len_def length_update_new)

definition ps_drained :: "'p peer_set \<Rightarrow> bool" where
  "ps_drained s \<longleftrightarrow> ps_closed s \<and> ps_peers s = []"

lemma ps_drained_Close: "ps_drained (fst (CloseSet s))"
  by (simp add: ps_drained_def CloseSet_def)

lemma ps_drained_do [inv_step]: "ps_drained s \<Longrightarrow> ps_drained (ps_do op s)"
  by (cases op) (auto simp: ps_drained_def AddLimited_def Forget_def CloseSet_def)

lemma dl_do_total:
  "dl_fired (dl_do e d) + dl_stopped (dl_do e d) =
     dl_fired d + dl_stopped d + (if dl_done d then 0 else 1)"
  "dl_done (dl_do e d)"
  by (cases e; auto simp: dl_do_def Expire_def Done_def CompareAndSwap_def Let_def)+

lemma dl_run_done: "dl_done d \<Longrightarrow>
    dl_fired (fold dl_do es d) + dl_stopped (fold dl_do es d) = dl_fired d + dl_stopped d"
  by (induction es arbitrary: d) (simp_all add: dl_do_total)

interpretation cas: one_shot CompareAndSwap dl_done "\<lambda>(n :: nat) d. d\<lparr>dl_fired := n\<rparr>"
  by unfold_locales (auto simp: CompareAndSwap_def)

lemma ps_inv_run: "ps_inv s \<Longrightarrow> ps_inv (fold ps_do ops s)"
  by (induction ops arbitrary: s) (auto intro: ps_inv_do)

lemma ps_drained_run: "ps_drained s \<Longrightarrow> ps_drained (fold ps_do ops s)"
  by (induction ops arbitrary: s) (auto intro: inv_step)

section \<open>Properties\<close>

text \<open>
  A late teardown never evicts its successor: in any state the registry can be in, forgetting a
  peer that no longer owns its client identifier leaves the peer that reused it in place, along with
  every other entry.
\<close>

theorem stale_forget_harmless:
  assumes "s = fold ps_do ops NewSet" "Get s k = Some new" "old \<noteq> new"
  shows "Get (Forget k old s) = Get s"
proof -
  have "ps_inv s"
    using ps_inv_run [of NewSet ops] assms(1) by simp
  then show ?thesis
    using assms(2,3) ps.get_forget [of s k old] by simp
qed

theorem stale_forget_harmless_witness:
  "Get (Forget ''c'' (1 :: nat) (fold ps_do [OpAdd ''c'' 1 0, OpForget ''c'' 1, OpAdd ''c'' 2 0] NewSet)) ''c'' = Some 2"
proof -
  let ?s = "fold ps_do [OpAdd ''c'' (1 :: nat) 0, OpForget ''c'' 1, OpAdd ''c'' 2 0] NewSet"
  have g: "Get ?s ''c'' = Some 2"
    by (simp add: AddLimited_def Forget_def NewSet_def Get_def)
  then show ?thesis
    using stale_forget_harmless [OF HOL.refl g, of 1] by simp
qed

text \<open>
  A closed registry stays empty: once \<^verbatim>\<open>Close\<close> has handed out the live peers, no later
  sequence of calls can leave a peer behind that nobody will tear down.
\<close>

theorem closed_registry_empty:
  "All (fold ps_do ops (fst (CloseSet s))) = [] \<and>
   AddLimited k p mx (fold ps_do ops (fst (CloseSet s))) = (fold ps_do ops (fst (CloseSet s)), False)"
  using ps_drained_run [OF ps_drained_Close, of ops s]
  by (auto simp: ps_drained_def All_def AddLimited_def)

text \<open>
  The handshake deadline has one outcome: over any sequence of timer expiries and calls of
  \<^verbatim>\<open>Done\<close>, exactly one of "the expiry ran" and "the timer was stopped" happens, once, as soon
  as there is any event at all.
\<close>

theorem deadline_one_outcome:
  "dl_fired (fold dl_do es NewDeadline) + dl_stopped (fold dl_do es NewDeadline) = (if es = [] then 0 else 1)"
proof (cases es)
  case (Cons e es')
  have "dl_done (dl_do e NewDeadline)"
    by (rule dl_do_total(2))
  then show ?thesis
    using Cons dl_run_done [of "dl_do e NewDeadline" es'] dl_do_total(1) [of e NewDeadline]
    by (simp add: NewDeadline_def)
qed (simp add: NewDeadline_def)

end
