(* ===== verification/FrameQueue.thy ===== *)
theory FrameQueue
  imports Contracts
begin

text \<open>
  The queue that holds a peer's frames until its session exists
  (\<^verbatim>\<open>internal/framequeue/queue.go\<close>). Each method is the critical section it takes under the
  queue's mutex; what a method does after unlocking is returned as an action. The drain goroutine
  and the single goroutine that calls \<^verbatim>\<open>Enqueue\<close> are program counters, and \<open>fq_do\<close> interleaves
  the critical sections one at a time. \<open>q_owner\<close> is the owner's late-bound state the queue's lock
  also guards, changed by the \<^verbatim>\<open>install\<close> and \<^verbatim>\<open>release\<close> callbacks.
\<close>

section \<open>The queue\<close>

definition DefaultMaxPendingBytes :: int where
  "DefaultMaxPendingBytes = 262144"

record 'o queue =
  q_closed :: bool
  q_conn :: bool
  q_published :: bool
  q_deliver :: bool
  q_dispatching :: bool
  q_pending :: "byte list list"
  q_pendingBytes :: nat
  q_maxBytes :: int
  q_owner :: 'o

definition NewQueue :: "bool \<Rightarrow> int \<Rightarrow> 'o \<Rightarrow> 'o queue" where
  "NewQueue conn maxBytes owner =
     \<lparr>q_closed = False, q_conn = conn, q_published = False, q_deliver = False,
      q_dispatching = False, q_pending = [], q_pendingBytes = 0,
      q_maxBytes = (if maxBytes \<le> 0 then DefaultMaxPendingBytes else maxBytes), q_owner = owner\<rparr>"

definition SetConn :: "bool \<Rightarrow> 'o queue \<Rightarrow> 'o queue" where
  "SetConn conn q = q\<lparr>q_conn := conn\<rparr>"

definition SetDeliver :: "bool \<Rightarrow> 'o queue \<Rightarrow> 'o queue" where
  "SetDeliver d q = q\<lparr>q_deliver := d\<rparr>"

datatype enq_action = EnqDropped | EnqOverflow bool | EnqQueued | EnqDirect "byte list"

definition Enqueue :: "byte list \<Rightarrow> 'o queue \<Rightarrow> 'o queue \<times> enq_action" where
  "Enqueue data q =
     (if q_closed q then (q, EnqDropped)
      else if \<not> q_published q \<or> q_dispatching q then
        (if int (q_pendingBytes q + length data) > q_maxBytes q then (q, EnqOverflow (q_conn q))
         else (q\<lparr>q_pending := q_pending q @ [data],
                 q_pendingBytes := q_pendingBytes q + length data\<rparr>, EnqQueued))
      else (q, EnqDirect data))"

definition takePendingLocked :: "'o queue \<Rightarrow> 'o queue \<times> byte list list" where
  "takePendingLocked q = (q\<lparr>q_pending := [], q_pendingBytes := 0\<rparr>, q_pending q)"

text \<open>
  \<^verbatim>\<open>Publish\<close>: \<open>deliver\<close> says whether the caller passed a target, \<open>install\<close> is its callback. The
  result is the batch the drain goroutine starts with, or \<open>None\<close> for the answer false.
\<close>

definition Publish :: "bool \<Rightarrow> ('o \<Rightarrow> 'o) option \<Rightarrow> 'o queue \<Rightarrow> 'o queue \<times> byte list list option" where
  "Publish deliver install q =
     (if q_closed q then (q, None)
      else
        let q1 = (case install of None \<Rightarrow> q | Some f \<Rightarrow> q\<lparr>q_owner := f (q_owner q)\<rparr>);
            q2 = (if deliver \<and> \<not> q_deliver q1 then q1\<lparr>q_deliver := True\<rparr> else q1);
            q3 = q2\<lparr>q_published := True, q_dispatching := True\<rparr>;
            (q4, batch) = takePendingLocked q3
        in (q4, Some batch))"

text \<open>
  \<^verbatim>\<open>Close\<close>: the owner's \<open>release\<close> runs under the lock and may hand back work for after it. The
  result says whether this call did the work, whether the connection is to be closed, and what
  the owner asked to run afterwards.
\<close>

definition CloseQueue ::
  "('o \<Rightarrow> 'o \<times> 'w option) option \<Rightarrow> 'o queue \<Rightarrow> 'o queue \<times> bool \<times> bool \<times> 'w option" where
  "CloseQueue release q =
     (if q_closed q then (q, False, False, None)
      else
        let q1 = q\<lparr>q_closed := True\<rparr>;
            (o', after) = (case release of None \<Rightarrow> (q_owner q1, None) | Some f \<Rightarrow> f (q_owner q1))
        in (q1\<lparr>q_owner := o', q_pending := [], q_pendingBytes := 0\<rparr>, True, q_conn q1, after))"

definition Draining :: "'o queue \<Rightarrow> bool" where "Draining q = q_dispatching q"
definition IsClosed :: "'o queue \<Rightarrow> bool" where "IsClosed q = q_closed q"

definition Locked :: "(bool \<Rightarrow> 'o \<Rightarrow> 'o) \<Rightarrow> 'o queue \<Rightarrow> 'o queue" where
  "Locked f q = q\<lparr>q_owner := f (q_closed q) (q_owner q)\<rparr>"

section \<open>The drain goroutine and the reader, interleaved\<close>

text \<open>
  \<open>DLoop batch\<close>: about to take the lock for the next frame of the batch, or, when the batch is
  used up, for the next batch. \<open>DSend\<close>: lock dropped, calling the target. \<open>DExit\<close>: returned from
  the loop with the lock dropped, the deferred function that clears \<^verbatim>\<open>dispatching\<close> still to run.
\<close>

datatype drain_pc = DOff | DLoop "byte list list" | DSend "byte list" "byte list list" | DExit

record 'o fq_sys =
  s_q :: "'o queue"
  s_drain :: drain_pc
  s_direct :: "byte list option"
  s_accepted :: "byte list list"
  s_delivered :: "byte list list"
  s_connCloses :: nat
  s_late :: bool

text \<open>One critical section of the drain loop, or one call of the target.\<close>

definition drain_step :: "'o fq_sys \<Rightarrow> 'o fq_sys" where
  "drain_step s = (case s_drain s of
       DOff \<Rightarrow> s
     | DLoop (d # ds) \<Rightarrow>
         if q_closed (s_q s) then s\<lparr>s_drain := DExit\<rparr>
         else if q_deliver (s_q s) then s\<lparr>s_drain := DSend d ds\<rparr>
         else s\<lparr>s_drain := DLoop ds\<rparr>
     | DSend d ds \<Rightarrow> s\<lparr>s_drain := DLoop ds, s_delivered := s_delivered s @ [d]\<rparr>
     | DLoop [] \<Rightarrow>
         if q_closed (s_q s) then s\<lparr>s_drain := DExit\<rparr>
         else (let (q', batch) = takePendingLocked (s_q s)
               in s\<lparr>s_q := q', s_drain := (if batch = [] then DExit else DLoop batch)\<rparr>)
     | DExit \<Rightarrow> s\<lparr>s_drain := DOff, s_q := (s_q s)\<lparr>q_dispatching := False\<rparr>\<rparr>)"

definition enq_step :: "byte list \<Rightarrow> 'o fq_sys \<Rightarrow> 'o fq_sys" where
  "enq_step data s =
     (case Enqueue data (s_q s) of (q', act) \<Rightarrow>
       (case act of
          EnqDropped \<Rightarrow> s
        | EnqOverflow hasConn \<Rightarrow> if hasConn then s\<lparr>s_connCloses := Suc (s_connCloses s)\<rparr> else s
        | EnqQueued \<Rightarrow> s\<lparr>s_q := q', s_accepted := s_accepted s @ [data],
                         s_late := (s_late s \<or> s_drain s = DExit)\<rparr>
        | EnqDirect d \<Rightarrow> s\<lparr>s_direct := Some d, s_accepted := s_accepted s @ [d]\<rparr>))"

datatype fq_event = EvEnqueue "byte list" | EvDirect | EvPublish | EvDrain | EvClose

text \<open>
  The system: the reader enqueues one frame at a time and finishes a direct delivery before the
  next; the owner publishes once, with a delivery target; the drain goroutine runs after that; and
  anyone may close. \<open>None\<close> is an event that is not possible in the state. \<open>s_accepted\<close>,
  \<open>s_delivered\<close> and \<open>s_late\<close> are histories: what \<^verbatim>\<open>Enqueue\<close> took, what the target was
  called with, and whether a frame was queued between the drain loop's last look at the queue and
  the deferred clearing of \<^verbatim>\<open>dispatching\<close>.
\<close>

definition fq_do :: "fq_event \<Rightarrow> 'o fq_sys \<Rightarrow> 'o fq_sys option" where
  "fq_do e s = (case e of
       EvEnqueue data \<Rightarrow> if s_direct s = None then Some (enq_step data s) else None
     | EvDirect \<Rightarrow> (case s_direct s of None \<Rightarrow> None
          | Some d \<Rightarrow> Some (s\<lparr>s_direct := None, s_delivered := s_delivered s @ [d]\<rparr>))
     | EvPublish \<Rightarrow> if q_published (s_q s) then None
         else (case Publish True None (s_q s) of
                 (q', None) \<Rightarrow> None
               | (q', Some batch) \<Rightarrow> Some (s\<lparr>s_q := q', s_drain := DLoop batch\<rparr>))
     | EvDrain \<Rightarrow> if s_drain s = DOff then None else Some (drain_step s)
     | EvClose \<Rightarrow> (case CloseQueue (None :: ('o \<Rightarrow> 'o \<times> unit option) option) (s_q s) of
            (q', did, closeConn, _) \<Rightarrow>
              Some (s\<lparr>s_q := q', s_connCloses := s_connCloses s + (if closeConn then 1 else 0)\<rparr>)))"

definition fq_init :: "bool \<Rightarrow> int \<Rightarrow> 'o \<Rightarrow> 'o fq_sys" where
  "fq_init conn mx owner =
     \<lparr>s_q = NewQueue conn mx owner, s_drain = DOff, s_direct = None, s_accepted = [],
      s_delivered = [], s_connCloses = 0, s_late = False\<rparr>"

fun fq_run :: "fq_event list \<Rightarrow> 'o fq_sys \<Rightarrow> 'o fq_sys option" where
  "fq_run [] s = Some s"
| "fq_run (e # es) s = (case fq_do e s of None \<Rightarrow> None | Some t \<Rightarrow> fq_run es t)"

inductive fq_step :: "'o fq_sys \<Rightarrow> 'o fq_sys \<Rightarrow> bool" where
  enqueue: "s_direct s = None \<Longrightarrow> fq_step s (enq_step data s)"
| direct: "s_direct s = Some d \<Longrightarrow>
     fq_step s (s\<lparr>s_direct := None, s_delivered := s_delivered s @ [d]\<rparr>)"
| publish: "\<not> q_published (s_q s) \<Longrightarrow> Publish True None (s_q s) = (q', Some batch) \<Longrightarrow>
     fq_step s (s\<lparr>s_q := q', s_drain := DLoop batch\<rparr>)"
| drain: "s_drain s \<noteq> DOff \<Longrightarrow> fq_step s (drain_step s)"
| close: "CloseQueue (None :: ('o \<Rightarrow> 'o \<times> unit option) option) (s_q s) = (q', did, cc, w) \<Longrightarrow>
     fq_step s (s\<lparr>s_q := q', s_connCloses := s_connCloses s + (if cc then 1 else 0)\<rparr>)"

inductive fq_steps :: "'o fq_sys \<Rightarrow> 'o fq_sys \<Rightarrow> bool" where
  refl: "fq_steps s s"
| step: "fq_steps s t \<Longrightarrow> fq_step t u \<Longrightarrow> fq_steps s u"

lemma fq_do_step: "fq_do e s = Some t \<Longrightarrow> fq_step s t"
proof (cases e)
  case EvClose
  moreover obtain q' did cc w where
    "CloseQueue (None :: ('a \<Rightarrow> 'a \<times> unit option) option) (s_q s) = (q', did, cc, w)"
    by (metis prod_cases4)
  moreover assume "fq_do e s = Some t"
  ultimately show ?thesis
    using fq_step.close [of s q' did cc w] by (simp add: fq_do_def)
qed (auto simp: fq_do_def intro: fq_step.intros split: if_splits option.splits prod.splits)

lemma fq_steps_trans: "fq_steps t u \<Longrightarrow> fq_steps s t \<Longrightarrow> fq_steps s u"
  by (induction rule: fq_steps.induct) (auto intro: fq_steps.intros)

lemma fq_run_steps: "fq_run es s = Some t \<Longrightarrow> fq_steps s t"
proof (induction es arbitrary: s)
  case Nil
  then show ?case by (simp add: fq_steps.refl)
next
  case (Cons e es)
  then obtain u where "fq_do e s = Some u" "fq_run es u = Some t"
    by (auto split: option.splits)
  with Cons.IH show ?case
    using fq_do_step fq_steps.intros fq_steps_trans by metis
qed

section \<open>Invariants\<close>

lemmas fq_op_defs = Enqueue_def Publish_def takePendingLocked_def CloseQueue_def Let_def

definition fq_bound :: "'o queue \<Rightarrow> bool" where
  "fq_bound q \<longleftrightarrow> q_pendingBytes q = sum_list (map length (q_pending q)) \<and>
     int (q_pendingBytes q) \<le> q_maxBytes q"

fun drain_left :: "drain_pc \<Rightarrow> byte list list" where
  "drain_left DOff = []"
| "drain_left (DLoop ds) = ds"
| "drain_left (DSend d ds) = d # ds"
| "drain_left DExit = []"

text \<open>
  The control invariant ties the program counters to the flags; the order invariant says that,
  unless a frame was queued late, what was accepted is what was delivered, then what the drain
  still holds, then what is pending, then the frame in direct flight.
\<close>

definition fq_ctl :: "'o fq_sys \<Rightarrow> bool" where
  "fq_ctl s \<longleftrightarrow>
     (q_published (s_q s) \<longrightarrow> q_deliver (s_q s)) \<and>
     (q_dispatching (s_q s) \<longleftrightarrow> s_drain s \<noteq> DOff) \<and>
     (s_drain s \<noteq> DOff \<longrightarrow> q_published (s_q s)) \<and>
     (s_direct s \<noteq> None \<longrightarrow> s_drain s = DOff \<and> q_published (s_q s)) \<and>
     (q_closed (s_q s) \<longrightarrow> q_pending (s_q s) = [])"

definition direct_left :: "'o fq_sys \<Rightarrow> byte list list" where
  "direct_left s = (case s_direct s of None \<Rightarrow> [] | Some d \<Rightarrow> [d])"

definition fq_order :: "'o fq_sys \<Rightarrow> bool" where
  "fq_order s \<longleftrightarrow> (\<not> s_late s \<longrightarrow>
     (s_drain s \<in> {DOff, DExit} \<and> q_published (s_q s) \<longrightarrow> q_pending (s_q s) = []) \<and>
     prefix (s_delivered s @ drain_left (s_drain s) @ direct_left s) (s_accepted s) \<and>
     (\<not> q_closed (s_q s) \<longrightarrow>
       s_delivered s @ drain_left (s_drain s) @ q_pending (s_q s) @ direct_left s = s_accepted s))"

definition fq_inv :: "'o fq_sys \<Rightarrow> bool" where
  "fq_inv s \<longleftrightarrow> fq_bound (s_q s) \<and> fq_ctl s \<and> fq_order s"

lemmas fq_inv_defs = fq_inv_def fq_bound_def fq_ctl_def fq_order_def direct_left_def

lemma fq_inv_init: "fq_inv (fq_init conn mx ow)"
  by (simp add: fq_inv_defs fq_init_def NewQueue_def DefaultMaxPendingBytes_def)

lemma fq_inv_enqueue [inv_step]:
  assumes "fq_inv s" "s_direct s = None"
  shows "fq_inv (enq_step data s)"
  using assms
  by (auto simp: fq_inv_defs enq_step_def Enqueue_def prefix_def)

lemma fq_inv_direct [inv_step]:
  assumes "fq_inv s" "s_direct s = Some d"
  shows "fq_inv (s\<lparr>s_direct := None, s_delivered := s_delivered s @ [d]\<rparr>)"
  using assms by (auto simp: fq_inv_defs)

lemma fq_inv_publish [inv_step]:
  assumes "fq_inv s" "\<not> q_published (s_q s)" "Publish True None (s_q s) = (q', Some batch)"
  shows "fq_inv (s\<lparr>s_q := q', s_drain := DLoop batch\<rparr>)"
  using assms
  by (cases "s_drain s") (auto simp: fq_inv_defs fq_op_defs split: if_splits)

lemma fq_inv_drain [inv_step]:
  assumes "fq_inv s" "s_drain s \<noteq> DOff"
  shows "fq_inv (drain_step s)"
proof (cases "s_drain s")
  case (DLoop ds)
  then show ?thesis
    using assms
    by (cases ds) (auto simp: fq_inv_defs drain_step_def fq_op_defs prefix_def)
qed (use assms in \<open>auto simp: fq_inv_defs drain_step_def\<close>)

lemma fq_inv_close [inv_step]:
  assumes "fq_inv s" "CloseQueue (None :: ('o \<Rightarrow> 'o \<times> 'w option) option) (s_q s) = (q', did, cc, w)"
  shows "fq_inv (s\<lparr>s_q := q', s_connCloses := n\<rparr>)"
  using assms by (auto simp: fq_inv_defs fq_op_defs split: if_splits)

lemma fq_step_inv: "fq_step s t \<Longrightarrow> fq_inv s \<Longrightarrow> fq_inv t"
proof (induction rule: fq_step.induct)
  case (close s q' did cc w)
  from close(2,1) show ?case by (rule fq_inv_close)
qed (auto intro: inv_step)

lemma fq_steps_inv: "fq_steps s t \<Longrightarrow> fq_inv s \<Longrightarrow> fq_inv t"
  by (induction rule: fq_steps.induct) (auto intro: fq_step_inv)

section \<open>After teardown, and after a late frame\<close>

definition in_flight :: "'o fq_sys \<Rightarrow> byte list list" where
  "in_flight s = (case s_drain s of DSend d _ \<Rightarrow> [d] | _ \<Rightarrow> []) @ direct_left s"

lemmas fq_step_defs = enq_step_def drain_step_def in_flight_def direct_left_def fq_op_defs

lemma closed_step:
  assumes "fq_step s t" "q_closed (s_q s)"
  shows "q_closed (s_q t)"
    and "\<exists>xs ys. s_delivered t = s_delivered s @ xs \<and> in_flight s = xs @ in_flight t \<or>
      s_delivered t = s_delivered s @ xs \<and> in_flight s = ys @ xs \<and> in_flight t = ys"
proof -
  show "q_closed (s_q t)"
    using assms
    by (cases rule: fq_step.cases)
       (auto simp: fq_step_defs split: drain_pc.splits list.splits if_splits)
  show "\<exists>xs ys. s_delivered t = s_delivered s @ xs \<and> in_flight s = xs @ in_flight t \<or>
      s_delivered t = s_delivered s @ xs \<and> in_flight s = ys @ xs \<and> in_flight t = ys"
    using assms
    by (cases rule: fq_step.cases)
       (auto simp: fq_step_defs split: drain_pc.splits list.splits if_splits option.splits)
qed

lemma closed_steps:
  assumes "fq_steps s t" "q_closed (s_q s)"
  shows "q_closed (s_q t) \<and>
    length (s_delivered t) + length (in_flight t) = length (s_delivered s) + length (in_flight s) \<and>
    set (s_delivered t) \<union> set (in_flight t) = set (s_delivered s) \<union> set (in_flight s) \<and>
    prefix (s_delivered s) (s_delivered t)"
  using assms
proof (induction rule: fq_steps.induct)
  case (refl s)
  then show ?case by simp
next
  case (step s t u)
  then have IH: "q_closed (s_q t)"
    "length (s_delivered t) + length (in_flight t) = length (s_delivered s) + length (in_flight s)"
    "set (s_delivered t) \<union> set (in_flight t) = set (s_delivered s) \<union> set (in_flight s)"
    "prefix (s_delivered s) (s_delivered t)"
    by auto
  note c = closed_step [OF step.hyps(2) IH(1)]
  from c(2) obtain xs ys where xy: "s_delivered u = s_delivered t @ xs \<and> in_flight t = xs @ in_flight u \<or>
      s_delivered u = s_delivered t @ xs \<and> in_flight t = ys @ xs \<and> in_flight u = ys"
    by blast
  then have "length (s_delivered u) + length (in_flight u) = length (s_delivered t) + length (in_flight t)"
    "set (s_delivered u) \<union> set (in_flight u) = set (s_delivered t) \<union> set (in_flight t)"
    "prefix (s_delivered t) (s_delivered u)"
    by (elim disjE conjE; auto)+
  with IH c(1) show ?case by (auto intro: prefix_order.trans)
qed

lemma stuck_step:
  assumes "fq_step s t" "q_published (s_q s)" "s_drain s = DOff" "\<not> q_dispatching (s_q s)"
  shows "q_published (s_q t) \<and> s_drain t = DOff \<and> \<not> q_dispatching (s_q t) \<and>
    (q_closed (s_q t) \<or> q_pending (s_q t) = q_pending (s_q s))"
  using assms
  by (cases rule: fq_step.cases) (auto simp: fq_step_defs split: if_splits)

lemma stuck_steps:
  assumes "fq_steps s t" "q_published (s_q s)" "s_drain s = DOff" "\<not> q_dispatching (s_q s)"
  shows "q_published (s_q t) \<and> s_drain t = DOff \<and> \<not> q_dispatching (s_q t) \<and>
    (q_closed (s_q t) \<or> q_pending (s_q t) = q_pending (s_q s))"
  using assms
proof (induction rule: fq_steps.induct)
  case (refl s)
  then show ?case by simp
next
  case (step s t u)
  then show ?case
    using stuck_step [OF step.hyps(2)] closed_step(1) [OF step.hyps(2)] by (metis (full_types))
qed

interpretation fqc: one_shot
  "\<lambda>q. (case CloseQueue (None :: ('o \<Rightarrow> 'o \<times> unit option) option) q of (q', did, _) \<Rightarrow> (q', did))"
  q_closed
  "\<lambda>e q. (case e of Inl data \<Rightarrow> fst (Enqueue data q) | Inr b \<Rightarrow> fst (Publish b None q))"
  by unfold_locales (auto simp: fq_op_defs split: sum.splits)

section \<open>Properties\<close>

text \<open>The backlog of a peer whose session does not exist yet is bounded: in every reachable
  state the queued bytes are the total size of the queued frames and stay within the cap, whatever
  is sent and however the goroutines interleave.\<close>

theorem backlog_bounded:
  assumes "fq_steps (fq_init conn mx ow) s"
  shows "q_pendingBytes (s_q s) = sum_list (map length (q_pending (s_q s))) \<and>
    int (q_pendingBytes (s_q s)) \<le> q_maxBytes (s_q s)"
  using fq_steps_inv [OF assms fq_inv_init] by (simp add: fq_inv_defs)

theorem backlog_bounded_witness:
  "\<exists>s. fq_steps (fq_init True 4 ()) s \<and> q_pending (s_q s) = [[1, 2, 3]] \<and>
     int (q_pendingBytes (s_q s)) \<le> q_maxBytes (s_q s)"
proof -
  let ?s = "enq_step [4, 5] (enq_step [1, 2, 3] (fq_init True 4 ()))"
  have "fq_run [EvEnqueue [1, 2, 3], EvEnqueue [4, 5]] (fq_init True 4 ()) = Some ?s"
    by (simp add: fq_do_def enq_step_def fq_init_def NewQueue_def Enqueue_def)
  then have st: "fq_steps (fq_init True 4 ()) ?s" by (rule fq_run_steps)
  moreover have "q_pending (s_q ?s) = [[1, 2, 3]]"
    by (simp add: enq_step_def fq_init_def NewQueue_def Enqueue_def)
  ultimately show ?thesis
    using backlog_bounded [OF st] by blast
qed

text \<open>C10. Delivery is in order and without loss or repetition, as long as no frame is queued in the
  window between the drain loop's last look at the queue and the deferred clearing of
  \<^verbatim>\<open>dispatching\<close>: what the session has been handed is always a prefix of what arrived, and once
  the drain is over and the connection is still open it is everything that arrived.\<close>

theorem delivery_fifo:
  assumes "fq_steps (fq_init conn mx ow) s" "\<not> s_late s"
  shows "prefix (s_delivered s) (s_accepted s) \<and>
    (q_published (s_q s) \<and> s_drain s = DOff \<and> s_direct s = None \<and> \<not> q_closed (s_q s) \<longrightarrow>
       s_delivered s = s_accepted s)"
  using fq_steps_inv [OF assms(1) fq_inv_init] assms(2)
  by (auto simp: fq_inv_defs intro: append_prefixD)

theorem delivery_fifo_witness:
  "\<exists>s. fq_steps (fq_init True 0 ()) s \<and> \<not> s_late s \<and> s_accepted s = [[7], [8], [9]] \<and>
     s_delivered s = s_accepted s"
proof -
  define es where "es = [EvEnqueue [7], EvPublish, EvEnqueue [8], EvDrain, EvDrain, EvDrain, EvDrain,
     EvDrain, EvDrain, EvDrain, EvEnqueue [9], EvDirect]"
  obtain s where s: "fq_run es (fq_init True 0 ()) = Some s" "\<not> s_late s" "q_published (s_q s)"
    "s_drain s = DOff" "s_direct s = None" "\<not> q_closed (s_q s)" "s_accepted s = [[7], [8], [9]]"
    by (simp add: es_def fq_do_def fq_step_defs fq_init_def NewQueue_def DefaultMaxPendingBytes_def)
  have st: "fq_steps (fq_init True 0 ()) s"
    using s(1) by (rule fq_run_steps)
  have "s_delivered s = s_accepted s"
    using delivery_fifo [OF st s(2)] s(3-6) by simp
  with st s(2,7) show ?thesis by blast
qed

text \<open>Teardown stops delivery: once the queue is closed, at most one more frame reaches the
  session, and only one that a goroutine had already taken off the queue; the backlog never
  follows.\<close>

theorem close_stops_delivery:
  assumes "fq_steps (fq_init conn mx ow) s" "q_closed (s_q s)" "fq_steps s t"
  shows "q_closed (s_q t) \<and> prefix (s_delivered s) (s_delivered t) \<and>
    length (s_delivered t) \<le> length (s_delivered s) + 1 \<and>
    set (s_delivered t) \<subseteq> set (s_delivered s) \<union> set (in_flight s)"
proof -
  have "fq_ctl s"
    using fq_steps_inv [OF assms(1) fq_inv_init] by (simp add: fq_inv_def)
  then have "length (in_flight s) \<le> 1"
    by (auto simp: fq_ctl_def in_flight_def direct_left_def split: drain_pc.splits option.splits)
  then show ?thesis
    using closed_steps [OF assms(3,2)] by auto
qed

theorem close_stops_delivery_witness:
  "\<exists>s t. fq_steps (fq_init True 0 ()) s \<and> q_closed (s_q s) \<and> s_delivered s = [] \<and>
     fq_steps s t \<and> s_delivered t = [[7]] \<and> length (s_delivered t) \<le> length (s_delivered s) + 1"
proof -
  define es where "es = [EvEnqueue [7], EvEnqueue [8], EvPublish, EvDrain, EvClose]"
  obtain s where s: "fq_run es (fq_init True 0 ()) = Some s" "q_closed (s_q s)" "s_delivered s = []"
    and s': "s_drain s = DSend [7] [[8]]"
    by (simp add: es_def fq_do_def fq_step_defs fq_init_def NewQueue_def DefaultMaxPendingBytes_def)
  have 1: "fq_steps (fq_init True 0 ()) s" using s(1) by (rule fq_run_steps)
  have "fq_run [EvDrain] s = Some (drain_step s)" "s_delivered (drain_step s) = [[7]]"
    using s s' by (simp_all add: fq_do_def drain_step_def)
  then have 2: "fq_steps s (drain_step s)" "s_delivered (drain_step s) = [[7]]"
    using fq_run_steps by blast+
  show ?thesis
    using 1 2 s close_stops_delivery [OF 1 s(2) 2(1)] by blast
qed

text \<open>C24. The window is real: a frame queued between the drain loop's last look and the deferred
  clearing of \<^verbatim>\<open>dispatching\<close> is stranded. A reachable, open, published state holds it in the
  queue while a later frame has already been delivered, and in every continuation it is still
  there until the queue is closed, so it is never delivered.\<close>

theorem late_frame_stranded:
  "\<exists>s. fq_steps (fq_init True 0 ()) s \<and> \<not> q_closed (s_q s) \<and> s_accepted s = [[1], [2]] \<and>
     s_delivered s = [[2]] \<and> q_pending (s_q s) = [[1]] \<and>
     (\<forall>t. fq_steps s t \<longrightarrow> q_closed (s_q t) \<or> q_pending (s_q t) = [[1]])"
proof -
  define es where "es = [EvPublish, EvDrain, EvEnqueue [1], EvDrain, EvEnqueue [2], EvDirect]"
  obtain s where s: "fq_run es (fq_init True 0 ()) = Some s" "\<not> q_closed (s_q s)"
    "s_accepted s = [[1], [2]]" "s_delivered s = [[2]]" "q_pending (s_q s) = [[1]]"
    "q_published (s_q s)" "s_drain s = DOff" "\<not> q_dispatching (s_q s)"
    by (simp add: es_def fq_do_def fq_step_defs fq_init_def NewQueue_def DefaultMaxPendingBytes_def)
  have "q_closed (s_q t) \<or> q_pending (s_q t) = [[1]]" if "fq_steps s t" for t
    using stuck_steps [OF that] s by auto
  with s show ?thesis
    using fq_run_steps [OF s(1)] by blast
qed

theorem late_frame_stranded_witness:
  "\<exists>s. fq_steps (fq_init True 0 ()) s \<and> \<not> q_closed (s_q s) \<and> s_delivered s = [[2]] \<and> q_pending (s_q s) = [[1]]"
  using late_frame_stranded by blast

end
