(* ===== verification/Allowlist.thy ===== *)
theory Allowlist
  imports BB_Prelude
begin

text \<open>
  \<^verbatim>\<open>internal/allowlist/allowlist.go\<close>: which \<^verbatim>\<open>host:port\<close> targets a listener reaches on a
  requester's behalf. A list is a list of entries, an entry with port 0 stands for every port, and
  the empty list permits everything. Matching is on the target as written; hosts are compared after
  \<open>normalizeHost\<close>.
\<close>

section \<open>Definitions\<close>

datatype target_error = EmptyTarget | InvalidTarget string | InvalidPort string | NoHost string

record entry =
  e_host :: string
  e_port :: int

type_synonym allow_list = "entry list"

definition normalizeHost :: "string \<Rightarrow> string" where
  "normalizeHost h =
     ToLower (TrimSuffix (trim_by (\<lambda>c. c = CHR ''['' \<or> c = CHR '']'') (TrimSpace h)) ''.'')"

definition parseEntry :: "string \<Rightarrow> (target_error, entry) go_result" where
  "parseEntry spec0 =
     (let spec = TrimSpace spec0 in
      if spec = [] then Err EmptyTarget
      else case SplitHostPort spec of
        None \<Rightarrow>
          if contains_byte spec (CHR '':'') \<and> \<not> prefix ''['' spec then Err (InvalidTarget spec)
          else Ok \<lparr>e_host = normalizeHost spec, e_port = 0\<rparr>
      | Some (host, portStr) \<Rightarrow>
          (case Atoi portStr of
             None \<Rightarrow> Err (InvalidPort spec)
           | Some port \<Rightarrow>
               if port < 1 \<or> port > 65535 then Err (InvalidPort spec)
               else if host = [] then Err (NoHost spec)
               else Ok \<lparr>e_host = normalizeHost host, e_port = port\<rparr>))"

fun Parse :: "string list \<Rightarrow> (target_error, allow_list) go_result" where
  "Parse [] = Ok []"
| "Parse (spec # specs) =
     (case parseEntry spec of
        Inl e \<Rightarrow> Err e
      | Inr e \<Rightarrow> (case Parse specs of Inl x \<Rightarrow> Err x | Inr l \<Rightarrow> Ok (e # l)))"

definition Empty :: "allow_list \<Rightarrow> bool" where
  "Empty l \<longleftrightarrow> length l = 0"

fun permits_loop :: "allow_list \<Rightarrow> string \<Rightarrow> int \<Rightarrow> bool" where
  "permits_loop [] h port = False"
| "permits_loop (e # l) h port =
     (if e_host e \<noteq> h then permits_loop l h port
      else if e_port e = 0 \<or> e_port e = port then True
      else permits_loop l h port)"

definition Permits :: "allow_list \<Rightarrow> string \<Rightarrow> int \<Rightarrow> bool" where
  "Permits l host port = (if Empty l then True else permits_loop l (normalizeHost host) port)"

definition PermitsTarget :: "allow_list \<Rightarrow> string \<Rightarrow> bool" where
  "PermitsTarget l target =
     (if Empty l then True
      else case SplitHostPort target of
        None \<Rightarrow> Permits l target 0
      | Some (host, portStr) \<Rightarrow>
          (case Atoi portStr of None \<Rightarrow> False | Some port \<Rightarrow> Permits l host port))"

definition entryString :: "entry \<Rightarrow> string" where
  "entryString e =
     (let host = (if contains_byte (e_host e) (CHR '':'') then ''['' @ e_host e @ '']'' else e_host e)
      in if e_port e = 0 then host @ '':*'' else host @ '':'' @ Itoa (e_port e))"

definition ListString :: "allow_list \<Rightarrow> string" where
  "ListString l = (if Empty l then [] else Join (map entryString l) '', '')"

section \<open>Entries\<close>

definition covers :: "entry \<Rightarrow> string \<Rightarrow> int \<Rightarrow> bool" where
  "covers e host port \<longleftrightarrow> e_host e = normalizeHost host \<and> (e_port e = 0 \<or> e_port e = port)"

lemma permits_loop_iff: "permits_loop l h port \<longleftrightarrow> (\<exists>e \<in> set l. e_host e = h \<and> (e_port e = 0 \<or> e_port e = port))"
  by (induction l) auto

lemma Permits_iff: "Permits l host port \<longleftrightarrow> l = [] \<or> (\<exists>e \<in> set l. covers e host port)"
  by (auto simp: Permits_def Empty_def permits_loop_iff covers_def)

lemma parseEntry_port: "parseEntry s = Ok e \<Longrightarrow> 0 \<le> e_port e \<and> e_port e \<le> 65535"
  by (auto simp: parseEntry_def Let_def split: if_splits option.splits)

lemma Parse_Ok_iff:
  "Parse specs = Ok l \<longleftrightarrow> list_all2 (\<lambda>s e. parseEntry s = Ok e) specs l"
proof (induction specs arbitrary: l)
  case (Cons s specs)
  have "Parse (s # specs) = Ok l \<longleftrightarrow> (\<exists>e m. parseEntry s = Ok e \<and> Parse specs = Ok m \<and> l = e # m)"
    by (auto split: sum.splits)
  then show ?case
    by (auto simp: list_all2_Cons1 Cons.IH)
qed auto

lemma Parse_length: "Parse specs = Ok l \<Longrightarrow> length l = length specs"
  by (auto simp: Parse_Ok_iff dest: list_all2_lengthD)

lemma Parse_entry:
  assumes "Parse specs = Ok l" "e \<in> set l"
  obtains s where "s \<in> set specs" "parseEntry s = Ok e"
  using list_all2_pick2 [of "\<lambda>s e. parseEntry s = Ok e" specs l] assms
  by (auto simp: Parse_Ok_iff)

lemma Parse_entry_back:
  assumes "Parse specs = Ok l" "s \<in> set specs"
  shows "\<exists>e \<in> set l. parseEntry s = Ok e"
  using list_all2_pick1 [of "\<lambda>s e. parseEntry s = Ok e" specs l] assms
  by (auto simp: Parse_Ok_iff)

lemma Parse_Err_iff: "(\<exists>x. Parse specs = Err x) \<longleftrightarrow> (\<exists>s \<in> set specs. \<exists>x. parseEntry s = Err x)"
  by (induction specs) (auto split: sum.splits)

section \<open>A permitted target reaches nothing new\<close>

definition trimmed :: "string \<Rightarrow> bool" where
  "trimmed s \<longleftrightarrow> TrimSpace s = s"

lemma trimmed_TrimSpace [simp]: "trimmed (TrimSpace s)"
  by (simp add: trimmed_def)

lemma permitted_entry_covered:
  assumes "PermitsTarget l t" "parseEntry t = Ok e" "trimmed t" "covers e host port"
  shows "Permits l host port"
proof (cases "l = []")
  case False
  show ?thesis
  proof (cases "SplitHostPort t")
    case None
    with assms False show ?thesis
      by (force simp: PermitsTarget_def parseEntry_def Permits_iff covers_def Empty_def trimmed_def Let_def
          split: if_splits)
  next
    case (Some hp)
    then obtain h p where hp: "SplitHostPort t = Some (h, p)" by (cases hp) auto
    with assms False obtain n where n: "Atoi p = Some n" "Permits l h n"
      by (auto simp: PermitsTarget_def Empty_def split: option.splits)
    with hp assms have "e = \<lparr>e_host = normalizeHost h, e_port = n\<rparr>" "n \<ge> 1"
      by (auto simp: parseEntry_def trimmed_def Let_def split: if_splits)
    with n assms(4) False show ?thesis
      by (auto simp: Permits_iff covers_def)
  qed
qed (simp add: Permits_iff)

lemma permitted_list_covered:
  assumes "\<forall>t \<in> set ts. PermitsTarget l t \<and> trimmed t" "Parse ts = Ok m" "m \<noteq> []" "Permits m host port"
  shows "Permits l host port"
proof -
  obtain e where e: "e \<in> set m" "covers e host port"
    using assms(3,4) by (auto simp: Permits_iff)
  obtain t where "t \<in> set ts" "parseEntry t = Ok e"
    using Parse_entry [OF assms(2) e(1)] .
  with assms(1) e(2) show ?thesis
    using permitted_entry_covered by blast
qed

section \<open>What a spec names\<close>

text \<open>
  The targets a spec stands for, and which specs are well formed, said without \<^verbatim>\<open>parseEntry\<close>: a spec that
  Go splits into host and port names that port, between 1 and 65535, of that host; one that it does not
  split names every port, and holds no colon unless it begins with a bracket.
\<close>

definition well_spec :: "string \<Rightarrow> bool" where
  "well_spec s \<longleftrightarrow>
     (let t = TrimSpace s in
      case SplitHostPort t of
        Some (h, p) \<Rightarrow> h \<noteq> [] \<and> (case Atoi p of None \<Rightarrow> False | Some n \<Rightarrow> 1 \<le> n \<and> n \<le> 65535)
      | None \<Rightarrow> t \<noteq> [] \<and> (prefix ''['' t \<or> CHR '':'' \<notin> set t))"

definition names_target :: "string \<Rightarrow> string \<Rightarrow> int \<Rightarrow> bool" where
  "names_target s host port \<longleftrightarrow>
     (let t = TrimSpace s in
      case SplitHostPort t of
        Some (h, p) \<Rightarrow> normalizeHost h = normalizeHost host \<and> Atoi p = Some port
      | None \<Rightarrow> normalizeHost t = normalizeHost host)"

lemma parseEntry_names:
  "(\<exists>e. parseEntry s = Ok e) \<longleftrightarrow> well_spec s"
  "parseEntry s = Ok e \<Longrightarrow> covers e host port \<longleftrightarrow> names_target s host port"
proof -
  show "(\<exists>e. parseEntry s = Ok e) \<longleftrightarrow> well_spec s"
  proof (cases "SplitHostPort (TrimSpace s)")
    case None
    then show ?thesis
      by (auto simp: parseEntry_def well_spec_def Let_def)
  next
    case (Some hp)
    then obtain h p where hp: "SplitHostPort (TrimSpace s) = Some (h, p)" by (cases hp) auto
    then have "TrimSpace s \<noteq> []" by (auto simp: SplitHostPort_def LastIndexByte_def)
    with hp show ?thesis
      by (auto simp: parseEntry_def well_spec_def Let_def split: option.splits)
  qed
  show "covers e host port \<longleftrightarrow> names_target s host port" if "parseEntry s = Ok e"
    using that by (auto simp: parseEntry_def names_target_def covers_def Let_def split: option.splits if_splits)
qed

text \<open>On the two common spellings, a host name alone and with a port in decimal, this reads as expected.\<close>

definition plain_host :: "string \<Rightarrow> bool" where
  "plain_host h \<longleftrightarrow> h \<noteq> [] \<and> list_all (\<lambda>c. \<not> go_space c \<and> c \<noteq> CHR '':'' \<and> c \<noteq> CHR ''['' \<and> c \<noteq> CHR '']'') h"

lemma dropWhile_no: "list_all (\<lambda>c. \<not> P c) xs \<Longrightarrow> dropWhile P xs = xs"
  by (cases xs) simp_all

lemma TrimSpace_solid: "list_all (\<lambda>c. \<not> go_space c) s \<Longrightarrow> TrimSpace s = s"
  by (simp add: TrimSpace_def trim_by_def dropWhile_no list.pred_set)

lemma split_plain:
  assumes "plain_host h" "CHR '':'' \<notin> set p" "CHR ''['' \<notin> set p" "CHR '']'' \<notin> set p"
  shows "SplitHostPort (h @ CHR '':'' # p) = Some (h, p)" "SplitHostPort h = None"
proof -
  have h: "CHR '':'' \<notin> set h" "CHR ''['' \<notin> set h" "CHR '']'' \<notin> set h" "h \<noteq> []"
    using assms(1) by (auto simp: plain_host_def list_all_iff)
  have "IndexByte (rev p @ CHR '':'' # rev h) (CHR '':'') = Some (length p)"
    using assms(2) by (induction p rule: rev_induct) auto
  then have l: "LastIndexByte (h @ CHR '':'' # p) (CHR '':'') = Some (length h)"
    by (simp add: LastIndexByte_def)
  have "(h @ CHR '':'' # p) ! 0 \<noteq> CHR ''[''"
    using h(2,4) by (cases h) auto
  then show "SplitHostPort (h @ CHR '':'' # p) = Some (h, p)"
    unfolding SplitHostPort_def l option.case using h assms(2-4) by simp
  show "SplitHostPort h = None"
    unfolding SplitHostPort_def LastIndexByte_None [THEN iffD2, OF h(1)] by simp
qed

lemma plain_specs:
  assumes "plain_host h" "1 \<le> n" "n \<le> 65535"
  shows "names_target h host port \<longleftrightarrow> normalizeHost h = normalizeHost host"
    "names_target (h @ CHR '':'' # Itoa n) host port \<longleftrightarrow> normalizeHost h = normalizeHost host \<and> port = n"
proof -
  have digits: "is_digit c \<and> \<not> go_space c" if "c \<in> set (Itoa n)" for c
    using that nat_digits_digits [of "nat n"] assms(2)
    by (auto simp: Itoa_def list_all_iff is_digit_def go_space_def)
  moreover have "\<not> is_digit (CHR '':'')" "\<not> is_digit (CHR ''['')" "\<not> is_digit (CHR '']'')"
    by code_simp+
  ultimately have "CHR '':'' \<notin> set (Itoa n)" "CHR ''['' \<notin> set (Itoa n)" "CHR '']'' \<notin> set (Itoa n)"
    by blast+
  note split = split_plain [OF assms(1) this]
  have "\<not> go_space (CHR '':'')" by code_simp
  then have "TrimSpace h = h" "TrimSpace (h @ CHR '':'' # Itoa n) = h @ CHR '':'' # Itoa n"
    using assms(1) digits by (intro TrimSpace_solid; auto simp: plain_host_def list_all_iff)+
  then show "names_target h host port \<longleftrightarrow> normalizeHost h = normalizeHost host"
    "names_target (h @ CHR '':'' # Itoa n) host port \<longleftrightarrow> normalizeHost h = normalizeHost host \<and> port = n"
    using split assms by (auto simp: names_target_def Atoi_Itoa)
qed

section \<open>Properties\<close>



end
