(* ===== verification/FilePath.thy ===== *)
theory FilePath
  imports BB_Prelude
begin

text \<open>
  The functions of Go's \<^verbatim>\<open>path/filepath\<close> the sources call, for a system whose separator is the
  slash: \<^verbatim>\<open>Clean\<close>, \<^verbatim>\<open>Join\<close>, \<^verbatim>\<open>Abs\<close>, \<^verbatim>\<open>Rel\<close>, \<^verbatim>\<open>Base\<close> and \<^verbatim>\<open>Dir\<close>. A path is a
  string; \<open>norm_comps\<close> computes the components \<^verbatim>\<open>Clean\<close> leaves. The working directory
  \<^verbatim>\<open>Abs\<close> resolves against is an argument.
\<close>

section \<open>Definitions\<close>

abbreviation slash :: char where "slash \<equiv> CHR ''/''"

definition IsAbs :: "string \<Rightarrow> bool" where
  "IsAbs s \<longleftrightarrow> prefix ''/'' s"

definition comps :: "string \<Rightarrow> string list" where
  "comps s = filter (\<lambda>c. c \<noteq> [] \<and> c \<noteq> ''.'') (Split s slash)"

fun norm_comps :: "bool \<Rightarrow> string list \<Rightarrow> string list \<Rightarrow> string list" where
  "norm_comps r acc [] = rev acc"
| "norm_comps r acc (c # cs) =
     (if c = ''..'' then
        (case acc of
           [] \<Rightarrow> if r then norm_comps r [] cs else norm_comps r [''..''] cs
         | a # as \<Rightarrow> if a = ''..'' then norm_comps r (''..'' # acc) cs else norm_comps r as cs)
      else norm_comps r (c # acc) cs)"

definition path_of :: "bool \<Rightarrow> string list \<Rightarrow> string" where
  "path_of r cs = (if r then ''/'' @ Join cs ''/'' else if cs = [] then ''.'' else Join cs ''/'')"

definition clean_comps :: "string \<Rightarrow> string list" where
  "clean_comps s = norm_comps (IsAbs s) [] (comps s)"

definition Clean :: "string \<Rightarrow> string" where
  "Clean s = path_of (IsAbs s) (clean_comps s)"

fun JoinPath :: "string list \<Rightarrow> string" where
  "JoinPath [] = []"
| "JoinPath (e # es) = (if e \<noteq> [] then Clean (Join (e # es) ''/'') else JoinPath es)"

definition Abs :: "string \<Rightarrow> string \<Rightarrow> string" where
  "Abs cwd s = (if IsAbs s then Clean s else JoinPath [cwd, s])"

fun strip_common :: "'a list \<Rightarrow> 'a list \<Rightarrow> 'a list \<times> 'a list" where
  "strip_common (x # xs) (y # ys) = (if x = y then strip_common xs ys else (x # xs, y # ys))"
| "strip_common xs ys = (xs, ys)"

definition Rel :: "string \<Rightarrow> string \<Rightarrow> string option" where
  "Rel base targ =
     (if IsAbs base \<noteq> IsAbs targ then None
      else
        let (b, t) = strip_common (clean_comps base) (clean_comps targ)
        in if b \<noteq> [] \<and> hd b = ''..'' then None
           else if b = [] \<and> t = [] then Some ''.''
           else Some (Join (map (\<lambda>_. ''..'') b @ t) ''/''))"

text \<open>\<^verbatim>\<open>Base\<close> and \<^verbatim>\<open>Dir\<close> of a cleaned absolute path, the only paths they are given.\<close>

definition Base :: "string \<Rightarrow> string" where
  "Base s = (let cs = clean_comps s in if s = [] then ''.'' else if cs = [] then ''/'' else last cs)"

definition Dir :: "string \<Rightarrow> string" where
  "Dir s = path_of (IsAbs s) (butlast (clean_comps s))"

section \<open>Normalised components\<close>

definition good_comp :: "string \<Rightarrow> bool" where
  "good_comp c \<longleftrightarrow> c \<noteq> [] \<and> c \<noteq> ''.'' \<and> c \<noteq> ''..'' \<and> slash \<notin> set c"

lemma comps_good: "c \<in> set (comps s) \<Longrightarrow> c \<noteq> [] \<and> c \<noteq> ''.'' \<and> slash \<notin> set c"
  by (auto simp: comps_def dest: Split_pieces_clean)

lemma norm_comps_good:
  "\<lbrakk>\<forall>c \<in> set acc. good_comp c; \<forall>c \<in> set cs. c = ''..'' \<or> good_comp c\<rbrakk> \<Longrightarrow>
   \<forall>c \<in> set (norm_comps True acc cs). good_comp c"
proof (induction cs arbitrary: acc)
  case Nil
  then show ?case by simp
next
  case (Cons c cs)
  note IH = Cons.IH and prems = Cons.prems
  have cs: "\<forall>c \<in> set cs. c = ''..'' \<or> good_comp c" using prems(2) by simp
  show ?case
  proof (cases "c = ''..''")
    case True
    show ?thesis
    proof (cases acc)
      case Nil
      with True IH [of "[]"] cs show ?thesis by simp
    next
      case (Cons a as)
      then have "a \<noteq> ''..''" and as: "\<forall>c \<in> set as. good_comp c"
        using prems(1) by (auto simp: good_comp_def)
      with True Cons have "norm_comps True acc (c # cs) = norm_comps True as cs" by simp
      then show ?thesis
        using IH [OF as cs] by (simp only:)
    qed
  next
    case False
    then have "norm_comps True acc (c # cs) = norm_comps True (c # acc) cs" by simp
    moreover have "\<forall>x \<in> set (c # acc). good_comp x" using prems False by auto
    ultimately show ?thesis
      using IH [OF _ cs] by (simp only:)
  qed
qed

lemma clean_comps_good: "IsAbs s \<Longrightarrow> c \<in> set (clean_comps s) \<Longrightarrow> good_comp c"
  using norm_comps_good [of "[]" "comps s"] comps_good
  by (auto simp: clean_comps_def good_comp_def)

lemma norm_comps_id:
  "\<forall>c \<in> set cs. c \<noteq> ''..'' \<Longrightarrow> norm_comps r acc cs = rev acc @ cs"
  by (induction cs arbitrary: acc) auto

lemma Split_slash_Join:
  assumes "\<forall>c \<in> set cs. good_comp c"
  shows "comps (''/'' @ Join cs ''/'') = cs" "comps (Join cs ''/'') = cs"
proof -
  have eq: "filter (\<lambda>c. c \<noteq> [] \<and> c \<noteq> ''.'') (Split (Join cs ''/'') slash) = cs"
  proof (cases "cs = []")
    case False
    then have "Split (Join cs ''/'') slash = cs"
      using assms by (intro Split_Join) (auto simp: good_comp_def)
    then show ?thesis
      using assms by (auto simp: good_comp_def intro: filter_True)
  qed simp
  then show "comps (''/'' @ Join cs ''/'') = cs" "comps (Join cs ''/'') = cs"
    by (simp_all add: comps_def)
qed

lemma clean_comps_path_of [simp]:
  assumes "\<forall>c \<in> set cs. good_comp c"
  shows "clean_comps (path_of True cs) = cs" "IsAbs (path_of True cs)"
  using assms norm_comps_id [of cs True "[]"]
  by (auto simp: clean_comps_def path_of_def IsAbs_def Split_slash_Join [simplified] good_comp_def)

lemma IsAbs_Clean [simp]: "IsAbs s \<Longrightarrow> IsAbs (Clean s)"
  by (simp add: Clean_def path_of_def IsAbs_def)

lemma clean_comps_Clean [simp]: "IsAbs s \<Longrightarrow> clean_comps (Clean s) = clean_comps s"
  using clean_comps_good by (simp add: Clean_def)

lemma Clean_Clean [simp]: "IsAbs s \<Longrightarrow> Clean (Clean s) = Clean s"
  by (simp add: Clean_def [of "Clean s"]) (simp add: Clean_def)

lemma IsAbs_Abs [simp]:
  assumes "IsAbs cwd"
  shows "IsAbs (Abs cwd s)"
proof (cases "IsAbs s")
  case False
  from assms have "cwd \<noteq> []" by (auto simp: IsAbs_def)
  moreover have "IsAbs (Join [cwd, s] ''/'')"
    using assms by (auto simp: IsAbs_def prefix_def)
  ultimately show ?thesis
    using False by (simp add: Abs_def)
qed (simp add: Abs_def)

lemma Clean_Abs [simp]: "IsAbs cwd \<Longrightarrow> Clean (Abs cwd s) = Abs cwd s"
  by (auto simp: Abs_def IsAbs_def prefix_def)

section \<open>Containment\<close>

lemma strip_common_prefix: "fst (strip_common b t) = [] \<longleftrightarrow> prefix b t"
  by (induction b t rule: strip_common.induct) auto

lemma strip_common_rest: "strip_common b (b @ t) = ([], t)"
  by (induction b) auto

lemma strip_common_subset:
  "set (fst (strip_common b t)) \<subseteq> set b" "set (snd (strip_common b t)) \<subseteq> set t"
  by (induction b t rule: strip_common.induct) auto

lemma Join_dotdot:
  "xs \<noteq> [] \<Longrightarrow> Join (''..'' # xs) ''/'' = ''../'' @ Join xs ''/''"
  by (cases xs) auto

lemma Join_head:
  assumes "good_comp c"
  shows "Join (c # cs) ''/'' \<noteq> ''..'' \<and> \<not> prefix ''../'' (Join (c # cs) ''/'')"
proof -
  have sl: "slash \<notin> set c" and nd: "c \<noteq> ''..''" using assms by (auto simp: good_comp_def)
  obtain r where r: "Join (c # cs) ''/'' = c @ r" "r = [] \<or> hd r = slash"
    by (cases cs) auto
  have "c @ r \<noteq> ''..''"
    using nd r(2) sl by (cases c; cases "tl c"; cases r; auto)
  moreover have "\<not> prefix ''../'' (c @ r)"
  proof
    assume "prefix ''../'' (c @ r)"
    then obtain z where "c @ r = ''../'' @ z" by (auto simp: prefix_def)
    then have "Split (c @ r) slash = ''..'' # Split z slash" by simp
    moreover have "hd (Split (c @ r) slash) = c"
      using sl r(2) by (cases r) (auto simp: Split_clean Split_append)
    ultimately show False using nd by simp
  qed
  ultimately show ?thesis using r(1) by simp
qed

text \<open>
  For absolute paths, the relative path stays down exactly when the base's components are a prefix
  of the target's.
\<close>

lemma Rel_down:
  assumes "IsAbs base" "IsAbs targ"
  shows "\<exists>rel. Rel base targ = Some rel \<and>
    ((rel \<noteq> ''..'' \<and> \<not> prefix ''../'' rel) \<longleftrightarrow> prefix (clean_comps base) (clean_comps targ))"
proof -
  obtain b t where bt: "strip_common (clean_comps base) (clean_comps targ) = (b, t)"
    by (cases "strip_common (clean_comps base) (clean_comps targ)") auto
  have pre: "b = [] \<longleftrightarrow> prefix (clean_comps base) (clean_comps targ)"
    using strip_common_prefix bt by (metis fst_conv)
  have gb: "\<forall>c \<in> set b. good_comp c" and gt: "\<forall>c \<in> set t. good_comp c"
    using strip_common_subset [of "clean_comps base" "clean_comps targ"] bt assms clean_comps_good
    by fastforce+
  have nd: "\<not> (b \<noteq> [] \<and> hd b = ''..'')"
    using gb by (cases b) (auto simp: good_comp_def)
  show ?thesis
  proof (cases b)
    case Nil
    show ?thesis
    proof (cases t)
      case Nil
      with \<open>b = []\<close> show ?thesis using bt pre assms by (simp add: Rel_def)
    next
      case (Cons c cs)
      with \<open>b = []\<close> gt Join_head [of c cs] bt pre assms show ?thesis by (auto simp: Rel_def)
    qed
  next
    case (Cons x xs)
    then have "Rel base targ = Some (Join (''..'' # map (\<lambda>_. ''..'') xs @ t) ''/'')"
      using bt nd assms by (simp add: Rel_def)
    moreover have "Join (''..'' # map (\<lambda>_. ''..'') xs @ t) ''/'' = ''..'' \<or>
        prefix ''../'' (Join (''..'' # map (\<lambda>_. ''..'') xs @ t) ''/'')"
      by (cases "map (\<lambda>_. ''..'') xs @ t = []") (auto simp: Join_dotdot simp del: map_is_Nil_conv append_is_Nil_conv)
    ultimately show ?thesis
      using Cons pre by auto
  qed
qed

lemma Rel_below:
  assumes "IsAbs base" "IsAbs targ" "clean_comps targ = clean_comps base @ t"
  shows "Rel base targ = Some (if t = [] then ''.'' else Join t ''/'')"
  using assms by (simp add: Rel_def strip_common_rest)

end
