(* ===== verification/Grant.thy ===== *)
theory Grant
  imports Allowlist FilePath Contracts
begin

text \<open>
  \<^verbatim>\<open>internal/grant/grant.go\<close> with the two places that consume a parsed grant,
  \<^verbatim>\<open>applySpec\<close> of \<^verbatim>\<open>cmd/bitbang/serve_words.go\<close> and \<^verbatim>\<open>allowOf\<close> of
  \<^verbatim>\<open>cmd/bitbang/capability.go\<close>: the one vocabulary in which a listener says what it offers and a
  link says which part of it a holder gets, its parser and printer, and narrowing. A map
  \<^verbatim>\<open>map[string]bool\<close> that only ever holds \<^verbatim>\<open>true\<close> is the set of its keys, and \<open>None\<close>
  is the nil map. Strings are the bytes of valid UTF-8, on which a rune loop that writes every rune
  back is the loop over bytes.
\<close>

section \<open>The vocabulary\<close>

abbreviation ScopeFiles :: string where "ScopeFiles \<equiv> ''files''"
abbreviation ScopeShell :: string where "ScopeShell \<equiv> ''shell''"
abbreviation ScopeForward :: string where "ScopeForward \<equiv> ''forward''"
abbreviation ScopeProxy :: string where "ScopeProxy \<equiv> ''proxy''"

definition words :: "string \<Rightarrow> string option" where
  "words = map_of [(''shell'', ScopeShell), (''files'', ScopeFiles), (''proxy'', ScopeProxy), (''forward'', ScopeForward)]"

definition Order :: "string list" where
  "Order = [''files'', ''proxy'', ''forward'', ''shell'']"

record grant_spec =
  Caps :: "string set option"
  ShellArgv :: "string list"
  FilesPath :: string
  ProxyTargets :: "string list"
  ForwardTargets :: "string list"

definition zero_spec :: grant_spec where
  "zero_spec = \<lparr>Caps = None, ShellArgv = [], FilesPath = [], ProxyTargets = [], ForwardTargets = []\<rparr>"

definition cap_set :: "grant_spec \<Rightarrow> string set" where
  "cap_set s = (case Caps s of None \<Rightarrow> {} | Some c \<Rightarrow> c)"

definition HasScope :: "grant_spec \<Rightarrow> string \<Rightarrow> bool" where
  "HasScope s scope \<longleftrightarrow> scope \<in> cap_set s"

definition Everything :: grant_spec where
  "Everything = zero_spec\<lparr>Caps := Some {ScopeShell, ScopeFiles, ScopeProxy, ScopeForward}\<rparr>"

definition Words :: "grant_spec \<Rightarrow> string list" where
  "Words s = filter (\<lambda>w. the (words w) \<in> cap_set s) Order"

datatype grant_error =
    Unbalanced char string
  | NotAWord string
  | NamedTwice string
  | ShellError grant_error
  | NotServed string "string list"
  | ShellPinned string
  | NotInside string string
  | BadTarget string target_error
  | OutsideTarget string string

section \<open>Tokens\<close>

text \<open>The loop of \<^verbatim>\<open>splitFields\<close>: its four variables are the state, one character a step.\<close>

record split_state =
  sp_out :: "string list"
  sp_cur :: string
  sp_quote :: "char option"
  sp_open :: bool

definition is_quote :: "char \<Rightarrow> bool" where
  "is_quote r \<longleftrightarrow> r = CHR 0x27 \<or> r = CHR 0x22"

definition is_blank :: "char \<Rightarrow> bool" where
  "is_blank r \<longleftrightarrow> r = CHR '' '' \<or> r = CHR 0x09 \<or> r = CHR 0x0A \<or> r = CHR 0x0D"

definition split_step :: "char \<Rightarrow> split_state \<Rightarrow> split_state" where
  "split_step r st =
     (if sp_quote st = Some r then st\<lparr>sp_quote := None\<rparr>
      else if sp_quote st = None \<and> is_quote r then st\<lparr>sp_quote := Some r, sp_open := True\<rparr>
      else if sp_quote st = None \<and> is_blank r then
        (if sp_open st then st\<lparr>sp_out := sp_out st @ [sp_cur st], sp_cur := [], sp_open := False\<rparr> else st)
      else st\<lparr>sp_cur := sp_cur st @ [r], sp_open := True\<rparr>)"

definition split_init :: split_state where
  "split_init = \<lparr>sp_out = [], sp_cur = [], sp_quote = None, sp_open = False\<rparr>"

definition splitFields :: "string \<Rightarrow> (grant_error, string list) go_result" where
  "splitFields s =
     (let st = fold split_step s split_init in
      case sp_quote st of
        Some q \<Rightarrow> Err (Unbalanced q s)
      | None \<Rightarrow> Ok (if sp_open st then sp_out st @ [sp_cur st] else sp_out st))"

definition splitList :: "string \<Rightarrow> string list" where
  "splitList arg =
     (if arg = [] then [] else filter (\<lambda>p. p \<noteq> []) (map TrimSpace (Split arg (CHR '',''))))"

definition quoteField :: "string \<Rightarrow> string" where
  "quoteField s =
     (if s = [] then [CHR 0x22, CHR 0x22]
      else if \<not> list_ex (\<lambda>c. is_blank c \<or> is_quote c) s then s
      else if CHR 0x22 \<notin> set s then [CHR 0x22] @ s @ [CHR 0x22]
      else [CHR 0x27] @ s @ [CHR 0x27])"

definition quoteCommand :: "string list \<Rightarrow> string" where
  "quoteCommand argv = quoteField (Join (map quoteField argv) '' '')"

section \<open>The grammar\<close>

text \<open>The argument of a word is the next token unless that is itself a word.\<close>

definition take_arg :: "string list \<Rightarrow> string \<times> string list" where
  "take_arg rest =
     (case rest of [] \<Rightarrow> ([], []) | a # as \<Rightarrow> if words a = None then (a, as) else ([], rest))"

definition set_arg :: "string \<Rightarrow> string \<Rightarrow> grant_spec \<Rightarrow> (grant_error, grant_spec) go_result" where
  "set_arg word arg spec =
     (if word = ''shell'' then
        (if arg \<noteq> [] then
           (case splitFields arg of
              Inl e \<Rightarrow> Err (ShellError e)
            | Inr argv \<Rightarrow> Ok (spec\<lparr>ShellArgv := argv\<rparr>))
         else Ok spec)
      else if word = ''files'' then Ok (spec\<lparr>FilesPath := arg\<rparr>)
      else if word = ''proxy'' then Ok (spec\<lparr>ProxyTargets := splitList arg\<rparr>)
      else if word = ''forward'' then Ok (spec\<lparr>ForwardTargets := splitList arg\<rparr>)
      else Ok spec)"

lemma take_arg_shorter: "take_arg rest = (a, r) \<Longrightarrow> length r \<le> length rest"
  by (auto simp: take_arg_def split: list.splits if_splits)

function parse_loop :: "grant_spec \<Rightarrow> string set \<Rightarrow> string list \<Rightarrow> (grant_error, grant_spec) go_result" where
  "parse_loop spec seen [] = Ok spec"
| "parse_loop spec seen (word # rest) =
     (case words word of
        None \<Rightarrow> Err (NotAWord word)
      | Some scope \<Rightarrow>
          if word \<in> seen then Err (NamedTwice word)
          else
            (case set_arg word (fst (take_arg rest)) (spec\<lparr>Caps := Some (insert scope (cap_set spec))\<rparr>) of
               Inl e \<Rightarrow> Err e
             | Inr spec' \<Rightarrow> parse_loop spec' (insert word seen) (snd (take_arg rest))))"
  by pat_completeness auto
termination
  by (relation "measure (\<lambda>(_, _, args). length args)")
     (auto simp: le_imp_less_Suc take_arg_shorter [OF prod.collapse [symmetric]])

definition parse :: "string list \<Rightarrow> (grant_error, grant_spec) go_result" where
  "parse args = (if args = [] then Ok zero_spec else parse_loop (zero_spec\<lparr>Caps := Some {}\<rparr>) {} args)"

definition ParseString :: "string \<Rightarrow> (grant_error, grant_spec) go_result" where
  "ParseString s = (case splitFields s of Inl e \<Rightarrow> Err e | Inr toks \<Rightarrow> parse toks)"

text \<open>The text one word contributes to \<^verbatim>\<open>String\<close>, and the builder loop over \<^verbatim>\<open>Order\<close>.\<close>

definition word_text :: "grant_spec \<Rightarrow> string \<Rightarrow> string" where
  "word_text s w =
     w @
     (if w = ''shell'' then (if ShellArgv s \<noteq> [] then '' '' @ quoteCommand (ShellArgv s) else [])
      else if w = ''files'' then (if FilesPath s \<noteq> [] then '' '' @ quoteField (FilesPath s) else [])
      else if w = ''proxy'' then (if ProxyTargets s \<noteq> [] then '' '' @ Join (ProxyTargets s) '','' else [])
      else if w = ''forward'' then (if ForwardTargets s \<noteq> [] then '' '' @ Join (ForwardTargets s) '','' else [])
      else [])"

fun string_loop :: "grant_spec \<Rightarrow> string \<Rightarrow> string list \<Rightarrow> string" where
  "string_loop s b [] = b"
| "string_loop s b (w # ws) =
     (if the (words w) \<notin> cap_set s then string_loop s b ws
      else string_loop s ((if b \<noteq> [] then b @ '' '' else b) @ word_text s w) ws)"

definition SpecString :: "grant_spec \<Rightarrow> string" where
  "SpecString s = string_loop s [] Order"

section \<open>Narrowing\<close>

definition Intersect :: "grant_spec \<Rightarrow> grant_spec \<Rightarrow> grant_spec" where
  "Intersect s offered =
     (case Caps s of None \<Rightarrow> s | Some c \<Rightarrow> s\<lparr>Caps := Some (c \<inter> cap_set offered)\<rparr>)"

definition isWithin :: "string \<Rightarrow> string \<Rightarrow> string \<Rightarrow> bool" where
  "isWithin cwd parent child =
     (case Rel (Abs cwd parent) (Abs cwd child) of
        None \<Rightarrow> False
      | Some rel \<Rightarrow> rel \<noteq> ''..'' \<and> \<not> prefix ''../'' rel)"

definition narrowTargets :: "string \<Rightarrow> string list \<Rightarrow> string list \<Rightarrow> (grant_error, string list) go_result" where
  "narrowTargets what listener link =
     (if link = [] then Ok listener
      else if listener = [] then Ok link
      else case Parse listener of
        Inl e \<Rightarrow> Err (BadTarget what e)
      | Inr allowed \<Rightarrow>
          (case find (\<lambda>t. \<not> PermitsTarget allowed t) link of
             Some t \<Rightarrow> Err (OutsideTarget what t)
           | None \<Rightarrow> Ok link))"

fun narrow_caps :: "grant_spec \<Rightarrow> string set \<Rightarrow> string set \<Rightarrow> string list \<Rightarrow> (grant_error, string set) go_result" where
  "narrow_caps s linkCaps out [] = Ok out"
| "narrow_caps s linkCaps out (w # ws) =
     (let scope = the (words w) in
      if scope \<notin> linkCaps then narrow_caps s linkCaps out ws
      else if scope \<notin> cap_set s then Err (NotServed w (Words s))
      else narrow_caps s linkCaps (insert scope out) ws)"

definition narrow_shell :: "grant_spec \<Rightarrow> grant_spec \<Rightarrow> (grant_error, string list) go_result" where
  "narrow_shell s link =
     (if ShellArgv link = [] then Ok (ShellArgv s)
      else if ShellArgv s = [] then Ok (ShellArgv link)
      else if Join (ShellArgv link) '' '' \<noteq> Join (ShellArgv s) '' '' then Err (ShellPinned (Join (ShellArgv s) '' ''))
      else Ok (ShellArgv s))"

definition narrow_files :: "string \<Rightarrow> grant_spec \<Rightarrow> grant_spec \<Rightarrow> (grant_error, string) go_result" where
  "narrow_files cwd s link =
     (if FilesPath link = [] then Ok (FilesPath s)
      else if FilesPath s = [] then Ok (FilesPath link)
      else if \<not> isWithin cwd (FilesPath s) (FilesPath link) then Err (NotInside (FilesPath link) (FilesPath s))
      else Ok (FilesPath link))"

definition Narrow :: "string \<Rightarrow> grant_spec \<Rightarrow> grant_spec \<Rightarrow> (grant_error, grant_spec) go_result" where
  "Narrow cwd s link =
     (let linkCaps = (case Caps link of None \<Rightarrow> cap_set s | Some c \<Rightarrow> c) in
      case narrow_caps s linkCaps {} Order of Inl e \<Rightarrow> Err e | Inr caps \<Rightarrow>
     (case narrow_shell s link of Inl e \<Rightarrow> Err e | Inr argv \<Rightarrow>
     (case narrow_files cwd s link of Inl e \<Rightarrow> Err e | Inr path \<Rightarrow>
     (case narrowTargets ''proxy'' (ProxyTargets s) (ProxyTargets link) of Inl e \<Rightarrow> Err e | Inr px \<Rightarrow>
     (case narrowTargets ''forward'' (ForwardTargets s) (ForwardTargets link) of Inl e \<Rightarrow> Err e | Inr fw \<Rightarrow>
       Ok \<lparr>Caps = Some caps, ShellArgv = argv, FilesPath = path, ProxyTargets = px, ForwardTargets = fw\<rparr>)))))"

section \<open>The listener's use of a grant\<close>

definition allowOf :: "string list \<Rightarrow> allow_list" where
  "allowOf targets = (case Parse targets of Inl _ \<Rightarrow> [] | Inr l \<Rightarrow> l)"

record serve_config =
  cfg_offered :: grant_spec
  cfg_caps :: "string set"
  cfg_shellArgv :: "string list"
  cfg_filesPath :: string
  cfg_target :: string

definition applySpec :: "serve_config \<Rightarrow> grant_spec \<Rightarrow> serve_config \<times> grant_error option" where
  "applySpec cfg spec0 =
     (let spec = (if Caps spec0 = None then Everything else spec0);
          cfg1 = cfg\<lparr>cfg_offered := spec, cfg_caps := cap_set spec, cfg_shellArgv := ShellArgv spec,
                     cfg_filesPath := FilesPath spec\<rparr>;
          cfg2 = (if length (ProxyTargets spec) = 1 then cfg1\<lparr>cfg_target := ProxyTargets spec ! 0\<rparr> else cfg1)
      in case Parse (ProxyTargets spec) of
           Inl e \<Rightarrow> (cfg2, Some (BadTarget ''proxy'' e))
         | Inr _ \<Rightarrow> (case Parse (ForwardTargets spec) of
             Inl e \<Rightarrow> (cfg2, Some (BadTarget ''forward'' e))
           | Inr _ \<Rightarrow> (cfg2, None)))"

end
