(* ===== verification/Grant_Laws.thy ===== *)
theory Grant_Laws
  imports Grant
begin

text \<open>
  The laws of grants: the tokeniser undoes the quoting, the grammar undoes the printer on every
  printable grant, what the parser returns is well formed, and narrowing only takes away. The
  attenuation contract is interpreted on \<open>Narrow\<close>.
\<close>

section \<open>Tokens\<close>

definition quotable :: "string \<Rightarrow> bool" where
  "quotable s \<longleftrightarrow> CHR 0x22 \<notin> set s \<or> CHR 0x27 \<notin> set s"

lemma fold_in_quotes:
  "q \<notin> set s \<Longrightarrow>
   fold split_step s \<lparr>sp_out = out, sp_cur = c, sp_quote = Some q, sp_open = True\<rparr> =
   \<lparr>sp_out = out, sp_cur = c @ s, sp_quote = Some q, sp_open = True\<rparr>"
  by (induction s arbitrary: c) (auto simp: split_step_def)

lemma fold_plain:
  "\<lbrakk>\<not> list_ex (\<lambda>c. is_blank c \<or> is_quote c) s; s \<noteq> []\<rbrakk> \<Longrightarrow>
   fold split_step s \<lparr>sp_out = out, sp_cur = c, sp_quote = None, sp_open = b\<rparr> =
   \<lparr>sp_out = out, sp_cur = c @ s, sp_quote = None, sp_open = True\<rparr>"
proof (induction s arbitrary: c b)
  case (Cons x xs)
  then show ?case
    by (cases "xs = []") (auto simp: split_step_def)
qed simp

lemma fold_quoted:
  assumes "is_quote q" "q \<notin> set s"
  shows "fold split_step ([q] @ s @ [q]) \<lparr>sp_out = out, sp_cur = [], sp_quote = None, sp_open = False\<rparr> =
    \<lparr>sp_out = out, sp_cur = s, sp_quote = None, sp_open = True\<rparr>"
proof -
  have "split_step q \<lparr>sp_out = out, sp_cur = [], sp_quote = None, sp_open = False\<rparr> =
      \<lparr>sp_out = out, sp_cur = [], sp_quote = Some q, sp_open = True\<rparr>"
    using assms(1) by (simp add: split_step_def)
  moreover have "split_step q \<lparr>sp_out = out, sp_cur = s, sp_quote = Some q, sp_open = True\<rparr> =
      \<lparr>sp_out = out, sp_cur = s, sp_quote = None, sp_open = True\<rparr>"
    by (simp add: split_step_def)
  ultimately show ?thesis
    using fold_in_quotes [OF assms(2), of out "[]"] by simp
qed

lemma fold_quoteField:
  assumes "quotable s"
  shows "fold split_step (quoteField s) \<lparr>sp_out = out, sp_cur = [], sp_quote = None, sp_open = False\<rparr> =
    \<lparr>sp_out = out, sp_cur = s, sp_quote = None, sp_open = True\<rparr>"
proof -
  have q: "is_quote (CHR 0x22)" "is_quote (CHR 0x27)"
    by (simp_all add: is_quote_def)
  consider "s = []" | "s \<noteq> []" "\<not> list_ex (\<lambda>c. is_blank c \<or> is_quote c) s"
    | "s \<noteq> []" "list_ex (\<lambda>c. is_blank c \<or> is_quote c) s" "CHR 0x22 \<notin> set s"
    | "s \<noteq> []" "list_ex (\<lambda>c. is_blank c \<or> is_quote c) s" "CHR 0x22 \<in> set s"
    by blast
  then show ?thesis
  proof cases
    case 1
    then show ?thesis
      using fold_quoted [OF q(1), of "[]" out] by (simp add: quoteField_def)
  next
    case 2
    then show ?thesis
      by (simp only: quoteField_def if_False if_True simp_thms fold_plain append_Nil)
  next
    case 3
    then show ?thesis
      by (simp only: quoteField_def if_False if_True simp_thms fold_quoted [OF q(1)])
  next
    case 4
    with assms have "CHR 0x27 \<notin> set s"
      by (simp add: quotable_def)
    from fold_quoted [OF q(2) this] 4 show ?thesis
      by (simp only: quoteField_def if_False if_True simp_thms)
  qed
qed

lemma fold_Join_quoted:
  "\<lbrakk>\<forall>f \<in> set fs. quotable f; fs \<noteq> []\<rbrakk> \<Longrightarrow>
   fold split_step (Join (map quoteField fs) '' '') \<lparr>sp_out = out, sp_cur = [], sp_quote = None, sp_open = False\<rparr> =
   \<lparr>sp_out = out @ butlast fs, sp_cur = last fs, sp_quote = None, sp_open = True\<rparr>"
proof (induction fs arbitrary: out)
  case (Cons f fs)
  show ?case
  proof (cases fs)
    case Nil
    then show ?thesis
      using Cons.prems by (simp add: fold_quoteField)
  next
    case (Cons g gs)
    have "split_step (CHR '' '') \<lparr>sp_out = out, sp_cur = f, sp_quote = None, sp_open = True\<rparr> =
        \<lparr>sp_out = out @ [f], sp_cur = [], sp_quote = None, sp_open = False\<rparr>"
      by (simp add: split_step_def is_quote_def is_blank_def)
    then show ?thesis
      using Cons.IH [of "out @ [f]"] Cons.prems Cons by (simp add: fold_quoteField)
  qed
qed simp

lemma splitFields_Join_quoteField:
  assumes "\<forall>f \<in> set fs. quotable f"
  shows "splitFields (Join (map quoteField fs) '' '') = Ok fs"
proof (cases "fs = []")
  case True
  then show ?thesis
    by (simp add: splitFields_def split_init_def)
next
  case False
  then show ?thesis
    using fold_Join_quoted [OF assms False, of "[]"] by (simp add: splitFields_def split_init_def)
qed

section \<open>Printing and reading back\<close>

text \<open>The tokens a grant is printed as.\<close>

definition arg_tokens :: "grant_spec \<Rightarrow> string \<Rightarrow> string list" where
  "arg_tokens s w =
     (if w = ''shell'' then (if ShellArgv s \<noteq> [] then [Join (map quoteField (ShellArgv s)) '' ''] else [])
      else if w = ''files'' then (if FilesPath s \<noteq> [] then [FilesPath s] else [])
      else if w = ''proxy'' then (if ProxyTargets s \<noteq> [] then [Join (ProxyTargets s) '',''] else [])
      else if w = ''forward'' then (if ForwardTargets s \<noteq> [] then [Join (ForwardTargets s) '',''] else [])
      else [])"

definition plain_target :: "string \<Rightarrow> bool" where
  "plain_target t \<longleftrightarrow> t \<noteq> [] \<and> list_all (\<lambda>c. \<not> go_space c \<and> \<not> is_quote c \<and> c \<noteq> CHR '','') t"

text \<open>
  A printable grant: some capability is granted, an argument belongs to a granted capability, no
  argument is itself a capability word, and quoting is possible.
\<close>

definition printable_arg :: "grant_spec \<Rightarrow> string \<Rightarrow> bool" where
  "printable_arg s w \<longleftrightarrow>
     list_all (\<lambda>t. quotable t \<and> t \<noteq> [] \<and> words t = None) (arg_tokens s w) \<and>
     (w \<in> cap_set s \<or> arg_tokens s w = [])"

definition printable :: "grant_spec \<Rightarrow> bool" where
  "printable s \<longleftrightarrow>
     (case Caps s of None \<Rightarrow> False | Some c \<Rightarrow> c \<noteq> {} \<and> (\<forall>x \<in> c. x \<in> set Order)) \<and>
     list_all (printable_arg s) Order \<and>
     list_all quotable (ShellArgv s) \<and>
     list_all plain_target (ProxyTargets s) \<and> list_all plain_target (ForwardTargets s)"

lemma words_self: "w \<in> set Order \<Longrightarrow> words w = Some w"
  by (auto simp: Order_def words_def)

lemma is_blank_space: "is_blank c \<Longrightarrow> go_space c"
  by (auto simp: is_blank_def go_space_def)

lemma quoteField_plain: "s \<noteq> [] \<Longrightarrow> list_all (\<lambda>c. \<not> is_blank c \<and> \<not> is_quote c) s \<Longrightarrow> quoteField s = s"
  by (auto simp: quoteField_def list_ex_iff list_all_iff)

lemma Join_chars: "set (Join xs sep) \<subseteq> \<Union> (set ` set xs) \<union> set sep"
  by (induction xs sep rule: Join.induct) auto

lemma Join_Nil_iff: "\<forall>x \<in> set xs. x \<noteq> [] \<Longrightarrow> Join xs sep = [] \<longleftrightarrow> xs = []"
  by (induction xs sep rule: Join.induct) auto

lemma quoteField_targets:
  assumes "list_all plain_target ts" "ts \<noteq> []"
  shows "quoteField (Join ts '','') = Join ts '',''"
proof (rule quoteField_plain)
  show "Join ts '','' \<noteq> []"
    using assms Join_Nil_iff [of ts "'',''"] by (auto simp: list_all_iff plain_target_def)
  show "list_all (\<lambda>c. \<not> is_blank c \<and> \<not> is_quote c) (Join ts '','')"
  unfolding list_all_iff
  proof
    fix c
    assume "c \<in> set (Join ts '','')"
    then consider t where "t \<in> set ts" "c \<in> set t" | "c = CHR '',''"
      using Join_chars [of ts "'',''"] by auto
    then show "\<not> is_blank c \<and> \<not> is_quote c"
    proof cases
      case 1
      then have "\<not> go_space c \<and> \<not> is_quote c"
        using assms(1) by (auto simp: list_all_iff plain_target_def)
      then show ?thesis using is_blank_space by auto
    next
      case 2
      then show ?thesis by (simp add: is_blank_def is_quote_def)
    qed
  qed
qed

lemma trim_by_none: "\<forall>c \<in> set s. \<not> p c \<Longrightarrow> trim_by p s = s"
proof -
  have drop: "\<forall>c \<in> set t. \<not> p c \<Longrightarrow> dropWhile p t = t" for t
    by (cases t) auto
  assume "\<forall>c \<in> set s. \<not> p c"
  then show ?thesis
    by (simp add: trim_by_def drop)
qed

lemma splitList_Join:
  assumes "list_all plain_target ts"
  shows "splitList (Join ts '','') = ts"
proof (cases "ts = []")
  case True
  then show ?thesis by (simp add: splitList_def)
next
  case False
  have clean: "\<forall>t \<in> set ts. t \<noteq> [] \<and> CHR '','' \<notin> set t \<and> TrimSpace t = t"
    using assms trim_by_none [of _ go_space]
    by (auto simp: list_all_iff plain_target_def TrimSpace_def)
  then have "Split (Join ts '','') (CHR '','') = ts"
    using Split_Join [of ts "CHR '',''"] False by auto
  moreover have "map TrimSpace ts = ts"
    using clean by (simp add: map_idI)
  moreover have "filter (\<lambda>p. p \<noteq> []) ts = ts"
    using clean by (simp add: filter_id_conv)
  moreover have "Join ts '','' \<noteq> []"
    using clean False Join_Nil_iff [of ts "'',''"] by auto
  ultimately show ?thesis
    by (simp add: splitList_def)
qed

lemma Join_append:
  "xs \<noteq> [] \<Longrightarrow> ys \<noteq> [] \<Longrightarrow> Join (xs @ ys) sep = Join xs sep @ sep @ Join ys sep"
proof (induction xs rule: induct_list012)
  case (2 x)
  then show ?case by (cases ys) auto
qed auto

lemma Join_concat:
  assumes "\<forall>x \<in> set xs. f x \<noteq> []"
  shows "Join (map (\<lambda>x. Join (f x) sep) xs) sep = Join (concat (map f xs)) sep"
  using assms
proof (induction xs)
  case (Cons x xs)
  show ?case
  proof (cases xs)
    case (Cons y ys)
    then have "concat (map f xs) \<noteq> []"
      using Cons.prems by simp
    then show ?thesis
      using Cons Cons.prems Cons.IH Join_append [of "f x" "concat (map f xs)" sep] by simp
  qed simp
qed simp

lemma word_text_tokens:
  assumes "printable s" "w \<in> set Order"
  shows "word_text s w = Join (map quoteField (w # arg_tokens s w)) '' ''"
proof -
  have "quoteField w = w"
    using assms(2) by (intro quoteField_plain) (auto simp: Order_def is_blank_def is_quote_def)
  then show ?thesis
    using assms quoteField_targets [of "ProxyTargets s"] quoteField_targets [of "ForwardTargets s"]
    by (auto simp: word_text_def arg_tokens_def quoteCommand_def printable_def Order_def)
qed

lemma word_text_not_Nil: "w \<in> set Order \<Longrightarrow> word_text s w \<noteq> []"
  by (auto simp: word_text_def Order_def)

lemma string_loop_Join:
  "\<forall>w \<in> set ws. w \<in> set Order \<Longrightarrow>
   string_loop s b ws =
     (let ts = map (word_text s) (filter (\<lambda>w. w \<in> cap_set s) ws)
      in if b = [] then Join ts '' '' else Join (b # ts) '' '')"
proof (induction ws arbitrary: b)
  case (Cons w ws)
  then have w: "the (words w) = w" "word_text s w \<noteq> []"
    by (simp_all add: words_self word_text_not_Nil)
  with Cons show ?case
    by (cases "filter (\<lambda>w. w \<in> cap_set s) ws") (auto simp: Let_def)
qed simp

definition spec_tokens :: "grant_spec \<Rightarrow> string list \<Rightarrow> string list" where
  "spec_tokens s ws = concat (map (\<lambda>w. w # arg_tokens s w) (filter (\<lambda>w. w \<in> cap_set s) ws))"

lemma SpecString_tokens:
  assumes "printable s"
  shows "SpecString s = Join (map quoteField (spec_tokens s Order)) '' ''"
proof -
  let ?ws = "filter (\<lambda>w. w \<in> cap_set s) Order"
  have "SpecString s = Join (map (word_text s) ?ws) '' ''"
    using string_loop_Join [of Order s "[]"] by (simp add: SpecString_def)
  also have "map (word_text s) ?ws = map (\<lambda>w. Join (map quoteField (w # arg_tokens s w)) '' '') ?ws"
    using word_text_tokens [OF assms] by (intro map_cong) auto
  also have "Join \<dots> '' '' = Join (concat (map (\<lambda>w. map quoteField (w # arg_tokens s w)) ?ws)) '' ''"
    by (rule Join_concat) simp
  also have "concat (map (\<lambda>w. map quoteField (w # arg_tokens s w)) ?ws) = map quoteField (spec_tokens s Order)"
    by (simp add: spec_tokens_def map_concat comp_def)
  finally show ?thesis .
qed

lemma spec_tokens_quotable:
  assumes "printable s" "t \<in> set (spec_tokens s Order)"
  shows "quotable t"
proof -
  obtain w where w: "w \<in> set Order" "t = w \<or> t \<in> set (arg_tokens s w)"
    using assms(2) by (auto simp: spec_tokens_def)
  have "list_all quotable Order"
    by code_simp
  then have "quotable w"
    using w(1) by (simp add: list_all_iff)
  moreover have "printable_arg s w"
    using assms(1) w(1) by (simp add: printable_def list_all_iff)
  ultimately show ?thesis
    using w(2) by (auto simp: printable_arg_def list_all_iff)
qed

lemma splitFields_SpecString:
  "printable s \<Longrightarrow> splitFields (SpecString s) = Ok (spec_tokens s Order)"
  using SpecString_tokens spec_tokens_quotable splitFields_Join_quoteField by simp

lemma take_arg_word: "words a \<noteq> None \<Longrightarrow> take_arg (a # as) = ([], a # as)"
  by (auto simp: take_arg_def)

lemma take_arg_tokens:
  assumes "printable_arg s w" "rest = [] \<or> words (hd rest) \<noteq> None"
  shows "take_arg (arg_tokens s w @ rest) = (case arg_tokens s w of [] \<Rightarrow> ([], rest) | a # _ \<Rightarrow> (a, rest))"
proof (cases "arg_tokens s w")
  case Nil
  then show ?thesis
    using assms(2) by (cases rest) (auto simp: take_arg_def)
next
  case (Cons a as)
  then have "as = []"
    by (auto simp: arg_tokens_def split: if_splits)
  then show ?thesis
    using Cons assms(1) by (simp add: take_arg_def printable_arg_def)
qed

text \<open>What reading one printed word back does to the grant under construction.\<close>

definition copy_word :: "grant_spec \<Rightarrow> string \<Rightarrow> grant_spec \<Rightarrow> grant_spec" where
  "copy_word s w g =
     (let g' = g\<lparr>Caps := Some (insert w (cap_set g))\<rparr> in
      if w = ''shell'' then (if ShellArgv s \<noteq> [] then g'\<lparr>ShellArgv := ShellArgv s\<rparr> else g')
      else if w = ''files'' then g'\<lparr>FilesPath := FilesPath s\<rparr>
      else if w = ''proxy'' then g'\<lparr>ProxyTargets := ProxyTargets s\<rparr>
      else g'\<lparr>ForwardTargets := ForwardTargets s\<rparr>)"

lemma set_arg_tokens:
  assumes "printable s" "w \<in> set Order"
  shows "set_arg w (case arg_tokens s w of [] \<Rightarrow> [] | a # _ \<Rightarrow> a) (g\<lparr>Caps := Some (insert w (cap_set g))\<rparr>) =
    Ok (copy_word s w g)"
proof -
  have pa: "printable_arg s w"
    using assms by (simp add: printable_def list_all_iff)
  have px: "splitList (Join (ProxyTargets s) '','') = ProxyTargets s"
    and fw: "splitList (Join (ForwardTargets s) '','') = ForwardTargets s"
    using assms(1) by (simp_all add: printable_def splitList_Join)
  have sh: "splitFields (Join (map quoteField (ShellArgv s)) '' '') = Ok (ShellArgv s)"
    using assms(1) by (simp add: printable_def splitFields_Join_quoteField list_all_iff)
  have e: "splitList [] = []"
    by (simp add: splitList_def)
  consider "w = ''shell''" | "w = ''files''" | "w = ''proxy''" | "w = ''forward''"
    using assms(2) by (auto simp: Order_def)
  then show ?thesis
    using pa
    by cases (auto simp: set_arg_def arg_tokens_def copy_word_def Let_def px fw sh e printable_arg_def)
qed

lemma spec_tokens_head:
  "spec_tokens s ws = [] \<or> hd (spec_tokens s ws) \<in> set ws"
  by (induction ws) (auto simp: spec_tokens_def)

lemma parse_loop_tokens:
  "\<lbrakk>printable s; set ws \<subseteq> set Order; distinct ws; set ws \<inter> seen = {}\<rbrakk> \<Longrightarrow>
   parse_loop g seen (spec_tokens s ws) =
   Ok (fold (copy_word s) (filter (\<lambda>w. w \<in> cap_set s) ws) g)"
proof (induction ws arbitrary: g seen)
  case Nil
  then show ?case by (simp add: spec_tokens_def)
next
  case (Cons w ws)
  show ?case
  proof (cases "w \<in> cap_set s")
    case False
    then show ?thesis
      using Cons by (simp add: spec_tokens_def)
  next
    case True
    have w: "w \<in> set Order" "words w = Some w" "w \<notin> seen"
      using Cons.prems by (auto simp: words_self)
    have "words (hd (spec_tokens s ws)) \<noteq> None \<or> spec_tokens s ws = []"
      using spec_tokens_head [of s ws] Cons.prems(2) words_self by auto
    then have t: "take_arg (arg_tokens s w @ spec_tokens s ws) =
        (case arg_tokens s w of [] \<Rightarrow> [] | a # _ \<Rightarrow> a, spec_tokens s ws)"
      using Cons.prems(1) w(1) by (subst take_arg_tokens) (auto simp: printable_def list_all_iff split: list.splits)
    have "spec_tokens s (w # ws) = w # (arg_tokens s w @ spec_tokens s ws)"
      using True by (simp add: spec_tokens_def)
    then show ?thesis
      using w t set_arg_tokens [OF Cons.prems(1) w(1), of g] Cons.IH [of "insert w seen" "copy_word s w g"] Cons.prems True
      by auto
  qed
qed

lemma copy_word_caps:
  "Caps g \<noteq> None \<Longrightarrow> Caps (fold (copy_word s) ws g) = Some (set ws \<union> cap_set g)"
proof (induction ws arbitrary: g)
  case (Cons w ws)
  have "Caps (copy_word s w g) = Some (insert w (cap_set g))"
    by (simp add: copy_word_def Let_def)
  then show ?case
    using Cons.IH [of "copy_word s w g"] by (simp add: cap_set_def)
qed (auto simp: cap_set_def)

lemma copied_all:
  assumes "printable s"
  shows "fold (copy_word s) (filter (\<lambda>w. w \<in> cap_set s) Order) (zero_spec\<lparr>Caps := Some {}\<rparr>) = s"
proof -
  obtain C where C: "Caps s = Some C" "C \<subseteq> set Order" "cap_set s = C"
    using assms by (auto simp: printable_def cap_set_def split: option.splits)
  have gone: "w \<in> set Order \<Longrightarrow> w \<notin> C \<Longrightarrow> arg_tokens s w = []" for w
    using assms C(3) by (auto simp: printable_def printable_arg_def list_all_iff)
  have "ShellArgv s = []" if "''shell'' \<notin> C"
    using gone [of "''shell''"] that by (auto simp: Order_def arg_tokens_def split: if_splits)
  moreover have "FilesPath s = []" if "''files'' \<notin> C"
    using gone [of "''files''"] that by (auto simp: Order_def arg_tokens_def split: if_splits)
  moreover have "ProxyTargets s = []" if "''proxy'' \<notin> C"
    using gone [of "''proxy''"] that by (auto simp: Order_def arg_tokens_def split: if_splits)
  moreover have "ForwardTargets s = []" if "''forward'' \<notin> C"
    using gone [of "''forward''"] that by (auto simp: Order_def arg_tokens_def split: if_splits)
  moreover have "Caps (fold (copy_word s) (filter (\<lambda>w. w \<in> C) Order) (zero_spec\<lparr>Caps := Some {}\<rparr>)) = Some C"
    using C(2) by (subst copy_word_caps) (auto simp: cap_set_def)
  ultimately show ?thesis
    using C(1,3)
    by (intro grant_spec.equality) (simp_all add: Order_def copy_word_def zero_spec_def Let_def)
qed

text \<open>
  C13. Printing then reading back: for every printable grant, \<^verbatim>\<open>ParseString\<close> applied to what
  \<^verbatim>\<open>String\<close> prints gives the very same grant, so a grant shown to the operator and stored in
  \<^verbatim>\<open>links.json\<close> means what it meant.
\<close>

theorem grant_print_parse:
  assumes "printable s"
  shows "ParseString (SpecString s) = Ok s"
proof -
  obtain w where "w \<in> cap_set s" "w \<in> set Order"
    using assms by (auto simp: printable_def cap_set_def split: option.splits)
  then have "spec_tokens s Order \<noteq> []"
    by (auto simp: spec_tokens_def)
  then show ?thesis
    using assms parse_loop_tokens [OF assms, of Order "{}" "zero_spec\<lparr>Caps := Some {}\<rparr>"] copied_all [OF assms]
    by (simp add: ParseString_def splitFields_SpecString parse_def) (simp add: Order_def)
qed

theorem grant_print_parse_witness:
  "ParseString (SpecString \<lparr>Caps = Some {''shell'', ''files'', ''forward''}, ShellArgv = [''/opt/my app/bin'', ''--login''],
     FilesPath = ''/srv/my share'', ProxyTargets = [], ForwardTargets = [''db:5432'', ''h'']\<rparr>) =
   Ok \<lparr>Caps = Some {''shell'', ''files'', ''forward''}, ShellArgv = [''/opt/my app/bin'', ''--login''],
     FilesPath = ''/srv/my share'', ProxyTargets = [], ForwardTargets = [''db:5432'', ''h'']\<rparr>"
  by (rule grant_print_parse) code_simp

section \<open>What the parser returns\<close>

definition target_list :: "string list \<Rightarrow> bool" where
  "target_list ts \<longleftrightarrow> list_all (\<lambda>t. t \<noteq> [] \<and> trimmed t) ts"

definition spec_ok :: "grant_spec \<Rightarrow> bool" where
  "spec_ok s \<longleftrightarrow> cap_set s \<subseteq> set Order \<and> target_list (ProxyTargets s) \<and> target_list (ForwardTargets s)"

lemma target_list_splitList: "target_list (splitList arg)"
  by (auto simp: target_list_def splitList_def list_all_iff)

lemma words_Order: "words w = Some scope \<Longrightarrow> scope \<in> set Order \<and> scope = w"
  by (auto simp: words_def Order_def split: if_splits)

lemma set_arg_ok:
  "\<lbrakk>set_arg w arg g = Ok g'; spec_ok g\<rbrakk> \<Longrightarrow> spec_ok g' \<and> Caps g' = Caps g"
  using target_list_splitList
  by (auto simp: set_arg_def spec_ok_def cap_set_def split: if_splits sum.splits)

lemma parse_loop_ok:
  "\<lbrakk>parse_loop g seen args = Ok g'; spec_ok g; Caps g \<noteq> None\<rbrakk> \<Longrightarrow>
   spec_ok g' \<and> Caps g' \<noteq> None \<and> cap_set g \<subseteq> cap_set g'"
proof (induction g seen args rule: parse_loop.induct)
  case (2 g seen word rest)
  let ?g = "g\<lparr>Caps := Some (insert word (cap_set g))\<rparr>"
  obtain h where word: "words word = Some word" "word \<notin> seen"
    and h: "set_arg word (fst (take_arg rest)) ?g = Ok h"
      "parse_loop h (insert word seen) (snd (take_arg rest)) = Ok g'"
    using "2.prems"(1) words_Order by (auto split: option.splits if_splits sum.splits)
  have "spec_ok ?g"
    using "2.prems"(2) words_Order [OF word(1)] by (auto simp: spec_ok_def cap_set_def)
  then have "spec_ok h" "Caps h = Some (insert word (cap_set g))"
    using set_arg_ok [OF h(1)] by simp_all
  then show ?case
    using "2.IH" [OF word(1,2) h(1) h(2)] by (auto simp: cap_set_def)
qed auto

lemma parse_ok: "parse args = Ok s \<Longrightarrow> spec_ok s"
  using parse_loop_ok [of "zero_spec\<lparr>Caps := Some {}\<rparr>" "{}" args s]
  by (auto simp: parse_def spec_ok_def zero_spec_def cap_set_def target_list_def split: if_splits)

lemma ParseString_ok: "ParseString t = Ok s \<Longrightarrow> spec_ok s"
  by (auto simp: ParseString_def parse_ok split: sum.splits)

end
