(* ===== verification/Narrowing.thy ===== *)
theory Narrowing
  imports Grant_Laws
begin

text \<open>
  What a grant reaches, and that a link only takes away: \<open>reaches\<close> is the specification of a
  grant as the set of requests its holder may make, and \<open>Narrow\<close> is shown to meet the
  attenuation contract for it. The end of the theory shows where the contract stops: a link target
  the allow list cannot parse leaves the holder unrestricted.
\<close>

section \<open>Requests\<close>

datatype request = OpenShell "string list" | ReadPath string | ProxyTo string int | ForwardTo string int

fun reaches :: "string \<Rightarrow> grant_spec \<Rightarrow> request \<Rightarrow> bool" where
  "reaches cwd s (OpenShell argv) \<longleftrightarrow> HasScope s ScopeShell \<and> (ShellArgv s = [] \<or> argv = ShellArgv s)"
| "reaches cwd s (ReadPath p) \<longleftrightarrow> HasScope s ScopeFiles \<and>
     (FilesPath s = [] \<or> prefix (clean_comps (Abs cwd (FilesPath s))) (clean_comps (Abs cwd p)))"
| "reaches cwd s (ProxyTo h p) \<longleftrightarrow> HasScope s ScopeProxy \<and> Permits (allowOf (ProxyTargets s)) h p"
| "reaches cwd s (ForwardTo h p) \<longleftrightarrow> HasScope s ScopeForward \<and> Permits (allowOf (ForwardTargets s)) h p"

text \<open>A grant whose targets all parse; the allow list a handler enforces is then the one meant.\<close>

definition well_targeted :: "grant_spec \<Rightarrow> bool" where
  "well_targeted s \<longleftrightarrow>
     target_list (ProxyTargets s) \<and> target_list (ForwardTargets s) \<and>
     is_ok (Parse (ProxyTargets s)) \<and> is_ok (Parse (ForwardTargets s))"

section \<open>Each part of Narrow\<close>

lemma isWithin_prefix:
  "IsAbs cwd \<Longrightarrow> isWithin cwd parent child \<longleftrightarrow>
     prefix (clean_comps (Abs cwd parent)) (clean_comps (Abs cwd child))"
  using Rel_down [of "Abs cwd parent" "Abs cwd child"] by (auto simp: isWithin_def)

lemma narrow_caps_Ok:
  "narrow_caps s lc out ws = Ok c \<Longrightarrow> set ws \<subseteq> set Order \<Longrightarrow>
   c = out \<union> (set ws \<inter> lc) \<and> set ws \<inter> lc \<subseteq> cap_set s"
  by (induction s lc out ws rule: narrow_caps.induct) (auto simp: Let_def words_self split: if_splits)

lemma allowOf_Ok: "Parse ts = Ok l \<Longrightarrow> allowOf ts = l"
  by (simp add: allowOf_def)

lemma narrowTargets_cases:
  assumes "narrowTargets what listener link = Ok out"
  obtains "link = []" "out = listener"
    | "listener = []" "out = link"
    | allowed where "link \<noteq> []" "Parse listener = Ok allowed" "\<forall>t \<in> set link. PermitsTarget allowed t" "out = link"
proof (cases "link = [] \<or> listener = []")
  case True
  then show ?thesis
    using assms that(1,2) by (auto simp: narrowTargets_def split: if_splits)
next
  case False
  then obtain allowed where "Parse listener = Ok allowed" "find (\<lambda>t. \<not> PermitsTarget allowed t) link = None" "out = link"
    using assms by (auto simp: narrowTargets_def split: sum.splits option.splits)
  then show ?thesis
    using False that(3) by (auto simp: find_None_iff)
qed

lemma narrowTargets_le:
  assumes "narrowTargets what listener link = Ok out" "target_list out" "Parse out = Ok m"
    "Permits (allowOf out) h p"
  shows "Permits (allowOf listener) h p"
  using assms(1)
proof (cases rule: narrowTargets_cases)
  case 2
  then show ?thesis by (simp add: allowOf_def Permits_iff)
next
  case (3 allowed)
  have "m \<noteq> []"
    using Parse_length [OF assms(3)] 3 by auto
  then have "Permits allowed h p"
    using permitted_list_covered [of out allowed m h p] assms 3
    by (auto simp: target_list_def list_all_iff allowOf_Ok)
  with 3 show ?thesis by (simp add: allowOf_Ok)
qed (use assms in simp)

lemma Narrow_parts:
  assumes "Narrow cwd s link = Ok out"
  shows "narrow_caps s (case Caps link of None \<Rightarrow> cap_set s | Some c \<Rightarrow> c) {} Order = Ok (cap_set out)"
    and "Caps out = Some (cap_set out)"
    and "narrow_shell s link = Ok (ShellArgv out)"
    and "narrow_files cwd s link = Ok (FilesPath out)"
    and "narrowTargets ''proxy'' (ProxyTargets s) (ProxyTargets link) = Ok (ProxyTargets out)"
    and "narrowTargets ''forward'' (ForwardTargets s) (ForwardTargets link) = Ok (ForwardTargets out)"
  using assms by (auto simp: Narrow_def Let_def cap_set_def split: sum.splits option.splits)

lemma Narrow_caps:
  assumes "Narrow cwd s link = Ok out"
  shows "cap_set out = set Order \<inter> (case Caps link of None \<Rightarrow> cap_set s | Some c \<Rightarrow> c)"
    and "cap_set out \<subseteq> cap_set s"
  using narrow_caps_Ok [OF Narrow_parts(1) [OF assms]] by auto

lemma Narrow_le:
  assumes "IsAbs cwd" "Narrow cwd s link = Ok out" "well_targeted out" "reaches cwd out r"
  shows "reaches cwd s r"
proof (cases r)
  case (OpenShell argv)
  then show ?thesis
    using assms Narrow_caps(2) [OF assms(2)] Narrow_parts(3) [OF assms(2)]
    by (auto simp: HasScope_def narrow_shell_def split: if_splits)
next
  case (ReadPath p)
  then show ?thesis
    using assms Narrow_caps(2) [OF assms(2)] Narrow_parts(4) [OF assms(2)]
    by (auto simp: HasScope_def narrow_files_def isWithin_prefix split: if_splits intro: prefix_order.trans)
next
  case (ProxyTo h p)
  then show ?thesis
    using assms Narrow_caps(2) [OF assms(2)] narrowTargets_le [OF Narrow_parts(5) [OF assms(2)]]
    by (auto simp: HasScope_def well_targeted_def is_ok_ex)
next
  case (ForwardTo h p)
  then show ?thesis
    using assms Narrow_caps(2) [OF assms(2)] narrowTargets_le [OF Narrow_parts(6) [OF assms(2)]]
    by (auto simp: HasScope_def well_targeted_def is_ok_ex)
qed

interpretation att: attenuation "reaches (CHR ''/'' # c)" "Narrow (CHR ''/'' # c)" well_targeted for c
  by unfold_locales (rule Narrow_le, simp_all add: IsAbs_def)

lemma Intersect_caps:
  "cap_set (Intersect s offered) = (if Caps s = None then {} else cap_set s \<inter> cap_set offered)"
  "Caps (Intersect s offered) = None \<longleftrightarrow> Caps s = None"
  by (auto simp: Intersect_def cap_set_def split: option.splits)

section \<open>Properties\<close>

text \<open>
  C8. A link only takes away. Whatever chain of links a listener's grant is narrowed by, if every
  grant on the way has targets that parse, then each request (a shell command, a file path, a proxied
  or forwarded host and port) the final grant reaches is one the listener's own grant reaches.
\<close>

theorem narrowing_attenuates:
  assumes "chain_good (Narrow (CHR ''/'' # c)) well_targeted links s"
    and "narrow_chain (Narrow (CHR ''/'' # c)) links s = Ok out"
    and "reaches (CHR ''/'' # c) out r"
  shows "reaches (CHR ''/'' # c) s r"
  using att.chain_le assms .

theorem narrowing_attenuates_witness:
  "reaches ''/'' \<lparr>Caps = Some {''files'', ''forward''}, ShellArgv = [], FilesPath = ''/srv'', ProxyTargets = [],
     ForwardTargets = [''db'', ''web:80'']\<rparr> (ForwardTo ''DB'' 22)"
proof (rule narrowing_attenuates)
  let ?s = "\<lparr>Caps = Some {''files'', ''forward''}, ShellArgv = [], FilesPath = ''/srv'', ProxyTargets = [],
     ForwardTargets = [''db'', ''web:80'']\<rparr>"
  let ?l = "\<lparr>Caps = Some {''forward''}, ShellArgv = [], FilesPath = ''/srv/a/../b'', ProxyTargets = [],
     ForwardTargets = [''db:22'']\<rparr>"
  let ?o = "\<lparr>Caps = Some {''forward''}, ShellArgv = [], FilesPath = ''/srv/a/../b'', ProxyTargets = [],
     ForwardTargets = [''db:22'']\<rparr>"
  have n: "Narrow ''/'' ?s ?l = Ok ?o"
    by code_simp
  have "well_targeted ?s" "well_targeted ?o"
    by code_simp+
  then show "chain_good (Narrow ''/'') well_targeted [?l] ?s" "narrow_chain (Narrow ''/'') [?l] ?s = Ok ?o"
    by (simp_all add: n)
  show "reaches ''/'' ?o (ForwardTo ''DB'' 22)"
    by code_simp
qed

text \<open>
  Directory containment is by path component: a link's directory is accepted under a pinned
  share exactly when the components of its cleaned absolute path extend those of the share, so
  neither \<^verbatim>\<open>..\<close> nor a sibling that shares a name prefix gets past.
\<close>

theorem isWithin_components:
  assumes "IsAbs cwd"
  shows "isWithin cwd parent child \<longleftrightarrow>
    prefix (clean_comps (Abs cwd parent)) (clean_comps (Abs cwd child))"
  using isWithin_prefix [OF assms] .

theorem isWithin_components_witness:
  "isWithin ''/home/u'' ''share'' ''/home/u/share/../share2'' = False"
proof -
  have "IsAbs ''/home/u''" by code_simp
  from isWithin_components [OF this, of "''share''" "''/home/u/share/../share2''"]
  have "isWithin ''/home/u'' ''share'' ''/home/u/share/../share2'' =
    prefix (clean_comps (Abs ''/home/u'' ''share'')) (clean_comps (Abs ''/home/u'' ''/home/u/share/../share2''))" .
  also have "\<dots> = False"
    by code_simp
  finally show ?thesis .
qed

text \<open>
  C25. The allow list of a link fails open on a target it cannot parse. The listener forwards to
  \<^verbatim>\<open>db\<close> only; the link grant \<^verbatim>\<open>forward db:99999\<close> parses, is accepted by \<^verbatim>\<open>Narrow\<close>
  as inside the listener's reach, and is then turned by \<^verbatim>\<open>allowOf\<close> into the empty list, which
  permits every host and port.
\<close>

theorem narrowed_link_fails_open:
  "\<exists>link out. ParseString ''forward db:99999'' = Ok link \<and>
     Narrow ''/'' \<lparr>Caps = Some {''forward''}, ShellArgv = [], FilesPath = [], ProxyTargets = [], ForwardTargets = [''db'']\<rparr> link = Ok out \<and>
     reaches ''/'' out (ForwardTo host port) \<and>
     (reaches ''/'' \<lparr>Caps = Some {''forward''}, ShellArgv = [], FilesPath = [], ProxyTargets = [], ForwardTargets = [''db'']\<rparr>
        (ForwardTo host port) \<longleftrightarrow> normalizeHost host = ''db'')"
proof -
  let ?s = "\<lparr>Caps = Some {''forward''}, ShellArgv = [], FilesPath = [], ProxyTargets = [], ForwardTargets = [''db'']\<rparr>"
  let ?l = "\<lparr>Caps = Some {''forward''}, ShellArgv = [], FilesPath = [], ProxyTargets = [], ForwardTargets = [''db:99999'']\<rparr>"
  have p: "ParseString ''forward db:99999'' = Ok ?l"
    by code_simp
  have n: "Narrow ''/'' ?s ?l = Ok ?l"
    by code_simp
  have "allowOf [''db:99999''] = []" "allowOf [''db''] = [\<lparr>e_host = ''db'', e_port = 0\<rparr>]"
    by code_simp+
  then have "reaches ''/'' ?l (ForwardTo host port)"
    "reaches ''/'' ?s (ForwardTo host port) \<longleftrightarrow> normalizeHost host = ''db''"
    by (auto simp: HasScope_def cap_set_def Permits_iff covers_def)
  with p n show ?thesis by blast
qed

text \<open>
  Printing is not injective outside the printable grants, and reading back may widen. A proxy
  restricted to one host called \<^verbatim>\<open>forward\<close> prints as the sentence that grants an unrestricted
  proxy and unrestricted forwarding.
\<close>

theorem print_parse_widens:
  "ParseString ''proxy forward,'' =
     Ok \<lparr>Caps = Some {''proxy''}, ShellArgv = [], FilesPath = [], ProxyTargets = [''forward''], ForwardTargets = []\<rparr> \<and>
   SpecString \<lparr>Caps = Some {''proxy''}, ShellArgv = [], FilesPath = [], ProxyTargets = [''forward''], ForwardTargets = []\<rparr> =
     ''proxy forward'' \<and>
   ParseString ''proxy forward'' =
     Ok \<lparr>Caps = Some {''proxy'', ''forward''}, ShellArgv = [], FilesPath = [], ProxyTargets = [], ForwardTargets = []\<rparr>"
  by (intro conjI; code_simp)

text \<open>
  A link written for capabilities the listener does not serve reaches nothing: when the
  listener offers none of the words a link names, the effective grant has an empty capability set
  (and not the unspecified one, which would mean everything).
\<close>

theorem disjoint_link_reaches_nothing:
  assumes "Caps link = Some c" "c \<inter> cap_set offered = {}"
    and "Narrow cwd offered (Intersect link offered) = Ok out"
  shows "Caps out = Some {} \<and> \<not> reaches cwd out r"
proof -
  have "cap_set out = {}"
    using Narrow_caps(1) [OF assms(3)] assms(1,2) by (simp add: Intersect_def)
  then show ?thesis
    using Narrow_parts(2) [OF assms(3)] by (cases r) (simp_all add: HasScope_def)
qed

theorem disjoint_link_reaches_nothing_witness:
  "\<not> reaches ''/'' \<lparr>Caps = Some {}, ShellArgv = [], FilesPath = ''/srv'', ProxyTargets = [], ForwardTargets = []\<rparr> (ReadPath ''/srv/x'')"
proof -
  have "Narrow ''/'' \<lparr>Caps = Some {''files''}, ShellArgv = [], FilesPath = ''/srv'', ProxyTargets = [], ForwardTargets = []\<rparr>
      (Intersect \<lparr>Caps = Some {''shell''}, ShellArgv = [], FilesPath = [], ProxyTargets = [], ForwardTargets = []\<rparr>
         \<lparr>Caps = Some {''files''}, ShellArgv = [], FilesPath = ''/srv'', ProxyTargets = [], ForwardTargets = []\<rparr>) =
      Ok \<lparr>Caps = Some {}, ShellArgv = [], FilesPath = ''/srv'', ProxyTargets = [], ForwardTargets = []\<rparr>"
    by code_simp
  from disjoint_link_reaches_nothing [OF _ _ this, of "{''shell''}"] show ?thesis
    by (simp add: cap_set_def del: reaches.simps)
qed

end
