(* ===== verification/Links.thy ===== *)
theory Links
  imports Narrowing "HOL-Library.List_Lexorder" "HOL-Library.Char_ord"
begin

text \<open>
  \<^verbatim>\<open>internal/links/terms.go\<close> and \<^verbatim>\<open>table.go\<close>: the terms a code grants, the resolved table,
  and the three passes over the rows (\<open>DedupeCodes\<close>, \<open>RetireExpired\<close>, \<open>Mint\<close>).
  Instants are nanoseconds as \<open>int\<close>. The generator of access codes draws from the system's random
  source, so it is an argument: \<open>gen k\<close> is the outcome of the k-th call.
\<close>

section \<open>Terms\<close>

record terms =
  Label :: string
  Code :: string
  GrantText :: string
  Expires :: "int option"

definition OwnerLabel :: string where
  "OwnerLabel = ''owner''"

datatype link_error =
    Expired string int
  | LinkGrant string grant_error
  | OwnerReserved
  | DuplicateLabel string

definition ScopeNames :: "string list" where
  "ScopeNames = sort Order"

definition CheckTerms :: "terms \<Rightarrow> int \<Rightarrow> link_error option" where
  "CheckTerms t now =
     (case Expires t of
        None \<Rightarrow> None
      | Some e \<Rightarrow> if \<not> now < e then Some (Expired (Label t) e) else None)"

definition TermsSpec :: "terms \<Rightarrow> (link_error, grant_spec) go_result" where
  "TermsSpec t = (case ParseString (GrantText t) of Inl e \<Rightarrow> Err (LinkGrant (Label t) e) | Inr s \<Rightarrow> Ok s)"

definition Effective :: "string \<Rightarrow> terms \<Rightarrow> grant_spec \<Rightarrow> (link_error, grant_spec) go_result" where
  "Effective cwd t offered =
     (case TermsSpec t of
        Inl e \<Rightarrow> Err e
      | Inr spec \<Rightarrow>
          (case Narrow cwd offered (Intersect spec offered) of
             Inl e \<Rightarrow> Err (LinkGrant (Label t) e)
           | Inr eff \<Rightarrow> Ok eff))"

definition SameGrants :: "string \<Rightarrow> terms \<Rightarrow> terms \<Rightarrow> grant_spec \<Rightarrow> bool" where
  "SameGrants cwd a b offered =
     (case (Effective cwd a offered, Effective cwd b offered) of
        (Inr ea, Inr eb) \<Rightarrow> SpecString ea = SpecString eb
      | (ea, eb) \<Rightarrow> is_ok ea \<and> is_ok eb)"

section \<open>The table\<close>

record link_table =
  entries :: "terms list"
  offered :: grant_spec

datatype warning = WarnGrant link_error | WarnMissing string "string list"

fun seen_twice :: "string set \<Rightarrow> terms list \<Rightarrow> link_error option" where
  "seen_twice seen [] = None"
| "seen_twice seen (e # es) =
     (if Label e \<in> seen then Some (if Label e = OwnerLabel then OwnerReserved else DuplicateLabel (Label e))
      else seen_twice (insert (Label e) seen) es)"

definition row_warning :: "string \<Rightarrow> grant_spec \<Rightarrow> terms \<Rightarrow> warning list" where
  "row_warning cwd off e =
     (case TermsSpec e of
        Inl _ \<Rightarrow> []
      | Inr spec \<Rightarrow>
          (case Effective cwd e off of
             Inl err \<Rightarrow> [WarnGrant err]
           | Inr _ \<Rightarrow>
               let missing = filter (\<lambda>name. \<not> HasScope off name) (Words spec)
               in if missing \<noteq> [] then [WarnMissing (Label e) (sort missing)] else []))"

definition Build :: "string \<Rightarrow> terms list \<Rightarrow> grant_spec \<Rightarrow> string \<Rightarrow> (link_error, link_table \<times> warning list) go_result" where
  "Build cwd es off identityCode =
     (let all = \<lparr>Label = OwnerLabel, Code = identityCode, GrantText = [], Expires = None\<rparr> # es in
      case seen_twice {} all of
        Some err \<Rightarrow> Err err
      | None \<Rightarrow> Ok (\<lparr>entries = all, offered = off\<rparr>, concat (map (row_warning cwd off) es)))"

definition ByLabel :: "link_table \<Rightarrow> string \<Rightarrow> terms option" where
  "ByLabel t label = find (\<lambda>e. Label e = label) (entries t)"

definition ByCode :: "link_table \<Rightarrow> string \<Rightarrow> terms option" where
  "ByCode t code = (if code = [] then None else find (\<lambda>e. Code e = code) (entries t))"

text \<open>The loop of \<^verbatim>\<open>Authorize\<close> never exits early: the last match stays in \<^verbatim>\<open>matched\<close>.\<close>

fun auth_loop :: "string \<Rightarrow> nat option \<Rightarrow> nat \<Rightarrow> terms list \<Rightarrow> nat option" where
  "auth_loop code matched i [] = matched"
| "auth_loop code matched i (e # es) =
     (if Code e = [] then auth_loop code matched (Suc i) es
      else if Code e = code then auth_loop code (Some i) (Suc i) es
      else auth_loop code matched (Suc i) es)"

definition Authorize :: "link_table \<Rightarrow> string \<Rightarrow> int \<Rightarrow> terms option" where
  "Authorize t code now =
     (case auth_loop code None 0 (entries t) of
        None \<Rightarrow> None
      | Some i \<Rightarrow> let e = entries t ! i in if CheckTerms e now \<noteq> None then None else Some e)"

section \<open>The passes over the rows\<close>

record conflict =
  Labels :: "string list"
  Reserved :: bool

definition rows_with :: "terms list \<Rightarrow> string \<Rightarrow> nat list" where
  "rows_with es code = filter (\<lambda>i. Code (es ! i) = code) [0..<length es]"

fun clear_codes :: "nat list \<Rightarrow> terms list \<Rightarrow> terms list" where
  "clear_codes [] out = out"
| "clear_codes (i # idx) out = clear_codes idx (out[i := (out ! i)\<lparr>Code := []\<rparr>])"

text \<open>
  Go ranges over the map \<^verbatim>\<open>byCode\<close> in an unspecified order; \<open>ks\<close> is that order.
\<close>

fun dedupe_loop :: "terms list \<Rightarrow> string \<Rightarrow> string list \<Rightarrow> terms list \<Rightarrow> conflict list \<Rightarrow> terms list \<times> conflict list" where
  "dedupe_loop es identityCode [] out cs = (out, cs)"
| "dedupe_loop es identityCode (code # ks) out cs =
     (let idx = rows_with es code;
          res = (identityCode \<noteq> [] \<and> code = identityCode)
      in if length idx < 2 \<and> \<not> res then dedupe_loop es identityCode ks out cs
         else dedupe_loop es identityCode ks (clear_codes idx out)
                (cs @ [\<lparr>Labels = sort (map (\<lambda>i. Label (out ! i)) idx), Reserved = res\<rparr>]))"

definition DedupeCodes :: "string list \<Rightarrow> terms list \<Rightarrow> string \<Rightarrow> terms list \<times> conflict list" where
  "DedupeCodes ks es identityCode =
     (let (out, cs) = dedupe_loop es identityCode ks es []
      in (out, sort_key (\<lambda>c. hd (Labels c)) cs))"

definition code_order :: "string list \<Rightarrow> terms list \<Rightarrow> bool" where
  "code_order ks es \<longleftrightarrow> distinct ks \<and> set ks = Code ` set es - {[]}"

fun RetireExpired :: "terms list \<Rightarrow> int \<Rightarrow> terms list \<times> string list" where
  "RetireExpired [] now = ([], [])"
| "RetireExpired (e # es) now =
     (let (out, retired) = RetireExpired es now in
      if Code e = [] \<or> CheckTerms e now = None then (e # out, retired)
      else (e\<lparr>Code := []\<rparr> # out, Label e # retired))"

fun mint_loop :: "int \<Rightarrow> (nat \<Rightarrow> string + string) \<Rightarrow> nat \<Rightarrow> terms list \<Rightarrow> (string, terms list \<times> string list) go_result" where
  "mint_loop now gen k [] = Ok ([], [])"
| "mint_loop now gen k (e # es) =
     (if Code e \<noteq> [] \<or> CheckTerms e now \<noteq> None then
        (case mint_loop now gen k es of Inl x \<Rightarrow> Err x | Inr (out, minted) \<Rightarrow> Ok (e # out, minted))
      else
        (case gen k of
           Inl x \<Rightarrow> Err x
         | Inr code \<Rightarrow>
             (case mint_loop now gen (Suc k) es of
                Inl x \<Rightarrow> Err x
              | Inr (out, minted) \<Rightarrow> Ok (e\<lparr>Code := code\<rparr> # out, Label e # minted))))"

definition Mint :: "terms list \<Rightarrow> int \<Rightarrow> (nat \<Rightarrow> string + string) \<Rightarrow> (string, terms list \<times> string list) go_result" where
  "Mint es now gen = mint_loop now gen 0 es"

end
