(* ===== verification/Links_Laws.thy ===== *)
theory Links_Laws
  imports Links
begin

text \<open>
  The laws of the link table. The central invariant is \<open>uniq_codes\<close>: no two rows hold the same
  code. De-duplication establishes it whatever order the map is ranged over, retirement and minting
  keep it, and under it \<^verbatim>\<open>Authorize\<close> (last match) and \<^verbatim>\<open>ByCode\<close> (first match) agree.
\<close>

section \<open>Unique codes\<close>

definition uniq_codes :: "terms list \<Rightarrow> bool" where
  "uniq_codes es \<longleftrightarrow> distinct (filter (\<lambda>c. c \<noteq> []) (map Code es))"

lemma uniq_codes_Nil [simp]: "uniq_codes []"
  by (simp add: uniq_codes_def)

lemma uniq_codes_Cons [simp]:
  "uniq_codes (e # es) \<longleftrightarrow> (Code e = [] \<or> Code e \<notin> Code ` set es) \<and> uniq_codes es"
  by (auto simp: uniq_codes_def)

lemma uniq_codes_nth:
  "(\<And>i j. \<lbrakk>i < length es; j < length es; Code (es ! i) = Code (es ! j); Code (es ! i) \<noteq> []\<rbrakk> \<Longrightarrow> i = j) \<Longrightarrow>
   uniq_codes es"
proof (induction es)
  case (Cons e es)
  have "Code e = [] \<or> Code e \<notin> Code ` set es"
  proof (rule ccontr)
    assume "\<not> ?thesis"
    then obtain j where "j < length es" "Code (es ! j) = Code e" "Code e \<noteq> []"
      by (metis imageE in_set_conv_nth)
    with Cons.prems [of 0 "Suc j"] show False by simp
  qed
  moreover have "i = j" if "i < length es" "j < length es" "Code (es ! i) = Code (es ! j)" "Code (es ! i) \<noteq> []" for i j
    using Cons.prems [of "Suc i" "Suc j"] that by simp
  ultimately show ?case
    using Cons.IH by simp
qed simp

lemma uniq_codes_same:
  "\<lbrakk>uniq_codes es; a \<in> set es; b \<in> set es; Code a = Code b; Code a \<noteq> []\<rbrakk> \<Longrightarrow> a = b"
proof (induction es)
  case (Cons e es)
  then show ?case
    by (metis image_eqI set_ConsD uniq_codes_Cons)
qed simp

section \<open>De-duplication\<close>

definition shared_code :: "terms list \<Rightarrow> string \<Rightarrow> string \<Rightarrow> bool" where
  "shared_code es ic c \<longleftrightarrow> 2 \<le> length (rows_with es c) \<or> (ic \<noteq> [] \<and> c = ic)"

definition strip_shared :: "terms list \<Rightarrow> string \<Rightarrow> terms \<Rightarrow> terms" where
  "strip_shared es ic e = (if Code e \<noteq> [] \<and> shared_code es ic (Code e) then e\<lparr>Code := []\<rparr> else e)"

lemma length_clear_codes [simp]: "length (clear_codes idx out) = length out"
  by (induction idx out rule: clear_codes.induct) auto

lemma clear_codes_nth:
  "i < length out \<Longrightarrow> clear_codes idx out ! i = (if i \<in> set idx then (out ! i)\<lparr>Code := []\<rparr> else out ! i)"
proof (induction idx out rule: clear_codes.induct)
  case (2 j idx out)
  then show ?case by (cases "i = j") auto
qed simp

lemma rows_with_mem [simp]: "i \<in> set (rows_with es c) \<longleftrightarrow> i < length es \<and> Code (es ! i) = c"
  by (auto simp: rows_with_def)

lemma length_dedupe_loop [simp]: "length (fst (dedupe_loop es ic ks out cs)) = length out"
  by (induction es ic ks out cs rule: dedupe_loop.induct) (auto simp: Let_def)

lemma dedupe_loop_nth:
  "\<lbrakk>i < length es; length out = length es\<rbrakk> \<Longrightarrow>
   fst (dedupe_loop es ic ks out cs) ! i =
     (if Code (es ! i) \<in> set ks \<and> shared_code es ic (Code (es ! i)) then (out ! i)\<lparr>Code := []\<rparr> else out ! i)"
proof (induction ks arbitrary: out cs)
  case (Cons c ks)
  then show ?case
    by (auto simp: Let_def clear_codes_nth shared_code_def)
qed simp

lemma DedupeCodes_map:
  assumes "code_order ks es"
  shows "fst (DedupeCodes ks es ic) = map (strip_shared es ic) es"
proof (rule nth_equalityI)
  show "length (fst (DedupeCodes ks es ic)) = length (map (strip_shared es ic) es)"
    by (simp add: DedupeCodes_def split_beta)
next
  fix i assume "i < length (fst (DedupeCodes ks es ic))"
  then have i: "i < length es"
    by (simp add: DedupeCodes_def split_beta)
  then have "Code (es ! i) \<in> set ks \<longleftrightarrow> Code (es ! i) \<noteq> []"
    using assms by (auto simp: code_order_def)
  with i show "fst (DedupeCodes ks es ic) ! i = map (strip_shared es ic) es ! i"
    by (auto simp: DedupeCodes_def split_beta dedupe_loop_nth strip_shared_def)
qed

lemma two_rows:
  assumes "i < length es" "j < length es" "i \<noteq> j" "Code (es ! i) = Code (es ! j)"
  shows "2 \<le> length (rows_with es (Code (es ! i)))"
proof -
  have "{i, j} \<subseteq> set (rows_with es (Code (es ! i)))"
    using assms by auto
  then have "card {i, j} \<le> card (set (rows_with es (Code (es ! i))))"
    by (intro card_mono) auto
  with assms(3) show ?thesis
    using card_length [of "rows_with es (Code (es ! i))"] by simp
qed

lemma strip_shared_code [simp]: "Code (strip_shared es ic e) = (if Code e \<noteq> [] \<and> shared_code es ic (Code e) then [] else Code e)"
  by (simp add: strip_shared_def)

lemma DedupeCodes_uniq:
  assumes "code_order ks es"
  shows "uniq_codes (fst (DedupeCodes ks es ic))"
    and "ic \<noteq> [] \<Longrightarrow> ic \<notin> Code ` set (fst (DedupeCodes ks es ic))"
proof -
  show "uniq_codes (fst (DedupeCodes ks es ic))"
    unfolding DedupeCodes_map [OF assms]
  proof (rule uniq_codes_nth)
    fix i j
    assume "i < length (map (strip_shared es ic) es)" "j < length (map (strip_shared es ic) es)"
      and "Code (map (strip_shared es ic) es ! i) = Code (map (strip_shared es ic) es ! j)"
      and "Code (map (strip_shared es ic) es ! i) \<noteq> []"
    then show "i = j"
      using two_rows [of i es j] by (auto simp: shared_code_def split: if_splits)
  qed
  show "ic \<notin> Code ` set (fst (DedupeCodes ks es ic))" if "ic \<noteq> []"
  proof -
    have "Code (strip_shared es ic e) \<noteq> ic" for e
      using that by (simp add: shared_code_def)
    then show ?thesis
      unfolding DedupeCodes_map [OF assms] by (metis imageE list.set_map)
  qed
qed

section \<open>Retirement\<close>

definition retire_row :: "int \<Rightarrow> terms \<Rightarrow> terms" where
  "retire_row now e = (if Code e = [] \<or> CheckTerms e now = None then e else e\<lparr>Code := []\<rparr>)"

lemma CheckTerms_Code [simp]: "CheckTerms (e\<lparr>Code := c\<rparr>) now = CheckTerms e now"
  by (simp add: CheckTerms_def split: option.splits)

lemma RetireExpired_map: "fst (RetireExpired es now) = map (retire_row now) es"
  by (induction es) (auto simp: retire_row_def Let_def split_beta)

lemma RetireExpired_labels:
  "snd (RetireExpired es now) = map Label (filter (\<lambda>e. Code e \<noteq> [] \<and> CheckTerms e now \<noteq> None) es)"
  by (induction es) (auto simp: Let_def split_beta)

lemma retire_codes: "Code ` set (fst (RetireExpired es now)) \<subseteq> insert [] (Code ` set es)"
  by (auto simp: RetireExpired_map retire_row_def)

lemma RetireExpired_uniq: "uniq_codes es \<Longrightarrow> uniq_codes (fst (RetireExpired es now))"
proof (induction es)
  case (Cons e es)
  then show ?case
    using retire_codes [of es now] by (auto simp: Let_def split_beta)
qed simp

section \<open>Minting\<close>

text \<open>What the random source is relied on for: a code it yields is new.\<close>

definition fresh_gen :: "(nat \<Rightarrow> string + string) \<Rightarrow> string set \<Rightarrow> bool" where
  "fresh_gen gen used \<longleftrightarrow>
     (\<forall>k c. gen k = Inr c \<longrightarrow> c \<noteq> [] \<and> c \<notin> used) \<and>
     (\<forall>j k c. gen j = Inr c \<longrightarrow> gen k = Inr c \<longrightarrow> j = k)"

definition kept_row :: "int \<Rightarrow> (nat \<Rightarrow> string + string) \<Rightarrow> terms \<Rightarrow> terms \<Rightarrow> bool" where
  "kept_row now gen e e' \<longleftrightarrow>
     (\<exists>c. e' = e\<lparr>Code := c\<rparr> \<and>
        (if Code e \<noteq> [] \<or> CheckTerms e now \<noteq> None then c = Code e else \<exists>k. gen k = Inr c))"

lemma mint_loop_rows:
  "mint_loop now gen k es = Inr (out, minted) \<Longrightarrow>
   list_all2 (kept_row now gen) es out \<and>
   Code ` set out \<subseteq> Code ` set es \<union> {c. \<exists>j \<ge> k. gen j = Inr c}"
proof (induction now gen k es arbitrary: out minted rule: mint_loop.induct)
  case (2 now gen k e es)
  show ?case
  proof (cases "Code e \<noteq> [] \<or> CheckTerms e now \<noteq> None")
    case True
    then obtain o' m' where "mint_loop now gen k es = Inr (o', m')" "out = e # o'"
      using "2.prems"(1) by (auto split: sum.splits prod.splits)
    moreover have "kept_row now gen e e"
      using True by (auto simp: kept_row_def intro: exI [of _ "Code e"])
    ultimately show ?thesis
      using "2.IH"(1) [OF True] by auto
  next
    case False
    then obtain c o' m' where c: "gen k = Inr c" "mint_loop now gen (Suc k) es = Inr (o', m')"
      "out = e\<lparr>Code := c\<rparr> # o'"
      using "2.prems"(1) by (auto split: sum.splits prod.splits)
    then have "kept_row now gen e (e\<lparr>Code := c\<rparr>)"
      using False by (auto simp: kept_row_def)
    moreover have "list_all2 (kept_row now gen) es o'"
      "Code ` set o' \<subseteq> Code ` set es \<union> {c. \<exists>j \<ge> Suc k. gen j = Inr c}"
      using "2.IH"(2) [OF False c(1,2)] by simp_all
    moreover have "{c. \<exists>j \<ge> Suc k. gen j = Inr c} \<subseteq> {c. \<exists>j \<ge> k. gen j = Inr c}"
      using Suc_leD by blast
    ultimately show ?thesis
      using c(1,3) by auto
  qed
qed auto

lemma mint_loop_uniq:
  "\<lbrakk>mint_loop now gen k es = Inr (out, minted); fresh_gen gen used; Code ` set es \<subseteq> used; uniq_codes es\<rbrakk> \<Longrightarrow>
   uniq_codes out"
proof (induction now gen k es arbitrary: out minted rule: mint_loop.induct)
  case (2 now gen k e es)
  show ?case
  proof (cases "Code e \<noteq> [] \<or> CheckTerms e now \<noteq> None")
    case True
    then obtain o' m' where o': "mint_loop now gen k es = Inr (o', m')" "out = e # o'"
      using "2.prems"(1) by (auto split: sum.splits prod.splits)
    have "Code ` set o' \<subseteq> Code ` set es \<union> {c. \<exists>j \<ge> k. gen j = Inr c}"
      using mint_loop_rows [OF o'(1)] by blast
    then have "Code e = [] \<or> Code e \<notin> Code ` set o'"
      using "2.prems" by (auto simp: fresh_gen_def)
    then show ?thesis
      using "2.IH"(1) [OF True o'(1) "2.prems"(2)] "2.prems" o'(2) by simp
  next
    case False
    then obtain c o' m' where c: "gen k = Inr c" "mint_loop now gen (Suc k) es = Inr (o', m')"
      "out = e\<lparr>Code := c\<rparr> # o'"
      using "2.prems"(1) by (auto split: sum.splits prod.splits)
    have "Code ` set o' \<subseteq> Code ` set es \<union> {c. \<exists>j \<ge> Suc k. gen j = Inr c}"
      using mint_loop_rows [OF c(2)] by blast
    moreover have "c \<notin> Code ` set es"
      using "2.prems"(2,3) c(1) unfolding fresh_gen_def by auto
    moreover have "\<not> (\<exists>j \<ge> Suc k. gen j = Inr c)"
      using "2.prems"(2) c(1) unfolding fresh_gen_def by (metis Suc_n_not_le_n)
    ultimately have "c \<notin> Code ` set o'" by blast
    then show ?thesis
      using "2.IH"(2) [OF False c(1,2) "2.prems"(2)] "2.prems" c(3) by simp
  qed
qed auto

section \<open>Looking a code up\<close>

lemma auth_loop_Some:
  "auth_loop code m i es = Some j \<Longrightarrow>
   m = Some j \<or> (i \<le> j \<and> j - i < length es \<and> Code (es ! (j - i)) = code \<and> code \<noteq> [])"
proof (induction es arbitrary: m i)
  case (Cons e es)
  show ?case
  proof (cases "Code e = code \<and> Code e \<noteq> []")
    case True
    then show ?thesis
      using Cons.prems Cons.IH [of "Some i" "Suc i"] by (auto simp: nth_Cons' diff_Suc split: nat.splits)
  next
    case False
    then have "auth_loop code m (Suc i) es = Some j"
      using Cons.prems by (auto split: if_splits)
    then show ?thesis
      using Cons.IH [of m "Suc i"] by (auto simp: nth_Cons' diff_Suc split: nat.splits)
  qed
qed simp

lemma auth_loop_None:
  "auth_loop code m i es = None \<Longrightarrow> code \<noteq> [] \<Longrightarrow> m = None \<and> code \<notin> Code ` set es"
  by (induction code m i es rule: auth_loop.induct) (auto split: if_splits)

lemma find_code:
  "\<lbrakk>uniq_codes es; e \<in> set es; Code e = code; code \<noteq> []\<rbrakk> \<Longrightarrow> find (\<lambda>e. Code e = code) es = Some e"
  by (induction es) auto

lemma Authorize_ByCode:
  assumes "uniq_codes (entries t)"
  shows "Authorize t code now =
    (case ByCode t code of
       None \<Rightarrow> None
     | Some e \<Rightarrow> if CheckTerms e now = None then Some e else None)"
proof (cases "auth_loop code None 0 (entries t)")
  case None
  then have "code = [] \<or> find (\<lambda>e. Code e = code) (entries t) = None"
    using auth_loop_None [OF None] by (auto simp: find_None_iff)
  with None show ?thesis
    by (auto simp: Authorize_def ByCode_def)
next
  case (Some j)
  then have "j < length (entries t)" "Code (entries t ! j) = code" "code \<noteq> []"
    using auth_loop_Some by fastforce+
  then have "ByCode t code = Some (entries t ! j)"
    using find_code [OF assms, of "entries t ! j" code] by (simp add: ByCode_def)
  with Some show ?thesis
    by (simp add: Authorize_def Let_def)
qed

lemma ByCode_Some:
  "ByCode t code = Some e \<Longrightarrow> e \<in> set (entries t) \<and> Code e = code \<and> code \<noteq> []"
  by (auto simp: ByCode_def find_Some_iff split: if_splits)

lemma seen_twice_None:
  "seen_twice seen es = None \<longleftrightarrow> distinct (map Label es) \<and> Label ` set es \<inter> seen = {}"
  by (induction seen es rule: seen_twice.induct) auto

lemma Build_Ok:
  "Build cwd es off ic = Inr (t, ws) \<Longrightarrow>
   entries t = \<lparr>Label = OwnerLabel, Code = ic, GrantText = [], Expires = None\<rparr> # es \<and> offered t = off \<and>
   distinct (map Label (entries t))"
  by (auto simp: Build_def Let_def seen_twice_None split: option.splits)

end
