(* ===== verification/LinkFile.thy ===== *)
theory LinkFile
  imports Links_Laws
begin

text \<open>
  \<^verbatim>\<open>internal/links/file.go\<close>: decoding, validating, loading and saving \<^verbatim>\<open>links.json\<close>.
  The text of the file is read and written by \<^verbatim>\<open>encoding/json\<close>, so the file on disk holds a
  JSON value, or none when its text is not JSON; the struct decoding of that package (case folded
  field names, the last duplicate wins, null leaves a field alone, unknown fields refused) is
  written out. RFC 3339 times are parsed and printed by \<^verbatim>\<open>package time\<close>, whose two functions
  are the arguments \<open>tparse\<close> and \<open>tfmt\<close>.
\<close>

section \<open>Decoding\<close>

datatype file_error =
    JsonError
  | DeferredField nat
  | NeedsLabel nat
  | BadGrant link_error
  | ReadError
  | WriteError
  | ErrChangedOnDisk

definition deferredFields :: "string list" where
  "deferredFields = [''pin'', ''uses'', ''ttl'', ''scope'']"

fun loose_entry :: "json \<Rightarrow> string list option" where
  "loose_entry (JObj fs) = Some (map fst fs)"
| "loose_entry JNull = Some []"
| "loose_entry _ = None"

fun loose_entries :: "json list \<Rightarrow> string list list option" where
  "loose_entries [] = Some []"
| "loose_entries (j # js) =
     (case loose_entry j of
        None \<Rightarrow> None
      | Some f \<Rightarrow> (case loose_entries js of None \<Rightarrow> None | Some fs \<Rightarrow> Some (f # fs)))"

fun deferred_at :: "nat \<Rightarrow> string list list \<Rightarrow> nat option" where
  "deferred_at i [] = None"
| "deferred_at i (f # fs) = (if list_ex (\<lambda>k. k \<in> set deferredFields) f then Some (i + 1) else deferred_at (i + 1) fs)"

definition zero_terms :: terms where
  "zero_terms = \<lparr>Label = [], Code = [], GrantText = [], Expires = None\<rparr>"

definition decode_field :: "(string \<Rightarrow> int option) \<Rightarrow> terms \<Rightarrow> string \<times> json \<Rightarrow> terms option" where
  "decode_field tparse t kv =
     (case kv of (k, v) \<Rightarrow>
      if ToLower k = ''label'' then
        (case v of JStr s \<Rightarrow> Some (t\<lparr>Label := s\<rparr>) | JNull \<Rightarrow> Some t | _ \<Rightarrow> None)
      else if ToLower k = ''code'' then
        (case v of JStr s \<Rightarrow> Some (t\<lparr>Code := s\<rparr>) | JNull \<Rightarrow> Some t | _ \<Rightarrow> None)
      else if ToLower k = ''grant'' then
        (case v of JStr s \<Rightarrow> Some (t\<lparr>GrantText := s\<rparr>) | JNull \<Rightarrow> Some t | _ \<Rightarrow> None)
      else if ToLower k = ''expires'' then
        (case v of
           JStr s \<Rightarrow> (case tparse s of Some x \<Rightarrow> Some (t\<lparr>Expires := Some x\<rparr>) | None \<Rightarrow> None)
         | JNull \<Rightarrow> Some (t\<lparr>Expires := None\<rparr>)
         | _ \<Rightarrow> None)
      else None)"

fun decode_fields :: "(string \<Rightarrow> int option) \<Rightarrow> terms \<Rightarrow> (string \<times> json) list \<Rightarrow> terms option" where
  "decode_fields tparse t [] = Some t"
| "decode_fields tparse t (kv # kvs) =
     (case decode_field tparse t kv of None \<Rightarrow> None | Some t' \<Rightarrow> decode_fields tparse t' kvs)"

fun decode_entries :: "(string \<Rightarrow> int option) \<Rightarrow> json list \<Rightarrow> terms list option" where
  "decode_entries tparse [] = Some []"
| "decode_entries tparse (j # js) =
     (case (case j of JObj fs \<Rightarrow> decode_fields tparse zero_terms fs | JNull \<Rightarrow> Some zero_terms | _ \<Rightarrow> None) of
        None \<Rightarrow> None
      | Some t \<Rightarrow> (case decode_entries tparse js of None \<Rightarrow> None | Some ts \<Rightarrow> Some (t # ts)))"

definition ParseLinks :: "(string \<Rightarrow> int option) \<Rightarrow> json option \<Rightarrow> (file_error, terms list) go_result" where
  "ParseLinks tparse data =
     (case data of
        None \<Rightarrow> Err JsonError
      | Some JNull \<Rightarrow> Ok []
      | Some (JArr js) \<Rightarrow>
          (case loose_entries js of
             None \<Rightarrow> Err JsonError
           | Some fs \<Rightarrow>
               (case deferred_at 0 fs of
                  Some n \<Rightarrow> Err (DeferredField n)
                | None \<Rightarrow>
                    (case decode_entries tparse js of None \<Rightarrow> Err JsonError | Some ts \<Rightarrow> Ok ts)))
      | Some _ \<Rightarrow> Err JsonError)"

fun validate_from :: "nat \<Rightarrow> terms list \<Rightarrow> file_error option" where
  "validate_from i [] = None"
| "validate_from i (e # es) =
     (if TrimSpace (Label e) = [] then Some (NeedsLabel (i + 1))
      else case TermsSpec e of Inl x \<Rightarrow> Some (BadGrant x) | Inr _ \<Rightarrow> validate_from (i + 1) es)"

definition Validate :: "terms list \<Rightarrow> file_error option" where
  "Validate es = validate_from 0 es"

section \<open>The file\<close>

datatype disk = NoFile | Unreadable | File "json option" int

definition LoadLinks :: "(string \<Rightarrow> int option) \<Rightarrow> disk \<Rightarrow> (file_error, terms list \<times> int option) go_result" where
  "LoadLinks tparse d =
     (case d of
        NoFile \<Rightarrow> Ok ([], None)
      | Unreadable \<Rightarrow> Err ReadError
      | File data m \<Rightarrow>
          (case ParseLinks tparse data of
             Inl e \<Rightarrow> Err e
           | Inr es \<Rightarrow> (case Validate es of Some e \<Rightarrow> Err e | None \<Rightarrow> Ok (es, Some m))))"

definition encode_terms :: "(int \<Rightarrow> string) \<Rightarrow> terms \<Rightarrow> json" where
  "encode_terms tfmt t =
     JObj ([(''label'', JStr (Label t))]
       @ (if Code t = [] then [] else [(''code'', JStr (Code t))])
       @ (if GrantText t = [] then [] else [(''grant'', JStr (GrantText t))])
       @ (case Expires t of None \<Rightarrow> [] | Some x \<Rightarrow> [(''expires'', JStr (tfmt x))]))"

text \<open>An empty list reaches \<^verbatim>\<open>Save\<close> as a nil slice, which is written as null.\<close>

definition encode_entries :: "(int \<Rightarrow> string) \<Rightarrow> terms list \<Rightarrow> json" where
  "encode_entries tfmt es = (if es = [] then JNull else JArr (map (encode_terms tfmt) es))"

text \<open>
  \<^verbatim>\<open>Save\<close>: \<open>wmod\<close> is the modification time the rename leaves, or \<open>None\<close> when writing
  the temporary file or renaming it fails.
\<close>

definition SaveLinks :: "(int \<Rightarrow> string) \<Rightarrow> int option \<Rightarrow> disk \<Rightarrow> terms list \<Rightarrow> int option \<Rightarrow> disk \<times> file_error option" where
  "SaveLinks tfmt wmod d es loadedMod =
     (let write = (case wmod of
            None \<Rightarrow> (d, Some WriteError)
          | Some m \<Rightarrow> (File (Some (encode_entries tfmt es)) m, None))
      in case d of
           NoFile \<Rightarrow> if loadedMod \<noteq> None then (d, Some ErrChangedOnDisk) else write
         | Unreadable \<Rightarrow> (d, Some ReadError)
         | File _ m \<Rightarrow> if loadedMod \<noteq> Some m then (d, Some ErrChangedOnDisk) else write)"

section \<open>Round trip\<close>

lemma decode_encode_terms:
  assumes "\<And>x. tparse (tfmt x) = Some x"
  shows "(case encode_terms tfmt t of JObj fs \<Rightarrow> decode_fields tparse zero_terms fs | JNull \<Rightarrow> Some zero_terms | _ \<Rightarrow> None) = Some t"
proof -
  have low: "ToLower ''label'' = ''label''" "ToLower ''code'' = ''code''" "ToLower ''grant'' = ''grant''"
    "ToLower ''expires'' = ''expires''"
    by code_simp+
  have d: "decode_field tparse u (''label'', JStr s) = Some (u\<lparr>Label := s\<rparr>)"
    "decode_field tparse u (''code'', JStr s) = Some (u\<lparr>Code := s\<rparr>)"
    "decode_field tparse u (''grant'', JStr s) = Some (u\<lparr>GrantText := s\<rparr>)"
    "decode_field tparse u (''expires'', JStr (tfmt x)) = Some (u\<lparr>Expires := Some x\<rparr>)" for u s x
    by (simp_all add: decode_field_def low assms)
  show ?thesis
    by (cases t; cases "Expires t") (auto simp: encode_terms_def d zero_terms_def)
qed

lemma decode_encode_entries:
  assumes "\<And>x. tparse (tfmt x) = Some x"
  shows "decode_entries tparse (map (encode_terms tfmt) es) = Some es"
  by (induction es) (simp_all add: decode_encode_terms [OF assms])

lemma loose_encoded:
  "loose_entries (map (encode_terms tfmt) es) = Some fs \<Longrightarrow> deferred_at i fs = None"
proof (induction es arbitrary: i fs)
  case (Cons e es)
  obtain f where f: "loose_entry (encode_terms tfmt e) = Some f" "\<not> list_ex (\<lambda>k. k \<in> set deferredFields) f"
    by (cases "Expires e") (simp_all add: encode_terms_def deferredFields_def)
  with Cons f(1) show ?case
    by (auto split: option.splits)
qed simp

lemma loose_encoded_Some: "\<exists>fs. loose_entries (map (encode_terms tfmt) es) = Some fs"
  by (induction es) (auto simp: encode_terms_def)

lemma ParseLinks_encode:
  assumes "\<And>x. tparse (tfmt x) = Some x"
  shows "ParseLinks tparse (Some (encode_entries tfmt es)) = Ok es"
  using loose_encoded_Some [of tfmt es] decode_encode_entries [OF assms, of es] loose_encoded [of tfmt es]
  by (auto simp: ParseLinks_def encode_entries_def)

lemma SaveLinks_Ok:
  assumes "SaveLinks tfmt wmod d es lm = (d', None)"
  shows "\<exists>m. wmod = Some m \<and> d' = File (Some (encode_entries tfmt es)) m"
  using assms by (auto simp: SaveLinks_def Let_def split: disk.splits option.splits if_splits)

lemma SaveLinks_Err: "SaveLinks tfmt wmod d es lm = (d', Some e) \<Longrightarrow> d' = d"
  by (auto simp: SaveLinks_def Let_def split: disk.splits option.splits if_splits)

lemma SaveLinks_clash:
  "d = File data m \<Longrightarrow> lm \<noteq> Some m \<Longrightarrow> SaveLinks tfmt wmod d es lm = (d, Some ErrChangedOnDisk)"
  by (simp add: SaveLinks_def)

lemma LoadLinks_None_iff:
  "LoadLinks tparse d = Ok (es, m) \<Longrightarrow> Validate es = None"
  by (auto simp: LoadLinks_def Validate_def split: disk.splits sum.splits option.splits)

text \<open>
  The link file round trip: whatever valid rows are saved, reading the file back gives exactly
  those rows (label, code, grant sentence and expiry), given that \<^verbatim>\<open>package time\<close> parses what
  it prints.
\<close>

theorem links_file_round_trip:
  assumes "\<forall>x. tparse (tfmt x) = Some x"
    and "Validate es = None"
    and "SaveLinks tfmt wmod d es loadedMod = (d', None)"
  shows "\<exists>m. wmod = Some m \<and> LoadLinks tparse d' = Ok (es, Some m)"
  using SaveLinks_Ok [OF assms(3)] ParseLinks_encode [of tparse tfmt es] assms(1,2)
  by (auto simp: LoadLinks_def)

text \<open>A concrete pair of time functions, for the witnesses.\<close>

definition stamp_print :: "int \<Rightarrow> string" where
  "stamp_print x = replicate (nat (if 0 \<le> x then 2 * x else - 2 * x - 1)) CHR ''z''"

definition stamp_parse :: "string \<Rightarrow> int option" where
  "stamp_parse s = Some (if even (length s) then int (length s div 2) else - int (Suc (length s) div 2))"

lemma stamp_round_trip: "stamp_parse (stamp_print x) = Some x"
proof (cases "0 \<le> x")
  case True
  then show ?thesis
    by (simp add: stamp_parse_def stamp_print_def nat_mult_distrib)
next
  case False
  then have "nat (- 2 * x - 1) = 2 * nat (- x - 1) + 1"
    by linarith
  then have "length (stamp_print x) = 2 * nat (- x - 1) + 1"
    using False by (simp add: stamp_print_def)
  with False show ?thesis
    by (simp add: stamp_parse_def)
qed

theorem links_file_round_trip_witness:
  "\<exists>m. Some (7 :: int) = Some m \<and>
     LoadLinks stamp_parse (fst (SaveLinks stamp_print (Some 7) NoFile
        [\<lparr>Label = ''ana'', Code = ''c1'', GrantText = ''forward db:22'', Expires = Some 3\<rparr>] None)) =
     Ok ([\<lparr>Label = ''ana'', Code = ''c1'', GrantText = ''forward db:22'', Expires = Some 3\<rparr>], Some m)"
proof (rule links_file_round_trip)
  let ?es = "[\<lparr>Label = ''ana'', Code = ''c1'', GrantText = ''forward db:22'', Expires = Some 3\<rparr>]"
  show "\<forall>x. stamp_parse (stamp_print x) = Some x"
    by (simp add: stamp_round_trip)
  show "Validate ?es = None"
    by code_simp
  show "SaveLinks stamp_print (Some 7) NoFile ?es None = (fst (SaveLinks stamp_print (Some 7) NoFile ?es None), None)"
    by (simp add: SaveLinks_def)
qed

end
