(* ===== verification/LinkState.thy ===== *)
theory LinkState
  imports LinkFile
begin

text \<open>
  \<^verbatim>\<open>cmd/bitbang/serve_links.go\<close>: the listener's link table and every path that replaces it.
  \<open>link_env\<close> gathers what an operation takes from outside: the clock, the working directory, the
  time functions, the order a map is ranged over, the code generator, and the modification time a
  write leaves behind (or its failure). Messages to the terminal are not modelled.
\<close>

section \<open>Definitions\<close>

record link_env =
  env_cwd :: string
  env_now :: int
  env_tparse :: "string \<Rightarrow> int option"
  env_tfmt :: "int \<Rightarrow> string"
  env_range :: "terms list \<Rightarrow> string list"
  env_gen :: "nat \<Rightarrow> string + string"
  env_wmod :: "int option"

record link_state =
  ls_offered :: grant_spec
  ls_code :: string
  ls_readOnly :: bool
  ls_table :: link_table
  ls_mod :: "int option"

datatype state_error =
    FileErr file_error
  | GenErr string
  | TableErr link_error
  | EphemeralTable
  | LabelTaken string
  | NoSuchLink string
  | IsOwner

definition load_or_empty :: "link_env \<Rightarrow> link_state \<Rightarrow> disk \<Rightarrow> (file_error, terms list \<times> int option) go_result" where
  "load_or_empty v ls d = (if ls_readOnly ls then Ok ([], None) else LoadLinks (env_tparse v) d)"

definition reload_rows :: "link_env \<Rightarrow> string \<Rightarrow> terms list \<Rightarrow> (string, terms list \<times> string list) go_result" where
  "reload_rows v code es =
     (if es = [] then Ok ([], [])
      else
        let (es1, conflicts) = DedupeCodes (env_range v es) es code;
            changed = concat (map Labels (filter (\<lambda>c. \<not> Reserved c) conflicts));
            (es2, retired) = RetireExpired es1 (env_now v)
        in case Mint es2 (env_now v) (env_gen v) of
             Inl e \<Rightarrow> Err e
           | Inr (es3, minted) \<Rightarrow> Ok (es3, changed @ retired @ minted))"

definition install :: "link_env \<Rightarrow> link_state \<Rightarrow> terms list \<Rightarrow> int option \<Rightarrow> (link_error, link_state) go_result" where
  "install v ls es m =
     (case Build (env_cwd v) es (ls_offered ls) (ls_code ls) of
        Inl e \<Rightarrow> Err e
      | Inr (t, _) \<Rightarrow> Ok (ls\<lparr>ls_table := t, ls_mod := m\<rparr>))"

definition restat :: "link_env \<Rightarrow> disk \<Rightarrow> int option \<Rightarrow> int option" where
  "restat v d m = (case LoadLinks (env_tparse v) d of Inl _ \<Rightarrow> m | Inr (_, m') \<Rightarrow> m')"

definition reload :: "link_env \<Rightarrow> link_state \<Rightarrow> disk \<Rightarrow> link_state \<times> disk \<times> state_error option" where
  "reload v ls d =
     (case load_or_empty v ls d of
        Inl e \<Rightarrow> (ls, d, Some (FileErr e))
      | Inr (es, m) \<Rightarrow>
          (case reload_rows v (ls_code ls) es of
             Inl e \<Rightarrow> (ls, d, Some (GenErr e))
           | Inr (es', changed) \<Rightarrow>
               (case (if changed = [] then (d, None) else SaveLinks (env_tfmt v) (env_wmod v) d es' m) of
                  (d', Some e) \<Rightarrow> (ls, d', Some (FileErr e))
                | (d', None) \<Rightarrow>
                    let m' = (if changed = [] then m else restat v d' m) in
                    (case install v ls es' m' of
                       Inl e \<Rightarrow> (ls, d', Some (TableErr e))
                     | Inr ls' \<Rightarrow> (ls', d', None)))))"

definition newLinkState :: "link_env \<Rightarrow> grant_spec \<Rightarrow> string \<Rightarrow> bool \<Rightarrow> disk \<Rightarrow> (state_error, link_state) go_result \<times> disk" where
  "newLinkState v off code ephemeral d =
     (let ls = \<lparr>ls_offered = off, ls_code = code, ls_readOnly = ephemeral,
                ls_table = \<lparr>entries = [], offered = zero_spec\<rparr>, ls_mod = None\<rparr>
      in case reload v ls d of
           (_, d', Some e) \<Rightarrow> (Err e, d')
         | (ls', d', None) \<Rightarrow> (Ok ls', d'))"

definition mutate :: "(terms list \<Rightarrow> (state_error, terms list) go_result) \<Rightarrow> link_env \<Rightarrow> link_state \<Rightarrow> disk \<Rightarrow>
    link_state \<times> disk \<times> state_error option" where
  "mutate fn v ls d =
     (if ls_readOnly ls then (ls, d, Some EphemeralTable)
      else case LoadLinks (env_tparse v) d of
        Inl e \<Rightarrow> (ls, d, Some (FileErr e))
      | Inr (es0, m) \<Rightarrow>
          (case fn es0 of
             Inl e \<Rightarrow> (ls, d, Some e)
           | Inr es \<Rightarrow>
               let es1 = fst (DedupeCodes (env_range v es) es (ls_code ls));
                   es2 = fst (RetireExpired es1 (env_now v))
               in case Mint es2 (env_now v) (env_gen v) of
                    Inl e \<Rightarrow> (ls, d, Some (GenErr e))
                  | Inr (es3, _) \<Rightarrow>
                      (case SaveLinks (env_tfmt v) (env_wmod v) d es3 m of
                         (d', Some e) \<Rightarrow> (ls, d', Some (FileErr e))
                       | (d', None) \<Rightarrow>
                           (case install v ls es3 (restat v d' m) of
                              Inl e \<Rightarrow> (ls, d', Some (TableErr e))
                            | Inr ls' \<Rightarrow> (ls', d', None)))))"

definition add_fn :: "terms \<Rightarrow> terms list \<Rightarrow> (state_error, terms list) go_result" where
  "add_fn e es = (if list_ex (\<lambda>x. Label x = Label e) es then Err (LabelTaken (Label e)) else Ok (es @ [e]))"

definition addLink :: "terms \<Rightarrow> link_env \<Rightarrow> link_state \<Rightarrow> disk \<Rightarrow> link_state \<times> disk \<times> (state_error, string) go_result" where
  "addLink e v ls d =
     (if Label e = OwnerLabel then (ls, d, Err IsOwner)
      else case mutate (add_fn (e\<lparr>Code := []\<rparr>)) v ls d of
        (ls', d', Some x) \<Rightarrow> (ls', d', Err x)
      | (ls', d', None) \<Rightarrow>
          (ls', d', Ok (case ByLabel (ls_table ls') (Label e) of None \<Rightarrow> [] | Some a \<Rightarrow> Code a)))"

definition remove_fn :: "string \<Rightarrow> terms list \<Rightarrow> (state_error, terms list) go_result" where
  "remove_fn label es =
     (if list_ex (\<lambda>x. Label x = label) es then Ok (filter (\<lambda>x. Label x \<noteq> label) es) else Err (NoSuchLink label))"

definition removeLink :: "string \<Rightarrow> link_env \<Rightarrow> link_state \<Rightarrow> disk \<Rightarrow> link_state \<times> disk \<times> state_error option" where
  "removeLink label v ls d =
     (if label = OwnerLabel then (ls, d, Some IsOwner) else mutate (remove_fn label) v ls d)"

fun replace_loop :: "string \<Rightarrow> terms \<Rightarrow> bool \<Rightarrow> terms list \<Rightarrow> terms list \<Rightarrow> (state_error, terms list) go_result" where
  "replace_loop old e found out [] = (if found then Ok out else Err (NoSuchLink old))"
| "replace_loop old e found out (x # xs) =
     (if Label x = old then replace_loop old e True (out @ [e\<lparr>Code := Code x\<rparr>]) xs
      else if Label x = Label e then Err (LabelTaken (Label e))
      else replace_loop old e found (out @ [x]) xs)"

definition replaceLink :: "string \<Rightarrow> terms \<Rightarrow> link_env \<Rightarrow> link_state \<Rightarrow> disk \<Rightarrow> link_state \<times> disk \<times> state_error option" where
  "replaceLink old e v ls d =
     (if old = OwnerLabel \<or> Label e = OwnerLabel then (ls, d, Some IsOwner)
      else mutate (replace_loop old e False []) v ls d)"

definition labels :: "link_state \<Rightarrow> string list" where
  "labels ls = sort (map Label (entries (ls_table ls)))"

definition takenLabels :: "link_state \<Rightarrow> string \<Rightarrow> string set" where
  "takenLabels ls except = set (filter (\<lambda>l. l \<noteq> except) (labels ls))"

definition byRef :: "link_state \<Rightarrow> string \<Rightarrow> string" where
  "byRef ls arg =
     (let es = entries (ls_table ls) in
      if list_ex (\<lambda>e. Label e = arg) es then arg
      else case Atoi arg of
        Some n \<Rightarrow> if 0 \<le> n \<and> n < int (length es) then Label (es ! nat n) else arg
      | None \<Rightarrow> arg)"

abbreviation ns_minute :: int where "ns_minute \<equiv> 60000000000"
abbreviation ns_hour :: int where "ns_hour \<equiv> 60 * ns_minute"
abbreviation ns_day :: int where "ns_day \<equiv> 24 * ns_hour"

text \<open>
  A \<^verbatim>\<open>time.Duration\<close> is a 64-bit integer: \<^verbatim>\<open>Time.Sub\<close> saturates, addition wraps and
  division truncates.
\<close>

definition wrap64 :: "int \<Rightarrow> int" where
  "wrap64 x = (x + 2 ^ 63) mod 2 ^ 64 - 2 ^ 63"

definition SubTime :: "int \<Rightarrow> int \<Rightarrow> int" where
  "SubTime t u = max (- (2 ^ 63)) (min (2 ^ 63 - 1) (t - u))"

definition quo :: "int \<Rightarrow> int \<Rightarrow> int" where
  "quo a b = sgn a * sgn b * (\<bar>a\<bar> div \<bar>b\<bar>)"

definition ceilUnits :: "int \<Rightarrow> int \<Rightarrow> int" where
  "ceilUnits d unit = quo (wrap64 (wrap64 (d + unit) - 1)) unit"

definition expiryNote :: "terms \<Rightarrow> int \<Rightarrow> string" where
  "expiryNote t now =
     (case Expires t of
        None \<Rightarrow> []
      | Some e \<Rightarrow>
          if CheckTerms t now \<noteq> None then ''expired''
          else
            let left = SubTime e now in
            if left > ns_day then ''expires in '' @ Itoa (ceilUnits left ns_day) @ ''d''
            else if left > ns_hour then ''expires in '' @ Itoa (ceilUnits left ns_hour) @ ''h''
            else if left > ns_minute then ''expires in '' @ Itoa (ceilUnits left ns_minute) @ ''m''
            else ''expires shortly'')"

section \<open>The invariant\<close>

definition owner_row :: "string \<Rightarrow> terms" where
  "owner_row code = \<lparr>Label = OwnerLabel, Code = code, GrantText = [], Expires = None\<rparr>"

definition ls_inv :: "link_state \<Rightarrow> bool" where
  "ls_inv ls \<longleftrightarrow>
     (\<exists>es. entries (ls_table ls) = owner_row (ls_code ls) # es) \<and>
     offered (ls_table ls) = ls_offered ls \<and>
     uniq_codes (entries (ls_table ls)) \<and>
     distinct (map Label (entries (ls_table ls)))"

text \<open>
  What an operation relies on: the map of codes is ranged over once per key, and the generator
  yields codes that are new with respect to the file and the device's own code.
\<close>

definition env_ok :: "link_env \<Rightarrow> string \<Rightarrow> terms list \<Rightarrow> bool" where
  "env_ok v code es \<longleftrightarrow>
     code_order (env_range v es) es \<and> fresh_gen (env_gen v) (insert code (insert [] (Code ` set es)))"

definition passes :: "link_env \<Rightarrow> string \<Rightarrow> terms list \<Rightarrow> (string, terms list \<times> string list) go_result" where
  "passes v code es =
     Mint (fst (RetireExpired (fst (DedupeCodes (env_range v es) es code)) (env_now v))) (env_now v) (env_gen v)"

text \<open>What the passes make of one row.\<close>

definition passed_row :: "link_env \<Rightarrow> string \<Rightarrow> terms list \<Rightarrow> terms \<Rightarrow> terms \<Rightarrow> bool" where
  "passed_row v code es e e' \<longleftrightarrow>
     e' = e\<lparr>Code := Code e'\<rparr> \<and>
     (if CheckTerms e (env_now v) \<noteq> None then Code e' = []
      else if Code e \<noteq> [] \<and> \<not> shared_code es code (Code e) then Code e' = Code e
      else Code e' \<noteq> [] \<and> Code e' \<notin> Code ` set es \<and> Code e' \<noteq> code)"

lemma passed_rowI:
  assumes "kept_row (env_now v) (env_gen v) (retire_row (env_now v) (strip_shared es code e)) e'"
    and "fresh_gen (env_gen v) (insert code (insert [] (Code ` set es)))"
  shows "passed_row v code es e e'"
  using assms
  by (auto simp: passed_row_def kept_row_def fresh_gen_def retire_row_def strip_shared_def split: if_splits)

lemma passes_rows:
  assumes "env_ok v code es" "passes v code es = Inr (es', minted)"
  shows "list_all2 (passed_row v code es) es es'"
proof -
  have "list_all2 (kept_row (env_now v) (env_gen v)) (map (retire_row (env_now v)) (map (strip_shared es code) es)) es'"
    using assms mint_loop_rows
    by (auto simp: env_ok_def passes_def Mint_def RetireExpired_map DedupeCodes_map)
  then show ?thesis
    using assms(1) passed_rowI by (auto simp: list_all2_map1 env_ok_def elim: list_all2_mono)
qed

lemma passes_uniq:
  assumes "env_ok v code es" "passes v code es = Inr (es', minted)"
  shows "uniq_codes (owner_row code # es')"
proof -
  let ?d = "fst (DedupeCodes (env_range v es) es code)"
  let ?r = "fst (RetireExpired ?d (env_now v))"
  have ord: "code_order (env_range v es) es"
    and fresh: "fresh_gen (env_gen v) (insert code (insert [] (Code ` set es)))"
    using assms(1) by (simp_all add: env_ok_def)
  have sub: "Code ` set ?r \<subseteq> insert code (insert [] (Code ` set es))"
    by (auto simp: RetireExpired_map retire_row_def DedupeCodes_map [OF ord] strip_shared_def)
  have "uniq_codes es'"
    using mint_loop_uniq [OF _ fresh sub RetireExpired_uniq [OF DedupeCodes_uniq(1) [OF ord]]] assms(2)
    by (simp add: passes_def Mint_def)
  moreover have "code \<notin> Code ` set es'" if "code \<noteq> []"
  proof -
    have "code \<notin> Code ` set ?r"
      using DedupeCodes_uniq(2) [OF ord that] retire_codes [of ?d "env_now v"] that by auto
    moreover have "Code ` set es' \<subseteq> Code ` set ?r \<union> {c. \<exists>j \<ge> 0. env_gen v j = Inr c}"
      using assms(2) mint_loop_rows [of "env_now v" "env_gen v" 0 ?r es' minted] by (simp add: passes_def Mint_def)
    ultimately show ?thesis
      using fresh by (auto simp: fresh_gen_def)
  qed
  ultimately show ?thesis
    by (auto simp: owner_row_def)
qed

lemma passes_mem:
  assumes "env_ok v code es" "passes v code es = Inr (es', minted)" "e' \<in> set es'"
  obtains e where "e \<in> set es" "passed_row v code es e e'"
  using list_all2_pick2 [OF passes_rows [OF assms(1,2)] assms(3)] by blast

lemma passes_codes:
  assumes "code_order (env_range v es) es" "passes v code es = Inr (es', minted)"
  shows "Code ` set es' \<subseteq> insert [] (Code ` set es) \<union> {c. \<exists>k. env_gen v k = Inr c}"
proof -
  let ?r = "fst (RetireExpired (fst (DedupeCodes (env_range v es) es code)) (env_now v))"
  have "Code ` set ?r \<subseteq> insert [] (Code ` set es)"
    by (auto simp: RetireExpired_map retire_row_def DedupeCodes_map [OF assms(1)] strip_shared_def)
  moreover have "Code ` set es' \<subseteq> Code ` set ?r \<union> {c. \<exists>j \<ge> 0. env_gen v j = Inr c}"
    using assms(2) mint_loop_rows [of "env_now v" "env_gen v" 0 ?r es' minted] by (simp add: passes_def Mint_def)
  ultimately show ?thesis by blast
qed

lemma passed_row_keeps:
  "\<lbrakk>passed_row v code es e e'; CheckTerms e (env_now v) = None; Code e \<noteq> []; \<not> shared_code es code (Code e)\<rbrakk> \<Longrightarrow> e' = e"
  by (cases e; cases e') (auto simp: passed_row_def)

lemma passes_keeps:
  assumes "env_ok v code es" "passes v code es = Inr (es', minted)"
    and "e \<in> set es" "CheckTerms e (env_now v) = None" "Code e \<noteq> []" "\<not> shared_code es code (Code e)"
  shows "e \<in> set es'"
  using list_all2_pick1 [OF passes_rows [OF assms(1,2)] assms(3)] passed_row_keeps assms(4-6) by blast

lemma length_rows_with: "length (rows_with es c) = length (filter (\<lambda>e. Code e = c) es)"
proof -
  have "map ((!) es) (rows_with es c) = filter (\<lambda>e. Code e = c) (map ((!) es) [0..<length es])"
    by (simp add: rows_with_def filter_map comp_def)
  then show ?thesis
    by (metis length_map map_nth)
qed

lemma uniq_not_shared:
  assumes "uniq_codes es" "c \<noteq> []" "c \<noteq> code"
  shows "\<not> shared_code es code c"
proof -
  have "length (filter (\<lambda>e. Code e = c) es) \<le> 1"
    using assms(1,2)
  proof (induction es)
    case (Cons e es)
    have "filter (\<lambda>e. Code e = c) es = []" if "Code e = c"
      using Cons.prems that by (auto simp: filter_empty_conv image_iff)
    with Cons show ?case by auto
  qed simp
  then show ?thesis
    using assms(3) by (simp add: shared_code_def length_rows_with)
qed

lemma fresh_gen_mono: "fresh_gen gen used \<Longrightarrow> used' \<subseteq> used \<Longrightarrow> fresh_gen gen used'"
  unfolding fresh_gen_def by blast

lemma uniq_codes_filter: "uniq_codes es \<Longrightarrow> uniq_codes (filter p es)"
  by (induction es) auto

section \<open>The operations keep the invariant\<close>

lemma install_Ok:
  assumes "install v ls es m = Inr ls'"
  shows "entries (ls_table ls') = owner_row (ls_code ls) # es" "offered (ls_table ls') = ls_offered ls"
    "ls_code ls' = ls_code ls" "ls_offered ls' = ls_offered ls"
    "distinct (map Label (entries (ls_table ls')))"
proof -
  obtain t ws where "Build (env_cwd v) es (ls_offered ls) (ls_code ls) = Inr (t, ws)"
      "ls' = ls\<lparr>ls_table := t, ls_mod := m\<rparr>"
    using assms by (auto simp: install_def split: sum.splits)
  with Build_Ok [OF this(1)] show "entries (ls_table ls') = owner_row (ls_code ls) # es"
    "offered (ls_table ls') = ls_offered ls" "ls_code ls' = ls_code ls" "ls_offered ls' = ls_offered ls"
    "distinct (map Label (entries (ls_table ls')))"
    by (auto simp: owner_row_def)
qed

lemma reload_rows_passes:
  "env_ok v code es \<Longrightarrow> reload_rows v code es = Inr (es', changed) \<Longrightarrow> \<exists>minted. passes v code es = Inr (es', minted)"
  by (auto simp: reload_rows_def passes_def env_ok_def DedupeCodes_map RetireExpired_map Let_def split_beta Mint_def
      split: if_splits sum.splits)

lemma reload_cases:
  assumes "reload v ls d = (ls', d', None)"
  obtains es m es' changed m' where "load_or_empty v ls d = Inr (es, m)"
    "reload_rows v (ls_code ls) es = Inr (es', changed)" "install v ls es' m' = Inr ls'"
  using assms by (auto simp: reload_def Let_def split: sum.splits prod.splits option.splits)

lemma mutate_cases:
  assumes "mutate fn v ls d = (ls', d', None)"
  obtains es0 m es es' minted m' where "LoadLinks (env_tparse v) d = Inr (es0, m)" "fn es0 = Inr es"
    "passes v (ls_code ls) es = Inr (es', minted)" "SaveLinks (env_tfmt v) (env_wmod v) d es' m = (d', None)"
    "install v ls es' m' = Inr ls'"
  using assms by (auto simp: mutate_def passes_def Let_def split: sum.splits prod.splits option.splits if_splits)

lemma reload_failed: "reload v ls d = (ls', d', Some e) \<Longrightarrow> ls' = ls"
  by (auto simp: reload_def Let_def split: sum.splits prod.splits option.splits)

lemma mutate_failed: "mutate fn v ls d = (ls', d', Some e) \<Longrightarrow> ls' = ls"
  by (auto simp: mutate_def Let_def split: sum.splits prod.splits option.splits if_splits)

lemma installed_inv:
  assumes "install v ls es' m' = Inr ls'" "env_ok v (ls_code ls) es" "passes v (ls_code ls) es = Inr (es', minted)"
  shows "ls_inv ls'"
  using install_Ok [OF assms(1)] passes_uniq [OF assms(2,3)] by (simp add: ls_inv_def)

end
