(* ===== verification/Listener.thy ===== *)
theory Listener
  imports LinkState PeerSet FrameQueue
begin

text \<open>
  \<^verbatim>\<open>cmd/bitbang/serve_peer.go\<close> and \<^verbatim>\<open>serve_listen.go\<close>: the life of one connector on a
  \<^verbatim>\<open>serve\<close> listener, and the listener's handlers. Peers are objects the registry, the timers
  and the callbacks share, so they live in a heap and are named by address. A session is represented
  by the effective grant its handler set is built from. What the connection layer reports (whether a
  request yields a connection, what an answer turns out to hold, when a channel closes) comes in with
  the events; log lines and the video bridge's contents are left out.
\<close>

section \<open>One peer\<close>

record peer_state =
  p_label :: string
  p_terms :: terms
  p_sess :: "grant_spec option"
  p_shell :: bool
  p_tcp :: bool
  p_bridge :: bool

datatype teardown = StopDeadline | CloseSession | CloseShell | CloseTCP | CloseBridge | ReleaseSlot

record serve_peer =
  sp_id :: string
  sp_q :: "peer_state queue"
  sp_deadline :: "deadline option"
  sp_release :: bool
  sp_released :: bool
  sp_pairing :: bool
  sp_goodbye :: "string option"

definition newServePeer :: "string \<Rightarrow> serve_peer" where
  "newServePeer clientID =
     \<lparr>sp_id = clientID,
      sp_q = NewQueue False 0 \<lparr>p_label = [], p_terms = zero_terms, p_sess = None, p_shell = False, p_tcp = False, p_bridge = False\<rparr>,
      sp_deadline = None, sp_release = False, sp_released = False, sp_pairing = False, sp_goodbye = None\<rparr>"

definition grantPeer :: "terms \<Rightarrow> serve_peer \<Rightarrow> serve_peer" where
  "grantPeer t p = p\<lparr>sp_q := Locked (\<lambda>_ ow. ow\<lparr>p_label := Label t, p_terms := t\<rparr>) (sp_q p)\<rparr>"

definition granted :: "serve_peer \<Rightarrow> string \<times> terms" where
  "granted p = (p_label (q_owner (sp_q p)), p_terms (q_owner (sp_q p)))"

definition admit :: "grant_spec \<Rightarrow> serve_peer \<Rightarrow> serve_peer \<times> bool" where
  "admit sess p =
     (case Publish True (Some (\<lambda>ow. ow\<lparr>p_sess := Some sess, p_shell := HasScope sess ScopeShell, p_tcp := HasScope sess ScopeForward\<rparr>)) (sp_q p) of
        (q, None) \<Rightarrow> (p\<lparr>sp_q := q\<rparr>, False)
      | (q, Some _) \<Rightarrow> (p\<lparr>sp_q := q\<rparr>, True))"

text \<open>What \<^verbatim>\<open>close\<close> captures under the lock and runs after it, in order.\<close>

definition teardowns :: "serve_peer \<Rightarrow> peer_state \<Rightarrow> teardown list" where
  "teardowns p ow =
     (if sp_deadline p \<noteq> None then [StopDeadline] else [])
     @ (if p_sess ow \<noteq> None then [CloseSession] else [])
     @ (if p_shell ow then [CloseShell] else [])
     @ (if p_tcp ow then [CloseTCP] else [])
     @ (if p_bridge ow then [CloseBridge] else [])
     @ (if sp_release p then [ReleaseSlot] else [])"

section \<open>The listener\<close>

record listener =
  l_cfg :: serve_config
  l_links :: link_state
  l_peers :: "nat peer_set"
  l_heap :: "serve_peer list"
  l_unauth :: int

definition maxUnauthSessions :: int where
  "maxUnauthSessions = 10"

definition upd_peer :: "nat \<Rightarrow> (serve_peer \<Rightarrow> serve_peer) \<Rightarrow> listener \<Rightarrow> listener" where
  "upd_peer a f l = l\<lparr>l_heap := (l_heap l)[a := f (l_heap l ! a)]\<rparr>"

text \<open>The once-guarded release of an unauthenticated slot.\<close>

definition releaseSlot :: "nat \<Rightarrow> listener \<Rightarrow> listener" where
  "releaseSlot a l =
     (if sp_release (l_heap l ! a) \<and> \<not> sp_released (l_heap l ! a)
      then upd_peer a (\<lambda>p. p\<lparr>sp_released := True\<rparr>) (l\<lparr>l_unauth := l_unauth l - 1\<rparr>)
      else l)"

fun run_teardown :: "nat \<Rightarrow> teardown \<Rightarrow> listener \<Rightarrow> listener" where
  "run_teardown a StopDeadline l = upd_peer a (\<lambda>p. p\<lparr>sp_deadline := Done (sp_deadline p)\<rparr>) l"
| "run_teardown a ReleaseSlot l = releaseSlot a l"
| "run_teardown a _ l = l"

definition closePeer :: "nat \<Rightarrow> listener \<Rightarrow> listener \<times> bool" where
  "closePeer a l =
     (let p = l_heap l ! a in
      case CloseQueue (Some (\<lambda>ow. (ow, Some (teardowns p ow)))) (sp_q p) of
        (q, did, _, work) \<Rightarrow>
          (fold (run_teardown a) (case work of None \<Rightarrow> [] | Some ws \<Rightarrow> ws) (upd_peer a (\<lambda>p. p\<lparr>sp_q := q\<rparr>) l), did))"

definition revoke :: "nat \<Rightarrow> string \<Rightarrow> listener \<Rightarrow> listener" where
  "revoke a why l =
     (if p_sess (q_owner (sp_q (l_heap l ! a))) = None then fst (closePeer a l)
      else upd_peer a (\<lambda>p. p\<lparr>sp_goodbye := Some why\<rparr>) l)"

definition whyGone :: "link_table \<Rightarrow> string \<Rightarrow> int \<Rightarrow> string" where
  "whyGone t label now =
     (case ByLabel t label of
        None \<Rightarrow> ''this link was revoked''
      | Some e \<Rightarrow>
          if Code e = [] \<and> CheckTerms e now \<noteq> None then ''this link has expired''
          else ''this link was reissued; ask for the new URL'')"

definition poll_one :: "string \<Rightarrow> link_table \<Rightarrow> int \<Rightarrow> nat \<Rightarrow> listener \<Rightarrow> listener" where
  "poll_one cwd t now a l =
     (let (label, had) = granted (l_heap l ! a) in
      if label = [] then l
      else case ByCode t (Code had) of
        None \<Rightarrow> revoke a (whyGone t label now) l
      | Some current \<Rightarrow>
          if CheckTerms current now \<noteq> None then revoke a ''this link has expired'' l
          else if \<not> SameGrants cwd had current (offered t)
          then revoke a ''this link's permissions changed; reconnect'' l
          else l)"

definition pollPeers :: "string \<Rightarrow> nat list \<Rightarrow> link_table \<Rightarrow> int \<Rightarrow> listener \<Rightarrow> listener" where
  "pollPeers cwd peers t now l = fold (poll_one cwd t now) peers l"

definition pollNow :: "string \<Rightarrow> int \<Rightarrow> listener \<Rightarrow> listener" where
  "pollNow cwd now l = pollPeers cwd (All (l_peers l)) (ls_table (l_links l)) now l"

text \<open>\<^verbatim>\<open>handleRequest\<close>: \<open>connOk\<close> says whether the connection could be built, \<open>video\<close> whether a bridge is.\<close>

definition handleRequest :: "string \<Rightarrow> bool \<Rightarrow> bool \<Rightarrow> listener \<Rightarrow> listener" where
  "handleRequest clientID connOk video l =
     (if clientID = [] \<or> Has (l_peers l) clientID then l
      else if l_unauth l \<ge> maxUnauthSessions then l
      else if \<not> connOk then l
      else
        let p0 = newServePeer clientID;
            p = p0\<lparr>sp_q := Locked (\<lambda>_ ow. ow\<lparr>p_bridge := video\<rparr>) (SetConn True (sp_q p0)),
                   sp_deadline := Some NewDeadline, sp_release := True\<rparr>;
            a = length (l_heap l);
            l1 = l\<lparr>l_heap := l_heap l @ [p], l_unauth := l_unauth l + 1\<rparr>;
            (ps, added) = Add clientID a (l_peers l1)
        in if \<not> added then fst (closePeer a l1) else l1\<lparr>l_peers := ps\<rparr>)"

text \<open>\<^verbatim>\<open>handlePairRequest\<close>: no slot is taken and no code is ever resolved for this peer.\<close>

definition handlePairRequest :: "string \<Rightarrow> bool \<Rightarrow> listener \<Rightarrow> listener" where
  "handlePairRequest clientID connOk l =
     (if clientID = [] \<or> Has (l_peers l) clientID then l
      else if \<not> connOk then l
      else
        let p0 = newServePeer clientID;
            p = p0\<lparr>sp_q := SetConn True (sp_q p0), sp_deadline := Some NewDeadline, sp_pairing := True\<rparr>;
            a = length (l_heap l);
            l1 = l\<lparr>l_heap := l_heap l @ [p]\<rparr>;
            (ps, added) = Add clientID a (l_peers l1)
        in if \<not> added then fst (closePeer a l1) else l1\<lparr>l_peers := ps\<rparr>)"

text \<open>
  What the connection finds in an answer. \<open>BadAnswer\<close>: it fails before the code is looked at (the
  remote description is refused, or the encrypted request is missing or unreadable). \<open>Presents code v\<close>:
  it presents a code, and \<open>v\<close> says whether what \<^verbatim>\<open>HandleAnswer\<close> still checks after the code, the nonce's
  encoding and the DTLS fingerprint, holds. One callback is one step here. In the source the code check
  and the admission are two critical sections of the signaling goroutine; a teardown or a poll that falls
  between them closes the peer, and then \<^verbatim>\<open>admit\<close> refuses it as it does a peer closed before.
\<close>

datatype answer = BadAnswer | Presents string bool

definition resolveCode :: "nat \<Rightarrow> string \<Rightarrow> int \<Rightarrow> listener \<Rightarrow> listener \<times> bool" where
  "resolveCode a code now l =
     (case Authorize (ls_table (l_links l)) code now of
        None \<Rightarrow> (l, False)
      | Some t \<Rightarrow> (upd_peer a (grantPeer t) l, True))"

definition connAnswer :: "nat \<Rightarrow> answer \<Rightarrow> int \<Rightarrow> listener \<Rightarrow> listener \<times> bool" where
  "connAnswer a ans now l =
     (case ans of
        BadAnswer \<Rightarrow> (l, False)
      | Presents code applied \<Rightarrow> (case resolveCode a code now l of (l', ok) \<Rightarrow> (l', ok \<and> applied)))"

definition handleAnswer :: "string \<Rightarrow> string \<Rightarrow> answer \<Rightarrow> int \<Rightarrow> bool \<Rightarrow> listener \<Rightarrow> listener" where
  "handleAnswer cwd clientID ans now shareOk l =
     (case Get (l_peers l) clientID of
        None \<Rightarrow> l
      | Some a \<Rightarrow>
          if sp_pairing (l_heap l ! a) then (if ans = BadAnswer then fst (closePeer a l) else l)
          else
            (case connAnswer a ans now l of
               (l1, False) \<Rightarrow> fst (closePeer a l1)
             | (l1, True) \<Rightarrow>
                 let (label, t) = granted (l_heap l1 ! a) in
                 if label = [] then fst (closePeer a l1)
                 else case Effective cwd t (cfg_offered (l_cfg l1)) of
                   Inl _ \<Rightarrow> fst (closePeer a l1)
                 | Inr eff \<Rightarrow>
                     if FilesPath eff \<noteq> [] \<and> FilesPath eff \<noteq> cfg_filesPath (l_cfg l1) \<and> \<not> shareOk
                     then fst (closePeer a l1)
                     else upd_peer a (\<lambda>p. fst (admit eff p)) l1))"

text \<open>The callbacks installed on a peer.\<close>

definition onReady :: "nat \<Rightarrow> listener \<Rightarrow> listener" where
  "onReady a l = releaseSlot a (upd_peer a (\<lambda>p. p\<lparr>sp_deadline := Done (sp_deadline p)\<rparr>) l)"

definition onTimer :: "nat \<Rightarrow> listener \<Rightarrow> listener" where
  "onTimer a l =
     (case sp_deadline (l_heap l ! a) of
        None \<Rightarrow> l
      | Some d \<Rightarrow>
          let l1 = upd_peer a (\<lambda>p. p\<lparr>sp_deadline := Some (Expire d)\<rparr>) l in
          if dl_done d then l1 else fst (closePeer a l1))"

definition onConnClose :: "nat \<Rightarrow> listener \<Rightarrow> listener" where
  "onConnClose a l =
     (let l1 = fst (closePeer a l) in
      l1\<lparr>l_peers := Forget (sp_id (l_heap l ! a)) a (l_peers l1)\<rparr>)"

datatype listen_event =
    EvRequest string bool bool
  | EvPairRequest string bool
  | EvAnswer string answer int bool
  | EvReady nat
  | EvTimer nat
  | EvConnClose nat
  | EvGoodbyeDone nat
  | EvPoll int
  | EvLinks link_state

fun listen_do :: "string \<Rightarrow> listen_event \<Rightarrow> listener \<Rightarrow> listener" where
  "listen_do cwd (EvRequest c ok v) l = handleRequest c ok v l"
| "listen_do cwd (EvPairRequest c ok) l = handlePairRequest c ok l"
| "listen_do cwd (EvAnswer c ans now ok) l = handleAnswer cwd c ans now ok l"
| "listen_do cwd (EvReady a) l = (if a < length (l_heap l) then onReady a l else l)"
| "listen_do cwd (EvTimer a) l = (if a < length (l_heap l) then onTimer a l else l)"
| "listen_do cwd (EvConnClose a) l = (if a < length (l_heap l) then onConnClose a l else l)"
| "listen_do cwd (EvGoodbyeDone a) l =
     (if a < length (l_heap l) \<and> sp_goodbye (l_heap l ! a) \<noteq> None then fst (closePeer a l) else l)"
| "listen_do cwd (EvPoll now) l = pollNow cwd now l"
| "listen_do cwd (EvLinks ls) l = l\<lparr>l_links := ls\<rparr>"

definition new_listener :: "serve_config \<Rightarrow> link_state \<Rightarrow> listener" where
  "new_listener cfg ls = \<lparr>l_cfg = cfg, l_links = ls, l_peers = NewSet, l_heap = [], l_unauth = 0\<rparr>"

end
