(* ===== verification/Listener_Laws.thy ===== *)
theory Listener_Laws
  imports Listener
begin

text \<open>
  Invariants of the listener over any interleaving of its events: the count of unauthenticated
  slots is exact and bounded, a closed peer holds no slot, and an open peer's session was built from
  the grant its recorded terms resolve to. Then: only an authorized code admits, and after a poll
  every session left alone is one the table still permits.
\<close>

section \<open>Closing a peer\<close>

definition closed_peer :: "serve_peer \<Rightarrow> serve_peer" where
  "closed_peer p = p\<lparr>sp_q := (sp_q p)\<lparr>q_closed := True, q_pending := [], q_pendingBytes := 0\<rparr>,
     sp_deadline := Done (sp_deadline p), sp_released := (sp_released p \<or> sp_release p)\<rparr>"

definition holds_slot :: "serve_peer \<Rightarrow> bool" where
  "holds_slot p \<longleftrightarrow> sp_release p \<and> \<not> sp_released p"

lemma upd_peer_simps [simp]:
  "l_heap (upd_peer a f l) = (l_heap l)[a := f (l_heap l ! a)]"
  "l_unauth (upd_peer a f l) = l_unauth l" "l_peers (upd_peer a f l) = l_peers l"
  "l_cfg (upd_peer a f l) = l_cfg l" "l_links (upd_peer a f l) = l_links l"
  by (simp_all add: upd_peer_def)

lemma Done_None [simp]: "Done None = None"
  by (simp add: Done_def)

lemma run_teardown_idle [simp]: "run_teardown a CloseSession l = l" "run_teardown a CloseShell l = l"
  "run_teardown a CloseTCP l = l" "run_teardown a CloseBridge l = l"
  by simp_all

lemma closePeer_eq:
  assumes "a < length (l_heap l)"
  shows "closePeer a l =
    (let p = l_heap l ! a in
     if q_closed (sp_q p) then (l, False)
     else (l\<lparr>l_heap := (l_heap l)[a := closed_peer p],
             l_unauth := l_unauth l - (if holds_slot p then 1 else 0)\<rparr>, True))"
proof (cases "q_closed (sp_q (l_heap l ! a))")
  case True
  then show ?thesis
    using assms by (simp add: closePeer_def CloseQueue_def upd_peer_def Let_def)
next
  case False
  then show ?thesis
    using assms
    by (cases "l_heap l ! a"; cases "sp_deadline (l_heap l ! a)")
       (auto simp: closePeer_def CloseQueue_def upd_peer_def releaseSlot_def teardowns_def closed_peer_def
          holds_slot_def Let_def)
qed

lemma closed_peer_fields [simp]:
  "q_closed (sp_q (closed_peer p))" "q_owner (sp_q (closed_peer p)) = q_owner (sp_q p)"
  "sp_release (closed_peer p) = sp_release p" "sp_goodbye (closed_peer p) = sp_goodbye p"
  "sp_pairing (closed_peer p) = sp_pairing p" "sp_id (closed_peer p) = sp_id p"
  "\<not> holds_slot (closed_peer p)" "granted (closed_peer p) = granted p"
  by (auto simp: closed_peer_def holds_slot_def granted_def)

section \<open>The invariant\<close>

definition peer_ok :: "string \<Rightarrow> grant_spec \<Rightarrow> serve_peer \<Rightarrow> bool" where
  "peer_ok cwd off p \<longleftrightarrow>
     (q_closed (sp_q p) \<longrightarrow> \<not> holds_slot p) \<and>
     (\<not> q_closed (sp_q p) \<longrightarrow> (\<forall>s. p_sess (q_owner (sp_q p)) = Some s \<longrightarrow>
        p_label (q_owner (sp_q p)) \<noteq> [] \<and> Effective cwd (p_terms (q_owner (sp_q p))) off = Inr s))"

definition slots :: "listener \<Rightarrow> int" where
  "slots l = int (length (filter holds_slot (l_heap l)))"

definition listen_inv :: "string \<Rightarrow> listener \<Rightarrow> bool" where
  "listen_inv cwd l \<longleftrightarrow>
     l_unauth l = slots l \<and> l_unauth l \<le> maxUnauthSessions \<and>
     (\<forall>p \<in> set (l_heap l). peer_ok cwd (cfg_offered (l_cfg l)) p) \<and>
     (\<forall>a \<in> set (All (l_peers l)). a < length (l_heap l)) \<and> ps_inv (l_peers l)"

lemma filter_update_length:
  "i < length xs \<Longrightarrow>
   int (length (filter P (xs[i := y]))) =
   int (length (filter P xs)) - (if P (xs ! i) then 1 else 0) + (if P y then 1 else 0)"
proof (induction xs arbitrary: i)
  case (Cons x xs)
  show ?case
  proof (cases i)
    case (Suc j)
    with Cons.IH [of j] Cons.prems show ?thesis by (cases "P x") simp_all
  qed auto
qed simp

text \<open>One peer is replaced by another, and the count follows its slot.\<close>

lemma listen_inv_upd:
  assumes "listen_inv cwd l" "a < length (l_heap l)" "peer_ok cwd (cfg_offered (l_cfg l)) p"
    and "l_heap l' = (l_heap l)[a := p]" "l_cfg l' = l_cfg l" "l_peers l' = l_peers l"
    and "l_unauth l' = l_unauth l - (if holds_slot (l_heap l ! a) then 1 else 0) + (if holds_slot p then 1 else 0)"
    and "holds_slot p \<longrightarrow> holds_slot (l_heap l ! a)"
  shows "listen_inv cwd l'"
proof -
  have "slots l' = slots l - (if holds_slot (l_heap l ! a) then 1 else 0) + (if holds_slot p then 1 else 0)"
    using assms(2,4) by (simp add: slots_def filter_update_length)
  then show ?thesis
    using assms set_update_subset_insert [of "l_heap l" a p] by (auto simp: listen_inv_def split: if_splits)
qed

lemma peer_ok_closed: "peer_ok cwd off (closed_peer p)"
  by (simp add: peer_ok_def)

lemma listen_inv_peer: "listen_inv cwd l \<Longrightarrow> a < length (l_heap l) \<Longrightarrow> peer_ok cwd (cfg_offered (l_cfg l)) (l_heap l ! a)"
  by (simp add: listen_inv_def)

lemma closePeer_inv [inv_step]:
  assumes "listen_inv cwd l" "a < length (l_heap l)"
  shows "listen_inv cwd (fst (closePeer a l))"
proof (cases "q_closed (sp_q (l_heap l ! a))")
  case True
  then show ?thesis
    using assms by (simp add: closePeer_eq Let_def)
next
  case False
  show ?thesis
    by (rule listen_inv_upd [OF assms peer_ok_closed [of _ _ "l_heap l ! a"]])
       (use assms False in \<open>auto simp: closePeer_eq Let_def\<close>)
qed

lemma closePeer_frame [simp]:
  assumes "a < length (l_heap l)"
  shows "length (l_heap (fst (closePeer a l))) = length (l_heap l)"
    "l_peers (fst (closePeer a l)) = l_peers l" "l_cfg (fst (closePeer a l)) = l_cfg l"
    "l_links (fst (closePeer a l)) = l_links l"
    "b \<noteq> a \<Longrightarrow> l_heap (fst (closePeer a l)) ! b = l_heap l ! b"
    "q_closed (sp_q (l_heap (fst (closePeer a l)) ! a))"
  using assms by (auto simp: closePeer_eq Let_def)

lemma upd_inv:
  assumes "listen_inv cwd l" "a < length (l_heap l)" "peer_ok cwd (cfg_offered (l_cfg l)) (f (l_heap l ! a))"
    and "holds_slot (f (l_heap l ! a)) = holds_slot (l_heap l ! a)"
  shows "listen_inv cwd (upd_peer a f l)"
  by (rule listen_inv_upd [OF assms(1-3)]) (use assms(4) in auto)

lemma releaseSlot_inv [inv_step]:
  assumes "listen_inv cwd l" "a < length (l_heap l)"
  shows "listen_inv cwd (releaseSlot a l)"
proof (cases "holds_slot (l_heap l ! a)")
  case True
  let ?p = "(l_heap l ! a)\<lparr>sp_released := True\<rparr>"
  have "\<not> holds_slot ?p" "peer_ok cwd (cfg_offered (l_cfg l)) ?p"
    using listen_inv_peer [OF assms] by (auto simp: holds_slot_def peer_ok_def)
  then show ?thesis
    by (intro listen_inv_upd [OF assms, of ?p]) (use True in \<open>auto simp: releaseSlot_def holds_slot_def\<close>)
next
  case False
  then show ?thesis
    using assms by (auto simp: releaseSlot_def holds_slot_def)
qed

lemma revoke_inv [inv_step]:
  assumes "listen_inv cwd l" "a < length (l_heap l)"
  shows "listen_inv cwd (revoke a why l)"
  using closePeer_inv [OF assms] listen_inv_peer [OF assms]
  by (auto simp: revoke_def peer_ok_def holds_slot_def intro!: upd_inv [OF assms])

lemma revoke_frame:
  assumes "a < length (l_heap l)"
  shows "length (l_heap (revoke a why l)) = length (l_heap l)" "l_peers (revoke a why l) = l_peers l"
    "l_cfg (revoke a why l) = l_cfg l" "l_links (revoke a why l) = l_links l"
    "b \<noteq> a \<Longrightarrow> l_heap (revoke a why l) ! b = l_heap l ! b"
    "granted (l_heap (revoke a why l) ! b) = granted (l_heap l ! b)"
  using assms
  by (auto simp: revoke_def closePeer_eq Let_def nth_list_update granted_def closed_peer_def)

lemma poll_one_revoke:
  "poll_one cwd t now a l = l \<or> (\<exists>why. poll_one cwd t now a l = revoke a why l)"
  by (auto simp: poll_one_def Let_def split: option.splits prod.splits)

lemma poll_one_frame:
  assumes "a < length (l_heap l)"
  shows "length (l_heap (poll_one cwd t now a l)) = length (l_heap l)" "l_peers (poll_one cwd t now a l) = l_peers l"
    "l_links (poll_one cwd t now a l) = l_links l"
    "b \<noteq> a \<Longrightarrow> l_heap (poll_one cwd t now a l) ! b = l_heap l ! b"
    "granted (l_heap (poll_one cwd t now a l) ! b) = granted (l_heap l ! b)"
  using poll_one_revoke [of cwd t now a l] revoke_frame [OF assms] by auto

lemma pollPeers_inv:
  "\<lbrakk>listen_inv cwd l; \<forall>a \<in> set as. a < length (l_heap l)\<rbrakk> \<Longrightarrow> listen_inv cwd (pollPeers cwd as t now l)"
proof (induction as arbitrary: l)
  case (Cons a as)
  have "listen_inv cwd (poll_one cwd t now a l)"
    using poll_one_revoke [of cwd t now a l] revoke_inv Cons.prems by auto
  then show ?case
    using Cons.IH [of "poll_one cwd t now a l"] Cons.prems poll_one_frame(1) by (simp add: pollPeers_def)
qed (simp add: pollPeers_def)

lemma Get_All: "Get ps k = Some a \<Longrightarrow> a \<in> set (All ps)"
  by (force simp: Get_def All_def dest: map_of_SomeD)

lemma All_Forget: "set (All (Forget k a ps)) \<subseteq> set (All ps)"
  by (auto simp: Forget_def All_def AList.delete_eq split: option.splits)

lemma All_Add: "set (All (fst (Add k a ps))) \<subseteq> insert a (set (All ps))"
proof -
  have "snd ` set (AList.update k a xs) \<subseteq> insert a (snd ` set xs)" for xs
    by (induction xs) (auto split: if_splits)
  then show ?thesis
    by (auto simp: Add_def AddLimited_def All_def)
qed

text \<open>A new peer joins the heap, with or without a slot, and is then registered or closed.\<close>

lemma join_inv:
  assumes "listen_inv cwd l" "peer_ok cwd (cfg_offered (l_cfg l)) p"
    and "l_unauth l + (if holds_slot p then 1 else 0) \<le> maxUnauthSessions"
    and "l1 = l\<lparr>l_heap := l_heap l @ [p], l_unauth := l_unauth l + (if holds_slot p then 1 else 0)\<rparr>"
  shows "listen_inv cwd (if \<not> snd (Add c (length (l_heap l)) (l_peers l1)) then fst (closePeer (length (l_heap l)) l1)
     else l1\<lparr>l_peers := fst (Add c (length (l_heap l)) (l_peers l1))\<rparr>)"
proof -
  have inv: "listen_inv cwd l1"
    using assms by (auto simp: listen_inv_def slots_def)
  then have "listen_inv cwd (fst (closePeer (length (l_heap l)) l1))"
    by (rule closePeer_inv) (simp add: assms(4))
  moreover have "listen_inv cwd (l1\<lparr>l_peers := fst (Add c (length (l_heap l)) (l_peers l1))\<rparr>)"
    using inv All_Add [of c "length (l_heap l)" "l_peers l1"] assms(4) ps_inv_AddLimited [of "l_peers l1"]
    by (auto simp: listen_inv_def slots_def Add_def)
  ultimately show ?thesis by simp
qed

lemma handleRequest_inv [inv_step]:
  assumes "listen_inv cwd l"
  shows "listen_inv cwd (handleRequest c ok v l)"
proof -
  let ?p = "(newServePeer c)\<lparr>sp_q := Locked (\<lambda>_ ow. ow\<lparr>p_bridge := v\<rparr>) (SetConn True (sp_q (newServePeer c))),
      sp_deadline := Some NewDeadline, sp_release := True\<rparr>"
  let ?l1 = "l\<lparr>l_heap := l_heap l @ [?p], l_unauth := l_unauth l + 1\<rparr>"
  have p: "peer_ok cwd (cfg_offered (l_cfg l)) ?p" "holds_slot ?p"
    by (simp_all add: peer_ok_def holds_slot_def newServePeer_def NewQueue_def SetConn_def Locked_def)
  have "handleRequest c ok v l = l \<or> (l_unauth l < maxUnauthSessions \<and> handleRequest c ok v l =
     (if \<not> snd (Add c (length (l_heap l)) (l_peers ?l1)) then fst (closePeer (length (l_heap l)) ?l1)
      else ?l1\<lparr>l_peers := fst (Add c (length (l_heap l)) (l_peers ?l1))\<rparr>))"
    unfolding handleRequest_def Let_def split_beta by simp
  then show ?thesis
    using join_inv [OF assms p(1), of ?l1 c] p(2) assms by auto
qed

lemma handlePairRequest_inv [inv_step]:
  assumes "listen_inv cwd l"
  shows "listen_inv cwd (handlePairRequest c ok l)"
proof -
  let ?p = "(newServePeer c)\<lparr>sp_q := SetConn True (sp_q (newServePeer c)),
      sp_deadline := Some NewDeadline, sp_pairing := True\<rparr>"
  let ?l1 = "l\<lparr>l_heap := l_heap l @ [?p]\<rparr>"
  have p: "peer_ok cwd (cfg_offered (l_cfg l)) ?p" "\<not> holds_slot ?p"
    by (simp_all add: peer_ok_def holds_slot_def newServePeer_def NewQueue_def SetConn_def)
  have "handlePairRequest c ok l = l \<or> handlePairRequest c ok l =
     (if \<not> snd (Add c (length (l_heap l)) (l_peers ?l1)) then fst (closePeer (length (l_heap l)) ?l1)
      else ?l1\<lparr>l_peers := fst (Add c (length (l_heap l)) (l_peers ?l1))\<rparr>)"
    unfolding handlePairRequest_def Let_def split_beta by simp
  moreover have "l_unauth l \<le> maxUnauthSessions"
    using assms by (simp add: listen_inv_def)
  ultimately show ?thesis
    using join_inv [OF assms p(1), of ?l1 c] p(2) assms by auto
qed

section \<open>Answers\<close>

lemma grantPeer_fields [simp]:
  "q_closed (sp_q (grantPeer t p)) = q_closed (sp_q p)" "holds_slot (grantPeer t p) = holds_slot p"
  "granted (grantPeer t p) = (Label t, t)" "sp_goodbye (grantPeer t p) = sp_goodbye p"
  "p_label (q_owner (sp_q (grantPeer t p))) = Label t" "p_terms (q_owner (sp_q (grantPeer t p))) = t"
  by (simp_all add: grantPeer_def Locked_def holds_slot_def granted_def)

text \<open>Recording new terms and closing at once is safe even where a session was running.\<close>

lemma grant_close_inv:
  assumes "listen_inv cwd l" "a < length (l_heap l)"
  shows "listen_inv cwd (fst (closePeer a (upd_peer a (grantPeer t) l)))"
proof (cases "q_closed (sp_q (l_heap l ! a))")
  case True
  then have "peer_ok cwd (cfg_offered (l_cfg l)) (grantPeer t (l_heap l ! a))"
    using listen_inv_peer [OF assms] by (simp add: peer_ok_def)
  with True show ?thesis
    using upd_inv [OF assms] assms(2) by (simp add: closePeer_eq Let_def)
next
  case False
  show ?thesis
    by (rule listen_inv_upd [OF assms peer_ok_closed [of _ _ "grantPeer t (l_heap l ! a)"]])
       (use assms False in \<open>auto simp: closePeer_eq Let_def\<close>)
qed

lemma connAnswer_cases:
  assumes "connAnswer a ans now l = (l1, ok)"
  obtains "l1 = l" "\<not> ok"
    | code t applied where "ans = Presents code applied" "Authorize (ls_table (l_links l)) code now = Some t"
      "l1 = upd_peer a (grantPeer t) l" "ok = applied"
proof (cases ans)
  case BadAnswer
  then show thesis using that(1) assms by (simp add: connAnswer_def)
next
  case (Presents code applied)
  show thesis
  proof (cases "Authorize (ls_table (l_links l)) code now")
    case None
    then show thesis using that(1) assms Presents by (simp add: connAnswer_def resolveCode_def)
  next
    case (Some t)
    then show thesis using that(2) assms Presents by (simp add: connAnswer_def resolveCode_def)
  qed
qed

lemma admit_fields:
  "\<not> q_closed (sp_q p) \<Longrightarrow> p_sess (q_owner (sp_q (fst (admit s p)))) = Some s"
  "q_closed (sp_q p) \<Longrightarrow> fst (admit s p) = p"
  "q_closed (sp_q (fst (admit s p))) = q_closed (sp_q p)"
  "holds_slot (fst (admit s p)) = holds_slot p" "granted (fst (admit s p)) = granted p"
  "sp_goodbye (fst (admit s p)) = sp_goodbye p" "snd (admit s p) \<longleftrightarrow> \<not> q_closed (sp_q p)"
  by (auto simp: admit_def Publish_def takePendingLocked_def Let_def holds_slot_def granted_def)

text \<open>The four ways an answer to a pending, non-pairing request ends.\<close>

lemma handleAnswer_cases:
  assumes "Get (l_peers l) c = Some a" "\<not> sp_pairing (l_heap l ! a)" "a < length (l_heap l)"
  obtains "handleAnswer cwd c ans now ok l = fst (closePeer a l)"
    | t where "handleAnswer cwd c ans now ok l = fst (closePeer a (upd_peer a (grantPeer t) l))"
    | code t eff where "ans = Presents code True" "Authorize (ls_table (l_links l)) code now = Some t" "Label t \<noteq> []"
        "Effective cwd t (cfg_offered (l_cfg l)) = Inr eff"
        "handleAnswer cwd c ans now ok l = upd_peer a (\<lambda>p. fst (admit eff (grantPeer t p))) l"
proof (cases "connAnswer a ans now l")
  case (Pair l1 r)
  from this show thesis
  proof (cases rule: connAnswer_cases)
    case 1
    then show thesis
      using that(1) Pair assms(1,2) by (simp add: handleAnswer_def)
  next
    case (2 code t applied)
    have "granted (l_heap l1 ! a) = (Label t, t)" "l_cfg l1 = l_cfg l"
      using 2(3) assms(3) by simp_all
    then have h: "handleAnswer cwd c ans now ok l =
        (if \<not> r \<or> Label t = [] then fst (closePeer a l1)
         else case Effective cwd t (cfg_offered (l_cfg l)) of
           Inl _ \<Rightarrow> fst (closePeer a l1)
         | Inr eff \<Rightarrow>
             if FilesPath eff \<noteq> [] \<and> FilesPath eff \<noteq> cfg_filesPath (l_cfg l) \<and> \<not> ok then fst (closePeer a l1)
             else upd_peer a (\<lambda>p. fst (admit eff p)) l1)"
      using assms(1,2) Pair by (cases r) (simp_all add: handleAnswer_def Let_def split: sum.splits)
    have comp: "upd_peer a (\<lambda>p. fst (admit eff p)) l1 = upd_peer a (\<lambda>p. fst (admit eff (grantPeer t p))) l" for eff
      using 2(3) assms(3) by (simp add: upd_peer_def)
    consider "handleAnswer cwd c ans now ok l = fst (closePeer a l1)"
      | eff where "r" "Label t \<noteq> []" "Effective cwd t (cfg_offered (l_cfg l)) = Inr eff"
        "handleAnswer cwd c ans now ok l = upd_peer a (\<lambda>p. fst (admit eff p)) l1"
      using h by (auto split: sum.splits if_splits)
    then show thesis
      using that(2,3) 2 comp by cases auto
  qed
qed

lemma handleAnswer_inv [inv_step]:
  assumes "listen_inv cwd l"
  shows "listen_inv cwd (handleAnswer cwd c ans now ok l)"
proof (cases "Get (l_peers l) c")
  case None
  then show ?thesis using assms by (simp add: handleAnswer_def)
next
  case (Some a)
  then have a: "a < length (l_heap l)"
    using assms Get_All [OF Some] by (simp add: listen_inv_def)
  show ?thesis
  proof (cases "sp_pairing (l_heap l ! a)")
    case True
    then show ?thesis
      using Some assms closePeer_inv [OF assms a] by (simp add: handleAnswer_def)
  next
    case False
    from Some False a show ?thesis
    proof (cases rule: handleAnswer_cases [where cwd = cwd and ans = ans and now = now and ok = ok])
      case 1
      then show ?thesis using closePeer_inv [OF assms a] by simp
    next
      case (2 t)
      then show ?thesis using grant_close_inv [OF assms a] by simp
    next
      case (3 code t eff)
      have "peer_ok cwd (cfg_offered (l_cfg l)) (fst (admit eff (grantPeer t (l_heap l ! a))))"
        using 3 listen_inv_peer [OF assms a] admit_fields [where p = "grantPeer t (l_heap l ! a)" and s = eff]
        by (auto simp: peer_ok_def granted_def)
      then show ?thesis
        using upd_inv [OF assms a] 3(5) by (simp add: admit_fields)
    qed
  qed
qed

lemma done_field_inv:
  "listen_inv cwd l \<Longrightarrow> a < length (l_heap l) \<Longrightarrow> listen_inv cwd (upd_peer a (\<lambda>p. p\<lparr>sp_deadline := f p\<rparr>) l)"
  using listen_inv_peer by (intro upd_inv) (auto simp: peer_ok_def holds_slot_def)

lemma onTimer_inv [inv_step]: "listen_inv cwd l \<Longrightarrow> a < length (l_heap l) \<Longrightarrow> listen_inv cwd (onTimer a l)"
  using done_field_inv [of cwd l a] closePeer_inv
  by (auto simp: onTimer_def Let_def split: option.splits)

lemma onReady_inv [inv_step]: "listen_inv cwd l \<Longrightarrow> a < length (l_heap l) \<Longrightarrow> listen_inv cwd (onReady a l)"
  using done_field_inv [of cwd l a "\<lambda>p. Done (sp_deadline p)"] releaseSlot_inv by (simp add: onReady_def)

lemma onConnClose_inv [inv_step]:
  assumes "listen_inv cwd l" "a < length (l_heap l)"
  shows "listen_inv cwd (onConnClose a l)"
  using closePeer_inv [OF assms] assms(2) All_Forget ps_inv_Forget
  by (fastforce simp: onConnClose_def Let_def listen_inv_def slots_def)

lemma pollNow_inv [inv_step]: "listen_inv cwd l \<Longrightarrow> listen_inv cwd (pollNow cwd now l)"
  unfolding pollNow_def by (rule pollPeers_inv) (simp_all add: listen_inv_def)

lemma links_inv: "listen_inv cwd l \<Longrightarrow> listen_inv cwd (l\<lparr>l_links := ls\<rparr>)"
  by (simp add: listen_inv_def slots_def)

lemma listen_do_inv: "listen_inv cwd l \<Longrightarrow> listen_inv cwd (listen_do cwd e l)"
  by (cases e) (auto intro: inv_step links_inv)

lemma listen_run_inv: "listen_inv cwd l \<Longrightarrow> listen_inv cwd (fold (listen_do cwd) es l)"
  by (induction es arbitrary: l) (auto intro: listen_do_inv)

lemma new_listener_inv: "listen_inv cwd (new_listener cfg ls)"
  by (simp add: listen_inv_def new_listener_def slots_def maxUnauthSessions_def All_def NewSet_def ps_inv_def)

section \<open>Polling\<close>

definition permitted :: "string \<Rightarrow> link_table \<Rightarrow> int \<Rightarrow> serve_peer \<Rightarrow> bool" where
  "permitted cwd t now p \<longleftrightarrow>
     (\<exists>cur. ByCode t (Code (snd (granted p))) = Some cur \<and> CheckTerms cur now = None \<and>
        SameGrants cwd (snd (granted p)) cur (offered t))"

definition stopped :: "serve_peer \<Rightarrow> bool" where
  "stopped p \<longleftrightarrow> q_closed (sp_q p) \<or> sp_goodbye p \<noteq> None"

lemma revoke_stops:
  assumes "a < length (l_heap l)"
  shows "stopped (l_heap (revoke a why l) ! a)"
  using assms closePeer_frame(6) [OF assms] by (auto simp: revoke_def stopped_def)

lemma revoke_keeps_stopped:
  assumes "a < length (l_heap l)" "stopped (l_heap l ! b)"
  shows "stopped (l_heap (revoke a why l) ! b)"
  using revoke_stops [OF assms(1)] revoke_frame(5) [OF assms(1)] assms(2) by (cases "b = a") auto

lemma poll_one_spec:
  assumes "a < length (l_heap l)" "fst (granted (l_heap l ! a)) \<noteq> []"
  shows "permitted cwd t now (l_heap l ! a) \<Longrightarrow> poll_one cwd t now a l = l"
    and "\<not> permitted cwd t now (l_heap l ! a) \<Longrightarrow> stopped (l_heap (poll_one cwd t now a l) ! a)"
  using assms revoke_stops [OF assms(1)]
  by (auto simp: poll_one_def permitted_def Let_def split_beta split: option.splits)

lemma poll_one_keeps_stopped:
  "a < length (l_heap l) \<Longrightarrow> stopped (l_heap l ! b) \<Longrightarrow> stopped (l_heap (poll_one cwd t now a l) ! b)"
  using poll_one_revoke [of cwd t now a l] revoke_keeps_stopped by metis

lemma poll_permitted:
  "\<lbrakk>\<forall>a \<in> set as. a < length (l_heap l); permitted cwd t now (l_heap l ! b); fst (granted (l_heap l ! b)) \<noteq> []\<rbrakk> \<Longrightarrow>
   l_heap (pollPeers cwd as t now l) ! b = l_heap l ! b"
proof (induction as arbitrary: l)
  case (Cons a as)
  let ?l = "poll_one cwd t now a l"
  have a: "a < length (l_heap l)" using Cons.prems(1) by simp
  have "l_heap ?l ! b = l_heap l ! b"
    using poll_one_spec(1) [OF a] poll_one_frame(4) [OF a] Cons.prems(2,3) by (cases "b = a") auto
  then show ?case
    using Cons.IH [of ?l] Cons.prems poll_one_frame(1) [OF a] by (simp add: pollPeers_def)
qed (simp add: pollPeers_def)

lemma poll_keeps_stopped:
  "\<lbrakk>\<forall>a \<in> set as. a < length (l_heap l); stopped (l_heap l ! b)\<rbrakk> \<Longrightarrow> stopped (l_heap (pollPeers cwd as t now l) ! b)"
proof (induction as arbitrary: l)
  case (Cons a as)
  then show ?case
    using Cons.IH [of "poll_one cwd t now a l"] poll_one_keeps_stopped poll_one_frame(1) by (simp add: pollPeers_def)
qed (simp add: pollPeers_def)

lemma poll_stops:
  "\<lbrakk>\<forall>a \<in> set as. a < length (l_heap l); b \<in> set as; \<not> permitted cwd t now (l_heap l ! b); fst (granted (l_heap l ! b)) \<noteq> []\<rbrakk> \<Longrightarrow>
   stopped (l_heap (pollPeers cwd as t now l) ! b)"
proof (induction as arbitrary: l)
  case (Cons a as)
  let ?l = "poll_one cwd t now a l"
  have a: "a < length (l_heap l)" "\<forall>a \<in> set as. a < length (l_heap ?l)"
    using Cons.prems(1) poll_one_frame(1) [of a l] by simp_all
  show ?case
  proof (cases "b = a")
    case True
    then have "stopped (l_heap ?l ! b)"
      using poll_one_spec(2) [OF a(1)] Cons.prems(3,4) by simp
    then show ?thesis
      using poll_keeps_stopped [OF a(2)] by (simp add: pollPeers_def)
  next
    case False
    then show ?thesis
      using Cons.IH [OF a(2)] Cons.prems poll_one_frame(4) [OF a(1) False, of cwd t now] by (simp add: pollPeers_def)
  qed
qed simp

section \<open>Properties\<close>

text \<open>
  C12. The unauthenticated sessions are bounded and never leaked: over any sequence of events, the
  counter equals the number of peers that hold a slot, is between zero and ten, and no closed peer
  holds one, whichever of the handshake, the timer, the poll and the channel got there first.
\<close>

theorem unauth_slots_exact:
  "let l = fold (listen_do cwd) es (new_listener cfg ls) in
   l_unauth l = int (length (filter holds_slot (l_heap l))) \<and>
   0 \<le> l_unauth l \<and> l_unauth l \<le> 10 \<and>
   filter (\<lambda>p. q_closed (sp_q p) \<and> holds_slot p) (l_heap l) = []"
proof -
  have "listen_inv cwd (fold (listen_do cwd) es (new_listener cfg ls))"
    by (rule listen_run_inv [OF new_listener_inv])
  then show ?thesis
    by (auto simp: listen_inv_def slots_def maxUnauthSessions_def peer_ok_def Let_def filter_empty_conv)
qed

section \<open>Where sessions come from\<close>

text \<open>The session a peer of the heap runs, if any; only an accepted answer changes it.\<close>

definition peer_sess :: "listener \<Rightarrow> nat \<Rightarrow> grant_spec option" where
  "peer_sess l a = (if a < length (l_heap l) then p_sess (q_owner (sp_q (l_heap l ! a))) else None)"

lemma nth_heap_upd: "xs[a := y] ! b = (if b = a \<and> a < length xs then y else xs ! b)"
  by (cases "a < length xs") (auto simp: nth_list_update list_update_beyond)

lemma closePeer_sess [simp]: "a < length (l_heap l) \<Longrightarrow> peer_sess (fst (closePeer a l)) b = peer_sess l b"
  by (auto simp: closePeer_eq Let_def peer_sess_def nth_heap_upd)

lemma upd_peer_sess:
  "q_owner (sp_q (f (l_heap l ! a))) = q_owner (sp_q (l_heap l ! a)) \<Longrightarrow> peer_sess (upd_peer a f l) b = peer_sess l b"
  by (auto simp: peer_sess_def nth_heap_upd)

lemma grantPeer_sess [simp]: "peer_sess (upd_peer a (grantPeer t) l) b = peer_sess l b"
  by (auto simp: peer_sess_def nth_heap_upd grantPeer_def Locked_def)

lemma releaseSlot_sess [simp]: "peer_sess (releaseSlot a l) b = peer_sess l b"
  by (auto simp: releaseSlot_def peer_sess_def nth_heap_upd)

lemma revoke_sess [simp]: "a < length (l_heap l) \<Longrightarrow> peer_sess (revoke a why l) b = peer_sess l b"
  by (auto simp: revoke_def intro: upd_peer_sess)

lemma pollPeers_sess:
  "\<forall>a \<in> set as. a < length (l_heap l) \<Longrightarrow> peer_sess (pollPeers cwd as t now l) b = peer_sess l b"
proof (induction as arbitrary: l)
  case (Cons a as)
  have a: "a < length (l_heap l)" using Cons.prems by simp
  then have "peer_sess (poll_one cwd t now a l) b = peer_sess l b"
    using poll_one_revoke [of cwd t now a l] by auto
  then show ?case
    using Cons.IH [of "poll_one cwd t now a l"] Cons.prems poll_one_frame(1) [OF a] by (simp add: pollPeers_def)
qed (simp add: pollPeers_def)

lemma fresh_sess:
  assumes "p_sess (q_owner (sp_q p)) = None"
  shows "peer_sess (l\<lparr>l_heap := l_heap l @ [p], l_unauth := n\<rparr>) b = peer_sess l b"
    "peer_sess (l\<lparr>l_heap := l_heap l @ [p]\<rparr>) b = peer_sess l b"
  using assms by (auto simp: peer_sess_def nth_append less_Suc_eq)

lemma fields_sess [simp]:
  "peer_sess (l\<lparr>l_peers := ps\<rparr>) b = peer_sess l b" "peer_sess (l\<lparr>l_links := ls\<rparr>) b = peer_sess l b"
  by (simp_all add: peer_sess_def)

lemma newServePeer_sess [simp]: "p_sess (q_owner (sp_q (newServePeer c))) = None"
  by (simp add: newServePeer_def NewQueue_def)

lemma request_sess: "peer_sess (handleRequest c ok v l) b = peer_sess l b"
  "peer_sess (handlePairRequest c ok l) b = peer_sess l b"
  by (auto simp: handleRequest_def handlePairRequest_def Let_def split_beta fresh_sess Locked_def SetConn_def)

lemma answer_sess:
  assumes "listen_inv cwd l" "peer_sess (handleAnswer cwd c ans now ok l) b = Some eff" "peer_sess l b \<noteq> Some eff"
  obtains code t where "ans = Presents code True" "Get (l_peers l) c = Some b" "\<not> sp_pairing (l_heap l ! b)"
    "\<not> q_closed (sp_q (l_heap l ! b))" "Authorize (ls_table (l_links l)) code now = Some t"
    "Effective cwd t (cfg_offered (l_cfg l)) = Inr eff"
proof -
  obtain a where get: "Get (l_peers l) c = Some a"
    using assms(2,3) by (cases "Get (l_peers l) c") (auto simp: handleAnswer_def)
  then have a: "a < length (l_heap l)"
    using assms(1) Get_All [OF get] by (simp add: listen_inv_def)
  have p: "\<not> sp_pairing (l_heap l ! a)"
    using assms(2,3) get a by (auto simp: handleAnswer_def split: if_splits)
  from get p a show thesis
  proof (cases rule: handleAnswer_cases [where cwd = cwd and ans = ans and now = now and ok = ok])
    case 1
    then show thesis using assms(2,3) a by simp
  next
    case (2 t)
    then show thesis using assms(2,3) a by simp
  next
    case (3 code t eff')
    let ?p = "grantPeer t (l_heap l ! a)"
    have g: "p_sess (q_owner (sp_q ?p)) = p_sess (q_owner (sp_q (l_heap l ! a)))"
      by (simp add: grantPeer_def Locked_def)
    have "b = a"
      using assms(2,3) 3(5) by (auto simp: peer_sess_def nth_heap_upd split: if_splits)
    moreover from this have "\<not> q_closed (sp_q (l_heap l ! a)) \<and> eff' = eff"
      using assms(2,3) 3(5) a g admit_fields(1,2) [of ?p eff']
      by (cases "q_closed (sp_q (l_heap l ! a))") (auto simp: peer_sess_def)
    ultimately show thesis using that 3 get p by blast
  qed
qed

lemma other_events_sess:
  assumes "listen_inv cwd l" "\<And>c ans now ok. e \<noteq> EvAnswer c ans now ok"
  shows "peer_sess (listen_do cwd e l) b = peer_sess l b"
proof -
  have "peer_sess (onTimer a l) b = peer_sess l b" if "a < length (l_heap l)" for a
    using that by (auto simp: onTimer_def Let_def upd_peer_sess split: option.splits)
  moreover have "peer_sess (pollNow cwd now l) b = peer_sess l b" for now
    unfolding pollNow_def by (rule pollPeers_sess) (use assms(1) in \<open>simp add: listen_inv_def\<close>)
  moreover have False if "e = EvAnswer c ans now ok" for c ans now ok
    using assms(2) that by blast
  ultimately show ?thesis
    by (cases e) (simp_all add: request_sess onReady_def onConnClose_def Let_def upd_peer_sess)
qed

text \<open>
  C2. Only an authorized code admits, and only to what its link reaches: whatever event the listener
  handles in a reachable state, if a peer comes out of it with a session it did not have, then the
  event was an answer of that peer's own open, non-pairing request, the answer verified and presented
  a code the current table authorizes at that instant, and the session's grant is the link's effective
  grant under the listener's own. When every target of that effective grant is one the allow list can
  parse, it reaches nothing the listener does not offer.
\<close>

theorem admission_is_authorized:
  assumes "l = fold (listen_do cwd) es (new_listener cfg ls)" "IsAbs cwd"
    and "peer_sess (listen_do cwd e l) a = Some eff" "peer_sess l a \<noteq> Some eff"
  shows "\<exists>c code now ok t. e = EvAnswer c (Presents code True) now ok \<and> Get (l_peers l) c = Some a \<and>
    \<not> sp_pairing (l_heap l ! a) \<and> \<not> q_closed (sp_q (l_heap l ! a)) \<and>
    Authorize (ls_table (l_links l)) code now = Some t \<and>
    Effective cwd t (cfg_offered (l_cfg l)) = Ok eff \<and>
    (well_targeted eff \<longrightarrow> reaches cwd eff r \<longrightarrow> reaches cwd (cfg_offered (l_cfg l)) r)"
proof -
  have inv: "listen_inv cwd l"
    using listen_run_inv [OF new_listener_inv] assms(1) by simp
  obtain c ans now ok where e: "e = EvAnswer c ans now ok"
    using other_events_sess [OF inv, of e a] assms(3,4) by (cases e) auto
  obtain code t where 1: "ans = Presents code True" "Get (l_peers l) c = Some a" "\<not> sp_pairing (l_heap l ! a)"
    "\<not> q_closed (sp_q (l_heap l ! a))" "Authorize (ls_table (l_links l)) code now = Some t"
    and eff: "Effective cwd t (cfg_offered (l_cfg l)) = Inr eff"
    by (rule answer_sess [OF inv _ assms(4)]) (use assms(3) e in auto)
  have "well_targeted eff \<longrightarrow> reaches cwd eff r \<longrightarrow> reaches cwd (cfg_offered (l_cfg l)) r"
    using eff Narrow_le [OF assms(2)] by (auto simp: Effective_def split: sum.splits)
  with e 1 eff show ?thesis by blast
qed

text \<open>A small listener for the witnesses: it forwards to one host, and one link narrows that to a port.\<close>

definition demo_cfg :: serve_config where
  "demo_cfg = \<lparr>cfg_offered = zero_spec\<lparr>Caps := Some {''forward''}, ForwardTargets := [''db'']\<rparr>, cfg_caps = {''forward''},
     cfg_shellArgv = [], cfg_filesPath = [], cfg_target = []\<rparr>"

definition demo_links :: "terms list \<Rightarrow> link_state" where
  "demo_links es = \<lparr>ls_offered = cfg_offered demo_cfg, ls_code = ''own'', ls_readOnly = False,
     ls_table = \<lparr>entries = owner_row ''own'' # es, offered = cfg_offered demo_cfg\<rparr>, ls_mod = None\<rparr>"

definition demo_link :: terms where
  "demo_link = \<lparr>Label = ''ana'', Code = ''k'', GrantText = ''forward db:22'', Expires = Some 100\<rparr>"

definition demo_listener :: listener where
  "demo_listener = fold (listen_do ''/'') [EvRequest ''c'' True False] (new_listener demo_cfg (demo_links [demo_link]))"

definition demo_eff :: grant_spec where
  "demo_eff = zero_spec\<lparr>Caps := Some {''forward''}, ForwardTargets := [''db:22'']\<rparr>"

theorem admission_is_authorized_witness:
  "\<exists>c code now ok t. EvAnswer ''c'' (Presents ''k'' True) 5 True = EvAnswer c (Presents code True) now ok \<and>
    Get (l_peers demo_listener) c = Some 0 \<and>
    \<not> sp_pairing (l_heap demo_listener ! 0) \<and> \<not> q_closed (sp_q (l_heap demo_listener ! 0)) \<and>
    Authorize (ls_table (l_links demo_listener)) code now = Some t \<and>
    Effective ''/'' t (cfg_offered (l_cfg demo_listener)) = Ok demo_eff \<and>
    (well_targeted demo_eff \<longrightarrow> reaches ''/'' demo_eff (ForwardTo ''db'' 22) \<longrightarrow>
       reaches ''/'' (cfg_offered (l_cfg demo_listener)) (ForwardTo ''db'' 22))"
proof (rule admission_is_authorized)
  show "demo_listener = fold (listen_do ''/'') [EvRequest ''c'' True False] (new_listener demo_cfg (demo_links [demo_link]))"
    by (simp add: demo_listener_def)
  show "IsAbs ''/''" by code_simp
  show "peer_sess (listen_do ''/'' (EvAnswer ''c'' (Presents ''k'' True) 5 True) demo_listener) 0 = Some demo_eff"
    by code_simp
  show "peer_sess demo_listener 0 \<noteq> Some demo_eff"
    by code_simp
qed

text \<open>
  C9. The poll is exact: after it, every registered peer whose code was resolved is untouched when
  the table still holds its code, unexpired and with the same effective grant, and otherwise is told
  goodbye or closed (removal, expiry, reissue and a changed grant alike).
\<close>

theorem poll_exact:
  assumes "l = fold (listen_do cwd) es (new_listener cfg ls)"
    and "a \<in> set (All (l_peers l))" "fst (granted (l_heap l ! a)) \<noteq> []"
  shows "if (\<exists>cur. ByCode (ls_table (l_links l)) (Code (snd (granted (l_heap l ! a)))) = Some cur \<and> CheckTerms cur now = None \<and>
            SameGrants cwd (snd (granted (l_heap l ! a))) cur (offered (ls_table (l_links l))))
    then l_heap (pollNow cwd now l) ! a = l_heap l ! a
    else q_closed (sp_q (l_heap (pollNow cwd now l) ! a)) \<or> sp_goodbye (l_heap (pollNow cwd now l) ! a) \<noteq> None"
proof -
  have "listen_inv cwd l"
    using listen_run_inv [OF new_listener_inv] assms(1) by simp
  then have "\<forall>a \<in> set (All (l_peers l)). a < length (l_heap l)"
    by (simp add: listen_inv_def)
  then show ?thesis
    using poll_permitted [OF _ _ assms(3)] poll_stops [OF _ assms(2) _ assms(3)]
    by (simp add: pollNow_def permitted_def stopped_def)
qed

theorem poll_exact_witness:
  "let l = fold (listen_do ''/'') [EvRequest ''c'' True False, EvAnswer ''c'' (Presents ''k'' True) 5 True, EvLinks (demo_links [])]
             (new_listener demo_cfg (demo_links [demo_link]))
   in q_closed (sp_q (l_heap (pollNow ''/'' 6 l) ! 0)) \<or> sp_goodbye (l_heap (pollNow ''/'' 6 l) ! 0) \<noteq> None"
proof -
  let ?l = "fold (listen_do ''/'') [EvRequest ''c'' True False, EvAnswer ''c'' (Presents ''k'' True) 5 True, EvLinks (demo_links [])]
             (new_listener demo_cfg (demo_links [demo_link]))"
  have "0 \<in> set (All (l_peers ?l))" "fst (granted (l_heap ?l ! 0)) \<noteq> []"
      and none: "ByCode (ls_table (l_links ?l)) (Code (snd (granted (l_heap ?l ! 0)))) = None"
    by code_simp+
  from poll_exact [OF HOL.refl this(1,2), of 6] show ?thesis
    unfolding Let_def none by simp
qed

end
