(* ===== verification/LinkState_Props.thy ===== *)
theory LinkState_Props
  imports LinkState
begin

text \<open>
  What the listener's link table guarantees over any sequence of reloads, console mutations and
  outside edits of the file: a code names at most one row, revocation and expiry take the code out
  for good, and a new link is admitted under exactly its own terms.
\<close>

section \<open>Runs\<close>

datatype link_op = OpReload | OpAdd terms | OpRemove string | OpReplace string terms | OpEdit disk

fun link_step :: "link_env \<Rightarrow> link_op \<Rightarrow> link_state \<times> disk \<Rightarrow> link_state \<times> disk" where
  "link_step v OpReload (ls, d) = (let (ls', d', _) = reload v ls d in (ls', d'))"
| "link_step v (OpAdd e) (ls, d) = (let (ls', d', _) = addLink e v ls d in (ls', d'))"
| "link_step v (OpRemove l) (ls, d) = (let (ls', d', _) = removeLink l v ls d in (ls', d'))"
| "link_step v (OpReplace l e) (ls, d) = (let (ls', d', _) = replaceLink l e v ls d in (ls', d'))"
| "link_step v (OpEdit d') (ls, d) = (ls, d')"

text \<open>The rows an operation hands to the passes, if it gets that far.\<close>

fun op_fn :: "link_op \<Rightarrow> terms list \<Rightarrow> (state_error, terms list) go_result" where
  "op_fn OpReload es = Ok es"
| "op_fn (OpAdd e) es = add_fn (e\<lparr>Code := []\<rparr>) es"
| "op_fn (OpRemove l) es = remove_fn l es"
| "op_fn (OpReplace l e) es = replace_loop l e False [] es"
| "op_fn (OpEdit d) es = Err EphemeralTable"

definition op_rows :: "link_env \<Rightarrow> link_op \<Rightarrow> link_state \<Rightarrow> disk \<Rightarrow> terms list option" where
  "op_rows v op ls d =
     (case (if op = OpReload then load_or_empty v ls d else LoadLinks (env_tparse v) d) of
        Inl _ \<Rightarrow> None
      | Inr (es0, _) \<Rightarrow> (case op_fn op es0 of Inl _ \<Rightarrow> None | Inr es \<Rightarrow> Some es))"

definition step_ok :: "link_env \<Rightarrow> link_op \<Rightarrow> link_state \<Rightarrow> disk \<Rightarrow> bool" where
  "step_ok v op ls d \<longleftrightarrow> (case op_rows v op ls d of None \<Rightarrow> True | Some es \<Rightarrow> env_ok v (ls_code ls) es)"

fun link_run :: "(link_env \<times> link_op) list \<Rightarrow> link_state \<times> disk \<Rightarrow> link_state \<times> disk" where
  "link_run [] s = s"
| "link_run ((v, op) # steps) s = link_run steps (link_step v op s)"

fun run_ok :: "(link_env \<times> link_op) list \<Rightarrow> link_state \<times> disk \<Rightarrow> bool" where
  "run_ok [] s = True"
| "run_ok ((v, op) # steps) s = (step_ok v op (fst s) (snd s) \<and> run_ok steps (link_step v op s))"

section \<open>Every step keeps the invariant\<close>

lemma reload_inv:
  assumes "ls_inv ls" "step_ok v OpReload ls d" "reload v ls d = (ls', d', r)"
  shows "ls_inv ls'"
proof (cases r)
  case None
  then obtain es m es' changed m' where l: "load_or_empty v ls d = Inr (es, m)"
      "reload_rows v (ls_code ls) es = Inr (es', changed)" "install v ls es' m' = Inr ls'"
    using reload_cases assms(3) by metis
  have ok: "env_ok v (ls_code ls) es"
    using assms(2) l(1) by (simp add: step_ok_def op_rows_def)
  with l show ?thesis
    using installed_inv [OF l(3) ok] reload_rows_passes [OF ok l(2)] by blast
next
  case (Some e)
  then show ?thesis
    using reload_failed assms(1,3) by metis
qed

lemma mutate_inv:
  assumes "ls_inv ls" "mutate fn v ls d = (ls', d', r)"
    and "\<And>es0 m es. LoadLinks (env_tparse v) d = Inr (es0, m) \<Longrightarrow> fn es0 = Inr es \<Longrightarrow> env_ok v (ls_code ls) es"
  shows "ls_inv ls'"
proof (cases r)
  case None
  then obtain es0 m es es' minted m' where l: "LoadLinks (env_tparse v) d = Inr (es0, m)" "fn es0 = Inr es"
      "passes v (ls_code ls) es = Inr (es', minted)" "install v ls es' m' = Inr ls'"
    using mutate_cases assms(2) by metis
  then show ?thesis
    using installed_inv [OF l(4) assms(3) [OF l(1,2)] l(3)] by blast
next
  case (Some e)
  then show ?thesis
    using mutate_failed assms(1,2) by metis
qed

lemma mutate_op_inv:
  assumes "ls_inv ls" "step_ok v op ls d" "op \<noteq> OpReload"
  shows "ls_inv (fst (mutate (op_fn op) v ls d))"
proof (rule mutate_inv [OF assms(1)])
  show "mutate (op_fn op) v ls d = (fst (mutate (op_fn op) v ls d), fst (snd (mutate (op_fn op) v ls d)),
      snd (snd (mutate (op_fn op) v ls d)))"
    by simp
  show "env_ok v (ls_code ls) es" if "LoadLinks (env_tparse v) d = Inr (es0, m)" "op_fn op es0 = Inr es" for es0 m es
    using assms(2,3) that by (simp add: step_ok_def op_rows_def)
qed

lemma op_fn_eta: "add_fn (e\<lparr>Code := []\<rparr>) = op_fn (OpAdd e)" "remove_fn l = op_fn (OpRemove l)"
  "replace_loop l e False [] = op_fn (OpReplace l e)"
  by (simp_all add: fun_eq_iff)

lemma link_step_inv:
  assumes "ls_inv ls" "step_ok v op ls d"
  shows "ls_inv (fst (link_step v op (ls, d)))"
proof (cases op)
  case OpReload
  then show ?thesis
    using reload_inv [OF assms(1), of v d "fst (reload v ls d)" "fst (snd (reload v ls d))" "snd (snd (reload v ls d))"]
      assms(2) by (simp add: split_beta)
next
  case (OpAdd e)
  then show ?thesis
    using mutate_op_inv [OF assms] assms(1)
    by (auto simp: addLink_def op_fn_eta split: prod.splits option.splits)
next
  case (OpRemove l)
  then show ?thesis
    using mutate_op_inv [OF assms] assms(1) by (auto simp: removeLink_def op_fn_eta split_beta)
next
  case (OpReplace l e)
  then show ?thesis
    using mutate_op_inv [OF assms] assms(1) by (auto simp: replaceLink_def op_fn_eta split_beta)
qed (use assms in simp)

lemma link_run_inv: "ls_inv (fst s) \<Longrightarrow> run_ok steps s \<Longrightarrow> ls_inv (fst (link_run steps s))"
proof (induction steps s rule: link_run.induct)
  case (2 v op steps s)
  then show ?case
    using link_step_inv [of "fst s" v op "snd s"] by simp
qed simp

lemma newLinkState_inv:
  assumes "newLinkState v off code eph d = (Inr ls, d')"
    and "\<And>es m. (if eph then Inr ([], None) else LoadLinks (env_tparse v) d) = Inr (es, m) \<Longrightarrow> env_ok v code es"
  shows "ls_inv ls"
proof -
  let ?ls0 = "\<lparr>ls_offered = off, ls_code = code, ls_readOnly = eph,
                ls_table = \<lparr>entries = [], offered = zero_spec\<rparr>, ls_mod = None\<rparr>"
  have "reload v ?ls0 d = (ls, d', None)"
    using assms(1) by (auto simp: newLinkState_def Let_def split: prod.splits option.splits)
  then obtain es m es' changed m' where l: "load_or_empty v ?ls0 d = Inr (es, m)"
      "reload_rows v (ls_code ?ls0) es = Inr (es', changed)" "install v ?ls0 es' m' = Inr ls"
    using reload_cases by metis
  have ok: "env_ok v (ls_code ?ls0) es"
    using assms(2) l(1) by (auto simp: load_or_empty_def split: if_splits)
  with l show ?thesis
    using installed_inv [OF l(3) ok] reload_rows_passes [OF ok l(2)] by blast
qed

lemma ls_inv_lookup:
  "ls_inv ls \<Longrightarrow> Authorize (ls_table ls) c now =
     (case ByCode (ls_table ls) c of None \<Rightarrow> None | Some e \<Rightarrow> if CheckTerms e now = None then Some e else None)"
  using Authorize_ByCode by (simp add: ls_inv_def)

lemma ls_inv_ByCode:
  "ls_inv ls \<Longrightarrow> x \<in> set (entries (ls_table ls)) \<Longrightarrow> Code x \<noteq> [] \<Longrightarrow> ByCode (ls_table ls) (Code x) = Some x"
  using find_code [of "entries (ls_table ls)" x "Code x"] by (simp add: ByCode_def ls_inv_def)

section \<open>A concrete environment for the witnesses\<close>

definition demo_gen :: "char \<Rightarrow> nat \<Rightarrow> string + string" where
  "demo_gen tag k = Inr (tag # replicate k CHR ''x'')"

definition demo_env :: "char \<Rightarrow> int \<Rightarrow> link_env" where
  "demo_env tag now = \<lparr>env_cwd = ''/'', env_now = now, env_tparse = stamp_parse, env_tfmt = stamp_print,
     env_range = (\<lambda>es. remdups (filter (\<lambda>c. c \<noteq> []) (map Code es))), env_gen = demo_gen tag, env_wmod = Some now\<rparr>"

lemma demo_env_ok:
  assumes "list_all (\<lambda>c. c = [] \<or> hd c \<noteq> tag) (code # map Code es)"
  shows "env_ok (demo_env tag now) code es"
proof -
  have "tag # xs \<notin> insert code (insert [] (Code ` set es))" for xs
  proof
    assume "tag # xs \<in> insert code (insert [] (Code ` set es))"
    then have "tag # xs \<in> set (code # map Code es)" by auto
    then have "tag # xs = [] \<or> hd (tag # xs) \<noteq> tag"
      using assms unfolding list_all_iff by (rule bspec [rotated])
    then show False by simp
  qed
  then have "fresh_gen (demo_gen tag) (insert code (insert [] (Code ` set es)))"
    by (auto simp: fresh_gen_def demo_gen_def dest: arg_cong [where f = length])
  then show ?thesis
    by (auto simp: env_ok_def demo_env_def code_order_def)
qed

lemma demo_step_ok:
  "op_rows (demo_env tag now) op ls d = Some es \<Longrightarrow> list_all (\<lambda>c. c = [] \<or> hd c \<noteq> tag) (ls_code ls # map Code es) \<Longrightarrow>
   step_ok (demo_env tag now) op ls d"
  by (simp add: step_ok_def demo_env_ok)

definition demo_terms :: terms where
  "demo_terms = \<lparr>Label = ''ana'', Code = [], GrantText = ''forward db:22'', Expires = Some 90\<rparr>"

definition demo_rows :: "terms list" where
  "demo_rows = [\<lparr>Label = ''bob'', Code = ''b'', GrantText = ''files'', Expires = Some 50\<rparr>,
     \<lparr>Label = ''cyd'', Code = ''c'', GrantText = ''shell'', Expires = Some 5\<rparr>]"

definition demo_disk :: disk where
  "demo_disk = File (Some (encode_entries stamp_print demo_rows)) 3"

definition demo_state :: link_state where
  "demo_state = (case fst (newLinkState (demo_env CHR ''1'' 1) Everything ''own'' False demo_disk) of Inr ls \<Rightarrow> ls)"

lemma demo_start: "newLinkState (demo_env CHR ''1'' 1) Everything ''own'' False demo_disk = (Inr demo_state, demo_disk)"
  by code_simp

section \<open>Which codes survive the passes\<close>

lemma passed_code:
  assumes "env_ok v code es" "passes v code es = Inr (es', minted)" "e' \<in> set es'" "Code e' = c" "c \<noteq> []"
  shows "(\<exists>e \<in> set es. Code e = c \<and> \<not> shared_code es code c \<and> CheckTerms e (env_now v) = None \<and> e' = e) \<or>
    c \<notin> insert code (Code ` set es)"
proof -
  obtain e where e: "e \<in> set es" "passed_row v code es e e'"
    using passes_mem [OF assms(1-3)] .
  show ?thesis
  proof (cases "CheckTerms e (env_now v) = None \<and> Code e \<noteq> [] \<and> \<not> shared_code es code (Code e)")
    case True
    then have "e' = e"
      using passed_row_keeps [OF e(2)] by blast
    with True e(1) assms(4) show ?thesis
      by (intro disjI1 bexI [of _ e]) simp_all
  next
    case False
    then show ?thesis
      using e(2) assms(4,5) by (auto simp: passed_row_def split: if_splits)
  qed
qed

lemma unshared_unique:
  assumes "\<not> shared_code es code c" "a \<in> set es" "b \<in> set es" "Code a = c" "Code b = c"
  shows "a = b"
proof -
  obtain i j where "i < length es" "es ! i = a" "j < length es" "es ! j = b"
    using assms(2,3) by (meson in_set_conv_nth)
  with assms two_rows [of i es j] show ?thesis
    by (cases "i = j") (auto simp: shared_code_def)
qed

lemma installed_ByCode_None:
  assumes "install v ls es' m' = Inr ls'" "c \<noteq> ls_code ls" "c \<notin> Code ` set es'"
  shows "ByCode (ls_table ls') c = None"
  using install_Ok(1) [OF assms(1)] assms(2,3) by (auto simp: ByCode_def owner_row_def find_None_iff)

lemma find_label:
  "distinct (map Label es) \<Longrightarrow> a \<in> set es \<Longrightarrow> Label a = l \<Longrightarrow> find (\<lambda>e. Label e = l) es = Some a"
  by (induction es) auto

lemma expired_code_gone:
  assumes "env_ok v code es" "passes v code es = Inr (es', minted)"
    and "e \<in> set es" "Code e = c" "c \<noteq> []" "CheckTerms e (env_now v) \<noteq> None"
  shows "c \<notin> Code ` set es'"
proof
  assume "c \<in> Code ` set es'"
  then obtain e' where "e' \<in> set es'" "Code e' = c" by auto
  moreover have "c \<in> insert code (Code ` set es)"
    using assms(3,4) by auto
  ultimately obtain x where "x \<in> set es" "Code x = c" "\<not> shared_code es code c" "CheckTerms x (env_now v) = None"
    using passed_code [OF assms(1,2) _ _ assms(5)] by metis
  with unshared_unique [OF this(3,1) assms(3) this(2) assms(4)] assms(6) show False
    by simp
qed

lemma expired_changes:
  assumes "env_ok v code es" "reload_rows v code es = Inr (es', changed)"
    and "e \<in> set es" "Code e \<noteq> []" "Code e \<noteq> code" "CheckTerms e (env_now v) \<noteq> None"
    and "\<not> shared_code es code (Code e)"
  shows "changed \<noteq> []"
proof -
  let ?es1 = "fst (DedupeCodes (env_range v es) es code)"
  have "strip_shared es code e = e"
    using assms(7) by (simp add: strip_shared_def)
  then have "e \<in> set ?es1"
    using assms(1,3) by (force simp: env_ok_def DedupeCodes_map)
  then have "snd (RetireExpired ?es1 (env_now v)) \<noteq> []"
    using assms(4,6) by (auto simp: RetireExpired_labels filter_empty_conv)
  then show ?thesis
    using assms(2,3) by (auto simp: reload_rows_def Let_def split_beta split: if_splits sum.splits)
qed

lemma reload_saved:
  assumes "reload v ls d = (ls', d', None)" "load_or_empty v ls d = Inr (es, m)"
    "reload_rows v (ls_code ls) es = Inr (es', changed)" "changed \<noteq> []"
  shows "\<exists>m. d' = File (Some (encode_entries (env_tfmt v) es')) m"
proof (cases "SaveLinks (env_tfmt v) (env_wmod v) d es' m")
  case (Pair d'' r)
  with assms have "r = None" "d'' = d'"
    by (auto simp: reload_def Let_def split: option.splits sum.splits)
  with Pair SaveLinks_Ok show ?thesis by blast
qed

section \<open>Properties\<close>

text \<open>
  C1. Credentials are unambiguous at all times. From start-up on, through any sequence of reloads,
  additions, removals, edits and outside changes of the file (with a generator that yields new
  codes), no two rows hold the same code, so the row the connection-time check picks (the last match)
  is the row the poll later finds (the first match), and the device's own code always resolves to the
  unexpiring owner row.
\<close>

theorem credentials_unambiguous:
  assumes "newLinkState v off code eph d0 = (Ok ls0, d1)"
    and "step_ok v OpReload \<lparr>ls_offered = off, ls_code = code, ls_readOnly = eph,
           ls_table = \<lparr>entries = [], offered = zero_spec\<rparr>, ls_mod = None\<rparr> d0"
    and "run_ok steps (ls0, d1)"
  shows "let ls = fst (link_run steps (ls0, d1)); t = ls_table ls in
     (\<forall>a \<in> set (entries t). \<forall>b \<in> set (entries t). Code a = Code b \<longrightarrow> Code a \<noteq> [] \<longrightarrow> a = b) \<and>
     Authorize t c now = (case ByCode t c of None \<Rightarrow> None | Some e \<Rightarrow> if CheckTerms e now = None then Some e else None) \<and>
     (ls_code ls \<noteq> [] \<longrightarrow> Authorize t (ls_code ls) now = Some (owner_row (ls_code ls)))"
proof -
  let ?ls = "fst (link_run steps (ls0, d1))"
  have "env_ok v code es" if "(if eph then Inr ([], None) else LoadLinks (env_tparse v) d0) = Inr (es, m)" for es m
    using assms(2) that by (simp add: step_ok_def op_rows_def load_or_empty_def)
  then have inv: "ls_inv ?ls"
    using link_run_inv [of "(ls0, d1)" steps] newLinkState_inv [OF assms(1)] assms(3) by auto
  have "find (\<lambda>e. Code e = ls_code ?ls) (entries (ls_table ?ls)) = Some (owner_row (ls_code ?ls))"
    using inv by (auto simp: ls_inv_def owner_row_def)
  then have "Authorize (ls_table ?ls) (ls_code ?ls) now = Some (owner_row (ls_code ?ls))" if "ls_code ?ls \<noteq> []"
    using that ls_inv_lookup [OF inv] by (simp add: ByCode_def CheckTerms_def owner_row_def)
  moreover have "uniq_codes (entries (ls_table ?ls))"
    using inv by (simp add: ls_inv_def)
  then have "\<forall>a \<in> set (entries (ls_table ?ls)). \<forall>b \<in> set (entries (ls_table ?ls)). Code a = Code b \<longrightarrow> Code a \<noteq> [] \<longrightarrow> a = b"
    using uniq_codes_same by blast
  ultimately show ?thesis
    using ls_inv_lookup [OF inv] unfolding Let_def by blast
qed

theorem credentials_unambiguous_witness:
  "Authorize (ls_table (fst (link_run [(demo_env CHR ''2'' 2, OpAdd demo_terms), (demo_env CHR ''3'' 60, OpReload)] (demo_state, demo_disk))))
     ''own'' 70 = Some (owner_row ''own'')"
proof -
  let ?steps = "[(demo_env CHR ''2'' 2, OpAdd demo_terms), (demo_env CHR ''3'' 60, OpReload)]"
  let ?s1 = "link_step (demo_env CHR ''2'' 2) (OpAdd demo_terms) (demo_state, demo_disk)"
  let ?ls = "\<lparr>ls_offered = Everything, ls_code = ''own'', ls_readOnly = False,
           ls_table = \<lparr>entries = [], offered = zero_spec\<rparr>, ls_mod = None\<rparr>"
  have "step_ok (demo_env CHR ''1'' 1) OpReload ?ls demo_disk"
    by (rule demo_step_ok [where es = "demo_rows"]; code_simp)
  moreover have "step_ok (demo_env CHR ''2'' 2) (OpAdd demo_terms) demo_state demo_disk"
    by (rule demo_step_ok [where es = "demo_rows @ [demo_terms]"]; code_simp)
  moreover have "step_ok (demo_env CHR ''3'' 60) OpReload (fst ?s1) (snd ?s1)"
    by (rule demo_step_ok [where es = "demo_rows @ [demo_terms\<lparr>Code := ''2''\<rparr>]"]; code_simp)
  moreover have "ls_code (fst (link_run ?steps (demo_state, demo_disk))) = ''own''"
    by code_simp
  ultimately show ?thesis
    using credentials_unambiguous [OF demo_start, of ?steps "[]" 70] by (simp add: Let_def)
qed

text \<open>
  Removing a link revokes it: when \<^verbatim>\<open>link rm\<close> succeeds on a file whose codes are
  distinct, the code the removed row held is in no row of the new table, so no connection is
  authorized with it and no live session finds its row again; the other rows that are live keep their
  codes and terms.
\<close>

theorem remove_revokes:
  assumes "removeLink label v ls d = (ls', d', None)"
    and "LoadLinks (env_tparse v) d = Ok (es, m)" "uniq_codes es" "ls_code ls \<notin> Code ` set es"
    and "code_order (env_range v (filter (\<lambda>x. Label x \<noteq> label) es)) (filter (\<lambda>x. Label x \<noteq> label) es)"
    and "fresh_gen (env_gen v) (insert (ls_code ls) (insert [] (Code ` set es)))"
    and "e \<in> set es" "Label e = label" "Code e \<noteq> []"
  shows "ByCode (ls_table ls') (Code e) = None \<and> Authorize (ls_table ls') (Code e) now = None \<and>
    (\<forall>x \<in> set es. Label x \<noteq> label \<longrightarrow> Code x \<noteq> [] \<longrightarrow> CheckTerms x (env_now v) = None \<longrightarrow>
       ByCode (ls_table ls') (Code x) = Some x)"
proof -
  let ?es = "filter (\<lambda>x. Label x \<noteq> label) es"
  have "mutate (remove_fn label) v ls d = (ls', d', None)"
    using assms(1) by (auto simp: removeLink_def split: if_splits)
  then obtain es0 m0 es1 es' minted m' where "LoadLinks (env_tparse v) d = Inr (es0, m0)" "remove_fn label es0 = Inr es1"
      and l: "passes v (ls_code ls) es1 = Inr (es', minted)" "install v ls es' m' = Inr ls'"
    by (rule mutate_cases)
  then have es1: "es1 = ?es"
    using assms(2) by (auto simp: remove_fn_def split: if_splits)
  have ok: "env_ok v (ls_code ls) ?es"
    unfolding env_ok_def
  proof (intro conjI assms(5))
    show "fresh_gen (env_gen v) (insert (ls_code ls) (insert [] (Code ` set ?es)))"
      by (rule fresh_gen_mono [OF assms(6)]) auto
  qed
  have inv: "ls_inv ls'"
    using installed_inv [OF l(2) ok] l(1) es1 by simp
  have "Code e \<notin> Code ` set ?es"
  proof
    assume "Code e \<in> Code ` set ?es"
    then obtain x where "x \<in> set es" "Label x \<noteq> label" "Code e = Code x" by auto
    with uniq_codes_same [OF assms(3,7), of x] assms(8,9) show False by auto
  qed
  moreover have "env_gen v k \<noteq> Inr (Code e)" for k
    using assms(6,7) unfolding fresh_gen_def by blast
  ultimately have "Code e \<notin> Code ` set es'"
    using passes_codes [OF assms(5) l(1) [unfolded es1]] assms(9) by auto
  moreover have "Code e \<noteq> ls_code ls"
    using assms(4) imageI [OF assms(7), of Code] by auto
  ultimately have gone: "ByCode (ls_table ls') (Code e) = None"
    using installed_ByCode_None [OF l(2)] by blast
  have "ByCode (ls_table ls') (Code x) = Some x"
    if "x \<in> set es" "Label x \<noteq> label" "Code x \<noteq> []" "CheckTerms x (env_now v) = None" for x
  proof -
    have "Code x \<noteq> ls_code ls"
      using assms(4) imageI [OF that(1), of Code] by auto
    then have "x \<in> set es'"
      using that passes_keeps [OF ok] l(1) es1 uniq_not_shared [OF uniq_codes_filter [OF assms(3)]] by simp
    then have "x \<in> set (entries (ls_table ls'))"
      using install_Ok(1) [OF l(2)] by simp
    from ls_inv_ByCode [OF inv this that(3)] show ?thesis .
  qed
  then show ?thesis
    using gone ls_inv_lookup [OF inv] by simp
qed

theorem remove_revokes_witness:
  "Authorize (ls_table (fst (removeLink ''bob'' (demo_env CHR ''2'' 2) demo_state demo_disk))) ''b'' 2 = None \<and>
   ByCode (ls_table (fst (removeLink ''bob'' (demo_env CHR ''2'' 2) demo_state demo_disk))) ''c'' = Some (demo_rows ! 1)"
proof -
  let ?v = "demo_env CHR ''2'' 2"
  let ?r = "removeLink ''bob'' ?v demo_state demo_disk"
  have r: "removeLink ''bob'' ?v demo_state demo_disk = (fst ?r, fst (snd ?r), None)"
  proof -
    have "snd (snd ?r) = None" by code_simp
    then show ?thesis by (simp add: prod_eq_iff)
  qed
  have l: "LoadLinks (env_tparse ?v) demo_disk = Ok (demo_rows, Some 3)"
    by code_simp
  have c: "ls_code demo_state = ''own''" by code_simp
  have f: "fresh_gen (env_gen ?v) (insert (ls_code demo_state) (insert [] (Code ` set demo_rows)))"
    using demo_env_ok [of "CHR ''2''" "''own''" demo_rows 2] by (simp add: env_ok_def c demo_rows_def)
  have o: "code_order (env_range ?v (filter (\<lambda>x. Label x \<noteq> ''bob'') demo_rows)) (filter (\<lambda>x. Label x \<noteq> ''bob'') demo_rows)"
    by code_simp
  have u: "uniq_codes demo_rows" "ls_code demo_state \<notin> Code ` set demo_rows"
    by code_simp+
  have e: "demo_rows ! 0 \<in> set demo_rows" "demo_rows ! 1 \<in> set demo_rows" "Label (demo_rows ! 0) = ''bob''"
      "Code (demo_rows ! 0) = ''b''" "Code (demo_rows ! 1) = ''c''" "Label (demo_rows ! 1) \<noteq> ''bob''"
      "CheckTerms (demo_rows ! 1) (env_now ?v) = None"
    by code_simp+
  from remove_revokes [OF r l u o f e(1,3), of 2] e show ?thesis by auto
qed

text \<open>
  An expired code dies rather than sleeps: when a reload succeeds, a code some row of the file
  still held past its expiry (other than the device's own) is neither in the table nor, if only that
  row held it, in the file any more, so extending the row later cannot revive the URL already handed
  out.
\<close>

theorem expired_code_dies:
  assumes "reload v ls d = (ls', d', None)"
    and "load_or_empty v ls d = Ok (es, m)" "env_ok v (ls_code ls) es"
    and "\<forall>x. env_tparse v (env_tfmt v x) = Some x"
    and "e \<in> set es" "Code e \<noteq> []" "Code e \<noteq> ls_code ls" "CheckTerms e (env_now v) \<noteq> None"
  shows "ByCode (ls_table ls') (Code e) = None \<and>
    (\<not> shared_code es (ls_code ls) (Code e) \<longrightarrow>
       (\<forall>es'' m''. LoadLinks (env_tparse v) d' = Ok (es'', m'') \<longrightarrow> Code e \<notin> Code ` set es''))"
proof -
  obtain es' changed m' where l: "reload_rows v (ls_code ls) es = Inr (es', changed)" "install v ls es' m' = Inr ls'"
    using reload_cases [OF assms(1)] assms(2) by (metis Inr_inject prod.inject)
  obtain minted where p: "passes v (ls_code ls) es = Inr (es', minted)"
    using reload_rows_passes [OF assms(3) l(1)] by blast
  have gone: "Code e \<notin> Code ` set es'"
    using expired_code_gone [OF assms(3) p assms(5) refl assms(6,8)] .
  then have "ByCode (ls_table ls') (Code e) = None"
    using installed_ByCode_None [OF l(2) assms(7)] by blast
  moreover have "Code e \<notin> Code ` set es''"
    if "\<not> shared_code es (ls_code ls) (Code e)" "LoadLinks (env_tparse v) d' = Ok (es'', m'')" for es'' m''
  proof -
    have "changed \<noteq> []"
      using expired_changes [OF assms(3) l(1) assms(5-8) that(1)] .
    then obtain k where "d' = File (Some (encode_entries (env_tfmt v) es')) k"
      using reload_saved [OF assms(1,2) l(1)] by blast
    then have "es'' = es'"
      using that(2) ParseLinks_encode [of "env_tparse v" "env_tfmt v" es'] assms(4)
      by (auto simp: LoadLinks_def split: option.splits)
    with gone show ?thesis by simp
  qed
  ultimately show ?thesis by blast
qed

theorem expired_code_dies_witness:
  "ByCode (ls_table (fst (reload (demo_env CHR ''3'' 60) demo_state demo_disk))) ''b'' = None"
proof -
  let ?v = "demo_env CHR ''3'' 60"
  let ?r = "reload ?v demo_state demo_disk"
  have "snd (snd ?r) = None" by code_simp
  then have r: "?r = (fst ?r, fst (snd ?r), None)" by (simp add: prod_eq_iff)
  have l: "load_or_empty ?v demo_state demo_disk = Ok (demo_rows, Some 3)"
    by code_simp
  have c: "ls_code demo_state = ''own''" by code_simp
  have ok: "env_ok ?v (ls_code demo_state) demo_rows"
    by (rule demo_env_ok) (simp add: c demo_rows_def)
  have t: "\<forall>x. env_tparse ?v (env_tfmt ?v x) = Some x"
    by (simp add: demo_env_def stamp_round_trip)
  have e: "demo_rows ! 0 \<in> set demo_rows" "Code (demo_rows ! 0) \<noteq> []" "Code (demo_rows ! 0) \<noteq> ls_code demo_state"
      "CheckTerms (demo_rows ! 0) (env_now ?v) \<noteq> None" "Code (demo_rows ! 0) = ''b''"
    by code_simp+
  from expired_code_dies [OF r l ok t e(1-4)] e(5) show ?thesis by simp
qed

text \<open>
  C11. A new link is admitted under exactly its own terms: when adding an unexpired link succeeds,
  the code returned is new to the file, and presenting it at any instant before the expiry resolves
  to the added label, grant and expiry.
\<close>

theorem added_link_admits:
  assumes "addLink e v ls d = (ls', d', Ok c)"
    and "LoadLinks (env_tparse v) d = Ok (es, m)"
    and "env_ok v (ls_code ls) (es @ [e\<lparr>Code := []\<rparr>])"
    and "CheckTerms e (env_now v) = None" "CheckTerms e now = None"
  shows "c \<noteq> [] \<and> c \<notin> Code ` set es \<and> c \<noteq> ls_code ls \<and>
    Authorize (ls_table ls') c now = Some (e\<lparr>Code := c\<rparr>)"
proof -
  let ?e = "e\<lparr>Code := []\<rparr>"
  have mut: "mutate (add_fn ?e) v ls d = (ls', d', None)" "Label e \<noteq> OwnerLabel"
      and c: "c = (case ByLabel (ls_table ls') (Label e) of None \<Rightarrow> [] | Some a \<Rightarrow> Code a)"
    using assms(1) by (auto simp: addLink_def split: if_splits prod.splits option.splits)
  obtain es0 m0 es1 es' minted m' where "LoadLinks (env_tparse v) d = Inr (es0, m0)" "add_fn ?e es0 = Inr es1"
      and l: "passes v (ls_code ls) es1 = Inr (es', minted)" "install v ls es' m' = Inr ls'"
    using mut(1) by (rule mutate_cases)
  then have es1: "es1 = es @ [?e]"
    using assms(2) by (auto simp: add_fn_def split: if_splits)
  have inv: "ls_inv ls'"
    using installed_inv [OF l(2) assms(3)] l(1) es1 by simp
  have "list_all2 (passed_row v (ls_code ls) (es @ [?e])) (es @ [?e]) es'"
    using passes_rows [OF assms(3)] l(1) es1 by simp
  from list_all2_pick1 [OF this, of ?e] obtain a where a: "a \<in> set es'" "passed_row v (ls_code ls) (es @ [?e]) ?e a"
    by auto
  then have a': "a = e\<lparr>Code := Code a\<rparr>" "Code a \<noteq> []" "Code a \<notin> Code ` set es" "Code a \<noteq> ls_code ls"
    using assms(4) by (auto simp: passed_row_def)
  have mem: "a \<in> set (entries (ls_table ls'))"
    using install_Ok(1) [OF l(2)] a(1) by simp
  have "Label a = Label e" "CheckTerms a now = None"
    using arg_cong [OF a'(1), of Label] arg_cong [OF a'(1), of "\<lambda>x. CheckTerms x now"] assms(5) by simp_all
  then have "ByLabel (ls_table ls') (Label e) = Some a"
    using find_label [OF _ mem] inv by (simp add: ByLabel_def ls_inv_def)
  with c have "c = Code a" by simp
  moreover have "ByCode (ls_table ls') (Code a) = Some a"
    by (rule ls_inv_ByCode [OF inv mem a'(2)])
  ultimately show ?thesis
    using a' ls_inv_lookup [OF inv] \<open>CheckTerms a now = None\<close> by simp
qed

theorem added_link_admits_witness:
  "Authorize (ls_table (fst (addLink demo_terms (demo_env CHR ''2'' 2) demo_state demo_disk))) ''2'' 80 =
     Some (demo_terms\<lparr>Code := ''2''\<rparr>)"
proof -
  let ?v = "demo_env CHR ''2'' 2"
  let ?r = "addLink demo_terms ?v demo_state demo_disk"
  have "snd (snd ?r) = Ok ''2''" by code_simp
  then have r: "?r = (fst ?r, fst (snd ?r), Ok ''2'')" by (simp add: prod_eq_iff)
  have l: "LoadLinks (env_tparse ?v) demo_disk = Ok (demo_rows, Some 3)"
    by code_simp
  have c: "ls_code demo_state = ''own''" by code_simp
  have ok: "env_ok ?v (ls_code demo_state) (demo_rows @ [demo_terms\<lparr>Code := []\<rparr>])"
    by (rule demo_env_ok) (simp add: c demo_rows_def)
  have "CheckTerms demo_terms (env_now ?v) = None" "CheckTerms demo_terms 80 = None"
    by code_simp+
  from added_link_admits [OF r l ok this] show ?thesis by blast
qed

end
