(* ===== verification/Credit.thy ===== *)
theory Credit
  imports Swsp
begin

text \<open>
  The credit contract of a v4 stream, written once for both ends. A sender reserves credit before it
  writes and has its limit raised by window updates; a receiver checks every frame against what it
  advertised and advertises more as frames are consumed. \<open>credit_link\<close> puts a sender and a receiver
  at the ends of two ordered channels and shows that a sender that keeps its side of the contract is
  never accused of exceeding the window. The listener's stream state and the client's stream state
  each interpret both roles.
\<close>

locale credit_sender =
  fixes sent limit :: "'s \<Rightarrow> nat"
    and reserve :: "nat \<Rightarrow> 's \<Rightarrow> 's option"
    and raise_limit :: "nat \<Rightarrow> 's \<Rightarrow> 's"
    and s_invar :: "'s \<Rightarrow> bool"
  assumes reserve_credit: "s_invar s \<Longrightarrow> reserve n s = Some s' \<Longrightarrow>
      sent s' = sent s + n \<and> limit s' = limit s \<and> s_invar s'"
    and raise_credit: "s_invar s \<Longrightarrow>
      sent (raise_limit m s) = sent s \<and> limit (raise_limit m s) \<le> max (limit s) m \<and> s_invar (raise_limit m s)"
    and within_limit: "s_invar s \<Longrightarrow> sent s \<le> limit s"
begin

lemma reserve_bound: "s_invar s \<Longrightarrow> reserve n s = Some s' \<Longrightarrow> sent s + n \<le> limit s"
  using reserve_credit within_limit by metis

end

locale credit_receiver =
  fixes received advertised :: "'r \<Rightarrow> nat"
    and accept :: "frame \<Rightarrow> 'r \<Rightarrow> 'e + 'r"
    and violation :: "'e \<Rightarrow> bool"
    and digest :: "'c \<Rightarrow> 'r \<Rightarrow> 'r \<times> nat option"
    and r_invar :: "'r \<Rightarrow> bool"
  assumes accept_credit: "r_invar r \<Longrightarrow> accept f r = Inr r' \<Longrightarrow>
      received r' = received r + FlowBytes f \<and> advertised r' = advertised r \<and> r_invar r'"
    and accept_violation: "r_invar r \<Longrightarrow> accept f r = Inl e \<Longrightarrow> violation e \<Longrightarrow>
      received r + FlowBytes f > advertised r"
    and digest_credit: "r_invar r \<Longrightarrow> digest c r = (r', u) \<Longrightarrow>
      received r' = received r \<and> advertised r \<le> advertised r' \<and> r_invar r' \<and>
      (case u of None \<Rightarrow> True | Some m \<Rightarrow> m \<le> advertised r')"

section \<open>A link\<close>

record ('s, 'r) link =
  k_sender :: 's
  k_receiver :: 'r
  k_flight :: "frame list"
  k_updates :: "nat list"

datatype 'c link_event = Write frame | Arrive | Digest 'c | Update

text \<open>
  One step of a link: the sender writes a frame if it gets the credit, the oldest frame arrives, the
  receiver's side makes progress, the oldest update arrives. The result carries the receiver's
  verdict on an arriving frame.
\<close>

definition link_do ::
  "(nat \<Rightarrow> 's \<Rightarrow> 's option) \<Rightarrow> (nat \<Rightarrow> 's \<Rightarrow> 's) \<Rightarrow> (frame \<Rightarrow> 'r \<Rightarrow> 'e + 'r) \<Rightarrow>
   ('c \<Rightarrow> 'r \<Rightarrow> 'r \<times> nat option) \<Rightarrow> 'c link_event \<Rightarrow> ('s, 'r) link \<Rightarrow> 'e + ('s, 'r) link" where
  "link_do res rais acc dig e k =
     (case e of
        Write f \<Rightarrow>
          (case res (FlowBytes f) (k_sender k) of
             None \<Rightarrow> Inr k
           | Some s \<Rightarrow> Inr (k\<lparr>k_sender := s, k_flight := k_flight k @ [f]\<rparr>))
      | Arrive \<Rightarrow>
          (case k_flight k of
             [] \<Rightarrow> Inr k
           | f # fs \<Rightarrow>
               (case acc f (k_receiver k) of
                  Inl x \<Rightarrow> Inl x
                | Inr r \<Rightarrow> Inr (k\<lparr>k_receiver := r, k_flight := fs\<rparr>)))
      | Digest c \<Rightarrow>
          (case dig c (k_receiver k) of (r, u) \<Rightarrow>
             Inr (k\<lparr>k_receiver := r, k_updates := k_updates k @ (case u of None \<Rightarrow> [] | Some m \<Rightarrow> [m])\<rparr>))
      | Update \<Rightarrow>
          (case k_updates k of
             [] \<Rightarrow> Inr k
           | m # ms \<Rightarrow> Inr (k\<lparr>k_sender := rais m (k_sender k), k_updates := ms\<rparr>)))"

fun link_trace ::
  "(nat \<Rightarrow> 's \<Rightarrow> 's option) \<Rightarrow> (nat \<Rightarrow> 's \<Rightarrow> 's) \<Rightarrow> (frame \<Rightarrow> 'r \<Rightarrow> 'e + 'r) \<Rightarrow>
   ('c \<Rightarrow> 'r \<Rightarrow> 'r \<times> nat option) \<Rightarrow> 'c link_event list \<Rightarrow> ('s, 'r) link \<Rightarrow> 'e + ('s, 'r) link" where
  "link_trace res rais acc dig [] k = Inr k"
| "link_trace res rais acc dig (e # es) k =
     (case link_do res rais acc dig e k of Inl x \<Rightarrow> Inl x | Inr k' \<Rightarrow> link_trace res rais acc dig es k')"

locale credit_link =
  credit_sender sent limit reserve raise_limit s_invar +
  credit_receiver received advertised accept violation digest r_invar
  for sent limit :: "'s \<Rightarrow> nat"
    and reserve raise_limit s_invar
    and received advertised :: "'r \<Rightarrow> nat"
    and accept :: "frame \<Rightarrow> 'r \<Rightarrow> 'e + 'r"
    and violation
    and digest :: "'c \<Rightarrow> 'r \<Rightarrow> 'r \<times> nat option"
    and r_invar
begin

definition balanced :: "('s, 'r) link \<Rightarrow> bool" where
  "balanced k \<longleftrightarrow>
     s_invar (k_sender k) \<and> r_invar (k_receiver k) \<and>
     sent (k_sender k) = received (k_receiver k) + sum_list (map FlowBytes (k_flight k)) \<and>
     limit (k_sender k) \<le> advertised (k_receiver k) \<and>
     (\<forall>m \<in> set (k_updates k). m \<le> advertised (k_receiver k))"

lemma balanced_do:
  assumes "balanced k" "link_do reserve raise_limit accept digest e k = Inr k'"
  shows "balanced k'"
proof (cases e)
  case (Write f)
  then show ?thesis
    using assms reserve_credit [of "k_sender k" "FlowBytes f"]
    by (auto simp: link_do_def balanced_def split: option.splits)
next
  case Arrive
  then show ?thesis
    using assms accept_credit [of "k_receiver k"]
    by (auto simp: link_do_def balanced_def split: list.splits sum.splits)
next
  case (Digest c)
  obtain r u where d: "digest c (k_receiver k) = (r, u)" by fastforce
  have "received r = received (k_receiver k)" "advertised (k_receiver k) \<le> advertised r" "r_invar r"
    "case u of None \<Rightarrow> True | Some m \<Rightarrow> m \<le> advertised r"
    using digest_credit [OF _ d] assms(1) by (simp_all add: balanced_def)
  then show ?thesis
    using assms Digest d by (fastforce simp: link_do_def balanced_def split: option.splits)
next
  case Update
  show ?thesis
  proof (cases "k_updates k")
    case Nil
    then show ?thesis using assms Update by (simp add: link_do_def)
  next
    case (Cons m ms)
    then have k': "k' = k\<lparr>k_sender := raise_limit m (k_sender k), k_updates := ms\<rparr>"
      using assms(2) Update by (simp add: link_do_def)
    have "max (limit (k_sender k)) m \<le> advertised (k_receiver k)"
      using assms(1) Cons by (simp add: balanced_def)
    then show ?thesis
      using assms(1) Cons raise_credit [of "k_sender k" m] unfolding k' balanced_def by auto
  qed
qed

lemma balanced_no_violation:
  assumes "balanced k" "link_do reserve raise_limit accept digest e k = Inl x"
  shows "\<not> violation x"
proof
  assume v: "violation x"
  obtain f fs where f: "k_flight k = f # fs" "accept f (k_receiver k) = Inl x"
    using assms(2) by (auto simp: link_do_def split: link_event.splits option.splits list.splits sum.splits prod.splits)
  have "received (k_receiver k) + FlowBytes f > advertised (k_receiver k)"
    using accept_violation [OF _ f(2) v] assms(1) by (simp add: balanced_def)
  moreover have "sent (k_sender k) \<le> limit (k_sender k)"
    using within_limit [of "k_sender k"] assms(1) unfolding balanced_def by blast
  ultimately show False
    using assms(1) f(1) by (simp add: balanced_def)
qed

lemma trace_no_violation:
  "balanced k \<Longrightarrow> link_trace reserve raise_limit accept digest es k = Inl x \<Longrightarrow> \<not> violation x"
proof (induction es arbitrary: k)
  case (Cons e es)
  show ?case
  proof (cases "link_do reserve raise_limit accept digest e k")
    case (Inl y)
    then show ?thesis
      using Cons.prems balanced_no_violation [OF Cons.prems(1) Inl] by simp
  next
    case (Inr k1)
    then show ?thesis
      using Cons.prems Cons.IH [OF balanced_do [OF Cons.prems(1) Inr]] by simp
  qed
qed simp

lemma trace_balanced:
  "balanced k \<Longrightarrow> link_trace reserve raise_limit accept digest es k = Inr k' \<Longrightarrow> balanced k'"
proof (induction es arbitrary: k)
  case (Cons e es)
  show ?case
  proof (cases "link_do reserve raise_limit accept digest e k")
    case (Inr k1)
    then show ?thesis
      using Cons.prems Cons.IH [OF balanced_do [OF Cons.prems(1) Inr]] by simp
  qed (use Cons.prems in simp)
qed simp

end

end
