(* ===== verification/Flow.thy ===== *)
theory Flow
  imports Credit Contracts
begin

text \<open>
  \<^verbatim>\<open>internal/session/flow.go\<close>, the state of one stream on the listener: the bounded queue of
  inbound frames, the receive window with its updates, the send credit, and the two directions'
  ends. Each method is the critical section it runs under the stream's mutex. The worker goroutine of
  \<^verbatim>\<open>runStream\<close> takes a frame from the channel, processes it and only then gives its queue space
  back, so the frame in its hands is part of the state. The 64-bit byte counters are naturals: each
  is at most the bytes received plus one window, or a limit the peer sent as a 64-bit number.
\<close>

section \<open>State\<close>

record stream_state =
  st_id :: u32
  st_type :: string
  st_flow :: bool
  st_queue :: "frame list"
  st_hand :: "(frame \<times> bool) option"
  st_closed :: bool
  st_queuedBytes :: int
  st_queuedFrames :: int
  st_received :: nat
  st_consumed :: nat
  st_advertised :: nat
  st_lastUpdate :: nat
  st_sent :: nat
  st_sendMax :: nat
  st_receiveFIN :: bool
  st_receiveQueuedFIN :: bool
  st_sendFIN :: bool
  st_fragmenting :: bool

definition newStreamState :: "u32 \<Rightarrow> string \<Rightarrow> bool \<Rightarrow> stream_state" where
  "newStreamState i ty flow =
     \<lparr>st_id = i, st_type = ty, st_flow = flow, st_queue = [], st_hand = None, st_closed = False,
      st_queuedBytes = 0, st_queuedFrames = 0, st_received = 0, st_consumed = 0,
      st_advertised = (if flow then InitialStreamWindow else 0), st_lastUpdate = 0, st_sent = 0,
      st_sendMax = (if flow then InitialStreamWindow else 0), st_receiveFIN = False,
      st_receiveQueuedFIN = False, st_sendFIN = False, st_fragmenting = False\<rparr>"

datatype recv_error = StreamClosed | StreamReceiveError string

definition receiveErrorCode :: "recv_error \<Rightarrow> string" where
  "receiveErrorCode e = (case e of StreamReceiveError code \<Rightarrow> code | StreamClosed \<Rightarrow> ''receive_overflow'')"

section \<open>Receiving\<close>

text \<open>
  The last branch is the select default of the channel send: the counters are put back, which gives
  the state from before.
\<close>

definition enqueue :: "frame \<Rightarrow> stream_state \<Rightarrow> (recv_error, stream_state) go_result" where
  "enqueue f st =
     (let bytes = length (Payload f); flowBytes = FlowBytes f in
      if st_closed st then Err StreamClosed
      else if st_receiveQueuedFIN st then Err (StreamReceiveError ''protocol_error'')
      else if st_flow st \<and> flowBytes > 0 \<and>
              (st_received st > st_advertised st \<or> flowBytes > st_advertised st - st_received st)
      then Err (StreamReceiveError ''flow_control_violation'')
      else if st_queuedFrames st \<ge> int MaxQueuedStreamFrames \<or>
              int bytes > int InitialStreamWindow - st_queuedBytes st
      then Err (StreamReceiveError ''receive_overflow'')
      else if length (st_queue st) \<ge> MaxQueuedStreamFrames then Err (StreamReceiveError ''receive_overflow'')
      else Ok (st\<lparr>st_received := st_received st + flowBytes,
                  st_receiveQueuedFIN := (st_receiveQueuedFIN st \<or> IsFIN f),
                  st_queuedFrames := st_queuedFrames st + 1,
                  st_queuedBytes := st_queuedBytes st + int bytes,
                  st_queue := st_queue st @ [f]\<rparr>))"

definition dequeued :: "frame \<Rightarrow> stream_state \<Rightarrow> stream_state" where
  "dequeued f st =
     st\<lparr>st_queuedFrames := st_queuedFrames st - 1,
        st_queuedBytes := st_queuedBytes st - int (length (Payload f))\<rparr>"

definition stopNow :: "stream_state \<Rightarrow> stream_state \<times> bool" where
  "stopNow st = (if st_closed st then (st, False) else (st\<lparr>st_closed := True\<rparr>, True))"

text \<open>\<^verbatim>\<open>consume\<close>, with the update it makes \<^verbatim>\<open>sendWindowUpdate\<close> put on the wire.\<close>

definition consume :: "nat \<Rightarrow> stream_state \<Rightarrow> stream_state \<times> nat option" where
  "consume bytes st =
     (if \<not> st_flow st \<or> bytes = 0 then (st, None)
      else if st_closed st then (st, None)
      else
        let st1 = st\<lparr>st_consumed := st_consumed st + bytes\<rparr> in
        if st_consumed st1 - st_lastUpdate st1 \<ge> StreamWindowUpdateThreshold
        then (let adv = st_consumed st1 + InitialStreamWindow
              in (st1\<lparr>st_lastUpdate := st_consumed st1, st_advertised := adv\<rparr>, Some adv))
        else (st1, None))"

section \<open>Sending\<close>

definition updateSendMax :: "nat \<Rightarrow> stream_state \<Rightarrow> stream_state" where
  "updateSendMax mx st = (if \<not> st_closed st \<and> mx > st_sendMax st then st\<lparr>st_sendMax := mx\<rparr> else st)"

datatype 's reserve_result = Reserved 's | Blocked | NotReserved

text \<open>One turn of the loop of \<^verbatim>\<open>reserveSend\<close>; \<open>Blocked\<close> waits for a wake-up.\<close>

definition reserveSend :: "nat \<Rightarrow> stream_state \<Rightarrow> stream_state reserve_result" where
  "reserveSend bytes st =
     (if \<not> st_flow st \<or> bytes = 0 then (if st_closed st then NotReserved else Reserved st)
      else if st_closed st then NotReserved
      else if st_sent st \<le> st_sendMax st \<and> bytes \<le> st_sendMax st - st_sent st
      then Reserved (st\<lparr>st_sent := st_sent st + bytes\<rparr>)
      else Blocked)"

section \<open>The worker\<close>

datatype work = WTake | WConsume | WDequeued | WStop

definition work_step :: "work \<Rightarrow> stream_state \<Rightarrow> stream_state \<times> nat option" where
  "work_step w st =
     (case w of
        WTake \<Rightarrow>
          (case (st_hand st, st_queue st) of
             (None, f # fs) \<Rightarrow> (st\<lparr>st_hand := Some (f, st_closed st), st_queue := fs\<rparr>, None)
           | _ \<Rightarrow> (st, None))
      | WConsume \<Rightarrow>
          (case st_hand st of
             Some (f, False) \<Rightarrow>
               (let (st', u) = consume (FlowBytes f) st in (st'\<lparr>st_hand := Some (f, True)\<rparr>, u))
           | _ \<Rightarrow> (st, None))
      | WDequeued \<Rightarrow>
          (case st_hand st of
             Some (f, True) \<Rightarrow> ((dequeued f st)\<lparr>st_hand := None\<rparr>, None)
           | _ \<Rightarrow> (st, None))
      | WStop \<Rightarrow> (fst (stopNow st), None))"

section \<open>Invariant\<close>

definition hand_frames :: "stream_state \<Rightarrow> frame list" where
  "hand_frames st = (case st_hand st of None \<Rightarrow> [] | Some (f, _) \<Rightarrow> [f])"

definition unconsumed :: "stream_state \<Rightarrow> frame list" where
  "unconsumed st = (case st_hand st of Some (f, False) \<Rightarrow> [f] | _ \<Rightarrow> []) @ st_queue st"

definition st_inv :: "stream_state \<Rightarrow> bool" where
  "st_inv st \<longleftrightarrow>
     st_queuedFrames st = int (length (hand_frames st @ st_queue st)) \<and>
     st_queuedBytes st = int (sum_list (map (length \<circ> Payload) (hand_frames st @ st_queue st))) \<and>
     st_queuedFrames st \<le> int MaxQueuedStreamFrames \<and>
     st_queuedBytes st \<le> int InitialStreamWindow \<and>
     (st_flow st \<longrightarrow>
        st_received st \<le> st_advertised st \<and>
        st_advertised st = st_lastUpdate st + InitialStreamWindow \<and>
        st_lastUpdate st \<le> st_consumed st \<and>
        st_consumed st < st_lastUpdate st + StreamWindowUpdateThreshold \<and>
        st_consumed st + sum_list (map FlowBytes (unconsumed st)) \<le> st_received st \<and>
        (\<not> st_closed st \<longrightarrow> st_consumed st + sum_list (map FlowBytes (unconsumed st)) = st_received st) \<and>
        st_sent st \<le> st_sendMax st)"

lemmas st_inv_defs = st_inv_def hand_frames_def unconsumed_def

lemma st_inv_new: "st_inv (newStreamState i ty flow)"
  by (simp add: st_inv_defs newStreamState_def InitialStreamWindow_def StreamWindowUpdateThreshold_def)

lemma channel_never_full:
  assumes "st_inv st" "\<not> st_queuedFrames st \<ge> int MaxQueuedStreamFrames"
  shows "length (st_queue st) < MaxQueuedStreamFrames"
  using assms by (simp add: st_inv_def)

lemma enqueue_inv [inv_step]:
  assumes "st_inv st" "enqueue f st = Ok st'"
  shows "st_inv st'"
  using assms
  by (auto simp: enqueue_def Let_def st_inv_defs FlowBytes_def split: if_splits)

lemma consume_inv:
  assumes "st_inv st" "st_hand st = Some (f, False)" "consume (FlowBytes f) st = (st', u)"
  shows "st_inv (st'\<lparr>st_hand := Some (f, True)\<rparr>)"
  using assms
  by (auto simp: consume_def Let_def st_inv_defs split: if_splits)

lemma stopNow_inv: "st_inv st \<Longrightarrow> st_inv (fst (stopNow st))"
proof -
  have "hand_frames (st\<lparr>st_closed := True\<rparr>) = hand_frames st" "unconsumed (st\<lparr>st_closed := True\<rparr>) = unconsumed st"
    by (simp_all add: hand_frames_def unconsumed_def)
  moreover assume "st_inv st"
  ultimately show ?thesis
    by (auto simp: stopNow_def st_inv_def)
qed

lemma work_inv [inv_step]:
  assumes "st_inv st" "work_step w st = (st', u)"
  shows "st_inv st'"
proof (cases w)
  case WTake
  then show ?thesis
    using assms by (auto simp: work_step_def st_inv_defs split: option.splits list.splits bool.splits)
next
  case WConsume
  then show ?thesis
    using assms consume_inv [OF assms(1)]
    by (auto simp: work_step_def split: option.splits prod.splits bool.splits)
next
  case WDequeued
  then show ?thesis
    using assms by (auto simp: work_step_def dequeued_def st_inv_defs split: option.splits prod.splits bool.splits)
next
  case WStop
  then show ?thesis
    using assms stopNow_inv by (auto simp: work_step_def)
qed

lemma updateSendMax_inv [inv_step]: "st_inv st \<Longrightarrow> st_inv (updateSendMax mx st)"
  by (auto simp: updateSendMax_def st_inv_defs)

lemma reserveSend_inv [inv_step]: "st_inv st \<Longrightarrow> reserveSend n st = Reserved st' \<Longrightarrow> st_inv st'"
  by (auto simp: reserveSend_def st_inv_defs split: if_splits)

interpretation stop: one_shot stopNow st_closed "\<lambda>mx st. updateSendMax mx st"
  by unfold_locales (auto simp: stopNow_def updateSendMax_def)

section \<open>The credit contract\<close>

definition flow_reserve :: "nat \<Rightarrow> stream_state \<Rightarrow> stream_state option" where
  "flow_reserve n st = (case reserveSend n st of Reserved st' \<Rightarrow> Some st' | _ \<Rightarrow> None)"

definition flow_violation :: "recv_error \<Rightarrow> bool" where
  "flow_violation e \<longleftrightarrow> e = StreamReceiveError ''flow_control_violation''"

interpretation flow_send: credit_sender st_sent st_sendMax flow_reserve updateSendMax "\<lambda>st. st_flow st \<and> st_inv st"
proof
  fix s s' n m
  assume inv: "st_flow s \<and> st_inv s"
  show "flow_reserve n s = Some s' \<Longrightarrow> st_sent s' = st_sent s + n \<and> st_sendMax s' = st_sendMax s \<and> (st_flow s' \<and> st_inv s')"
    using inv reserveSend_inv
    by (auto simp: flow_reserve_def split: reserve_result.splits) (auto simp: reserveSend_def split: if_splits)
  show "st_sent (updateSendMax m s) = st_sent s \<and> st_sendMax (updateSendMax m s) \<le> max (st_sendMax s) m \<and>
      (st_flow (updateSendMax m s) \<and> st_inv (updateSendMax m s))"
    using inv updateSendMax_inv by (auto simp: updateSendMax_def)
  show "st_sent s \<le> st_sendMax s"
    using inv by (simp add: st_inv_def)
qed

interpretation flow_recv: credit_receiver st_received st_advertised enqueue flow_violation work_step
  "\<lambda>st. st_flow st \<and> st_inv st"
proof
  fix r r' f e c u
  assume inv: "st_flow r \<and> st_inv r"
  show "enqueue f r = Inr r' \<Longrightarrow> st_received r' = st_received r + FlowBytes f \<and> st_advertised r' = st_advertised r \<and> (st_flow r' \<and> st_inv r')"
    using inv enqueue_inv [of r f r'] by (auto simp: enqueue_def Let_def split: if_splits)
  show "enqueue f r = Inl e \<Longrightarrow> flow_violation e \<Longrightarrow> st_advertised r < st_received r + FlowBytes f"
    by (auto simp: enqueue_def Let_def flow_violation_def split: if_splits)
  show "st_received r' = st_received r \<and> st_advertised r \<le> st_advertised r' \<and> (st_flow r' \<and> st_inv r') \<and>
      (case u of None \<Rightarrow> True | Some m \<Rightarrow> m \<le> st_advertised r')" if "work_step c r = (r', u)"
  proof -
    have "st_inv r'" using inv work_inv that by blast
    moreover have "st_flow r' \<and> st_received r' = st_received r \<and> st_advertised r \<le> st_advertised r' \<and>
        (case u of None \<Rightarrow> True | Some m \<Rightarrow> m \<le> st_advertised r')"
      using that inv
      by (cases c) (auto simp: work_step_def consume_def dequeued_def stopNow_def Let_def st_inv_def
          split: option.splits list.splits bool.splits prod.splits if_splits)
    ultimately show ?thesis by blast
  qed
qed

section \<open>Properties\<close>

text \<open>One call on a stream, for runs: a frame from the peer, a turn of the worker, a window update, a write.\<close>

datatype flow_event = FlFrame frame | FlWork work | FlUpdate nat | FlWrite nat

definition flow_do :: "flow_event \<Rightarrow> stream_state \<Rightarrow> stream_state" where
  "flow_do e st =
     (case e of
        FlFrame f \<Rightarrow> (case enqueue f st of Inl _ \<Rightarrow> st | Inr st' \<Rightarrow> st')
      | FlWork w \<Rightarrow> fst (work_step w st)
      | FlUpdate mx \<Rightarrow> updateSendMax mx st
      | FlWrite n \<Rightarrow> (case flow_reserve n st of None \<Rightarrow> st | Some st' \<Rightarrow> st'))"

lemma flow_do_inv: "st_inv st \<Longrightarrow> st_inv (flow_do e st)"
proof (cases e)
  case (FlWork w)
  moreover assume "st_inv st"
  ultimately show ?thesis
    using work_inv [of st w "fst (work_step w st)" "snd (work_step w st)"] by (simp add: flow_do_def)
next
  case (FlFrame f)
  moreover assume "st_inv st"
  ultimately show ?thesis
    using enqueue_inv [of st f] by (simp add: flow_do_def split: sum.splits)
next
  case (FlUpdate mx)
  moreover assume "st_inv st"
  ultimately show ?thesis
    by (simp add: flow_do_def updateSendMax_inv)
next
  case (FlWrite n)
  moreover assume "st_inv st"
  ultimately show ?thesis
    using reserveSend_inv [of st n] by (simp add: flow_do_def flow_reserve_def split: reserve_result.splits)
qed

lemma flow_do_flow: "st_flow (flow_do e st) = st_flow st"
  by (cases e) (auto simp: flow_do_def flow_reserve_def enqueue_def work_step_def consume_def dequeued_def stopNow_def
      updateSendMax_def reserveSend_def Let_def split: sum.splits option.splits reserve_result.splits work.splits
      list.splits prod.splits if_splits bool.splits)

lemma flow_run_inv: "st_inv st \<Longrightarrow> st_inv (fold flow_do es st) \<and> st_flow (fold flow_do es st) = st_flow st"
  by (induction es arbitrary: st) (auto simp: flow_do_inv flow_do_flow)

text \<open>
  Bounds of a v4 stream on the listener: whatever the peer sends and however the worker is
  scheduled, at most 256 frames and one mebibyte are held, the bytes accepted stay within the window
  advertised, the window advertised is never more than one window ahead of what was consumed, and the
  bytes written stay within the peer's limit.
\<close>

theorem stream_bounds:
  "let st = fold flow_do es (newStreamState i ty True) in
   length (st_queue st) \<le> 256 \<and>
   sum_list (map (length \<circ> Payload) (st_queue st)) \<le> 2 ^ 20 \<and>
   st_received st \<le> st_advertised st \<and>
   st_advertised st \<le> st_consumed st + 2 ^ 20 \<and> st_consumed st \<le> st_received st \<and>
   st_sent st \<le> st_sendMax st"
proof -
  let ?st = "fold flow_do es (newStreamState i ty True)"
  have "st_inv ?st" "st_flow ?st"
    using flow_run_inv [OF st_inv_new [of i ty True], of es] by (simp_all add: newStreamState_def)
  then show ?thesis
    unfolding Let_def
    by (auto simp: st_inv_def InitialStreamWindow_def MaxQueuedStreamFrames_def simp flip: of_nat_add)
qed

end
