(* ===== verification/GoJson.thy ===== *)
theory GoJson
  imports BB_Prelude
begin

text \<open>
  Decoding a JSON value into a Go struct, as \<^verbatim>\<open>json.Unmarshal\<close> does for the control messages of a
  session. The text of a message is scanned before anything is stored, so text that is not JSON leaves
  the zero struct; a value of the wrong type leaves its field alone and makes the call return an
  error after the other fields are stored; null leaves a field alone; a field name matches a key
  whatever the case of its letters; a key given twice is stored twice, in order; unknown keys are
  skipped. The scanner and the printer of JSON text, the text of a decoding error, and SHA-256 are
  library functions and are arguments of the definitions that use them, bundled in one record.
\<close>

section \<open>The library functions\<close>

record go_env =
  js_parse :: "byte list \<Rightarrow> json option"
  js_print :: "json \<Rightarrow> byte list"
  js_error :: "byte list \<Rightarrow> string"
  sha256 :: "byte list \<Rightarrow> byte list"

definition bytes_of :: "string \<Rightarrow> byte list" where
  "bytes_of s = map (\<lambda>c. word_of_nat (of_char c)) s"

lemma bytes_of_inj: "bytes_of s = bytes_of t \<longleftrightarrow> s = t"
proof -
  have "c = d" if "(word_of_nat (of_char c) :: byte) = word_of_nat (of_char d)" for c d :: char
  proof -
    have "of_char c < (256::nat)" "of_char d < (256::nat)"
      by simp_all
    then have "of_char c = (of_char d :: nat)"
      using arg_cong [OF that, of unat] by (simp add: unat_of_nat)
    then show ?thesis
      by (simp only: of_char_eq_iff)
  qed
  then show ?thesis
    by (auto simp: bytes_of_def intro: map_injective injI)
qed

section \<open>Fields\<close>

definition as_string :: "json \<Rightarrow> string \<Rightarrow> string option" where
  "as_string v old = (case v of JStr s \<Rightarrow> Some s | JNull \<Rightarrow> Some old | _ \<Rightarrow> None)"

definition as_bool :: "json \<Rightarrow> bool \<Rightarrow> bool option" where
  "as_bool v old = (case v of JBool b \<Rightarrow> Some b | JNull \<Rightarrow> Some old | _ \<Rightarrow> None)"

definition as_int :: "json \<Rightarrow> int \<Rightarrow> int option" where
  "as_int v old =
     (case v of
        JNum n \<Rightarrow> (if - (2 ^ 63) \<le> n \<and> n < 2 ^ 63 then Some n else None)
      | JNull \<Rightarrow> Some old
      | _ \<Rightarrow> None)"

definition as_uint :: "nat \<Rightarrow> json \<Rightarrow> nat \<Rightarrow> nat option" where
  "as_uint w v old =
     (case v of
        JNum n \<Rightarrow> (if 0 \<le> n \<and> n < 2 ^ w then Some (nat n) else None)
      | JNull \<Rightarrow> Some old
      | _ \<Rightarrow> None)"

section \<open>Structs\<close>

text \<open>
  \<open>put\<close> stores a value under a folded key, \<open>None\<close> when the value has the wrong type. The second
  component of the result tells that the call returned no error.
\<close>

fun set_fields :: "(string \<Rightarrow> json \<Rightarrow> 'a \<Rightarrow> 'a option) \<Rightarrow> (string \<times> json) list \<Rightarrow> 'a \<times> bool \<Rightarrow> 'a \<times> bool" where
  "set_fields put [] r = r"
| "set_fields put ((k, v) # kvs) (a, ok) =
     (case put (ToLower k) v a of
        Some a' \<Rightarrow> set_fields put kvs (a', ok)
      | None \<Rightarrow> set_fields put kvs (a, False))"

definition Unmarshal :: "(string \<Rightarrow> json \<Rightarrow> 'a \<Rightarrow> 'a option) \<Rightarrow> 'a \<Rightarrow> json option \<Rightarrow> 'a \<times> bool" where
  "Unmarshal put zero data =
     (case data of
        None \<Rightarrow> (zero, False)
      | Some JNull \<Rightarrow> (zero, True)
      | Some (JObj kvs) \<Rightarrow> set_fields put kvs (zero, True)
      | Some _ \<Rightarrow> (zero, False))"

definition put_type :: "string \<Rightarrow> json \<Rightarrow> string \<Rightarrow> string option" where
  "put_type k v t = (if k = ''type'' then as_string v t else Some t)"

text \<open>The keys of the control messages are lower case already.\<close>

lemma lower_keys [simp]:
  "ToLower ''type'' = ''type''"
  "ToLower ''path'' = ''path''"
  "ToLower ''pin'' = ''pin''"
  "ToLower ''version'' = ''version''"
  "ToLower ''sdp'' = ''sdp''"
  "ToLower ''candidate'' = ''candidate''"
  "ToLower ''stream_id'' = ''stream_id''"
  "ToLower ''max_bytes'' = ''max_bytes''"
  "ToLower ''code'' = ''code''"
  "ToLower ''message'' = ''message''"
  "ToLower ''success'' = ''success''"
  "ToLower ''caps'' = ''caps''"
  "ToLower ''server_version'' = ''server_version''"
  "ToLower ''negotiated_version'' = ''negotiated_version''"
  "ToLower ''access'' = ''access''"
  "ToLower ''routing'' = ''routing''"
  "ToLower ''hash'' = ''hash''"
  by code_simp+

lemmas json_decode = Unmarshal_def put_type_def as_string_def as_bool_def as_int_def as_uint_def

end
