(* ===== verification/Base64.thy ===== *)
theory Base64
  imports Contracts
begin

text \<open>
  The two base64 encodings of Go's \<^verbatim>\<open>encoding/base64\<close> the sources use: \<^verbatim>\<open>StdEncoding\<close>,
  padded, for nonces, hashes and keys, and \<^verbatim>\<open>RawURLEncoding\<close>, unpadded, for access codes and
  device identifiers. The reader skips line breaks, accepts padding only where it belongs and only at
  the end, and does not look at the spare bits of the last digit, as the library's does.
\<close>

section \<open>Encodings\<close>

record b64_encoding =
  be_url :: bool
  be_pad :: bool

definition StdEncoding :: b64_encoding where
  "StdEncoding = \<lparr>be_url = False, be_pad = True\<rparr>"

definition RawURLEncoding :: b64_encoding where
  "RawURLEncoding = \<lparr>be_url = True, be_pad = False\<rparr>"

definition b64_alphabet :: "bool \<Rightarrow> string" where
  "b64_alphabet url =
     ''ABCDEFGHIJKLMNOPQRSTUVWXYZabcdefghijklmnopqrstuvwxyz0123456789'' @ (if url then ''-_'' else ''+/'')"

definition b64 :: "b64_encoding \<Rightarrow> nat \<Rightarrow> char" where
  "b64 e n = b64_alphabet (be_url e) ! (n mod 64)"

definition b64_pad :: "b64_encoding \<Rightarrow> nat \<Rightarrow> string" where
  "b64_pad e n = (if be_pad e then replicate n (CHR ''='') else [])"

fun EncodeToString :: "b64_encoding \<Rightarrow> byte list \<Rightarrow> string" where
  "EncodeToString e [] = []"
| "EncodeToString e [a] = [b64 e (unat a div 4), b64 e (unat a mod 4 * 16)] @ b64_pad e 2"
| "EncodeToString e [a, b] =
     [b64 e (unat a div 4), b64 e (unat a mod 4 * 16 + unat b div 16), b64 e (unat b mod 16 * 4)] @ b64_pad e 1"
| "EncodeToString e (a # b # c # bs) =
     [b64 e (unat a div 4), b64 e (unat a mod 4 * 16 + unat b div 16), b64 e (unat b mod 16 * 4 + unat c div 64),
      b64 e (unat c mod 64)] @ EncodeToString e bs"

definition b64_value :: "b64_encoding \<Rightarrow> char \<Rightarrow> nat option" where
  "b64_value e c =
     (let n = of_char c :: nat in
      if 65 \<le> n \<and> n \<le> 90 then Some (n - 65)
      else if 97 \<le> n \<and> n \<le> 122 then Some (n - 71)
      else if 48 \<le> n \<and> n \<le> 57 then Some (n + 4)
      else if c = (if be_url e then CHR ''-'' else CHR ''+'') then Some 62
      else if c = (if be_url e then CHR ''_'' else CHR ''/'') then Some 63
      else None)"

definition one_byte :: "nat \<Rightarrow> nat \<Rightarrow> byte list" where
  "one_byte v w = [word_of_nat (v * 4 + w div 16)]"

definition two_bytes :: "nat \<Rightarrow> nat \<Rightarrow> nat \<Rightarrow> byte list" where
  "two_bytes v w x = one_byte v w @ [word_of_nat (w mod 16 * 16 + x div 4)]"

definition three_bytes :: "nat \<Rightarrow> nat \<Rightarrow> nat \<Rightarrow> nat \<Rightarrow> byte list" where
  "three_bytes v w x y = two_bytes v w x @ [word_of_nat (x mod 4 * 64 + y)]"

definition last_two :: "b64_encoding \<Rightarrow> char \<Rightarrow> char \<Rightarrow> byte list option" where
  "last_two e a b =
     (case (b64_value e a, b64_value e b) of (Some v, Some w) \<Rightarrow> Some (one_byte v w) | _ \<Rightarrow> None)"

definition last_three :: "b64_encoding \<Rightarrow> char \<Rightarrow> char \<Rightarrow> char \<Rightarrow> byte list option" where
  "last_three e a b c =
     (case (b64_value e a, b64_value e b, b64_value e c) of
        (Some v, Some w, Some x) \<Rightarrow> Some (two_bytes v w x) | _ \<Rightarrow> None)"

fun decode_quads :: "b64_encoding \<Rightarrow> string \<Rightarrow> byte list option" where
  "decode_quads e [] = Some []"
| "decode_quads e [a] = None"
| "decode_quads e [a, b] = (if be_pad e then None else last_two e a b)"
| "decode_quads e [a, b, c] = (if be_pad e then None else last_three e a b c)"
| "decode_quads e (a # b # c # d # s) =
     (if be_pad e \<and> d = CHR ''='' then
        (if s \<noteq> [] then None else if c = CHR ''='' then last_two e a b else last_three e a b c)
      else case (b64_value e a, b64_value e b, b64_value e c, b64_value e d) of
             (Some v, Some w, Some x, Some y) \<Rightarrow> map_option (\<lambda>bs. three_bytes v w x y @ bs) (decode_quads e s)
           | _ \<Rightarrow> None)"

definition DecodeString :: "b64_encoding \<Rightarrow> string \<Rightarrow> byte list option" where
  "DecodeString e s = decode_quads e (filter (\<lambda>c. c \<noteq> CHR 0x0A \<and> c \<noteq> CHR 0x0D) s)"

section \<open>Reading back\<close>

lemma alphabet_values: "map (b64_value e) (b64_alphabet (be_url e)) = map Some [0..<64]"
proof -
  have "[0..<64] = 0 # Suc 0 # [2..<64]"
    by (simp add: upt_rec [of 0] upt_rec [of "Suc 0"] numeral_2_eq_2)
  then show ?thesis
    by (cases "be_url e") (simp_all add: b64_alphabet_def b64_value_def upt_rec_numeral)
qed

lemma alphabet_length: "length (b64_alphabet url) = 64"
  by (simp add: b64_alphabet_def)

lemma b64_value_digit [simp]: "b64_value e (b64 e n) = Some (n mod 64)"
proof -
  have "map (b64_value e) (b64_alphabet (be_url e)) ! (n mod 64) = map Some [0..<64] ! (n mod 64)"
    by (simp only: alphabet_values)
  then show ?thesis
    by (simp add: b64_def alphabet_length)
qed

text \<open>A digit is neither padding nor a line break.\<close>

lemma b64_digit [simp]: "b64 e n \<noteq> CHR ''=''" "b64 e n \<noteq> CHR 0x0A" "b64 e n \<noteq> CHR 0x0D"
proof -
  have "b64_value e (CHR ''='') = None" "b64_value e (CHR 0x0A) = None" "b64_value e (CHR 0x0D) = None"
    by (simp_all add: b64_value_def)
  then show "b64 e n \<noteq> CHR ''=''" "b64 e n \<noteq> CHR 0x0A" "b64 e n \<noteq> CHR 0x0D"
    using b64_value_digit [of e n] by (metis option.distinct(1))+
qed

lemma EncodeToString_no_break: "filter (\<lambda>c. c \<noteq> CHR 0x0A \<and> c \<noteq> CHR 0x0D) (EncodeToString e bs) = EncodeToString e bs"
  by (induction e bs rule: EncodeToString.induct) (simp_all add: b64_pad_def)

lemma unat_byte: "unat (a :: byte) < 256"
  using unsigned_less [of a, where ?'a = nat] by simp

lemma digits_first: "word_of_nat (unat (a :: byte) div 4 * 4 + (unat a mod 4 * 16 + k) div 16) = a" if "k < 16"
proof -
  have "(unat a mod 4 * 16 + k) div 16 = unat a mod 4"
    using that by simp
  then show ?thesis
    by simp
qed

lemma digits_second:
  "word_of_nat ((m * 16 + unat (b :: byte) div 16) mod 16 * 16 + (unat b mod 16 * 4 + k) div 4) = b" if "k < 4"
proof -
  have "unat b div 16 < 16"
    using unat_byte [of b] by simp
  then have "(m * 16 + unat b div 16) mod 16 = unat b div 16" "(unat b mod 16 * 4 + k) div 4 = unat b mod 16"
    using that by simp_all
  then show ?thesis
    by simp
qed

lemma digits_third: "word_of_nat ((m * 4 + unat (c :: byte) div 64) mod 4 * 64 + unat c mod 64) = c"
proof -
  have "unat c div 64 < 4"
    using unat_byte [of c] by simp
  then have "(m * 4 + unat c div 64) mod 4 = unat c div 64"
    by simp
  then show ?thesis
    by simp
qed

lemma digit_bounds [simp]:
  "unat (a :: byte) div 4 mod 64 = unat a div 4" "unat a mod 4 * 16 mod 64 = unat a mod 4 * 16"
  "(unat a mod 4 * 16 + unat (b :: byte) div 16) mod 64 = unat a mod 4 * 16 + unat b div 16"
  "unat b mod 16 * 4 mod 64 = unat b mod 16 * 4"
  "(unat b mod 16 * 4 + unat (c :: byte) div 64) mod 64 = unat b mod 16 * 4 + unat c div 64"
proof -
  have "unat a mod 4 < 4" "unat b div 16 < 16" "unat b mod 16 < 16" "unat c div 64 < 4" "unat a div 4 < 64"
    using unat_byte [of a] unat_byte [of b] unat_byte [of c] by simp_all
  then show "unat a div 4 mod 64 = unat a div 4" "unat a mod 4 * 16 mod 64 = unat a mod 4 * 16"
    "(unat a mod 4 * 16 + unat b div 16) mod 64 = unat a mod 4 * 16 + unat b div 16"
    "unat b mod 16 * 4 mod 64 = unat b mod 16 * 4"
    "(unat b mod 16 * 4 + unat c div 64) mod 64 = unat b mod 16 * 4 + unat c div 64"
    by auto
qed

lemma bytes_back:
  "one_byte (unat a div 4) (unat a mod 4 * 16) = [a]"
  "two_bytes (unat a div 4) (unat a mod 4 * 16 + unat b div 16) (unat b mod 16 * 4) = [a, b]"
  "three_bytes (unat a div 4) (unat a mod 4 * 16 + unat b div 16) (unat b mod 16 * 4 + unat c div 64) (unat c mod 64) = [a, b, c]"
proof -
  have "unat b div 16 < 16" "unat c div 64 < 4"
    using unat_byte [of b] unat_byte [of c] by simp_all
  note digits = digits_first [of 0 a] digits_first [OF this(1), of a] digits_second [of 0 "unat a mod 4" b]
    digits_second [OF this(2), of "unat a mod 4" b] digits_third [of "unat b mod 16" c]
  show "one_byte (unat a div 4) (unat a mod 4 * 16) = [a]"
    "two_bytes (unat a div 4) (unat a mod 4 * 16 + unat b div 16) (unat b mod 16 * 4) = [a, b]"
    "three_bytes (unat a div 4) (unat a mod 4 * 16 + unat b div 16) (unat b mod 16 * 4 + unat c div 64) (unat c mod 64) = [a, b, c]"
    using digits unfolding one_byte_def two_bytes_def three_bytes_def
    by (simp_all only: append.simps add_0_right zero_less_numeral)
qed

lemma decode_quads_Encode: "decode_quads e (EncodeToString e bs) = Some bs"
proof (induction e bs rule: EncodeToString.induct)
  case (2 e a)
  then show ?case
    by (simp add: b64_pad_def last_two_def bytes_back numeral_2_eq_2)
next
  case (3 e a b)
  then show ?case
    by (simp add: b64_pad_def last_three_def bytes_back)
next
  case (4 e a b c bs)
  then show ?case
    by (simp add: bytes_back)
qed simp

interpretation b64c: codec "EncodeToString e" "DecodeString e" "\<lambda>_. True" for e
  by unfold_locales (simp add: DecodeString_def EncodeToString_no_break decode_quads_Encode)

declare EncodeToString.simps [simp del]

lemmas DecodeString_Encode [simp] = b64c.dec_enc [OF TrueI]
lemmas EncodeToString_inj = b64c.enc_inj [OF TrueI TrueI]

end
