(* ===== verification/GoCrypto.thy ===== *)
theory GoCrypto
  imports GoJson Base64 Swsp "HOL-Library.List_Lexorder"
begin

text \<open>
  What the sources use of Go's \<^verbatim>\<open>crypto/subtle\<close> and \<^verbatim>\<open>encoding/binary\<close> besides the frame header: the
  comparison that takes no early exit, and big-endian 32-bit words. \<open>readable\<close> is the property of a
  JSON message the two ends of a channel rely on.
\<close>

section \<open>Comparison in constant time\<close>

text \<open>\<^verbatim>\<open>subtle.ConstantTimeCompare\<close>: no early exit, the differences are accumulated.\<close>

definition ConstantTimeCompare :: "byte list \<Rightarrow> byte list \<Rightarrow> nat" where
  "ConstantTimeCompare x y =
     (if length x \<noteq> length y then 0
      else if foldl (\<lambda>v (a, b). v OR (a XOR b)) 0 (zip x y) = 0 then 1 else 0)"

lemma xor_zero: "a XOR b = 0 \<longleftrightarrow> a = (b :: byte)"
  by (metis word_bw_assocs(3) word_log_esimps(4) xor.left_neutral xor.right_neutral xor_self_eq)

lemma or_xor_accumulates:
  "length x = length y \<Longrightarrow> foldl (\<lambda>v (a, b). v OR (a XOR b)) v (zip x y) = 0 \<longleftrightarrow> v = 0 \<and> x = (y :: byte list)"
proof (induction x y arbitrary: v rule: list_induct2)
  case Nil
  then show ?case by simp
next
  case (Cons a x b y)
  then show ?case
    by (auto simp: or_eq_0_iff xor_zero)
qed

lemma ConstantTimeCompare_eq: "ConstantTimeCompare x y = Suc 0 \<longleftrightarrow> x = y"
  using or_xor_accumulates [of x y 0] by (auto simp: ConstantTimeCompare_def)

lemma CompareStrings_eq: "ConstantTimeCompare (bytes_of x) (bytes_of y) = Suc 0 \<longleftrightarrow> x = y"
  by (simp add: ConstantTimeCompare_eq bytes_of_inj)

section \<open>Big-endian words\<close>

definition BigEndian32 :: "byte list \<Rightarrow> u32" where
  "BigEndian32 b = push_bit 24 (ucast (b ! 0)) OR push_bit 16 (ucast (b ! 1)) OR push_bit 8 (ucast (b ! 2)) OR ucast (b ! 3)"

section \<open>JSON messages\<close>

definition readable :: "go_env \<Rightarrow> json \<Rightarrow> bool" where
  "readable env j \<longleftrightarrow> js_parse env (js_print env j) = Some j"

text \<open>The string field of one name; \<open>put_type\<close> is the field every message has.\<close>

definition put_key :: "string \<Rightarrow> string \<Rightarrow> json \<Rightarrow> string \<Rightarrow> string option" where
  "put_key name k v t = (if k = name then as_string v t else Some t)"

lemma bytes_of_length [simp]: "length (bytes_of s) = length s"
  by (simp add: bytes_of_def)

lemma bytes_of_append: "bytes_of (s @ t) = bytes_of s @ bytes_of t"
  by (simp add: bytes_of_def)

text \<open>
  A library for the messages of one conversation: each is printed as its number in a table.
\<close>

fun index_of :: "'a \<Rightarrow> 'a list \<Rightarrow> nat" where
  "index_of x [] = 0"
| "index_of x (y # ys) = (if x = y then 0 else Suc (index_of x ys))"

definition indexed_env :: "json list \<Rightarrow> go_env" where
  "indexed_env t = \<lparr>js_parse = (\<lambda>bs. case bs of [b] \<Rightarrow> if unat b < length t then Some (t ! unat b) else None | _ \<Rightarrow> None),
     js_print = (\<lambda>j. [word_of_nat (index_of j t)]), js_error = (\<lambda>bs. []), sha256 = (\<lambda>bs. bs)\<rparr>"

lemma index_of_nth: "x \<in> set xs \<Longrightarrow> index_of x xs < length xs \<and> xs ! index_of x xs = x"
  by (induction xs) auto

lemma indexed_readable: "j \<in> set t \<Longrightarrow> length t < 2 ^ 8 \<Longrightarrow> readable (indexed_env t) j"
  using index_of_nth [of j t] by (simp add: readable_def indexed_env_def unat_of_nat)

end
