(* ===== verification/Session.thy ===== *)
theory Session
  imports Flow GoCrypto "HOL-Library.Multiset" "HOL-Library.List_Lexorder" "HOL-Library.AList"
begin

text \<open>
  \<^verbatim>\<open>internal/session\<close> (\<^verbatim>\<open>session.go\<close>, \<^verbatim>\<open>control.go\<close>, \<^verbatim>\<open>flow.go\<close>, \<^verbatim>\<open>video.go\<close>) and
  \<^verbatim>\<open>internal/auth/pin.go\<close>: one accepted peer of the listener, from its first control frame to the
  close of the session.

  A stream object is shared by the routing table, its worker, its writers and the goroutines that
  fail it, so stream objects live in a heap and are named by address; \<open>s_streams\<close> is the routing
  table. The state also holds what runs beside the reader: the worker of each stream with the frame
  in its hands, the writers inside \<^verbatim>\<open>sendStreamFrame\<close> with how far they are, and the goroutines
  started by \<^verbatim>\<open>failStream\<close>, \<^verbatim>\<open>rejectStream\<close>, \<^verbatim>\<open>Close\<close> and \<^verbatim>\<open>sendReady\<close>. \<open>s_out\<close> records every
  frame given to the data channel, tagged with the stream object that wrote it, and \<open>s_calls\<close>
  every callback made. \<open>s_inbox\<close> holds the messages whose \<^verbatim>\<open>HandleMessage\<close> has found the session open
  and not yet routed them, \<open>s_due\<close> the callbacks whose worker has found its stream open and not yet
  made them: both tests are critical sections of their own, so that the session may be closed between
  the test and what follows. A handler is known by its type and the optional interfaces it has; what its
  callbacks return is an argument of the step they are part of.
\<close>

section \<open>PIN\<close>

record pin_auth =
  pinHash :: "byte list"
  pin_set :: bool

definition NewPIN :: "go_env \<Rightarrow> string \<Rightarrow> pin_auth option" where
  "NewPIN env pin = (if pin = [] then None else Some \<lparr>pinHash = sha256 env (bytes_of pin), pin_set = True\<rparr>)"

definition Required :: "pin_auth option \<Rightarrow> bool" where
  "Required a = (case a of None \<Rightarrow> False | Some p \<Rightarrow> pin_set p)"

definition Verify :: "go_env \<Rightarrow> pin_auth option \<Rightarrow> string \<Rightarrow> bool" where
  "Verify env a attempt =
     (case a of
        None \<Rightarrow> False
      | Some p \<Rightarrow> ConstantTimeCompare (pinHash p) (sha256 env (bytes_of attempt)) = 1)"

section \<open>State\<close>

record handler =
  h_type :: string
  h_fragments :: bool
  h_resets :: bool

record stream_obj =
  so_st :: stream_state
  so_handler :: handler
  so_run :: bool

datatype dc_state = DCNil | DCOpen | DCFailing | DCClosed

datatype writer_stage = WaitLock | HoldLock | HasCredit

datatype task =
    TReset nat string string bool
  | TNotify nat string string bool
  | TReject u32 bool string string
  | TClosed nat
  | TVideo

datatype hcall =
    OnConnect string string
  | OnSYN nat "byte list" bool
  | OnDAT nat "byte list"
  | OnFIN nat "byte list"
  | OnFragment nat "byte list" bool
  | OnReset nat string string
  | OnReady
  | VideoStart
  | VideoAnswer string
  | VideoCandidate json

record session =
  s_dc :: dc_state
  s_pin :: "pin_auth option"
  s_access :: string
  s_handlers :: "(string \<times> handler) list"
  s_connectPath :: string
  s_authenticated :: bool
  s_ready :: bool
  s_version :: int
  s_authFails :: nat
  s_heap :: "stream_obj list"
  s_streams :: "u32 \<Rightarrow> nat option"
  s_closed :: bool
  s_video :: bool
  s_videoStarted :: bool
  s_writers :: "(nat \<times> frame \<times> writer_stage) list"
  s_tasks :: "task list"
  s_inbox :: "byte list list"
  s_due :: "(nat \<times> hcall) list"
  s_out :: "(nat option \<times> frame) list"
  s_calls :: "hcall list"

definition maxAuthFails :: nat where "maxAuthFails = 3"

definition NewSession :: "dc_state \<Rightarrow> pin_auth option \<Rightarrow> string \<Rightarrow> bool \<Rightarrow> handler list \<Rightarrow> session" where
  "NewSession dc pin access video hs =
     \<lparr>s_dc = dc, s_pin = pin, s_access = access,
      s_handlers = foldl (\<lambda>m h. AList.update (h_type h) h m) [] hs,
      s_connectPath = [], s_authenticated = False, s_ready = False, s_version = 0, s_authFails = 0,
      s_heap = [], s_streams = Map.empty, s_closed = False, s_video = video, s_videoStarted = False,
      s_writers = [], s_tasks = [], s_inbox = [], s_due = [], s_out = [], s_calls = []\<rparr>"

abbreviation obj :: "session \<Rightarrow> nat \<Rightarrow> stream_obj" where
  "obj s p \<equiv> s_heap s ! p"

abbreviation strm :: "session \<Rightarrow> nat \<Rightarrow> stream_state" where
  "strm s p \<equiv> so_st (obj s p)"

definition set_strm :: "nat \<Rightarrow> stream_state \<Rightarrow> session \<Rightarrow> session" where
  "set_strm p st s = s\<lparr>s_heap := (s_heap s)[p := (obj s p)\<lparr>so_st := st\<rparr>]\<rparr>"

definition call :: "hcall \<Rightarrow> session \<Rightarrow> session" where
  "call c s = s\<lparr>s_calls := s_calls s @ [c]\<rparr>"

definition spawn :: "task \<Rightarrow> session \<Rightarrow> session" where
  "spawn t s = s\<lparr>s_tasks := s_tasks s @ [t]\<rparr>"

section \<open>The data channel\<close>

definition dcSend :: "nat option \<Rightarrow> u32 \<Rightarrow> u16 \<Rightarrow> byte list \<Rightarrow> session \<Rightarrow> session \<times> string option" where
  "dcSend who streamID flags payload s =
     (if ValidateFramePayload payload \<noteq> Ok () then (s, Some ''frame payload too large'')
      else if s_dc s = DCNil \<or> s_dc s = DCClosed then (s, Some ''data channel closed'')
      else if s_dc s = DCFailing then (s, Some ''send failed'')
      else (s\<lparr>s_out := s_out s @ [(who, \<lparr>StreamID = streamID, Flags = flags, Payload = payload\<rparr>)]\<rparr>, None))"

definition send_control :: "go_env \<Rightarrow> u16 \<Rightarrow> json \<Rightarrow> session \<Rightarrow> session" where
  "send_control env flags j s = fst (dcSend None 0 flags (js_print env j) s)"

definition sendStreamError :: "go_env \<Rightarrow> u32 \<Rightarrow> string \<Rightarrow> session \<Rightarrow> session" where
  "sendStreamError env streamID message s =
     (let meta = js_print env (JObj [(''headers'', JObj [(''Content-Type'', JStr ''text/plain'')]), (''status'', JNum 500)]);
          s1 = fst (dcSend None streamID FlagSYN meta s);
          s2 = fst (dcSend None streamID FlagDAT (bytes_of message) s1)
      in fst (dcSend None streamID FlagFIN [] s2))"

definition reset_json :: "u32 \<Rightarrow> string \<Rightarrow> string \<Rightarrow> json" where
  "reset_json streamID code message =
     JObj ([(''type'', JStr ''stream_reset''), (''stream_id'', JNum (uint streamID))]
       @ (if code = [] then [] else [(''code'', JStr code)])
       @ (if message = [] then [] else [(''message'', JStr message)]))"

definition sendReset :: "go_env \<Rightarrow> u32 \<Rightarrow> string \<Rightarrow> string \<Rightarrow> session \<Rightarrow> session" where
  "sendReset env streamID code message = send_control env FlagSYN (reset_json streamID code message)"

definition sendControlError :: "go_env \<Rightarrow> string \<Rightarrow> session \<Rightarrow> session" where
  "sendControlError env message =
     send_control env (FlagSYN OR FlagFIN) (JObj [(''message'', JStr message), (''type'', JStr ''error'')])"

section \<open>Ending a stream\<close>

text \<open>
  \<^verbatim>\<open>finishState\<close>, \<^verbatim>\<open>failStream\<close> and \<^verbatim>\<open>Close\<close> each take the stream out of the table under the session's
  lock and then stop it under its own; the goroutine does nothing in between, and here the pair is one
  step. A critical section of another goroutine that falls between them works on the table or on the
  stream, not on both, so it gives the same states as when it comes just before the pair (a stream's own
  section: the removal does not touch the stream) or just after it (a section on the table).
\<close>

definition finishState :: "nat \<Rightarrow> session \<Rightarrow> session" where
  "finishState p s =
     (let st = strm s p;
          s1 = (if s_streams s (st_id st) = Some p then s\<lparr>s_streams := (s_streams s)(st_id st := None)\<rparr> else s)
      in set_strm p (fst (stopNow st)) s1)"

definition markReceiveClosed :: "nat \<Rightarrow> session \<Rightarrow> session" where
  "markReceiveClosed p s =
     (let s1 = set_strm p ((strm s p)\<lparr>st_receiveFIN := True\<rparr>) s
      in if st_sendFIN (strm s p) then finishState p s1 else s1)"

definition markSendClosed :: "nat \<Rightarrow> session \<Rightarrow> session" where
  "markSendClosed p s =
     (let s1 = set_strm p ((strm s p)\<lparr>st_sendFIN := True\<rparr>) s
      in if st_receiveFIN (strm s p) then finishState p s1 else s1)"

definition failStream :: "nat \<Rightarrow> string \<Rightarrow> string \<Rightarrow> bool \<Rightarrow> session \<Rightarrow> session" where
  "failStream p code message notifyPeer s =
     (let st = strm s p in
      if s_streams s (st_id st) \<noteq> Some p then s
      else
        let s1 = s\<lparr>s_streams := (s_streams s)(st_id st := None)\<rparr>;
            (st', won) = stopNow st;
            s2 = set_strm p st' s1
        in if won then spawn (TReset p code message notifyPeer) s2 else s2)"

definition rejectStream :: "u32 \<Rightarrow> string \<Rightarrow> string \<Rightarrow> session \<Rightarrow> session" where
  "rejectStream streamID code message s = spawn (TReject streamID (s_version s \<ge> 4) code message) s"

definition closeSession :: "session \<Rightarrow> session" where
  "closeSession s =
     (if s_closed s then s
      else
        let live = filter (\<lambda>p. s_streams s (st_id (strm s p)) = Some p) [0..<length (s_heap s)];
            won = filter (\<lambda>p. \<not> st_closed (strm s p) \<and> h_resets (so_handler (obj s p))) live;
            s1 = s\<lparr>s_closed := True, s_streams := Map.empty,
                   s_heap := map (\<lambda>p. if p \<in> set live then (obj s p)\<lparr>so_st := fst (stopNow (strm s p))\<rparr> else obj s p)
                               [0..<length (s_heap s)]\<rparr>
        in foldl (\<lambda>s p. spawn (TClosed p) s) s1 won)"

definition Goodbye :: "go_env \<Rightarrow> string \<Rightarrow> session \<Rightarrow> session" where
  "Goodbye env reason s = closeSession (sendControlError env reason s)"

section \<open>The handshake\<close>

definition sendReady :: "go_env \<Rightarrow> session \<Rightarrow> session" where
  "sendReady env s =
     (let caps = sort (map fst (s_handlers s));
          s1 = send_control env (FlagSYN OR FlagFIN)
                 (JObj ((if s_access s = [] then [] else [(''access'', JStr (s_access s))])
                   @ [(''caps'', JArr (map JStr caps)),
                      (''negotiated_version'', JNum (s_version s)),
                      (''routing'', JStr ''target-prefix''),
                      (''server_version'', JNum SWSPVersion),
                      (''type'', JStr ''ready'')])) s
      in if s_video s1 \<and> \<not> s_videoStarted s1 then spawn TVideo (s1\<lparr>s_videoStarted := True\<rparr>) else s1)"

definition markReady :: "session \<Rightarrow> session" where
  "markReady s = call OnReady s"

text \<open>
  \<^verbatim>\<open>notifyHandlers\<close> ranges over a Go map, whose order is not fixed: \<open>visit\<close> is any order of the
  handlers' types, and \<open>conn\<close> says what each handler's \<^verbatim>\<open>OnConnect\<close> returns.
\<close>

definition visit_order :: "string list \<Rightarrow> session \<Rightarrow> string list" where
  "visit_order visit s =
     (let ks = map fst (s_handlers s) in if mset visit = mset ks then visit else ks)"

fun notify :: "go_env \<Rightarrow> (string \<Rightarrow> string \<Rightarrow> string option) \<Rightarrow> string \<Rightarrow> string list \<Rightarrow> session \<Rightarrow> session \<times> bool" where
  "notify env conn path [] s = (s, True)"
| "notify env conn path (h # hs) s =
     (let s1 = call (OnConnect h path) s in
      case conn h path of
        Some e \<Rightarrow> (sendControlError env e s1, False)
      | None \<Rightarrow> notify env conn path hs s1)"

definition notifyHandlers ::
  "go_env \<Rightarrow> string list \<Rightarrow> (string \<Rightarrow> string \<Rightarrow> string option) \<Rightarrow> string \<Rightarrow> session \<Rightarrow> session \<times> bool" where
  "notifyHandlers env visit conn path s = notify env conn path (visit_order visit s) s"

definition handleConnect ::
  "go_env \<Rightarrow> string list \<Rightarrow> (string \<Rightarrow> string \<Rightarrow> string option) \<Rightarrow> string \<Rightarrow> int \<Rightarrow> session \<Rightarrow> session" where
  "handleConnect env visit conn path0 peerVersion s =
     (let path = (if path0 = [] then ''/'' else path0);
          s1 = s\<lparr>s_connectPath := path\<rparr>;
          s2 = (if s_version s1 = 0 then s1\<lparr>s_version := NegotiateSWSPVersion peerVersion\<rparr> else s1)
      in if Required (s_pin s2)
         then send_control env FlagSYN (JObj [(''type'', JStr ''auth_required'')]) s2
         else case notifyHandlers env visit conn path s2 of
                (s3, False) \<Rightarrow> s3
              | (s3, True) \<Rightarrow> sendReady env (markReady (s3\<lparr>s_authenticated := True, s_ready := True\<rparr>)))"

definition auth_result :: "bool \<Rightarrow> json" where
  "auth_result success = JObj [(''success'', JBool success), (''type'', JStr ''auth_result'')]"

definition handleAuth ::
  "go_env \<Rightarrow> string list \<Rightarrow> (string \<Rightarrow> string \<Rightarrow> string option) \<Rightarrow> string \<Rightarrow> session \<Rightarrow> session" where
  "handleAuth env visit conn pin s =
     (if \<not> Required (s_pin s) then s
      else if Verify env (s_pin s) pin then
        (let path = (if s_connectPath s = [] then ''/'' else s_connectPath s) in
         case notifyHandlers env visit conn path s of
           (s1, False) \<Rightarrow> s1
         | (s1, True) \<Rightarrow>
             sendReady env
               (send_control env (FlagSYN OR FlagFIN) (auth_result True)
                 (markReady (s1\<lparr>s_authenticated := True, s_ready := True\<rparr>))))
      else
        let s1 = s\<lparr>s_authFails := s_authFails s + 1\<rparr>;
            s2 = send_control env (FlagSYN OR FlagFIN) (auth_result False) s1
        in if s_authFails s1 \<ge> maxAuthFails \<and> s_dc s2 \<noteq> DCNil then s2\<lparr>s_dc := DCClosed\<rparr> else s2)"

section \<open>Control messages\<close>

record window_update =
  wu_stream :: nat
  wu_max :: nat

record stream_reset =
  sr_stream :: nat
  sr_code :: string
  sr_message :: string

record control_msg =
  cm_path :: string
  cm_pin :: string
  cm_version :: int
  cm_sdp :: string
  cm_candidate :: json

definition put_window_update :: "string \<Rightarrow> json \<Rightarrow> string \<times> window_update \<Rightarrow> (string \<times> window_update) option" where
  "put_window_update k v m =
     (case m of (t, u) \<Rightarrow>
      if k = ''type'' then map_option (\<lambda>x. (x, u)) (as_string v t)
      else if k = ''stream_id'' then map_option (\<lambda>x. (t, u\<lparr>wu_stream := x\<rparr>)) (as_uint 32 v (wu_stream u))
      else if k = ''max_bytes'' then map_option (\<lambda>x. (t, u\<lparr>wu_max := x\<rparr>)) (as_uint 64 v (wu_max u))
      else Some m)"

definition put_stream_reset :: "string \<Rightarrow> json \<Rightarrow> string \<times> stream_reset \<Rightarrow> (string \<times> stream_reset) option" where
  "put_stream_reset k v m =
     (case m of (t, r) \<Rightarrow>
      if k = ''type'' then map_option (\<lambda>x. (x, r)) (as_string v t)
      else if k = ''stream_id'' then map_option (\<lambda>x. (t, r\<lparr>sr_stream := x\<rparr>)) (as_uint 32 v (sr_stream r))
      else if k = ''code'' then map_option (\<lambda>x. (t, r\<lparr>sr_code := x\<rparr>)) (as_string v (sr_code r))
      else if k = ''message'' then map_option (\<lambda>x. (t, r\<lparr>sr_message := x\<rparr>)) (as_string v (sr_message r))
      else Some m)"

definition put_target :: "string \<Rightarrow> json \<Rightarrow> nat \<Rightarrow> nat option" where
  "put_target k v t = (if k = ''stream_id'' then as_uint 32 v t else Some t)"

definition put_control :: "string \<Rightarrow> json \<Rightarrow> control_msg \<Rightarrow> control_msg option" where
  "put_control k v m =
     (if k = ''path'' then map_option (\<lambda>x. m\<lparr>cm_path := x\<rparr>) (as_string v (cm_path m))
      else if k = ''pin'' then map_option (\<lambda>x. m\<lparr>cm_pin := x\<rparr>) (as_string v (cm_pin m))
      else if k = ''version'' then map_option (\<lambda>x. m\<lparr>cm_version := x\<rparr>) (as_int v (cm_version m))
      else if k = ''sdp'' then map_option (\<lambda>x. m\<lparr>cm_sdp := x\<rparr>) (as_string v (cm_sdp m))
      else if k = ''candidate'' then
        (case v of JObj _ \<Rightarrow> Some (m\<lparr>cm_candidate := v\<rparr>) | JNull \<Rightarrow> Some (m\<lparr>cm_candidate := JNull\<rparr>) | _ \<Rightarrow> None)
      else Some m)"

definition zero_control :: control_msg where
  "zero_control = \<lparr>cm_path = [], cm_pin = [], cm_version = 0, cm_sdp = [], cm_candidate = JNull\<rparr>"

definition zero_update :: "string \<times> window_update" where
  "zero_update = ([], \<lparr>wu_stream = 0, wu_max = 0\<rparr>)"

definition zero_reset :: "string \<times> stream_reset" where
  "zero_reset = ([], \<lparr>sr_stream = 0, sr_code = [], sr_message = []\<rparr>)"

definition live_flow :: "nat \<Rightarrow> session \<Rightarrow> nat option" where
  "live_flow i s =
     (case s_streams s (of_nat i) of
        Some p \<Rightarrow> if s_version s \<ge> 4 \<and> st_flow (strm s p) then Some p else None
      | None \<Rightarrow> None)"

definition applyWindowUpdate :: "window_update \<Rightarrow> session \<Rightarrow> session" where
  "applyWindowUpdate u s =
     (if wu_stream u = 0 then s
      else case live_flow (wu_stream u) s of
             None \<Rightarrow> s
           | Some p \<Rightarrow>
               if wu_max u = 0
               then failStream p ''invalid_control'' ''window update must grant a positive maximum'' True s
               else set_strm p (updateSendMax (wu_max u) (strm s p)) s)"

definition applyStreamReset :: "stream_reset \<Rightarrow> session \<Rightarrow> session" where
  "applyStreamReset r s =
     (if sr_stream r = 0 then s
      else case live_flow (sr_stream r) s of
             None \<Rightarrow> s
           | Some p \<Rightarrow> failStream p (sr_code r) (sr_message r) False s)"

definition resetMalformedControl :: "go_env \<Rightarrow> byte list \<Rightarrow> session \<Rightarrow> session" where
  "resetMalformedControl env payload s =
     (case Unmarshal put_target 0 (js_parse env payload) of
        (target, ok) \<Rightarrow>
          if \<not> ok \<or> target = 0 then s
          else case live_flow target s of
                 None \<Rightarrow> s
               | Some p \<Rightarrow> failStream p ''invalid_control'' (js_error env payload) True s)"

definition handleControl ::
  "go_env \<Rightarrow> string list \<Rightarrow> (string \<Rightarrow> string \<Rightarrow> string option) \<Rightarrow> frame \<Rightarrow> session \<Rightarrow> session" where
  "handleControl env visit conn f s =
     (if \<not> IsSYN f then s
      else
        let j = js_parse env (Payload f); (ty, ok) = Unmarshal put_type [] j in
        if \<not> ok then s
        else if ty = ''window_update'' then
          (case Unmarshal put_window_update zero_update j of
             ((_, u), ok) \<Rightarrow> if ok then applyWindowUpdate u s else resetMalformedControl env (Payload f) s)
        else if ty = ''stream_reset'' then
          (case Unmarshal put_stream_reset zero_reset j of
             ((_, r), ok) \<Rightarrow> if ok then applyStreamReset r s else resetMalformedControl env (Payload f) s)
        else
          let (m, ok) = Unmarshal put_control zero_control j in
          if \<not> ok then s
          else if ty = ''connect'' then handleConnect env visit conn (cm_path m) (cm_version m) s
          else if ty = ''auth'' then handleAuth env visit conn (cm_pin m) s
          else if ty = ''video_answer'' then (if s_video s then call (VideoAnswer (cm_sdp m)) s else s)
          else if ty = ''video_candidate'' then (if s_video s then call (VideoCandidate (cm_candidate m)) s else s)
          else s)"

section \<open>Frames of application streams\<close>

definition recv_text :: "recv_error \<Rightarrow> u32 \<Rightarrow> string" where
  "recv_text e i =
     (case e of
        StreamClosed \<Rightarrow> ''stream closed''
      | StreamReceiveError code \<Rightarrow>
          ''stream '' @ Itoa (uint i) @
          (if code = ''protocol_error'' then '' received data after FIN''
           else if code = ''flow_control_violation'' then '' exceeded receive window''
           else '' receive queue is full''))"

definition deliver_frame :: "nat \<Rightarrow> frame \<Rightarrow> session \<Rightarrow> session \<times> bool" where
  "deliver_frame p f s =
     (case enqueue f (strm s p) of
        Inl e \<Rightarrow> (failStream p (receiveErrorCode e) (recv_text e (st_id (strm s p))) True s, False)
      | Inr st \<Rightarrow> (set_strm p st s, True))"

definition handleStreamFrame :: "go_env \<Rightarrow> frame \<Rightarrow> session \<Rightarrow> session" where
  "handleStreamFrame env f s =
     (let i = StreamID f in
      if \<not> s_ready s then
        (if IsSYN f then rejectStream i ''unauthenticated'' ''session is not ready'' s else s)
      else if \<not> IsSYN f then
        (case s_streams s i of None \<Rightarrow> s | Some p \<Rightarrow> fst (deliver_frame p f s))
      else case s_streams s i of
          Some p \<Rightarrow> failStream p ''duplicate_syn'' ''duplicate SYN'' True s
        | None \<Rightarrow>
            (let ty0 = fst (Unmarshal put_type [] (js_parse env (Payload f)));
                 ty = (if ty0 = [] then ''http'' else ty0)
             in case map_of (s_handlers s) ty of
                  None \<Rightarrow> rejectStream i ''unsupported_stream'' (''unsupported stream type: '' @ ty) s
                | Some h \<Rightarrow>
                    if s_closed s then s
                    else
                      let p = length (s_heap s);
                          s1 = s\<lparr>s_heap := s_heap s @
                                  [\<lparr>so_st = newStreamState i ty (s_version s \<ge> 4), so_handler = h, so_run = False\<rparr>],
                                 s_streams := (s_streams s)(i \<mapsto> p)\<rparr>
                      in case deliver_frame p f s1 of
                           (s2, False) \<Rightarrow> s2
                         | (s2, True) \<Rightarrow> s2\<lparr>s_heap := (s_heap s2)[p := (obj s2 p)\<lparr>so_run := True\<rparr>]\<rparr>))"

text \<open>
  \<^verbatim>\<open>HandleMessage\<close> in two steps: it reads \<^verbatim>\<open>closed\<close> under the lock, and routes the message after it has
  released it. \<open>HandleMessage\<close> is the two in a row, for a session that nothing else touches meanwhile.
\<close>

definition receiveMessage :: "byte list \<Rightarrow> session \<Rightarrow> session" where
  "receiveMessage data s = (if s_closed s then s else s\<lparr>s_inbox := s_inbox s @ [data]\<rparr>)"

definition routeMessage ::
  "go_env \<Rightarrow> string list \<Rightarrow> (string \<Rightarrow> string \<Rightarrow> string option) \<Rightarrow> byte list \<Rightarrow> session \<Rightarrow> session" where
  "routeMessage env visit conn data s =
     (case ParseFrame data of
        Inl _ \<Rightarrow> s
      | Inr f \<Rightarrow> if StreamID f = 0 then handleControl env visit conn f s else handleStreamFrame env f s)"

definition HandleMessage ::
  "go_env \<Rightarrow> string list \<Rightarrow> (string \<Rightarrow> string \<Rightarrow> string option) \<Rightarrow> byte list \<Rightarrow> session \<Rightarrow> session" where
  "HandleMessage env visit conn data s = (if s_closed s then s else routeMessage env visit conn data s)"

definition drop_nth :: "nat \<Rightarrow> 'a list \<Rightarrow> 'a list" where
  "drop_nth n xs = take n xs @ drop (Suc n) xs"

definition dispatch_message ::
  "go_env \<Rightarrow> nat \<Rightarrow> string list \<Rightarrow> (string \<Rightarrow> string \<Rightarrow> string option) \<Rightarrow> session \<Rightarrow> session" where
  "dispatch_message env n visit conn s =
     (if n \<ge> length (s_inbox s) then s
      else routeMessage env visit conn (s_inbox s ! n) (s\<lparr>s_inbox := drop_nth n (s_inbox s)\<rparr>))"

section \<open>Workers\<close>

text \<open>
  One turn of \<^verbatim>\<open>runStream\<close> is three steps: \<open>worker_take\<close> receives a frame and looks whether the stream is
  closed, \<open>worker_call\<close> makes the handler's callback, and \<open>worker_return\<close> is what follows when the
  callback returns \<open>res\<close>. \<open>callback\<close> is the callback \<^verbatim>\<open>processStreamFrame\<close> picks, or the error it raises
  without one.
\<close>

definition callback :: "nat \<Rightarrow> frame \<Rightarrow> stream_obj \<Rightarrow> string + hcall" where
  "callback p f so =
     (if IsSYN f then Inr (OnSYN p (Payload f) (IsFIN f))
      else if IsFIN f then
        (if IsMORE f \<or> st_fragmenting (so_st so) then Inl ''FIN during fragmented message''
         else Inr (OnFIN p (Payload f)))
      else if IsMORE f \<or> st_fragmenting (so_st so) then
        (if h_fragments (so_handler so) then Inr (OnFragment p (Payload f) (IsMORE f))
         else Inl (''stream type '' @ h_type (so_handler so) @ '' does not support fragmented messages''))
      else Inr (OnDAT p (Payload f)))"

definition worker_take :: "nat \<Rightarrow> session \<Rightarrow> session" where
  "worker_take p s =
     (if p \<ge> length (s_heap s) \<or> \<not> so_run (obj s p) then s
      else case (st_hand (strm s p), st_queue (strm s p)) of
             (None, f # _) \<Rightarrow>
               (let s1 = set_strm p (fst (work_step WTake (strm s p))) s in
                if st_closed (strm s p) then s1
                else case callback p f (obj s p) of
                       Inl _ \<Rightarrow> s1
                     | Inr c \<Rightarrow> s1\<lparr>s_due := s_due s1 @ [(p, c)]\<rparr>)
           | _ \<Rightarrow> s)"

definition worker_call :: "nat \<Rightarrow> session \<Rightarrow> session" where
  "worker_call n s =
     (if n \<ge> length (s_due s) then s
      else call (snd (s_due s ! n)) (s\<lparr>s_due := drop_nth n (s_due s)\<rparr>))"

definition call_due :: "nat \<Rightarrow> session \<Rightarrow> bool" where
  "call_due p s = list_ex (\<lambda>(q, c). q = p) (s_due s)"

definition window_json :: "u32 \<Rightarrow> nat \<Rightarrow> json" where
  "window_json i mx = JObj [(''type'', JStr ''window_update''), (''stream_id'', JNum (uint i)), (''max_bytes'', JNum (int mx))]"

definition sendWindowUpdate :: "go_env \<Rightarrow> nat \<Rightarrow> nat \<Rightarrow> session \<Rightarrow> session \<times> string option" where
  "sendWindowUpdate env p mx s =
     (let st = strm s p in
      if st_closed st then (s, Some ''stream closed'')
      else dcSend None 0 FlagSYN (js_print env (window_json (st_id st) mx))
             (set_strm p (st\<lparr>st_advertised := max (st_advertised st) mx\<rparr>) s))"

definition session_consume :: "go_env \<Rightarrow> nat \<Rightarrow> frame \<Rightarrow> session \<Rightarrow> session \<times> string option" where
  "session_consume env p f s =
     (case work_step WConsume (strm s p) of
        (st, u) \<Rightarrow>
          (let s1 = set_strm p st s in
           case u of
             None \<Rightarrow> (s1, None)
           | Some mx \<Rightarrow>
               (case sendWindowUpdate env p mx s1 of
                  (s2, None) \<Rightarrow> (s2, None)
                | (s2, Some e) \<Rightarrow> (s2, Some (''replenish receive window: '' @ e)))))"

definition processStreamFrame :: "go_env \<Rightarrow> nat \<Rightarrow> frame \<Rightarrow> string option \<Rightarrow> session \<Rightarrow> session \<times> string option" where
  "processStreamFrame env p f res s =
     (case callback p f (obj s p) of
        Inl e \<Rightarrow> (s, Some e)
      | Inr _ \<Rightarrow>
          if IsSYN f then
            (case res of
               Some e \<Rightarrow> (s, Some e)
             | None \<Rightarrow> (if IsFIN f then markReceiveClosed p s else s, None))
          else if IsFIN f then
            (case res of
               Some e \<Rightarrow> (s, Some e)
             | None \<Rightarrow>
                 (case session_consume env p f s of
                    (s1, Some e) \<Rightarrow> (s1, Some e)
                  | (s1, None) \<Rightarrow> (markReceiveClosed p s1, None)))
          else
            let s0 = (if IsMORE f \<or> st_fragmenting (strm s p)
                      then set_strm p ((strm s p)\<lparr>st_fragmenting := IsMORE f\<rparr>) s else s)
            in case res of
                 Some e \<Rightarrow> (s0, Some e)
               | None \<Rightarrow> session_consume env p f s0)"

definition exit_worker :: "nat \<Rightarrow> session \<Rightarrow> session" where
  "exit_worker p s = s\<lparr>s_heap := (s_heap s)[p := (obj s p)\<lparr>so_run := False\<rparr>]\<rparr>"

definition hand_back :: "nat \<Rightarrow> frame \<Rightarrow> session \<Rightarrow> session" where
  "hand_back p f s = set_strm p ((dequeued f (strm s p))\<lparr>st_hand := None\<rparr>) s"

definition worker_return :: "go_env \<Rightarrow> nat \<Rightarrow> string option \<Rightarrow> session \<Rightarrow> session" where
  "worker_return env p res s =
     (if p \<ge> length (s_heap s) \<or> \<not> so_run (obj s p) \<or> call_due p s then s
      else case st_hand (strm s p) of
             None \<Rightarrow> s
           | Some (f, True) \<Rightarrow> exit_worker p (hand_back p f s)
           | Some (f, False) \<Rightarrow>
               (case processStreamFrame env p f res s of
                  (s1, err) \<Rightarrow>
                    (let s2 = hand_back p f s1 in
                     case err of
                       None \<Rightarrow> s2
                     | Some e \<Rightarrow> exit_worker p (failStream p ''handler_error'' e True s2))))"

text \<open>The worker leaves when it sees the stream or the session done.\<close>

definition worker_done :: "nat \<Rightarrow> session \<Rightarrow> session" where
  "worker_done p s =
     (if p < length (s_heap s) \<and> st_hand (strm s p) = None \<and> (s_closed s \<or> st_closed (strm s p))
      then exit_worker p s else s)"

section \<open>Writers\<close>

text \<open>
  \<^verbatim>\<open>sendStreamFrame\<close>: the lookup, then the stages of the caller: it waits for the stream's write
  lock, holds it while it waits for credit, and has credit while it puts its frame on the channel.
\<close>

definition sendStreamFrame :: "u32 \<Rightarrow> u16 \<Rightarrow> byte list \<Rightarrow> session \<Rightarrow> session \<times> string option" where
  "sendStreamFrame streamID flags payload s =
     (if ValidateFramePayload payload \<noteq> Ok () then (s, Some ''frame payload too large'')
      else case s_streams s streamID of
             None \<Rightarrow> (s, Some ''stream closed'')
           | Some p \<Rightarrow>
               if s_closed s then (s, Some ''stream closed'')
               else (s\<lparr>s_writers := s_writers s @
                         [(p, \<lparr>StreamID = streamID, Flags = flags, Payload = payload\<rparr>, WaitLock)]\<rparr>, None))"

definition lock_held :: "nat \<Rightarrow> session \<Rightarrow> bool" where
  "lock_held p s = list_ex (\<lambda>(q, f, g). q = p \<and> g \<noteq> WaitLock) (s_writers s)"

definition leave_writer :: "nat \<Rightarrow> session \<Rightarrow> session" where
  "leave_writer n s = s\<lparr>s_writers := drop_nth n (s_writers s)\<rparr>"

definition writer_step :: "nat \<Rightarrow> session \<Rightarrow> session" where
  "writer_step n s =
     (if n \<ge> length (s_writers s) then s
      else case s_writers s ! n of
        (p, f, WaitLock) \<Rightarrow>
          if lock_held p s then s
          else if st_sendFIN (strm s p) then leave_writer n s
          else s\<lparr>s_writers := (s_writers s)[n := (p, f, HoldLock)]\<rparr>
      | (p, f, HoldLock) \<Rightarrow>
          (case reserveSend (FlowBytes f) (strm s p) of
             NotReserved \<Rightarrow> leave_writer n s
           | Blocked \<Rightarrow> if s_closed s then leave_writer n s else s
           | Reserved st \<Rightarrow> (set_strm p st s)\<lparr>s_writers := (s_writers s)[n := (p, f, HasCredit)]\<rparr>)
      | (p, f, HasCredit) \<Rightarrow>
          (case dcSend (Some p) (StreamID f) (Flags f) (Payload f) s of
             (s1, Some e) \<Rightarrow> leave_writer n (failStream p ''send_error'' e False s1)
           | (s1, None) \<Rightarrow> leave_writer n (if IsFIN f then markSendClosed p s1 else s1)))"

section \<open>Goroutines\<close>

definition end_task :: "nat \<Rightarrow> session \<Rightarrow> session" where
  "end_task n s = s\<lparr>s_tasks := drop_nth n (s_tasks s)\<rparr>"

definition task_step :: "go_env \<Rightarrow> nat \<Rightarrow> session \<Rightarrow> session" where
  "task_step env n s =
     (if n \<ge> length (s_tasks s) then s
      else case s_tasks s ! n of
        TReset p code message notifyPeer \<Rightarrow>
          (let s1 = s\<lparr>s_tasks := (s_tasks s)[n := TNotify p code message notifyPeer]\<rparr>
           in if h_resets (so_handler (obj s p)) then call (OnReset p code message) s1 else s1)
      | TNotify p code message notifyPeer \<Rightarrow>
          if lock_held p s then s
          else end_task n
            (if \<not> notifyPeer then s
             else if st_flow (strm s p) then sendReset env (st_id (strm s p)) code message s
             else fst (dcSend None (st_id (strm s p)) FlagFIN [] s))
      | TReject i flow code message \<Rightarrow>
          end_task n (if flow then sendReset env i code message s else sendStreamError env i message s)
      | TClosed p \<Rightarrow> end_task n (call (OnReset p ''session_closed'' ''session closed'') s)
      | TVideo \<Rightarrow> end_task n (call VideoStart s))"

section \<open>Runs\<close>

text \<open>
  Everything that can happen to a session: a message of the peer arriving and being routed, the steps of its workers, writers
  and goroutines, a handler that starts to write, what the video helper sends, the listener that
  closes it or says goodbye, and the data channel changing state underneath.
\<close>

datatype sess_event =
    EvMessage "byte list"
  | EvDispatch nat "string list" "string \<Rightarrow> string \<Rightarrow> string option"
  | EvTake nat
  | EvCall nat
  | EvReturn nat "string option"
  | EvDone nat
  | EvWrite u32 u16 "byte list"
  | EvWriter nat
  | EvTask nat
  | EvVideo json
  | EvClose
  | EvGoodbye string
  | EvDC dc_state

definition sess_do :: "go_env \<Rightarrow> sess_event \<Rightarrow> session \<Rightarrow> session" where
  "sess_do env e s =
     (case e of
        EvMessage data \<Rightarrow> receiveMessage data s
      | EvDispatch n visit conn \<Rightarrow> dispatch_message env n visit conn s
      | EvTake p \<Rightarrow> worker_take p s
      | EvCall n \<Rightarrow> worker_call n s
      | EvReturn p res \<Rightarrow> worker_return env p res s
      | EvDone p \<Rightarrow> worker_done p s
      | EvWrite i flags payload \<Rightarrow> fst (sendStreamFrame i flags payload s)
      | EvWriter n \<Rightarrow> writer_step n s
      | EvTask n \<Rightarrow> task_step env n s
      | EvVideo j \<Rightarrow> (if s_videoStarted s then send_control env FlagSYN j s else s)
      | EvClose \<Rightarrow> closeSession s
      | EvGoodbye reason \<Rightarrow> Goodbye env reason s
      | EvDC d \<Rightarrow> s\<lparr>s_dc := d\<rparr>)"

abbreviation sess_run :: "go_env \<Rightarrow> sess_event list \<Rightarrow> session \<Rightarrow> session" where
  "sess_run env es s \<equiv> fold (sess_do env) es s"

end
