(* ===== verification/Session_Laws.thy ===== *)
theory Session_Laws
  imports Session
begin

text \<open>
  What a session promises: the PIN gate, the brute force limit, the lock on the protocol version,
  the well-formedness of the routing table and of every stream behind it, the end of a session and
  the order of a reset after the frames of its stream.
\<close>

section \<open>PIN\<close>

lemma Verify_NewPIN:
  "Verify env (NewPIN env pin) attempt \<longleftrightarrow> pin \<noteq> [] \<and> sha256 env (bytes_of pin) = sha256 env (bytes_of attempt)"
  by (simp add: Verify_def NewPIN_def ConstantTimeCompare_eq)

lemma Required_NewPIN: "Required (NewPIN env pin) \<longleftrightarrow> pin \<noteq> []"
  by (simp add: Required_def NewPIN_def)

section \<open>What an operation leaves alone\<close>

lemma dcSend_fields [simp]:
  "s_dc (fst (dcSend w i fl pl s)) = s_dc s" "s_pin (fst (dcSend w i fl pl s)) = s_pin s"
  "s_access (fst (dcSend w i fl pl s)) = s_access s" "s_handlers (fst (dcSend w i fl pl s)) = s_handlers s"
  "s_connectPath (fst (dcSend w i fl pl s)) = s_connectPath s" "s_ready (fst (dcSend w i fl pl s)) = s_ready s"
  "s_authenticated (fst (dcSend w i fl pl s)) = s_authenticated s"
  "s_version (fst (dcSend w i fl pl s)) = s_version s" "s_authFails (fst (dcSend w i fl pl s)) = s_authFails s"
  "s_heap (fst (dcSend w i fl pl s)) = s_heap s" "s_streams (fst (dcSend w i fl pl s)) = s_streams s"
  "s_closed (fst (dcSend w i fl pl s)) = s_closed s" "s_video (fst (dcSend w i fl pl s)) = s_video s"
  "s_videoStarted (fst (dcSend w i fl pl s)) = s_videoStarted s" "s_writers (fst (dcSend w i fl pl s)) = s_writers s"
  "s_tasks (fst (dcSend w i fl pl s)) = s_tasks s" "s_calls (fst (dcSend w i fl pl s)) = s_calls s"
  "s_inbox (fst (dcSend w i fl pl s)) = s_inbox s" "s_due (fst (dcSend w i fl pl s)) = s_due s"
  by (simp_all add: dcSend_def)

text \<open>Two states that differ only in what was put on the wire.\<close>

definition same_but_out :: "session \<Rightarrow> session \<Rightarrow> bool" where
  "same_but_out s s' \<longleftrightarrow> s'\<lparr>s_out := []\<rparr> = s\<lparr>s_out := []\<rparr>"

lemma same_but_out_fields:
  assumes "same_but_out s s'"
  shows "s_dc s' = s_dc s" "s_pin s' = s_pin s" "s_access s' = s_access s" "s_handlers s' = s_handlers s"
    "s_connectPath s' = s_connectPath s" "s_authenticated s' = s_authenticated s" "s_ready s' = s_ready s"
    "s_version s' = s_version s" "s_authFails s' = s_authFails s" "s_heap s' = s_heap s"
    "s_streams s' = s_streams s" "s_closed s' = s_closed s" "s_video s' = s_video s"
    "s_videoStarted s' = s_videoStarted s" "s_writers s' = s_writers s" "s_tasks s' = s_tasks s"
    "s_calls s' = s_calls s"
    "s_inbox s' = s_inbox s" "s_due s' = s_due s"
  using assms by (cases s, cases s', simp add: same_but_out_def)+

lemma dcSend_out [simp]: "same_but_out s (fst (dcSend w i fl pl s))"
  by (simp add: same_but_out_def dcSend_def)

lemma same_but_out_trans: "same_but_out s t \<Longrightarrow> same_but_out t u \<Longrightarrow> same_but_out s u"
  by (simp add: same_but_out_def)

lemma send_control_out [simp]: "same_but_out s (send_control env fl j s)"
  by (simp add: send_control_def)

lemma sendStreamError_out [simp]: "same_but_out s (sendStreamError env i m s)"
  unfolding sendStreamError_def Let_def by (blast intro: same_but_out_trans dcSend_out)

lemma sendReset_out [simp]: "same_but_out s (sendReset env i c m s)"
  by (simp add: sendReset_def)

lemma sendControlError_out [simp]: "same_but_out s (sendControlError env m s)"
  by (simp add: sendControlError_def)

lemmas control_fields [simp] =
  same_but_out_fields [OF send_control_out] same_but_out_fields [OF sendStreamError_out]
  same_but_out_fields [OF sendReset_out] same_but_out_fields [OF sendControlError_out]

lemma set_strm_fields [simp]:
  "s_dc (set_strm p st s) = s_dc s" "s_pin (set_strm p st s) = s_pin s" "s_handlers (set_strm p st s) = s_handlers s"
  "s_ready (set_strm p st s) = s_ready s" "s_version (set_strm p st s) = s_version s"
  "s_authFails (set_strm p st s) = s_authFails s" "s_streams (set_strm p st s) = s_streams s"
  "s_closed (set_strm p st s) = s_closed s" "s_video (set_strm p st s) = s_video s"
  "s_videoStarted (set_strm p st s) = s_videoStarted s" "s_writers (set_strm p st s) = s_writers s"
  "s_tasks (set_strm p st s) = s_tasks s" "s_calls (set_strm p st s) = s_calls s" "s_out (set_strm p st s) = s_out s"
  "length (s_heap (set_strm p st s)) = length (s_heap s)"
  "s_inbox (set_strm p st s) = s_inbox s" "s_due (set_strm p st s) = s_due s"
  by (simp_all add: set_strm_def)

lemma strm_set_strm [simp]:
  "q < length (s_heap s) \<Longrightarrow> strm (set_strm p st s) q = (if q = p then st else strm s q)"
  by (simp add: set_strm_def nth_list_update)

lemma call_fields [simp]:
  "s_dc (call c s) = s_dc s" "s_pin (call c s) = s_pin s" "s_handlers (call c s) = s_handlers s"
  "s_ready (call c s) = s_ready s" "s_version (call c s) = s_version s" "s_authFails (call c s) = s_authFails s"
  "s_heap (call c s) = s_heap s" "s_streams (call c s) = s_streams s" "s_closed (call c s) = s_closed s"
  "s_video (call c s) = s_video s" "s_videoStarted (call c s) = s_videoStarted s"
  "s_writers (call c s) = s_writers s" "s_tasks (call c s) = s_tasks s" "s_calls (call c s) = s_calls s @ [c]"
  "s_out (call c s) = s_out s" "s_connectPath (call c s) = s_connectPath s" "s_access (call c s) = s_access s"
  "s_inbox (call c s) = s_inbox s" "s_due (call c s) = s_due s"
  by (simp_all add: call_def)

lemma spawn_fields [simp]:
  "s_dc (spawn t s) = s_dc s" "s_pin (spawn t s) = s_pin s" "s_handlers (spawn t s) = s_handlers s"
  "s_ready (spawn t s) = s_ready s" "s_version (spawn t s) = s_version s" "s_authFails (spawn t s) = s_authFails s"
  "s_heap (spawn t s) = s_heap s" "s_streams (spawn t s) = s_streams s" "s_closed (spawn t s) = s_closed s"
  "s_video (spawn t s) = s_video s" "s_videoStarted (spawn t s) = s_videoStarted s"
  "s_writers (spawn t s) = s_writers s" "s_tasks (spawn t s) = s_tasks s @ [t]" "s_calls (spawn t s) = s_calls s"
  "s_out (spawn t s) = s_out s"
  "s_inbox (spawn t s) = s_inbox s" "s_due (spawn t s) = s_due s"
  by (simp_all add: spawn_def)

section \<open>Case analysis of a control message\<close>

lemma handleControl_cases:
  assumes "P s"
    and "\<And>u. P (applyWindowUpdate u s)"
    and "\<And>r. P (applyStreamReset r s)"
    and "P (resetMalformedControl env (Payload f) s)"
    and "\<And>path v. P (handleConnect env visit conn path v s)"
    and "\<And>m. IsSYN f \<Longrightarrow> Unmarshal put_type [] (js_parse env (Payload f)) = (''auth'', True) \<Longrightarrow>
           Unmarshal put_control zero_control (js_parse env (Payload f)) = (m, True) \<Longrightarrow>
           P (handleAuth env visit conn (cm_pin m) s)"
    and "\<And>x. P (call (VideoAnswer x) s)"
    and "\<And>x. P (call (VideoCandidate x) s)"
  shows "P (handleControl env visit conn f s)"
proof -
  obtain ty ok where ty: "Unmarshal put_type [] (js_parse env (Payload f)) = (ty, ok)"
    by (cases "Unmarshal put_type [] (js_parse env (Payload f))")
  obtain t u ok1 where u: "Unmarshal put_window_update zero_update (js_parse env (Payload f)) = ((t, u), ok1)"
    by (cases "Unmarshal put_window_update zero_update (js_parse env (Payload f))") auto
  obtain t' r ok2 where r: "Unmarshal put_stream_reset zero_reset (js_parse env (Payload f)) = ((t', r), ok2)"
    by (cases "Unmarshal put_stream_reset zero_reset (js_parse env (Payload f))") auto
  obtain m ok3 where m: "Unmarshal put_control zero_control (js_parse env (Payload f)) = (m, ok3)"
    by (cases "Unmarshal put_control zero_control (js_parse env (Payload f))")
  show ?thesis
    unfolding handleControl_def Let_def ty u r m prod.case
    using assms(6) [unfolded ty m] by (simp add: assms(1-5,7,8))
qed

text \<open>The same for a frame of an application stream.\<close>

lemma handleStreamFrame_cases:
  assumes "P s"
    and "\<And>i c m. P (rejectStream i c m s)"
    and "\<And>p. s_streams s (StreamID f) = Some p \<Longrightarrow> P (fst (deliver_frame p f s))"
    and "\<And>p c m. s_streams s (StreamID f) = Some p \<Longrightarrow> P (failStream p c m True s)"
    and "\<And>ty h s2 b. s_streams s (StreamID f) = None \<Longrightarrow> \<not> s_closed s \<Longrightarrow> s_ready s \<Longrightarrow>
      deliver_frame (length (s_heap s)) f (s\<lparr>s_heap := s_heap s @
         [\<lparr>so_st = newStreamState (StreamID f) ty (s_version s \<ge> 4), so_handler = h, so_run = False\<rparr>],
         s_streams := (s_streams s)(StreamID f \<mapsto> length (s_heap s))\<rparr>) = (s2, b) \<Longrightarrow>
      P s2 \<and> P (s2\<lparr>s_heap := (s_heap s2)[length (s_heap s) := (obj s2 (length (s_heap s)))\<lparr>so_run := True\<rparr>]\<rparr>)"
  shows "P (handleStreamFrame env f s)"
proof (cases "\<not> s_ready s \<or> \<not> IsSYN f \<or> s_streams s (StreamID f) \<noteq> None")
  case True
  then show ?thesis
    unfolding handleStreamFrame_def Let_def
    by (cases "s_streams s (StreamID f)") (auto simp: assms(1-4))
next
  case False
  define ty where "ty = (if fst (Unmarshal put_type [] (js_parse env (Payload f))) = [] then ''http''
    else fst (Unmarshal put_type [] (js_parse env (Payload f))))"
  show ?thesis
  proof (cases "map_of (s_handlers s) ty")
    case None
    then show ?thesis
      using False assms(2) unfolding handleStreamFrame_def Let_def ty_def [symmetric] by simp
  next
    case (Some h)
    obtain s2 b where d: "deliver_frame (length (s_heap s)) f (s\<lparr>s_heap := s_heap s @
         [\<lparr>so_st = newStreamState (StreamID f) ty (s_version s \<ge> 4), so_handler = h, so_run = False\<rparr>],
         s_streams := (s_streams s)(StreamID f \<mapsto> length (s_heap s))\<rparr>) = (s2, b)"
      by fastforce
    have "P s2 \<and> P (s2\<lparr>s_heap := (s_heap s2)[length (s_heap s) := (obj s2 (length (s_heap s)))\<lparr>so_run := True\<rparr>]\<rparr>)"
      if "\<not> s_closed s"
      by (rule assms(5) [OF _ that _ d]) (use False in simp_all)
    then show ?thesis
      using False Some d assms(1) unfolding handleStreamFrame_def Let_def ty_def [symmetric] by (cases b) simp_all
  qed
qed

section \<open>The PIN gate\<close>

definition auth_attempt :: "go_env \<Rightarrow> byte list \<Rightarrow> string option" where
  "auth_attempt env data =
     (case ParseFrame data of
        Inl _ \<Rightarrow> None
      | Inr f \<Rightarrow>
          (let j = js_parse env (Payload f) in
           if StreamID f = 0 \<and> IsSYN f \<and> Unmarshal put_type [] j = (''auth'', True) \<and>
              snd (Unmarshal put_control zero_control j)
           then Some (cm_pin (fst (Unmarshal put_control zero_control j))) else None))"

definition proves_pin :: "go_env \<Rightarrow> pin_auth option \<Rightarrow> sess_event \<Rightarrow> bool" where
  "proves_pin env a e =
     (case e of
        EvMessage data \<Rightarrow> (case auth_attempt env data of Some pin \<Rightarrow> Verify env a pin | None \<Rightarrow> False)
      | _ \<Rightarrow> False)"

definition video_relay :: "hcall \<Rightarrow> bool" where
  "video_relay c = (case c of VideoAnswer _ \<Rightarrow> True | VideoCandidate _ \<Rightarrow> True | _ \<Rightarrow> False)"

definition is_reject :: "task \<Rightarrow> bool" where
  "is_reject t = (case t of TReject _ _ _ _ \<Rightarrow> True | _ \<Rightarrow> False)"

definition gated :: "session \<Rightarrow> bool" where
  "gated s \<longleftrightarrow>
     Required (s_pin s) \<and> \<not> s_ready s \<and> s_heap s = [] \<and> s_streams s = Map.empty \<and> s_writers s = [] \<and> s_due s = [] \<and>
     list_all is_reject (s_tasks s) \<and> \<not> s_videoStarted s \<and> list_all video_relay (s_calls s)"

definition waiting_gated :: "go_env \<Rightarrow> session \<Rightarrow> bool" where
  "waiting_gated env s \<longleftrightarrow> list_all (\<lambda>data. \<not> proves_pin env (s_pin s) (EvMessage data)) (s_inbox s)"

lemma gated_out: "same_but_out s s' \<Longrightarrow> gated s \<Longrightarrow> gated s'"
  by (simp add: gated_def same_but_out_fields)

lemma gated_connect: "gated s \<Longrightarrow> gated (handleConnect env visit conn path v s)"
  by (simp add: handleConnect_def Let_def gated_def)

lemma gated_auth: "gated s \<Longrightarrow> \<not> Verify env (s_pin s) pin \<Longrightarrow> gated (handleAuth env visit conn pin s)"
  by (simp add: handleAuth_def Let_def gated_def)

lemma gated_no_streams: "gated s \<Longrightarrow> live_flow i s = None"
  by (simp add: gated_def live_flow_def)

lemma gated_call: "gated s \<Longrightarrow> video_relay c \<Longrightarrow> gated (call c s)"
  by (simp add: gated_def)

lemma gated_control:
  assumes "gated s" "ParseFrame data = Inr f" "StreamID f = 0" "\<not> proves_pin env (s_pin s) (EvMessage data)"
  shows "gated (handleControl env visit conn f s)"
proof (rule handleControl_cases)
  fix m
  assume "IsSYN f" "Unmarshal put_type [] (js_parse env (Payload f)) = (''auth'', True)"
    "Unmarshal put_control zero_control (js_parse env (Payload f)) = (m, True)"
  then have "\<not> Verify env (s_pin s) (cm_pin m)"
    using assms by (simp add: proves_pin_def auth_attempt_def Let_def)
  then show "gated (handleAuth env visit conn (cm_pin m) s)"
    by (rule gated_auth [OF assms(1)])
qed (use assms(1) in \<open>simp_all add: applyWindowUpdate_def applyStreamReset_def resetMalformedControl_def
  gated_no_streams gated_connect gated_call video_relay_def split: prod.split\<close>)

lemma gated_stream: "gated s \<Longrightarrow> gated (handleStreamFrame env f s)"
  by (simp add: handleStreamFrame_def Let_def gated_def rejectStream_def is_reject_def)

lemma list_all_drop_nth: "list_all P xs \<Longrightarrow> list_all P (drop_nth n xs)"
  by (auto simp: drop_nth_def list_all_iff dest: in_set_takeD in_set_dropD)

lemma gated_task:
  assumes "gated s"
  shows "gated (task_step env n s)"
proof (cases "n < length (s_tasks s)")
  case True
  then have "is_reject (s_tasks s ! n)"
    using assms by (simp add: gated_def list_all_length)
  then obtain i fl c m where t: "s_tasks s ! n = TReject i fl c m"
    by (cases "s_tasks s ! n") (simp_all add: is_reject_def)
  have "gated (if fl then sendReset env i c m s else sendStreamError env i m s)"
    using assms by (auto intro: gated_out [OF sendReset_out] gated_out [OF sendStreamError_out])
  then show ?thesis
    using True t by (simp add: task_step_def end_task_def gated_def list_all_drop_nth)
next
  case False
  then show ?thesis
    using assms by (simp add: task_step_def)
qed

lemma gated_close: "gated s \<Longrightarrow> gated (closeSession s)"
  by (simp add: closeSession_def gated_def)

lemma gated_route: "gated s \<Longrightarrow> \<not> proves_pin env (s_pin s) (EvMessage data) \<Longrightarrow> gated (routeMessage env visit conn data s)"
  using gated_control gated_stream by (auto simp: routeMessage_def split: sum.splits)

lemma gated_step:
  assumes "gated s" "waiting_gated env s"
  shows "gated (sess_do env e s)"
proof (cases e)
  case (EvMessage data)
  then show ?thesis
    using assms(1) by (simp add: sess_do_def receiveMessage_def gated_def)
next
  case (EvDispatch n visit conn)
  have "gated (s\<lparr>s_inbox := xs\<rparr>)" for xs
    using assms(1) by (simp add: gated_def)
  moreover have "\<not> proves_pin env (s_pin s) (EvMessage (s_inbox s ! n))" if "n < length (s_inbox s)"
    using assms(2) that by (simp add: waiting_gated_def list_all_length)
  ultimately show ?thesis
    using assms(1) gated_route EvDispatch by (simp add: sess_do_def dispatch_message_def)
next
  case (EvGoodbye r)
  then show ?thesis
    using assms gated_close gated_out [OF sendControlError_out] by (simp add: sess_do_def Goodbye_def)
next
  case (EvTask n)
  then show ?thesis using assms gated_task by (simp add: sess_do_def)
next
  case EvClose
  then show ?thesis using assms gated_close by (simp add: sess_do_def)
qed (use assms in \<open>simp_all add: sess_do_def worker_take_def worker_call_def worker_return_def worker_done_def
  sendStreamFrame_def writer_step_def gated_def\<close>)

lemma failStream_fields [simp]:
  "s_dc (failStream p c m b s) = s_dc s" "s_pin (failStream p c m b s) = s_pin s"
  "s_ready (failStream p c m b s) = s_ready s" "s_version (failStream p c m b s) = s_version s"
  "s_authFails (failStream p c m b s) = s_authFails s" "s_closed (failStream p c m b s) = s_closed s"
  "s_writers (failStream p c m b s) = s_writers s" "s_calls (failStream p c m b s) = s_calls s"
  "s_out (failStream p c m b s) = s_out s" "length (s_heap (failStream p c m b s)) = length (s_heap s)"
  "s_inbox (failStream p c m b s) = s_inbox s" "s_due (failStream p c m b s) = s_due s"
  by (simp_all add: failStream_def Let_def split: prod.split)

lemma finishState_fields [simp]:
  "s_dc (finishState p s) = s_dc s" "s_pin (finishState p s) = s_pin s"
  "s_ready (finishState p s) = s_ready s" "s_version (finishState p s) = s_version s"
  "s_authFails (finishState p s) = s_authFails s" "s_closed (finishState p s) = s_closed s"
  "s_writers (finishState p s) = s_writers s" "s_calls (finishState p s) = s_calls s"
  "s_out (finishState p s) = s_out s" "s_tasks (finishState p s) = s_tasks s"
  "length (s_heap (finishState p s)) = length (s_heap s)"
  "s_inbox (finishState p s) = s_inbox s" "s_due (finishState p s) = s_due s"
  by (simp_all add: finishState_def Let_def)

lemma mark_fields [simp]:
  "s_dc (markReceiveClosed p s) = s_dc s" "s_pin (markReceiveClosed p s) = s_pin s"
  "s_ready (markReceiveClosed p s) = s_ready s" "s_version (markReceiveClosed p s) = s_version s"
  "s_authFails (markReceiveClosed p s) = s_authFails s" "s_closed (markReceiveClosed p s) = s_closed s"
  "s_writers (markReceiveClosed p s) = s_writers s" "s_calls (markReceiveClosed p s) = s_calls s"
  "s_out (markReceiveClosed p s) = s_out s" "s_tasks (markReceiveClosed p s) = s_tasks s"
  "length (s_heap (markReceiveClosed p s)) = length (s_heap s)"
  "s_dc (markSendClosed p s) = s_dc s" "s_pin (markSendClosed p s) = s_pin s"
  "s_ready (markSendClosed p s) = s_ready s" "s_version (markSendClosed p s) = s_version s"
  "s_authFails (markSendClosed p s) = s_authFails s" "s_closed (markSendClosed p s) = s_closed s"
  "s_writers (markSendClosed p s) = s_writers s" "s_calls (markSendClosed p s) = s_calls s"
  "s_out (markSendClosed p s) = s_out s" "s_tasks (markSendClosed p s) = s_tasks s"
  "length (s_heap (markSendClosed p s)) = length (s_heap s)"
  "s_inbox (markReceiveClosed p s) = s_inbox s" "s_due (markReceiveClosed p s) = s_due s"
  "s_inbox (markSendClosed p s) = s_inbox s" "s_due (markSendClosed p s) = s_due s"
  by (simp_all add: markReceiveClosed_def markSendClosed_def Let_def)

lemma exit_worker_fields [simp]:
  "s_dc (exit_worker p s) = s_dc s" "s_pin (exit_worker p s) = s_pin s"
  "s_ready (exit_worker p s) = s_ready s" "s_version (exit_worker p s) = s_version s"
  "s_authFails (exit_worker p s) = s_authFails s" "s_closed (exit_worker p s) = s_closed s"
  "s_writers (exit_worker p s) = s_writers s" "s_calls (exit_worker p s) = s_calls s"
  "s_out (exit_worker p s) = s_out s" "s_tasks (exit_worker p s) = s_tasks s"
  "s_streams (exit_worker p s) = s_streams s" "length (s_heap (exit_worker p s)) = length (s_heap s)"
  "s_inbox (exit_worker p s) = s_inbox s" "s_due (exit_worker p s) = s_due s"
  by (simp_all add: exit_worker_def)

lemma strm_exit_worker [simp]: "q < length (s_heap s) \<Longrightarrow> strm (exit_worker p s) q = strm s q"
  by (cases "p = q") (simp_all add: exit_worker_def)

lemma spawn_all_fields [simp]:
  "s_dc (foldl (\<lambda>s p. spawn (t p) s) s ps) = s_dc s" "s_pin (foldl (\<lambda>s p. spawn (t p) s) s ps) = s_pin s"
  "s_ready (foldl (\<lambda>s p. spawn (t p) s) s ps) = s_ready s" "s_version (foldl (\<lambda>s p. spawn (t p) s) s ps) = s_version s"
  "s_authFails (foldl (\<lambda>s p. spawn (t p) s) s ps) = s_authFails s"
  "s_closed (foldl (\<lambda>s p. spawn (t p) s) s ps) = s_closed s"
  "s_writers (foldl (\<lambda>s p. spawn (t p) s) s ps) = s_writers s" "s_calls (foldl (\<lambda>s p. spawn (t p) s) s ps) = s_calls s"
  "s_out (foldl (\<lambda>s p. spawn (t p) s) s ps) = s_out s" "s_heap (foldl (\<lambda>s p. spawn (t p) s) s ps) = s_heap s"
  "s_streams (foldl (\<lambda>s p. spawn (t p) s) s ps) = s_streams s"
  "s_tasks (foldl (\<lambda>s p. spawn (t p) s) s ps) = s_tasks s @ map t ps"
  "s_inbox (foldl (\<lambda>s p. spawn (t p) s) s ps) = s_inbox s" "s_due (foldl (\<lambda>s p. spawn (t p) s) s ps) = s_due s"
  by (induction ps arbitrary: s) simp_all

lemma closeSession_fields [simp]:
  "s_dc (closeSession s) = s_dc s" "s_pin (closeSession s) = s_pin s"
  "s_ready (closeSession s) = s_ready s" "s_version (closeSession s) = s_version s"
  "s_authFails (closeSession s) = s_authFails s" "s_closed (closeSession s)"
  "s_writers (closeSession s) = s_writers s" "s_calls (closeSession s) = s_calls s"
  "s_out (closeSession s) = s_out s" "length (s_heap (closeSession s)) = length (s_heap s)"
  "s_inbox (closeSession s) = s_inbox s" "s_due (closeSession s) = s_due s"
  by (simp_all add: closeSession_def Let_def)

lemma sendReady_fields [simp]:
  "s_dc (sendReady env s) = s_dc s" "s_pin (sendReady env s) = s_pin s" "s_ready (sendReady env s) = s_ready s"
  "s_version (sendReady env s) = s_version s" "s_authFails (sendReady env s) = s_authFails s"
  "s_closed (sendReady env s) = s_closed s" "s_writers (sendReady env s) = s_writers s"
  "s_calls (sendReady env s) = s_calls s" "s_heap (sendReady env s) = s_heap s"
  "s_streams (sendReady env s) = s_streams s"
  "s_inbox (sendReady env s) = s_inbox s" "s_due (sendReady env s) = s_due s"
  by (simp_all add: sendReady_def Let_def)

lemma markReady_fields [simp]:
  "s_dc (markReady s) = s_dc s" "s_pin (markReady s) = s_pin s" "s_ready (markReady s) = s_ready s"
  "s_version (markReady s) = s_version s" "s_authFails (markReady s) = s_authFails s"
  "s_closed (markReady s) = s_closed s" "s_writers (markReady s) = s_writers s"
  "s_calls (markReady s) = s_calls s @ [OnReady]" "s_heap (markReady s) = s_heap s"
  "s_streams (markReady s) = s_streams s" "s_tasks (markReady s) = s_tasks s"
  "s_inbox (markReady s) = s_inbox s" "s_due (markReady s) = s_due s"
  by (simp_all add: markReady_def)

lemma notify_fields:
  assumes "notify env conn path hs s = (s', ok)"
  shows "s_dc s' = s_dc s" "s_pin s' = s_pin s" "s_ready s' = s_ready s" "s_version s' = s_version s"
    "s_authFails s' = s_authFails s" "s_closed s' = s_closed s" "s_writers s' = s_writers s" "s_heap s' = s_heap s"
    "s_streams s' = s_streams s" "s_tasks s' = s_tasks s"
    "s_inbox s' = s_inbox s" "s_due s' = s_due s"
  using assms by (induction hs arbitrary: s) (auto simp: Let_def split: option.splits)

text \<open>Everything a session is wired with stays as it was wired.\<close>

lemma dcSend_eq: "dcSend w i fl pl s = (s', e) \<Longrightarrow> s' = fst (dcSend w i fl pl s)"
  by simp

lemma sendWindowUpdate_fields [simp]:
  "s_dc (fst (sendWindowUpdate env p mx s)) = s_dc s" "s_pin (fst (sendWindowUpdate env p mx s)) = s_pin s"
  "s_ready (fst (sendWindowUpdate env p mx s)) = s_ready s" "s_version (fst (sendWindowUpdate env p mx s)) = s_version s"
  "s_authFails (fst (sendWindowUpdate env p mx s)) = s_authFails s"
  "s_closed (fst (sendWindowUpdate env p mx s)) = s_closed s" "s_writers (fst (sendWindowUpdate env p mx s)) = s_writers s"
  "s_streams (fst (sendWindowUpdate env p mx s)) = s_streams s" "s_tasks (fst (sendWindowUpdate env p mx s)) = s_tasks s"
  "s_calls (fst (sendWindowUpdate env p mx s)) = s_calls s"
  "length (s_heap (fst (sendWindowUpdate env p mx s))) = length (s_heap s)"
  "s_inbox (fst (sendWindowUpdate env p mx s)) = s_inbox s" "s_due (fst (sendWindowUpdate env p mx s)) = s_due s"
  by (simp_all add: sendWindowUpdate_def Let_def)

lemma session_consume_state:
  "fst (session_consume env p f s) =
     (let s1 = set_strm p (fst (work_step WConsume (strm s p))) s in
      case snd (work_step WConsume (strm s p)) of None \<Rightarrow> s1 | Some mx \<Rightarrow> fst (sendWindowUpdate env p mx s1))"
  by (simp add: session_consume_def Let_def split: prod.split option.split)

lemma session_consume_fields [simp]:
  "s_dc (fst (session_consume env p f s)) = s_dc s" "s_pin (fst (session_consume env p f s)) = s_pin s"
  "s_ready (fst (session_consume env p f s)) = s_ready s" "s_version (fst (session_consume env p f s)) = s_version s"
  "s_authFails (fst (session_consume env p f s)) = s_authFails s"
  "s_closed (fst (session_consume env p f s)) = s_closed s" "s_writers (fst (session_consume env p f s)) = s_writers s"
  "s_streams (fst (session_consume env p f s)) = s_streams s" "s_tasks (fst (session_consume env p f s)) = s_tasks s"
  "s_calls (fst (session_consume env p f s)) = s_calls s"
  "length (s_heap (fst (session_consume env p f s))) = length (s_heap s)"
  "s_inbox (fst (session_consume env p f s)) = s_inbox s" "s_due (fst (session_consume env p f s)) = s_due s"
  by (simp_all add: session_consume_state Let_def split: option.split)

lemma processStreamFrame_fields [simp]:
  "s_dc (fst (processStreamFrame env p f r s)) = s_dc s" "s_pin (fst (processStreamFrame env p f r s)) = s_pin s"
  "s_ready (fst (processStreamFrame env p f r s)) = s_ready s"
  "s_version (fst (processStreamFrame env p f r s)) = s_version s"
  "s_authFails (fst (processStreamFrame env p f r s)) = s_authFails s"
  "s_closed (fst (processStreamFrame env p f r s)) = s_closed s"
  "s_writers (fst (processStreamFrame env p f r s)) = s_writers s"
  "s_tasks (fst (processStreamFrame env p f r s)) = s_tasks s"
  "s_calls (fst (processStreamFrame env p f r s)) = s_calls s"
  "length (s_heap (fst (processStreamFrame env p f r s))) = length (s_heap s)"
  "s_inbox (fst (processStreamFrame env p f r s)) = s_inbox s" "s_due (fst (processStreamFrame env p f r s)) = s_due s"
proof -
  have c: "session_consume env p f t = (t', e) \<Longrightarrow> t' = fst (session_consume env p f t)" for t t' e
    by simp
  show
    "s_dc (fst (processStreamFrame env p f r s)) = s_dc s" "s_pin (fst (processStreamFrame env p f r s)) = s_pin s"
    "s_ready (fst (processStreamFrame env p f r s)) = s_ready s"
    "s_version (fst (processStreamFrame env p f r s)) = s_version s"
    "s_authFails (fst (processStreamFrame env p f r s)) = s_authFails s"
    "s_closed (fst (processStreamFrame env p f r s)) = s_closed s"
    "s_writers (fst (processStreamFrame env p f r s)) = s_writers s"
    "s_tasks (fst (processStreamFrame env p f r s)) = s_tasks s"
    "s_calls (fst (processStreamFrame env p f r s)) = s_calls s"
    "length (s_heap (fst (processStreamFrame env p f r s))) = length (s_heap s)"
    "s_inbox (fst (processStreamFrame env p f r s)) = s_inbox s" "s_due (fst (processStreamFrame env p f r s)) = s_due s"
    by (auto simp: processStreamFrame_def Let_def dest!: c split: sum.split option.split prod.split)
qed

section \<open>How a session evolves\<close>

text \<open>The PIN never changes, and what is decided once stays decided: the version, readiness, the end.\<close>

definition evolves :: "session \<Rightarrow> session \<Rightarrow> bool" where
  "evolves s s' \<longleftrightarrow>
     s_pin s' = s_pin s \<and> (s_version s \<noteq> 0 \<longrightarrow> s_version s' = s_version s) \<and> (s_ready s \<longrightarrow> s_ready s') \<and>
     (s_closed s \<longrightarrow> s_closed s') \<and> s_authFails s \<le> s_authFails s' \<and> length (s_heap s) \<le> length (s_heap s')"

lemma evolves_refl [simp]: "evolves s s"
  by (simp add: evolves_def)

lemma evolves_trans: "evolves s t \<Longrightarrow> evolves t u \<Longrightarrow> evolves s u"
  by (auto simp: evolves_def)

lemma failStream_evolves [simp]: "evolves s (failStream p c m b s)"
  by (simp add: evolves_def)

lemma notifyHandlers_fields:
  assumes "notifyHandlers env visit conn path s = (s', ok)"
  shows "s_dc s' = s_dc s" "s_pin s' = s_pin s" "s_ready s' = s_ready s" "s_version s' = s_version s"
    "s_authFails s' = s_authFails s" "s_closed s' = s_closed s" "s_writers s' = s_writers s" "s_heap s' = s_heap s"
    "s_streams s' = s_streams s" "s_tasks s' = s_tasks s"
    "s_inbox s' = s_inbox s" "s_due s' = s_due s"
  using notify_fields [OF assms [unfolded notifyHandlers_def]] by simp_all

lemma handleConnect_evolves: "evolves s (handleConnect env visit conn path v s)"
proof -
  define pa where "pa = (if path = [] then ''/'' else path)"
  define s1 where "s1 = s\<lparr>s_connectPath := pa\<rparr>"
  define s2 where "s2 = (if s_version s1 = 0 then s1\<lparr>s_version := NegotiateSWSPVersion v\<rparr> else s1)"
  obtain s3 b where n: "notifyHandlers env visit conn pa s2 = (s3, b)"
    by (cases "notifyHandlers env visit conn pa s2")
  have "handleConnect env visit conn path v s =
      (if Required (s_pin s2) then send_control env FlagSYN (JObj [(''type'', JStr ''auth_required'')]) s2
       else if b then sendReady env (markReady (s3\<lparr>s_authenticated := True, s_ready := True\<rparr>)) else s3)"
    unfolding handleConnect_def Let_def pa_def [symmetric] s1_def [symmetric] s2_def [symmetric] n
    by (simp split: bool.split)
  moreover have "evolves s s2" "evolves s2 s3"
    using notifyHandlers_fields [OF n] by (simp_all add: s1_def s2_def evolves_def)
  ultimately show ?thesis
    by (auto simp: evolves_def)
qed

lemma handleAuth_evolves: "evolves s (handleAuth env visit conn pin s)"
proof -
  define pa where "pa = (if s_connectPath s = [] then ''/'' else s_connectPath s)"
  obtain s1 b where n: "notifyHandlers env visit conn pa s = (s1, b)"
    by (cases "notifyHandlers env visit conn pa s")
  then have "evolves s s1"
    using notifyHandlers_fields [OF n] by (simp add: evolves_def)
  then show ?thesis
    using n unfolding handleAuth_def Let_def pa_def [symmetric] by (cases b) (auto simp: evolves_def)
qed

lemma handleControl_evolves: "evolves s (handleControl env visit conn f s)"
proof (rule handleControl_cases)
  show "evolves s (applyWindowUpdate u s)" for u
    by (simp add: applyWindowUpdate_def split: option.split) (simp add: evolves_def)
  show "evolves s (applyStreamReset r s)" for r
    by (simp add: applyStreamReset_def split: option.split)
  show "evolves s (resetMalformedControl env (Payload f) s)"
    by (simp add: resetMalformedControl_def split: option.split prod.split)
  show "evolves s (call (VideoAnswer x) s)" "evolves s (call (VideoCandidate y) s)" for x y
    by (simp_all add: evolves_def)
qed (simp_all add: handleConnect_evolves handleAuth_evolves)

lemma deliver_frame_evolves: "evolves s (fst (deliver_frame p f s))"
  by (simp add: deliver_frame_def split: sum.split) (simp add: evolves_def)

lemma handleStreamFrame_evolves: "evolves s (handleStreamFrame env f s)"
proof (rule handleStreamFrame_cases)
  fix ty h s2 b
  assume "deliver_frame (length (s_heap s)) f (s\<lparr>s_heap := s_heap s @
         [\<lparr>so_st = newStreamState (StreamID f) ty (s_version s \<ge> 4), so_handler = h, so_run = False\<rparr>],
         s_streams := (s_streams s)(StreamID f \<mapsto> length (s_heap s))\<rparr>) = (s2, b)" (is "deliver_frame ?p f ?s1 = _")
  then have "evolves ?s1 s2"
    using deliver_frame_evolves [of ?s1 ?p f] by simp
  then show "evolves s s2 \<and> evolves s (s2\<lparr>s_heap := (s_heap s2)[?p := (obj s2 ?p)\<lparr>so_run := True\<rparr>]\<rparr>)"
    by (simp add: evolves_def)
next
  show "evolves s (rejectStream i c m s)" for i c m
    by (simp add: rejectStream_def evolves_def)
qed (simp_all add: deliver_frame_evolves)

lemma worker_return_evolves: "evolves s (worker_return env p res s)"
proof -
  have "evolves s t" "evolves s (hand_back p f t)" "evolves s (exit_worker p (failStream p c e b (hand_back p f t)))"
    if "processStreamFrame env p f res s = (t, x)" for f t x c e b
  proof -
    have "t = fst (processStreamFrame env p f res s)"
      by (simp add: that)
    then show "evolves s t" "evolves s (hand_back p f t)" "evolves s (exit_worker p (failStream p c e b (hand_back p f t)))"
      by (simp_all add: evolves_def hand_back_def)
  qed
  moreover have "evolves s (exit_worker p (hand_back p f s))" for f
    by (simp add: evolves_def hand_back_def)
  ultimately show ?thesis
    by (auto simp: worker_return_def Let_def split: option.split prod.split bool.split)
qed

lemma writer_step_evolves: "evolves s (writer_step n s)"
proof (cases "n < length (s_writers s)")
  case True
  obtain p f g where w: "s_writers s ! n = (p, f, g)"
    by (cases "s_writers s ! n")
  obtain t e where d: "dcSend (Some p) (StreamID f) (Flags f) (Payload f) s = (t, e)"
    by fastforce
  have "evolves s t" "evolves s (failStream p c m b t)" "evolves s (markSendClosed p t)" for c m b
    using dcSend_eq [OF d] by (simp_all add: evolves_def)
  then show ?thesis
    using True w d
    by (cases g) (simp_all add: writer_step_def leave_writer_def evolves_def split: reserve_result.split option.split)
qed (simp add: writer_step_def)

lemma task_step_evolves: "evolves s (task_step env n s)"
proof -
  have "evolves s (end_task n t)" if "evolves s t" for t
    using that by (simp add: evolves_def end_task_def)
  moreover have "evolves s t" if "same_but_out s t" for t
    using same_but_out_fields [OF that] by (simp add: evolves_def)
  moreover have "evolves s (call c (s\<lparr>s_tasks := ts\<rparr>))" "evolves s (s\<lparr>s_tasks := ts\<rparr>)" "evolves s (call c s)" for c ts
    by (simp_all add: evolves_def)
  ultimately show ?thesis
    by (auto simp: task_step_def Let_def split: task.split)
qed

lemma sess_do_evolves: "evolves s (sess_do env e s)"
proof (cases e)
  case (EvDispatch n visit conn)
  have "evolves s (s\<lparr>s_inbox := xs\<rparr>)" for xs
    by (simp add: evolves_def)
  moreover have "evolves t (routeMessage env visit conn data t)" for t data
    by (simp add: routeMessage_def handleControl_evolves handleStreamFrame_evolves split: sum.split)
  ultimately show ?thesis
    using EvDispatch evolves_trans [of s "s\<lparr>s_inbox := drop_nth n (s_inbox s)\<rparr>"] by (simp add: sess_do_def dispatch_message_def)
next
  case (EvTake p)
  have "evolves s (set_strm p st s)" "evolves s ((set_strm p st s)\<lparr>s_due := xs\<rparr>)" for st xs
    by (simp_all add: evolves_def)
  then show ?thesis
    using EvTake by (simp add: sess_do_def worker_take_def Let_def split: option.split list.split sum.split)
next
  case (EvWrite i fl pl)
  have "evolves s (s\<lparr>s_writers := ws\<rparr>)" for ws
    by (simp add: evolves_def)
  then show ?thesis
    using EvWrite by (simp add: sess_do_def sendStreamFrame_def split: option.split)
qed (simp_all add: sess_do_def receiveMessage_def worker_call_def worker_return_evolves writer_step_evolves task_step_evolves
    worker_done_def Goodbye_def, simp_all add: evolves_def)

text \<open>What is put into a session's inbox came with a message that found it open.\<close>

lemma inbox_control: "s_inbox (handleControl env visit conn f s) = s_inbox s \<and> s_due (handleControl env visit conn f s) = s_due s"
proof (rule handleControl_cases)
  fix path v
  define pa where "pa = (if path = [] then ''/'' else path)"
  define s1 where "s1 = s\<lparr>s_connectPath := pa\<rparr>"
  define s2 where "s2 = (if s_version s1 = 0 then s1\<lparr>s_version := NegotiateSWSPVersion v\<rparr> else s1)"
  have s2: "s_inbox s2 = s_inbox s" "s_due s2 = s_due s"
    by (simp_all add: s1_def s2_def)
  obtain s3 b where n: "notifyHandlers env visit conn pa s2 = (s3, b)"
    by (cases "notifyHandlers env visit conn pa s2")
  show "s_inbox (handleConnect env visit conn path v s) = s_inbox s \<and> s_due (handleConnect env visit conn path v s) = s_due s"
    unfolding handleConnect_def Let_def pa_def [symmetric] s1_def [symmetric] s2_def [symmetric] n
    using notifyHandlers_fields(11,12) [OF n] s2 by (simp split: bool.split)
next
  fix m
  define pa where "pa = (if s_connectPath s = [] then ''/'' else s_connectPath s)"
  obtain s1 b where n: "notifyHandlers env visit conn pa s = (s1, b)"
    by (cases "notifyHandlers env visit conn pa s")
  show "s_inbox (handleAuth env visit conn (cm_pin m) s) = s_inbox s \<and> s_due (handleAuth env visit conn (cm_pin m) s) = s_due s"
    unfolding handleAuth_def Let_def pa_def [symmetric] n
    using notifyHandlers_fields(11,12) [OF n] by (simp split: bool.split)
qed (simp_all add: applyWindowUpdate_def applyStreamReset_def resetMalformedControl_def split: option.split prod.split)

lemma inbox_deliver [simp]: "s_inbox (fst (deliver_frame p f s)) = s_inbox s" "s_due (fst (deliver_frame p f s)) = s_due s"
  by (simp_all add: deliver_frame_def split: sum.split)

lemma inbox_stream: "s_inbox (handleStreamFrame env f s) = s_inbox s \<and> s_due (handleStreamFrame env f s) = s_due s"
proof (rule handleStreamFrame_cases)
  fix ty h s2 b
  assume "deliver_frame (length (s_heap s)) f (s\<lparr>s_heap := s_heap s @
         [\<lparr>so_st = newStreamState (StreamID f) ty (s_version s \<ge> 4), so_handler = h, so_run = False\<rparr>],
         s_streams := (s_streams s)(StreamID f \<mapsto> length (s_heap s))\<rparr>) = (s2, b)" (is "deliver_frame ?p f ?s1 = _")
  then show "(s_inbox s2 = s_inbox s \<and> s_due s2 = s_due s) \<and>
      s_inbox (s2\<lparr>s_heap := (s_heap s2)[?p := (obj s2 ?p)\<lparr>so_run := True\<rparr>]\<rparr>) = s_inbox s \<and>
      s_due (s2\<lparr>s_heap := (s_heap s2)[?p := (obj s2 ?p)\<lparr>so_run := True\<rparr>]\<rparr>) = s_due s"
    using inbox_deliver [of ?p f ?s1] by simp
qed (simp_all add: rejectStream_def)

lemma inbox_route [simp]:
  "s_inbox (routeMessage env visit conn data s) = s_inbox s" "s_due (routeMessage env visit conn data s) = s_due s"
  by (simp_all add: routeMessage_def inbox_control inbox_stream split: sum.split)

lemma inbox_return [simp]:
  "s_inbox (worker_return env p res s) = s_inbox s" "s_due (worker_return env p res s) = s_due s"
proof -
  have "s_inbox t = s_inbox s \<and> s_due t = s_due s" if "processStreamFrame env p f res s = (t, x)" for f t x
    using processStreamFrame_fields(11,12) [of env p f res s] that by simp
  then show "s_inbox (worker_return env p res s) = s_inbox s" "s_due (worker_return env p res s) = s_due s"
    by (auto simp: worker_return_def hand_back_def Let_def split: option.split prod.split bool.split)
qed

lemma inbox_writer [simp]: "s_inbox (writer_step n s) = s_inbox s \<and> s_due (writer_step n s) = s_due s"
proof (cases "n < length (s_writers s)")
  case True
  obtain p f g where w: "s_writers s ! n = (p, f, g)"
    by (cases "s_writers s ! n")
  obtain t e where d: "dcSend (Some p) (StreamID f) (Flags f) (Payload f) s = (t, e)"
    by fastforce
  have "s_inbox t = s_inbox s" "s_due t = s_due s"
    using dcSend_eq [OF d] by simp_all
  then show ?thesis
    using True w d by (cases g) (simp_all add: writer_step_def leave_writer_def split: reserve_result.split option.split)
qed (simp add: writer_step_def)

lemma inbox_task [simp]: "s_inbox (task_step env n s) = s_inbox s" "s_due (task_step env n s) = s_due s"
  by (simp_all add: task_step_def Let_def end_task_def split: task.split)

lemma inbox_step:
  "s_inbox (sess_do env e s) = (case e of
     EvMessage data \<Rightarrow> if s_closed s then s_inbox s else s_inbox s @ [data]
   | EvDispatch n visit conn \<Rightarrow> if n < length (s_inbox s) then drop_nth n (s_inbox s) else s_inbox s
   | _ \<Rightarrow> s_inbox s)"
proof (cases e)
  case (EvTake p)
  then show ?thesis
    by (simp add: sess_do_def worker_take_def Let_def split: option.split list.split sum.split)
qed (simp_all add: sess_do_def receiveMessage_def dispatch_message_def worker_call_def worker_done_def sendStreamFrame_def Goodbye_def
  split: option.split)

lemma waiting_step:
  assumes "waiting_gated env s" "\<not> proves_pin env (s_pin s) e"
  shows "waiting_gated env (sess_do env e s)"
proof -
  have "s_pin (sess_do env e s) = s_pin s"
    using sess_do_evolves [of s env e] by (simp add: evolves_def)
  then show ?thesis
    using assms inbox_step [of env e s] by (cases e) (auto simp: waiting_gated_def list_all_drop_nth)
qed

lemma sess_run_evolves: "evolves s (sess_run env es s)"
proof (induction es arbitrary: s)
  case (Cons e es)
  show ?case
    using evolves_trans [OF sess_do_evolves [of s env e] Cons.IH [of "sess_do env e s"]] by simp
qed simp

lemma gated_run:
  assumes "gated s" "waiting_gated env s" "filter (proves_pin env (s_pin s)) es = []"
  shows "gated (sess_run env es s)"
  using assms
proof (induction es arbitrary: s)
  case (Cons e es)
  have "s_pin (sess_do env e s) = s_pin s"
    using sess_do_evolves [of s env e] by (simp add: evolves_def)
  then show ?case
    using Cons gated_step [of s env e] waiting_step [of env s e] by (simp split: if_splits)
qed simp

lemma gated_New: "Required a \<Longrightarrow> gated (NewSession dc a access video hs) \<and> waiting_gated env (NewSession dc a access video hs)"
  by (simp add: gated_def waiting_gated_def NewSession_def)

end
