(* ===== verification/Session_Inv.thy ===== *)
theory Session_Inv
  imports Session_Laws
begin

text \<open>
  The invariant of a session: the routing table holds exactly the open streams, every stream keeps
  the bounds of its flow control, at most one writer holds a stream's write lock, and the goroutines
  that report a reset only exist for streams that are closed.
\<close>

section \<open>Invariant\<close>

definition table_ok :: "session \<Rightarrow> bool" where
  "table_ok s \<longleftrightarrow>
     (\<forall>i p. s_streams s i = Some p \<longleftrightarrow> p < length (s_heap s) \<and> st_id (strm s p) = i \<and> \<not> st_closed (strm s p))"

definition heap_ok :: "session \<Rightarrow> bool" where
  "heap_ok s \<longleftrightarrow> (\<forall>p < length (s_heap s). st_inv (strm s p) \<and> (st_flow (strm s p) \<longrightarrow> s_version s \<ge> 4))"

definition holders :: "nat \<Rightarrow> session \<Rightarrow> (nat \<times> frame \<times> writer_stage) list" where
  "holders p s = filter (\<lambda>(q, f, g). q = p \<and> g \<noteq> WaitLock) (s_writers s)"

definition writers_ok :: "session \<Rightarrow> bool" where
  "writers_ok s \<longleftrightarrow>
     list_all (\<lambda>(p, f, g). p < length (s_heap s)) (s_writers s) \<and> (\<forall>p. length (holders p s) \<le> 1)"

definition task_ok :: "session \<Rightarrow> task \<Rightarrow> bool" where
  "task_ok s t =
     (case t of
        TReset p _ _ _ \<Rightarrow> p < length (s_heap s) \<and> st_closed (strm s p)
      | TNotify p _ _ _ \<Rightarrow> p < length (s_heap s) \<and> st_closed (strm s p)
      | TClosed p \<Rightarrow> p < length (s_heap s) \<and> st_closed (strm s p)
      | _ \<Rightarrow> True)"

definition sess_inv :: "session \<Rightarrow> bool" where
  "sess_inv s \<longleftrightarrow>
     table_ok s \<and> heap_ok s \<and> writers_ok s \<and> list_all (task_ok s) (s_tasks s) \<and>
     (s_closed s \<longrightarrow> s_streams s = Map.empty) \<and> (s_heap s \<noteq> [] \<longrightarrow> s_ready s)"

lemma sess_inv_New: "sess_inv (NewSession dc a access video hs)"
  by (simp add: sess_inv_def table_ok_def heap_ok_def writers_ok_def holders_def NewSession_def)

lemma live_pointer:
  "sess_inv s \<Longrightarrow> s_streams s i = Some p \<Longrightarrow> p < length (s_heap s) \<and> st_id (strm s p) = i \<and> \<not> st_closed (strm s p)"
  by (simp add: sess_inv_def table_ok_def)

lemma open_is_live:
  "sess_inv s \<Longrightarrow> p < length (s_heap s) \<Longrightarrow> \<not> st_closed (strm s p) \<Longrightarrow> s_streams s (st_id (strm s p)) = Some p"
  by (simp add: sess_inv_def table_ok_def)

lemma sess_inv_st: "sess_inv s \<Longrightarrow> p < length (s_heap s) \<Longrightarrow> st_inv (strm s p)"
  by (simp add: sess_inv_def heap_ok_def)

text \<open>A state that agrees on what the invariant reads keeps it.\<close>

lemma sess_inv_cong:
  assumes "sess_inv s" "s_heap s' = s_heap s" "s_streams s' = s_streams s" "s_version s' = s_version s"
    "s_writers s' = s_writers s" "s_tasks s' = s_tasks s" "s_closed s' = s_closed s" "s_ready s' = s_ready s"
  shows "sess_inv s'"
proof -
  have "task_ok s' = task_ok s"
    using assms by (intro ext) (simp add: task_ok_def split: task.split)
  then show ?thesis
    using assms by (simp add: sess_inv_def table_ok_def heap_ok_def writers_ok_def holders_def)
qed

lemma sess_inv_out: "sess_inv s \<Longrightarrow> same_but_out s s' \<Longrightarrow> sess_inv s'"
  by (rule sess_inv_cong) (simp_all add: same_but_out_fields)

lemma sess_inv_call: "sess_inv s \<Longrightarrow> sess_inv (call c s)"
  by (rule sess_inv_cong) simp_all

section \<open>Streams\<close>

text \<open>Replacing a stream's state by one with the same identity.\<close>

definition same_stream :: "stream_state \<Rightarrow> stream_state \<Rightarrow> bool" where
  "same_stream st st' \<longleftrightarrow> st_id st' = st_id st \<and> st_closed st' = st_closed st \<and> st_flow st' = st_flow st"

lemma task_ok_same:
  assumes "length (s_heap s') = length (s_heap s)"
    and "\<And>q. q < length (s_heap s) \<Longrightarrow> st_closed (strm s q) \<Longrightarrow> st_closed (strm s' q)"
    and "task_ok s t"
  shows "task_ok s' t"
  using assms by (simp add: task_ok_def split: task.splits)

lemma tasks_ok_same:
  assumes "length (s_heap s') = length (s_heap s)"
    and "\<And>q. q < length (s_heap s) \<Longrightarrow> st_closed (strm s q) \<Longrightarrow> st_closed (strm s' q)"
    and "list_all (task_ok s) ts"
  shows "list_all (task_ok s') ts"
  using assms(3) task_ok_same [OF assms(1,2)] by (simp add: list_all_iff)

lemma set_strm_inv:
  assumes "sess_inv s" "p < length (s_heap s)" "st_inv st" "same_stream (strm s p) st"
  shows "sess_inv (set_strm p st s)"
proof -
  note same = assms(4) [unfolded same_stream_def]
  have "list_all (task_ok (set_strm p st s)) (s_tasks s)"
    using assms(1) same by - (rule tasks_ok_same [of _ s], auto simp: sess_inv_def)
  moreover have "s_heap (set_strm p st s) = [] \<longleftrightarrow> s_heap s = []"
    by (simp add: set_strm_def)
  moreover have "table_ok (set_strm p st s)"
    unfolding table_ok_def
  proof (intro allI)
    fix i q
    have "s_streams s i = Some q \<longleftrightarrow> q < length (s_heap s) \<and> st_id (strm s q) = i \<and> \<not> st_closed (strm s q)"
      using assms(1) unfolding sess_inv_def table_ok_def by blast
    then show "s_streams (set_strm p st s) i = Some q \<longleftrightarrow>
        q < length (s_heap (set_strm p st s)) \<and> st_id (strm (set_strm p st s) q) = i \<and> \<not> st_closed (strm (set_strm p st s) q)"
      using same by (cases "q = p") (auto simp: assms(2))
  qed
  moreover have "heap_ok (set_strm p st s)"
    using assms(1,3) same by (simp add: sess_inv_def heap_ok_def)
  moreover have "writers_ok (set_strm p st s)"
    using assms(1) by (simp add: sess_inv_def writers_ok_def holders_def)
  ultimately show ?thesis
    using assms(1) by (simp add: sess_inv_def)
qed

lemma update_inv:
  assumes "sess_inv s" "p < length (s_heap s)"
  shows "sess_inv (set_strm p (updateSendMax mx (strm s p)) s)"
  using set_strm_inv [OF assms updateSendMax_inv [OF sess_inv_st [OF assms]]]
  by (simp add: same_stream_def updateSendMax_def)

text \<open>
  The worker may hold a frame it did not consume when its handler fails, so the accounts of the
  stream are only settled once it is closed: \<open>broken_at\<close> is the invariant in between.
\<close>

definition broken_at :: "nat \<Rightarrow> session \<Rightarrow> bool" where
  "broken_at p s \<longleftrightarrow>
     table_ok s \<and> (\<forall>q < length (s_heap s). q \<noteq> p \<longrightarrow> st_inv (strm s q)) \<and>
     (\<forall>q < length (s_heap s). st_flow (strm s q) \<longrightarrow> s_version s \<ge> 4) \<and>
     p < length (s_heap s) \<and> st_inv ((strm s p)\<lparr>st_closed := True\<rparr>) \<and>
     writers_ok s \<and> list_all (task_ok s) (s_tasks s) \<and>
     (s_closed s \<longrightarrow> s_streams s = Map.empty) \<and> (s_heap s \<noteq> [] \<longrightarrow> s_ready s)"

lemma closed_eq: "st_closed st \<Longrightarrow> st\<lparr>st_closed := True\<rparr> = st"
  by (cases st) simp

lemma stopNow_eq: "stopNow st = (st\<lparr>st_closed := True\<rparr>, \<not> st_closed st)"
  by (cases st) (simp add: stopNow_def)

lemmas stop_closed = stopNow_eq [THEN arg_cong, of fst, simplified]

lemma sess_inv_broken: "sess_inv s \<Longrightarrow> p < length (s_heap s) \<Longrightarrow> broken_at p s"
  using stopNow_inv [of "strm s p"] by (simp add: broken_at_def sess_inv_def heap_ok_def stop_closed)

text \<open>Closing a stream and taking it out of the table settles it.\<close>

definition stop_at :: "nat \<Rightarrow> session \<Rightarrow> session" where
  "stop_at p s = set_strm p ((strm s p)\<lparr>st_closed := True\<rparr>) (s\<lparr>s_streams := (s_streams s)(st_id (strm s p) := None)\<rparr>)"

lemma stop_at_fields [simp]:
  "length (s_heap (stop_at p s)) = length (s_heap s)" "s_writers (stop_at p s) = s_writers s"
  "s_tasks (stop_at p s) = s_tasks s" "s_closed (stop_at p s) = s_closed s" "s_ready (stop_at p s) = s_ready s"
  "s_version (stop_at p s) = s_version s" "s_streams (stop_at p s) = (s_streams s)(st_id (strm s p) := None)"
  by (simp_all add: stop_at_def)

lemma strm_stop_at [simp]:
  "q < length (s_heap s) \<Longrightarrow> strm (stop_at p s) q = (if q = p then (strm s p)\<lparr>st_closed := True\<rparr> else strm s q)"
  by (auto simp: stop_at_def set_strm_def nth_list_update)

lemma stop_at_inv:
  assumes "broken_at p s" "s_streams s (st_id (strm s p)) = Some p"
  shows "sess_inv (stop_at p s)"
proof -
  have "list_all (task_ok (stop_at p s)) (s_tasks s)"
    using assms(1) by - (rule tasks_ok_same [of _ s], simp_all add: broken_at_def)
  moreover have "table_ok (stop_at p s)"
    unfolding table_ok_def
  proof (intro allI)
    fix i q
    have "s_streams s j = Some r \<longleftrightarrow> r < length (s_heap s) \<and> st_id (strm s r) = j \<and> \<not> st_closed (strm s r)" for j r
      using assms(1) unfolding broken_at_def table_ok_def by blast
    from this [of i q] this [of "st_id (strm s p)" q]
    show "s_streams (stop_at p s) i = Some q \<longleftrightarrow>
        q < length (s_heap (stop_at p s)) \<and> st_id (strm (stop_at p s) q) = i \<and> \<not> st_closed (strm (stop_at p s) q)"
      using assms(2) by (cases "q = p") auto
  qed
  moreover have "s_heap (stop_at p s) \<noteq> [] \<longleftrightarrow> s_heap s \<noteq> []"
    by (simp add: stop_at_def set_strm_def)
  moreover have "heap_ok (stop_at p s)"
    using assms(1) by (auto simp: broken_at_def heap_ok_def)
  moreover have "writers_ok (stop_at p s)"
    using assms(1) by (simp add: broken_at_def writers_ok_def holders_def)
  ultimately show ?thesis
    using assms(1) by (auto simp: sess_inv_def broken_at_def)
qed

lemma spawn_inv: "sess_inv s \<Longrightarrow> task_ok s t \<Longrightarrow> sess_inv (spawn t s)"
proof -
  assume a: "sess_inv s" "task_ok s t"
  have "task_ok (spawn t s) = task_ok s"
    by (intro ext) (simp add: task_ok_def split: task.split)
  then show ?thesis
    using a by (simp add: sess_inv_def table_ok_def heap_ok_def writers_ok_def holders_def)
qed

lemma failStream_alt:
  "failStream p c m b s =
     (if s_streams s (st_id (strm s p)) \<noteq> Some p then s
      else if st_closed (strm s p) then stop_at p s else spawn (TReset p c m b) (stop_at p s))"
  by (simp add: failStream_def Let_def stop_at_def stopNow_eq set_strm_def)

lemma broken_closed: "broken_at p s \<Longrightarrow> s_streams s (st_id (strm s p)) \<noteq> Some p \<Longrightarrow> sess_inv s"
proof -
  assume a: "broken_at p s" "s_streams s (st_id (strm s p)) \<noteq> Some p"
  then have "st_closed (strm s p)"
    by (auto simp: broken_at_def table_ok_def)
  then have "(strm s p)\<lparr>st_closed := True\<rparr> = strm s p"
    by (rule closed_eq)
  then show ?thesis
    using a by (auto simp: broken_at_def sess_inv_def heap_ok_def)
qed

lemma failStream_inv:
  assumes "broken_at p s"
  shows "sess_inv (failStream p c m b s)"
proof -
  have "p < length (s_heap s)"
    using assms by (simp add: broken_at_def)
  then have "task_ok (stop_at p s) (TReset p c m b)"
    by (simp add: task_ok_def)
  then show ?thesis
    using broken_closed [OF assms] stop_at_inv [OF assms] spawn_inv by (simp add: failStream_alt)
qed

lemma finishState_alt:
  "finishState p s =
     (if s_streams s (st_id (strm s p)) = Some p then stop_at p s else set_strm p ((strm s p)\<lparr>st_closed := True\<rparr>) s)"
  by (simp add: finishState_def Let_def stop_at_def stop_closed set_strm_def)

lemma finishState_inv:
  assumes "sess_inv s" "p < length (s_heap s)"
  shows "sess_inv (finishState p s)"
proof (cases "s_streams s (st_id (strm s p)) = Some p")
  case True
  then show ?thesis
    using stop_at_inv [OF sess_inv_broken [OF assms]] by (simp add: finishState_alt)
next
  case False
  then have "(strm s p)\<lparr>st_closed := True\<rparr> = strm s p"
    using open_is_live [OF assms] closed_eq by blast
  then show ?thesis
    using False set_strm_inv [OF assms sess_inv_st [OF assms]] by (simp add: finishState_alt same_stream_def)
qed

lemma st_inv_marks [simp]:
  "st_inv (st\<lparr>st_receiveFIN := a\<rparr>) = st_inv st" "st_inv (st\<lparr>st_sendFIN := a\<rparr>) = st_inv st"
  "st_inv (st\<lparr>st_fragmenting := a\<rparr>) = st_inv st"
  by (simp_all add: st_inv_defs)

lemma mark_inv:
  assumes "sess_inv s" "p < length (s_heap s)"
  shows "sess_inv (markReceiveClosed p s)" "sess_inv (markSendClosed p s)"
proof -
  have "sess_inv (set_strm p ((strm s p)\<lparr>st_receiveFIN := True\<rparr>) s)" "sess_inv (set_strm p ((strm s p)\<lparr>st_sendFIN := True\<rparr>) s)"
    using set_strm_inv [OF assms] sess_inv_st [OF assms] by (simp_all add: same_stream_def)
  then show "sess_inv (markReceiveClosed p s)" "sess_inv (markSendClosed p s)"
    using assms finishState_inv by (simp_all add: markReceiveClosed_def markSendClosed_def Let_def)
qed

section \<open>The reader\<close>

lemma live_flow_pointer: "sess_inv s \<Longrightarrow> live_flow i s = Some p \<Longrightarrow> p < length (s_heap s)"
  using live_pointer by (auto simp: live_flow_def split: option.splits if_splits)

lemma control_inv:
  assumes "sess_inv s"
  shows "sess_inv (applyWindowUpdate u s)" "sess_inv (applyStreamReset r s)" "sess_inv (resetMalformedControl env pl s)"
  using assms update_inv [OF assms] failStream_inv [OF sess_inv_broken [OF assms]] live_flow_pointer [OF assms]
  by (auto simp: applyWindowUpdate_def applyStreamReset_def resetMalformedControl_def split: option.split prod.split)

text \<open>The version may only move while it is unset, when no stream has flow control.\<close>

lemma sess_inv_version:
  assumes "sess_inv s" "s_version s = 0" "s_heap s' = s_heap s" "s_streams s' = s_streams s"
    "s_writers s' = s_writers s" "s_tasks s' = s_tasks s" "s_closed s' = s_closed s" "s_ready s \<longrightarrow> s_ready s'"
  shows "sess_inv s'"
proof -
  have "task_ok s' = task_ok s"
    using assms by (intro ext) (simp add: task_ok_def split: task.split)
  moreover have "heap_ok s'"
    using assms by (auto simp: sess_inv_def heap_ok_def)
  ultimately show ?thesis
    using assms by (simp add: sess_inv_def table_ok_def writers_ok_def holders_def)
qed

lemma sess_inv_ready:
  assumes "sess_inv s"
  shows "sess_inv (s\<lparr>s_authenticated := True, s_ready := True\<rparr>)"
proof -
  have "task_ok (s\<lparr>s_authenticated := True, s_ready := True\<rparr>) = task_ok s"
    by (intro ext) (simp add: task_ok_def split: task.split)
  then show ?thesis
    using assms by (simp add: sess_inv_def table_ok_def heap_ok_def writers_ok_def holders_def)
qed

lemma sendReady_inv:
  assumes "sess_inv s"
  shows "sess_inv (sendReady env s)"
proof -
  have "sess_inv (t\<lparr>s_videoStarted := True\<rparr>)" if "sess_inv t" for t
    by (rule sess_inv_cong [OF that]) simp_all
  moreover have "task_ok t TVideo" for t
    by (simp add: task_ok_def)
  ultimately show ?thesis
    using sess_inv_out [OF assms send_control_out] spawn_inv unfolding sendReady_def Let_def by simp
qed

lemma notifyHandlers_inv:
  assumes "sess_inv s" "notifyHandlers env visit conn path s = (s', ok)"
  shows "sess_inv s'"
  by (rule sess_inv_cong [OF assms(1)]) (simp_all add: notifyHandlers_fields [OF assms(2)])

lemma handleConnect_inv:
  assumes "sess_inv s"
  shows "sess_inv (handleConnect env visit conn path v s)"
proof -
  define pa where "pa = (if path = [] then ''/'' else path)"
  define s1 where "s1 = s\<lparr>s_connectPath := pa\<rparr>"
  define s2 where "s2 = (if s_version s1 = 0 then s1\<lparr>s_version := NegotiateSWSPVersion v\<rparr> else s1)"
  have "sess_inv s1"
    unfolding s1_def by (rule sess_inv_cong [OF assms]) simp_all
  then have s2: "sess_inv s2"
    unfolding s2_def by (auto intro: sess_inv_version [of s1])
  obtain s3 b where n: "notifyHandlers env visit conn pa s2 = (s3, b)"
    by (cases "notifyHandlers env visit conn pa s2")
  have "sess_inv s3"
    by (rule notifyHandlers_inv [OF s2 n])
  then show ?thesis
    unfolding handleConnect_def Let_def pa_def [symmetric] s1_def [symmetric] s2_def [symmetric] n
    using s2 sess_inv_out [OF s2 send_control_out] sendReady_inv sess_inv_call sess_inv_ready
    by (simp add: markReady_def split: bool.split)
qed

lemma handleAuth_inv:
  assumes "sess_inv s"
  shows "sess_inv (handleAuth env visit conn pin s)"
proof -
  define pa where "pa = (if s_connectPath s = [] then ''/'' else s_connectPath s)"
  obtain s1 b where n: "notifyHandlers env visit conn pa s = (s1, b)"
    by (cases "notifyHandlers env visit conn pa s")
  have ok: "sess_inv s1"
    by (rule notifyHandlers_inv [OF assms n])
  have fail: "sess_inv (s\<lparr>s_authFails := k\<rparr>)" "sess_inv (t\<lparr>s_dc := d\<rparr>)" if "sess_inv t" for k d t
    by (rule sess_inv_cong [OF assms], simp_all) (rule sess_inv_cong [OF that], simp_all)
  show ?thesis
    unfolding handleAuth_def Let_def pa_def [symmetric] n
    using assms ok fail(2) sess_inv_out [OF fail(1) [OF assms] send_control_out]
      sess_inv_out [OF sess_inv_call [OF sess_inv_ready [OF ok]] send_control_out] sendReady_inv
    by (simp add: markReady_def split: bool.split)
qed

lemma handleControl_inv: "sess_inv s \<Longrightarrow> sess_inv (handleControl env visit conn f s)"
  by (rule handleControl_cases) (simp_all add: control_inv handleConnect_inv handleAuth_inv sess_inv_call)

lemma deliver_frame_inv:
  assumes "sess_inv s" "p < length (s_heap s)"
  shows "sess_inv (fst (deliver_frame p f s))"
proof (cases "enqueue f (strm s p)")
  case (Inl e)
  then show ?thesis
    using failStream_inv [OF sess_inv_broken [OF assms]] by (simp add: deliver_frame_def)
next
  case (Inr st)
  then have "same_stream (strm s p) st"
    by (auto simp: enqueue_def Let_def same_stream_def split: if_splits)
  then show ?thesis
    using set_strm_inv [OF assms enqueue_inv [OF sess_inv_st [OF assms] Inr]] Inr by (simp add: deliver_frame_def)
qed

lemma new_stream_inv:
  assumes "sess_inv s" "s_streams s i = None" "\<not> s_closed s" "s_ready s"
  shows "sess_inv (s\<lparr>s_heap := s_heap s @ [\<lparr>so_st = newStreamState i ty (s_version s \<ge> 4), so_handler = h, so_run = b\<rparr>],
      s_streams := (s_streams s)(i \<mapsto> length (s_heap s))\<rparr>)" (is "sess_inv ?s")
proof -
  have new: "st_id (strm ?s (length (s_heap s))) = i" "\<not> st_closed (strm ?s (length (s_heap s)))"
    "st_flow (strm ?s (length (s_heap s))) \<longrightarrow> s_version s \<ge> 4" "st_inv (strm ?s (length (s_heap s)))"
    using st_inv_new by (simp_all add: newStreamState_def)
  have old: "strm ?s q = strm s q" if "q < length (s_heap s)" for q
    using that by (simp add: nth_append)
  have "table_ok ?s"
    unfolding table_ok_def
  proof (intro allI)
    fix j q
    have "s_streams s j = Some q \<longleftrightarrow> q < length (s_heap s) \<and> st_id (strm s q) = j \<and> \<not> st_closed (strm s q)" for j
      using assms(1) unfolding sess_inv_def table_ok_def by blast
    from this [of i] this [of j]
    show "s_streams ?s j = Some q \<longleftrightarrow> q < length (s_heap ?s) \<and> st_id (strm ?s q) = j \<and> \<not> st_closed (strm ?s q)"
      using assms(2) new(1,2) old by (cases "q < length (s_heap s)"; cases "q = length (s_heap s)") auto
  qed
  moreover have "heap_ok ?s"
    using assms(1) new(3,4) old unfolding heap_ok_def sess_inv_def by (auto simp: less_Suc_eq)
  moreover have "writers_ok ?s"
    using assms(1) by (auto simp: sess_inv_def writers_ok_def holders_def list_all_iff)
  moreover have "task_ok ?s t" if "task_ok s t" for t
    using that old by (auto simp: task_ok_def split: task.splits)
  then have "list_all (task_ok ?s) (s_tasks s)"
    using assms(1) by (auto simp: sess_inv_def list_all_iff)
  ultimately show ?thesis
    using assms(3,4) by (simp add: sess_inv_def)
qed

lemma run_flag_inv:
  assumes "sess_inv s"
  shows "sess_inv (s\<lparr>s_heap := (s_heap s)[p := (obj s p)\<lparr>so_run := b\<rparr>]\<rparr>)" (is "sess_inv ?s")
proof -
  have old: "strm ?s q = strm s q" if "q < length (s_heap s)" for q
    using that by (cases "q = p") simp_all
  have "task_ok ?s = task_ok s"
    using old by (intro ext) (auto simp: task_ok_def split: task.split)
  moreover have "table_ok ?s"
    using assms old unfolding sess_inv_def table_ok_def by (simp cong: conj_cong)
  moreover have "heap_ok ?s"
    using assms old by (simp add: sess_inv_def heap_ok_def)
  moreover have "writers_ok ?s"
    using assms by (simp add: sess_inv_def writers_ok_def holders_def)
  ultimately show ?thesis
    using assms by (simp add: sess_inv_def)
qed

lemma handleStreamFrame_inv:
  assumes "sess_inv s"
  shows "sess_inv (handleStreamFrame env f s)"
proof -
  have reject: "sess_inv (rejectStream i c m s)" for i c m
    using spawn_inv [OF assms] by (simp add: rejectStream_def task_ok_def)
  have live: "sess_inv (fst (deliver_frame p f s))" "sess_inv (failStream p c m b s)"
    if "s_streams s (StreamID f) = Some p" for p c m b
    using deliver_frame_inv [OF assms] failStream_inv [OF sess_inv_broken [OF assms]] live_pointer [OF assms that] by auto
  have fresh: "sess_inv s2" "sess_inv (s2\<lparr>s_heap := (s_heap s2)[length (s_heap s) := (obj s2 (length (s_heap s)))\<lparr>so_run := True\<rparr>]\<rparr>)"
    if "s_streams s (StreamID f) = None" "\<not> s_closed s" "s_ready s"
      "deliver_frame (length (s_heap s)) f (s\<lparr>s_heap := s_heap s @
         [\<lparr>so_st = newStreamState (StreamID f) ty (s_version s \<ge> 4), so_handler = h, so_run = False\<rparr>],
         s_streams := (s_streams s)(StreamID f \<mapsto> length (s_heap s))\<rparr>) = (s2, b)" for s2 b ty h
  proof -
    show s2: "sess_inv s2"
      using deliver_frame_inv [OF new_stream_inv [OF assms that(1-3), of ty h False], of "length (s_heap s)" f] that(4) by simp
    show "sess_inv (s2\<lparr>s_heap := (s_heap s2)[length (s_heap s) := (obj s2 (length (s_heap s)))\<lparr>so_run := True\<rparr>]\<rparr>)"
      by (rule run_flag_inv [OF s2])
  qed
  show ?thesis
    unfolding handleStreamFrame_def Let_def
    using assms reject live fresh by (auto split: option.split prod.split bool.split)
qed

section \<open>Workers\<close>

lemma work_same: "work_step w st = (st', u) \<Longrightarrow> w \<noteq> WStop \<Longrightarrow> same_stream st st'"
  by (cases w) (auto simp: work_step_def consume_def dequeued_def same_stream_def Let_def
      split: option.splits list.splits prod.splits bool.splits if_splits)

lemma work_set_inv:
  assumes "sess_inv s" "p < length (s_heap s)" "w \<noteq> WStop"
  shows "sess_inv (set_strm p (fst (work_step w (strm s p))) s)"
  using set_strm_inv [OF assms(1,2) work_inv [OF sess_inv_st [OF assms(1,2)]] work_same [OF _ assms(3)]]
  by (metis prod.collapse)

lemma sess_inv_due: "sess_inv s \<Longrightarrow> sess_inv (s\<lparr>s_due := xs\<rparr>)" "sess_inv s \<Longrightarrow> sess_inv (s\<lparr>s_inbox := ys\<rparr>)"
  by (rule sess_inv_cong; simp)+

lemma worker_take_inv: "sess_inv s \<Longrightarrow> sess_inv (worker_take p s)"
  using work_set_inv [of s p WTake] sess_inv_due(1)
  by (auto simp: worker_take_def Let_def split: option.split list.split sum.split)

lemma same_stream_refl [simp]: "same_stream st st"
  by (simp add: same_stream_def)

lemma max_advertised_inv:
  assumes "sess_inv s" "p < length (s_heap s)" "mx \<le> st_advertised (strm s p)"
  shows "sess_inv (set_strm p ((strm s p)\<lparr>st_advertised := max (st_advertised (strm s p)) mx\<rparr>) s)"
proof -
  have "(strm s p)\<lparr>st_advertised := max (st_advertised (strm s p)) mx\<rparr> = strm s p"
    using assms(3) by (simp add: max_absorb1)
  then show ?thesis
    using set_strm_inv [OF assms(1,2) sess_inv_st [OF assms(1,2)]] by simp
qed

lemma sendWindowUpdate_inv:
  assumes "sess_inv s" "p < length (s_heap s)" "mx \<le> st_advertised (strm s p)"
  shows "sess_inv (fst (sendWindowUpdate env p mx s))"
  using assms sess_inv_out [OF max_advertised_inv [OF assms] dcSend_out] by (simp add: sendWindowUpdate_def Let_def)

lemma consume_update_bound: "work_step WConsume st = (st', Some mx) \<Longrightarrow> mx = st_advertised st'"
  by (auto simp: work_step_def consume_def Let_def split: option.splits prod.splits bool.splits if_splits)

lemma session_consume_inv:
  assumes "sess_inv s" "p < length (s_heap s)"
  shows "sess_inv (fst (session_consume env p f s))"
proof -
  let ?w = "work_step WConsume (strm s p)"
  have s1: "sess_inv (set_strm p (fst ?w) s)"
    using work_set_inv [OF assms] by simp
  have "mx \<le> st_advertised (strm (set_strm p (fst ?w) s) p)" if "snd ?w = Some mx" for mx
    using consume_update_bound [of "strm s p" "fst ?w" mx] that assms(2) by (metis eq_refl prod.collapse strm_set_strm)
  then show ?thesis
    using s1 sendWindowUpdate_inv [OF s1] assms(2) by (auto simp: session_consume_state Let_def split: option.split)
qed

text \<open>What the worker holds while it processes a frame.\<close>

lemma work_consume_hand:
  assumes "st_hand st = Some (f, False)" "work_step WConsume st = (st', u)"
  shows "st_hand st' = Some (f, True)"
  using assms by (auto simp: work_step_def consume_def Let_def split: if_splits)

lemma st_hand_finish [simp]:
  "p < length (s_heap s) \<Longrightarrow> st_hand (strm (markReceiveClosed p s) p) = st_hand (strm s p)"
  by (simp add: markReceiveClosed_def finishState_alt Let_def)

lemma st_hand_sendWindowUpdate [simp]:
  "p < length (s_heap s) \<Longrightarrow> st_hand (strm (fst (sendWindowUpdate env p mx s)) p) = st_hand (strm s p)"
  by (simp add: sendWindowUpdate_def Let_def)

lemma session_consume_hand:
  assumes "p < length (s_heap s)" "st_hand (strm s p) = Some (f, False)"
  shows "st_hand (strm (fst (session_consume env p f s)) p) = Some (f, True)"
  using assms work_consume_hand [OF assms(2), of "fst (work_step WConsume (strm s p))" "snd (work_step WConsume (strm s p))"]
  by (simp add: session_consume_state Let_def split: option.split)

lemma processStreamFrame_inv:
  assumes inv: "sess_inv s" and p: "p < length (s_heap s)" and hand: "st_hand (strm s p) = Some (f, False)"
    and run: "processStreamFrame env p f res s = (s', err)"
  shows "sess_inv s' \<and> (\<exists>b. st_hand (strm s' p) = Some (f, b) \<and> (err = None \<longrightarrow> b \<or> FlowBytes f = 0))"
proof -
  define frag where "frag = set_strm p ((strm s p)\<lparr>st_fragmenting := IsMORE f\<rparr>) s"
  have frag_inv: "sess_inv frag" "p < length (s_heap frag)" "st_hand (strm frag p) = Some (f, False)"
    using set_strm_inv [OF inv p, of "(strm s p)\<lparr>st_fragmenting := IsMORE f\<rparr>"] sess_inv_st [OF inv p] p hand
    by (simp_all add: frag_def same_stream_def)
  have cons: "sess_inv t' \<and> st_hand (strm t' p) = Some (f, True) \<and> p < length (s_heap t')"
    if "session_consume env p f t = (t', e)" "sess_inv t" "p < length (s_heap t)" "st_hand (strm t p) = Some (f, False)" for t t' e
    using session_consume_inv [OF that(2,3), of env f] session_consume_hand [OF that(3,4), of env]
      session_consume_fields(11) [of env p f t] that(1,3) by simp
  have mark: "sess_inv (markReceiveClosed p t) \<and> st_hand (strm (markReceiveClosed p t) p) = st_hand (strm t p)"
    if "sess_inv t" "p < length (s_heap t)" for t
    using mark_inv [OF that] that by simp
  have fin: "sess_inv (markReceiveClosed p t) \<and> st_hand (strm (markReceiveClosed p t) p) = Some (f, True)"
    if "session_consume env p f s = (t, e)" for t e
    using cons [OF that inv p hand] mark by simp
  have syn: "FlowBytes f = 0" if "IsSYN f"
    using that by (simp add: FlowBytes_def)
  note split_rules = sum.splits if_splits option.splits prod.splits
  show ?thesis
    using run inv p hand frag_inv syn
    unfolding processStreamFrame_def Let_def frag_def [symmetric]
    by (auto dest: cons mark fin split: split_rules)
qed

lemma hand_back_inv:
  assumes "sess_inv s" "p < length (s_heap s)" "st_hand (strm s p) = Some (f, b)" "b \<or> FlowBytes f = 0"
  shows "sess_inv (hand_back p f s)"
proof -
  have "st_inv ((dequeued f (strm s p))\<lparr>st_hand := None\<rparr>)"
    using sess_inv_st [OF assms(1,2)] assms(3,4) by (cases b) (auto simp: st_inv_defs dequeued_def)
  then show ?thesis
    using set_strm_inv [OF assms(1,2)] by (simp add: hand_back_def same_stream_def dequeued_def)
qed

text \<open>After an error the frame is handed back unconsumed, which only a closed stream may do.\<close>

lemma hand_back_broken:
  assumes "sess_inv s" "p < length (s_heap s)" "st_hand (strm s p) = Some (f, b)"
  shows "broken_at p (hand_back p f s)"
proof -
  define st where "st = (dequeued f (strm s p))\<lparr>st_hand := None\<rparr>"
  have st: "st_inv (st\<lparr>st_closed := True\<rparr>)"
    using sess_inv_st [OF assms(1,2)] assms(3) by (cases b) (auto simp: st_inv_defs dequeued_def st_def)
  have "same_stream (strm s p) st"
    by (simp add: st_def dequeued_def same_stream_def)
  moreover have tasks: "list_all (task_ok (set_strm p st s)) (s_tasks s)"
    using assms(1) calculation by - (rule tasks_ok_same [of _ s], auto simp: sess_inv_def same_stream_def)
  moreover have "table_ok (set_strm p st s)"
    unfolding table_ok_def
  proof (intro allI)
    fix i q
    have "s_streams s i = Some q \<longleftrightarrow> q < length (s_heap s) \<and> st_id (strm s q) = i \<and> \<not> st_closed (strm s q)"
      using assms(1) unfolding sess_inv_def table_ok_def by blast
    then show "s_streams (set_strm p st s) i = Some q \<longleftrightarrow>
        q < length (s_heap (set_strm p st s)) \<and> st_id (strm (set_strm p st s) q) = i \<and> \<not> st_closed (strm (set_strm p st s) q)"
      using calculation by (cases "q = p") (auto simp: assms(2) same_stream_def)
  qed
  moreover have "writers_ok (set_strm p st s)" "s_heap (set_strm p st s) \<noteq> [] \<longleftrightarrow> s_heap s \<noteq> []"
    using assms(1) by (simp_all add: sess_inv_def writers_ok_def holders_def set_strm_def)
  ultimately show ?thesis
    using assms(1,2) st unfolding hand_back_def st_def [symmetric]
    by (auto simp: broken_at_def sess_inv_def heap_ok_def same_stream_def)
qed

lemma exit_worker_inv: "sess_inv s \<Longrightarrow> sess_inv (exit_worker p s)"
  using run_flag_inv by (simp add: exit_worker_def)

lemma worker_return_inv:
  assumes "sess_inv s"
  shows "sess_inv (worker_return env p res s)"
proof (cases "p \<ge> length (s_heap s) \<or> \<not> so_run (obj s p) \<or> st_hand (strm s p) = None")
  case True
  then show ?thesis
    using assms by (auto simp: worker_return_def)
next
  case False
  then obtain f b where p: "p < length (s_heap s)" and hand: "st_hand (strm s p) = Some (f, b)" and run: "so_run (obj s p)"
    by auto
  show ?thesis
  proof (cases b)
    case True
    then show ?thesis
      using assms p hand run exit_worker_inv hand_back_inv [OF assms p hand] by (simp add: worker_return_def)
  next
    case False
    obtain s1 err where e: "processStreamFrame env p f res s = (s1, err)"
      by (cases "processStreamFrame env p f res s")
    have len: "p < length (s_heap s1)"
      using processStreamFrame_fields(10) [of env p f res s] p e by simp
    from processStreamFrame_inv [OF assms p _ e] hand False
    obtain b' where s1: "sess_inv s1" "st_hand (strm s1 p) = Some (f, b')" "err = None \<longrightarrow> b' \<or> FlowBytes f = 0"
      by auto
    show ?thesis
      using assms p hand run False e s1 exit_worker_inv failStream_inv [OF hand_back_broken [OF s1(1) len s1(2)]]
        hand_back_inv [OF s1(1) len s1(2)]
      by (simp add: worker_return_def Let_def split: option.split)
  qed
qed

section \<open>Writers\<close>

lemma drop_nth_filter: "length (filter P (drop_nth n xs)) \<le> length (filter P xs)"
proof (cases "n < length xs")
  case True
  have "filter P xs = filter P (take n xs @ xs ! n # drop (Suc n) xs)"
    by (simp only: id_take_nth_drop [OF True, symmetric])
  then show ?thesis
    by (simp add: drop_nth_def)
qed (simp add: drop_nth_def)

lemma set_writers_inv:
  assumes "sess_inv s" "list_all (\<lambda>(p, f, g). p < length (s_heap s)) ws"
    "\<And>p. length (filter (\<lambda>(q, f, g). q = p \<and> g \<noteq> WaitLock) ws) \<le> 1"
  shows "sess_inv (s\<lparr>s_writers := ws\<rparr>)"
proof -
  have "task_ok (s\<lparr>s_writers := ws\<rparr>) = task_ok s"
    by (intro ext) (simp add: task_ok_def split: task.split)
  then show ?thesis
    using assms by (simp add: sess_inv_def table_ok_def heap_ok_def writers_ok_def holders_def)
qed

lemma writers_ok_list:
  assumes "sess_inv s"
  shows "list_all (\<lambda>(p, f, g). p < length (s_heap s)) (s_writers s)"
    "length (filter (\<lambda>(q, f, g). q = p \<and> g \<noteq> WaitLock) (s_writers s)) \<le> 1"
  using assms by (simp_all add: sess_inv_def writers_ok_def holders_def)

lemma leave_writer_inv: "sess_inv s \<Longrightarrow> sess_inv (leave_writer n s)"
  unfolding leave_writer_def
  by (rule set_writers_inv, assumption, simp add: list_all_drop_nth writers_ok_list)
    (rule order.trans [OF drop_nth_filter writers_ok_list(2)])

lemma filter_stage_length:
  assumes "n < length xs" "P y \<longrightarrow> P (xs ! n)"
  shows "length (filter P (xs[n := y])) \<le> length (filter P xs)"
  using assms by (induction xs arbitrary: n) (auto split: nat.split simp: nth_Cons')

lemma filter_update_one:
  assumes "filter P xs = []"
  shows "length (filter P (xs[n := y])) \<le> 1"
  using assms by (induction xs arbitrary: n) (auto split: nat.split if_splits)

lemma stage_inv:
  assumes "sess_inv s" "n < length (s_writers s)" "s_writers s ! n = (p, f, g)" "g = WaitLock \<longrightarrow> \<not> lock_held p s"
  shows "sess_inv (s\<lparr>s_writers := (s_writers s)[n := (p, f, g')]\<rparr>)"
proof (rule set_writers_inv [OF assms(1)])
  have "p < length (s_heap s)"
    using writers_ok_list(1) [OF assms(1)] assms(2,3) by (auto simp: list_all_length)
  then show "list_all (\<lambda>(p, f, g). p < length (s_heap s)) ((s_writers s)[n := (p, f, g')])"
    using writers_ok_list(1) [OF assms(1)] assms(2) by (auto simp: list_all_length nth_list_update)
next
  fix q
  show "length (filter (\<lambda>(r, f, g). r = q \<and> g \<noteq> WaitLock) ((s_writers s)[n := (p, f, g')])) \<le> 1"
  proof (cases "q = p \<and> g = WaitLock")
    case True
    then have "filter (\<lambda>(r, f, g). r = q \<and> g \<noteq> WaitLock) (s_writers s) = []"
      using assms(4) by (auto simp: lock_held_def list_ex_iff filter_empty_conv)
    then show ?thesis
      by (rule filter_update_one)
  next
    case False
    then have "(\<lambda>(r, f, g). r = q \<and> g \<noteq> WaitLock) (p, f, g') \<longrightarrow> (\<lambda>(r, f, g). r = q \<and> g \<noteq> WaitLock) (s_writers s ! n)"
      using assms(3) by auto
    then show ?thesis
      by (rule order.trans [OF filter_stage_length [OF assms(2)] writers_ok_list(2) [OF assms(1)]])
  qed
qed

lemma writer_step_inv:
  assumes "sess_inv s"
  shows "sess_inv (writer_step n s)"
proof (cases "n < length (s_writers s)")
  case True
  obtain p f g where w: "s_writers s ! n = (p, f, g)"
    by (cases "s_writers s ! n")
  have p: "p < length (s_heap s)"
    using writers_ok_list(1) [OF assms] True w by (auto simp: list_all_length)
  note stage = stage_inv [OF assms True w]
  show ?thesis
  proof (cases g)
    case WaitLock
    then show ?thesis
      using True w assms leave_writer_inv stage by (simp add: writer_step_def)
  next
    case HoldLock
    have "sess_inv ((set_strm p st s)\<lparr>s_writers := (s_writers s)[n := (p, f, HasCredit)]\<rparr>)"
      if r: "reserveSend (FlowBytes f) (strm s p) = Reserved st" for st
    proof -
      have "same_stream (strm s p) st"
        using r by (auto simp: reserveSend_def same_stream_def split: if_splits)
      then have "sess_inv (set_strm p st s)"
        by (rule set_strm_inv [OF assms p reserveSend_inv [OF sess_inv_st [OF assms p] r]])
      then show ?thesis
        using stage_inv [of "set_strm p st s" n p f g HasCredit] True w HoldLock by simp
    qed
    then show ?thesis
      using True w HoldLock assms leave_writer_inv by (simp add: writer_step_def split: reserve_result.split)
  next
    case HasCredit
    have "sess_inv t \<and> p < length (s_heap t)" if "dcSend (Some p) (StreamID f) (Flags f) (Payload f) s = (t, e)" for t e
      using sess_inv_out [OF assms dcSend_out] dcSend_eq [OF that] p by simp
    then show ?thesis
      using True w HasCredit leave_writer_inv mark_inv(2) failStream_inv [OF sess_inv_broken]
      by (auto simp: writer_step_def split: option.split prod.split)
  qed
next
  case False
  then show ?thesis
    using assms by (simp add: writer_step_def)
qed

section \<open>Goroutines and the end\<close>

lemma set_tasks_inv:
  assumes "sess_inv s" "list_all (task_ok s) ts"
  shows "sess_inv (s\<lparr>s_tasks := ts\<rparr>)"
proof -
  have "task_ok (s\<lparr>s_tasks := ts\<rparr>) = task_ok s"
    by (intro ext) (simp add: task_ok_def split: task.split)
  then show ?thesis
    using assms by (simp add: sess_inv_def table_ok_def heap_ok_def writers_ok_def holders_def)
qed

lemma end_task_inv: "sess_inv s \<Longrightarrow> sess_inv (end_task n s)"
  unfolding end_task_def by (rule set_tasks_inv) (simp_all add: list_all_drop_nth sess_inv_def)

lemma task_step_inv:
  assumes "sess_inv s"
  shows "sess_inv (task_step env n s)"
proof (cases "n < length (s_tasks s)")
  case True
  have ok: "task_ok s (s_tasks s ! n)"
    using assms True by (simp add: sess_inv_def list_all_length)
  have upd: "sess_inv (s\<lparr>s_tasks := (s_tasks s)[n := TNotify p c m b]\<rparr>)" if "s_tasks s ! n = TReset p c m b" for p c m b
  proof (rule set_tasks_inv [OF assms])
    have "task_ok s (TNotify p c m b)"
      using ok that by (simp add: task_ok_def)
    then show "list_all (task_ok s) ((s_tasks s)[n := TNotify p c m b])"
      using assms True by (auto simp: sess_inv_def list_all_length nth_list_update)
  qed
  have outs: "sess_inv (sendReset env i c m s)" "sess_inv (sendStreamError env i m s)" "sess_inv (fst (dcSend w i fl pl s))"
    for i c m w fl pl
    using sess_inv_out [OF assms] by simp_all
  show ?thesis
    using True assms upd outs end_task_inv sess_inv_call
    by (simp add: task_step_def Let_def split: task.split)
next
  case False
  then show ?thesis
    using assms by (simp add: task_step_def)
qed

lemma closeSession_alt:
  assumes "sess_inv s" "p < length (s_heap s)"
  shows "strm (closeSession s) p = (if s_closed s then strm s p else (strm s p)\<lparr>st_closed := True\<rparr>)"
proof (cases "s_closed s")
  case False
  have "(strm s p)\<lparr>st_closed := True\<rparr> = strm s p" if "s_streams s (st_id (strm s p)) \<noteq> Some p"
    using open_is_live [OF assms] that closed_eq by blast
  then show ?thesis
    using False assms(2) by (simp add: closeSession_def Let_def stop_closed)
qed (simp add: closeSession_def)

lemma closeSession_inv:
  assumes "sess_inv s"
  shows "sess_inv (closeSession s)"
proof (cases "s_closed s")
  case True
  then show ?thesis
    using assms by (simp add: closeSession_def)
next
  case False
  define c where "c = closeSession s"
  have strm: "strm c q = (strm s q)\<lparr>st_closed := True\<rparr>" if "q < length (s_heap s)" for q
    using closeSession_alt [OF assms that] False by (simp add: c_def)
  have fields: "length (s_heap c) = length (s_heap s)" "s_writers c = s_writers s" "s_ready c = s_ready s"
    "s_version c = s_version s" "s_streams c = Map.empty"
    using False by (simp_all add: c_def) (simp add: closeSession_def Let_def)
  have old: "task_ok c t" if "task_ok s t" for t
    using task_ok_same [OF fields(1) _ that] strm by simp
  have tasks: "\<exists>ps. s_tasks c = s_tasks s @ map TClosed ps \<and> set ps \<subseteq> {..< length (s_heap s)}"
    using False by (auto simp: c_def closeSession_def Let_def)
  have new: "task_ok c (TClosed p)" if "p < length (s_heap s)" for p
    using that strm fields by (simp add: task_ok_def)
  have "list_all (task_ok c) (s_tasks c)"
    using assms tasks old new by (fastforce simp: sess_inv_def list_all_iff)
  moreover have "table_ok c"
    using strm fields by (simp add: table_ok_def)
  moreover have "heap_ok c"
    using assms strm fields stopNow_inv by (simp add: heap_ok_def sess_inv_def stop_closed)
  moreover have "writers_ok c"
    using assms fields by (simp add: sess_inv_def writers_ok_def holders_def)
  moreover have "s_heap c \<noteq> [] \<longrightarrow> s_ready c"
    using assms fields by (auto simp: sess_inv_def simp flip: length_greater_0_conv)
  ultimately show ?thesis
    using fields unfolding c_def by (simp add: sess_inv_def)
qed

lemma sess_do_inv [inv_step]:
  assumes "sess_inv s"
  shows "sess_inv (sess_do env e s)"
proof (cases e)
  case (EvDispatch n visit conn)
  have "sess_inv (routeMessage env visit conn data t)" if "sess_inv t" for data t
    using that by (simp add: routeMessage_def handleControl_inv handleStreamFrame_inv split: sum.split)
  then show ?thesis
    using EvDispatch assms sess_inv_due(2) by (simp add: sess_do_def dispatch_message_def)
next
  case (EvWrite i fl pl)
  have "sess_inv (s\<lparr>s_writers := s_writers s @ [(p, f, WaitLock)]\<rparr>)" if "s_streams s i = Some p" for p f
    using writers_ok_list [OF assms] live_pointer [OF assms that] by (intro set_writers_inv [OF assms]) simp_all
  then show ?thesis
    using EvWrite assms by (simp add: sess_do_def sendStreamFrame_def split: option.split)
next
  case (EvVideo j)
  then show ?thesis
    using assms sess_inv_out [OF assms send_control_out] by (simp add: sess_do_def)
next
  case (EvGoodbye r)
  then show ?thesis
    using closeSession_inv [OF sess_inv_out [OF assms sendControlError_out]] by (simp add: sess_do_def Goodbye_def)
next
  case (EvDC d)
  have "sess_inv (s\<lparr>s_dc := d\<rparr>)"
    by (rule sess_inv_cong [OF assms]) simp_all
  then show ?thesis
    using EvDC by (simp add: sess_do_def)
qed (use assms in \<open>simp_all add: sess_do_def receiveMessage_def worker_call_def sess_inv_due sess_inv_call worker_take_inv worker_return_inv worker_done_def exit_worker_inv
  writer_step_inv task_step_inv closeSession_inv\<close>)

lemma sess_run_inv: "sess_inv s \<Longrightarrow> sess_inv (sess_run env es s)"
  by (induction es arbitrary: s) (simp_all add: sess_do_inv)

end
