(* ===== verification/Session_Quiet.thy ===== *)
theory Session_Quiet
  imports Session_Inv
begin

text \<open>
  What a session does with its data channel: only the channel's own state and a third wrong PIN
  change it, a session without an open channel puts nothing on the wire, and a closed session serves
  nothing more.
\<close>

section \<open>Silence after the channel closes\<close>

definition no_dc :: "sess_event \<Rightarrow> bool" where
  "no_dc e = (case e of EvDC _ \<Rightarrow> False | _ \<Rightarrow> True)"

definition mute :: "session \<Rightarrow> bool" where
  "mute s \<longleftrightarrow> s_dc s = DCNil \<or> s_dc s = DCClosed"

lemma mute_dcSend [simp]: "mute s \<Longrightarrow> fst (dcSend w i fl pl s) = s"
  by (auto simp: mute_def dcSend_def)

text \<open>Operations that leave the channel as it is, and what a mute session does with it.\<close>

definition quiet :: "session \<Rightarrow> session \<Rightarrow> bool" where
  "quiet s s' \<longleftrightarrow> (s_dc s' = s_dc s \<or> s_dc s' = DCClosed) \<and> (mute s \<longrightarrow> s_out s' = s_out s)"

lemma quiet_refl [simp]: "quiet s s"
  by (simp add: quiet_def)

lemma quiet_mute: "quiet s s' \<Longrightarrow> mute s \<Longrightarrow> mute s'"
  by (auto simp: quiet_def mute_def)

lemma quiet_trans: "quiet s t \<Longrightarrow> quiet t u \<Longrightarrow> quiet s u"
  unfolding quiet_def mute_def by metis

lemma quiet_dcSend [simp]: "quiet s (fst (dcSend w i fl pl s))"
  by (simp add: quiet_def)

lemma quiet_sends [simp]:
  "quiet s (send_control env fl j s)" "quiet s (sendStreamError env i m s)" "quiet s (sendReset env i c m s)"
  "quiet s (sendControlError env m s)"
  by (simp_all add: quiet_def send_control_def sendStreamError_def sendReset_def sendControlError_def Let_def)

lemma quiet_same: "s_dc s' = s_dc s \<Longrightarrow> s_out s' = s_out s \<Longrightarrow> quiet s s'"
  by (simp add: quiet_def)

lemma quiet_notify: "notify env conn path hs s = (s', ok) \<Longrightarrow> quiet s s'"
proof (induction hs arbitrary: s)
  case (Cons h hs)
  have "quiet s (call (OnConnect h path) s)"
    by (rule quiet_same) simp_all
  then show ?case
    using Cons quiet_trans quiet_sends(4) by (fastforce simp: Let_def split: option.splits)
qed simp

lemma quiet_sendReady: "quiet s (sendReady env s)"
  using quiet_sends(1) by (auto simp: sendReady_def Let_def quiet_def)

lemma quiet_handleConnect: "quiet s (handleConnect env visit conn path v s)"
proof -
  define pa where "pa = (if path = [] then ''/'' else path)"
  define s1 where "s1 = s\<lparr>s_connectPath := pa\<rparr>"
  define s2 where "s2 = (if s_version s1 = 0 then s1\<lparr>s_version := NegotiateSWSPVersion v\<rparr> else s1)"
  have s2: "quiet s s2"
    by (rule quiet_same) (simp_all add: s1_def s2_def)
  obtain s3 b where n: "notifyHandlers env visit conn pa s2 = (s3, b)"
    by (cases "notifyHandlers env visit conn pa s2")
  have s3: "quiet s s3"
    using quiet_trans [OF s2 quiet_notify [OF n [unfolded notifyHandlers_def]]] .
  moreover have "quiet s3 (markReady (s3\<lparr>s_authenticated := True, s_ready := True\<rparr>))"
    by (rule quiet_same) (simp_all add: markReady_def)
  ultimately show ?thesis
    unfolding handleConnect_def Let_def pa_def [symmetric] s1_def [symmetric] s2_def [symmetric] n
    using quiet_trans [OF s2 quiet_sends(1)] quiet_trans [OF quiet_trans [OF s3] quiet_sendReady]
    by (simp split: bool.split)
qed

lemma quiet_handleAuth: "quiet s (handleAuth env visit conn pin s)"
proof -
  define pa where "pa = (if s_connectPath s = [] then ''/'' else s_connectPath s)"
  obtain s1 b where n: "notifyHandlers env visit conn pa s = (s1, b)"
    by (cases "notifyHandlers env visit conn pa s")
  have s1: "quiet s s1"
    by (rule quiet_notify [OF n [unfolded notifyHandlers_def]])
  have "quiet s1 (markReady (s1\<lparr>s_authenticated := True, s_ready := True\<rparr>))"
    by (rule quiet_same) (simp_all add: markReady_def)
  then have ok: "quiet s (sendReady env (send_control env fl j (markReady (s1\<lparr>s_authenticated := True, s_ready := True\<rparr>))))" for fl j
    using quiet_trans [OF quiet_trans [OF quiet_trans [OF s1] quiet_sends(1)] quiet_sendReady] by blast
  have "quiet s (s\<lparr>s_authFails := k\<rparr>)" for k
    by (rule quiet_same) simp_all
  then have fail: "quiet s (send_control env fl j (s\<lparr>s_authFails := k\<rparr>))" for fl j k
    by (rule quiet_trans [OF _ quiet_sends(1)])
  then have "quiet s ((send_control env fl j (s\<lparr>s_authFails := k\<rparr>))\<lparr>s_dc := DCClosed\<rparr>)" for fl j k
    by (simp add: quiet_def)
  then show ?thesis
    unfolding handleAuth_def Let_def pa_def [symmetric] n
    using ok s1 fail by (simp split: bool.split)
qed

lemma quiet_handleControl: "quiet s (handleControl env visit conn f s)"
  by (rule handleControl_cases)
    (simp_all add: quiet_handleConnect quiet_handleAuth applyWindowUpdate_def applyStreamReset_def
      resetMalformedControl_def quiet_same split: option.split prod.split)

lemma deliver_frame_out [simp]:
  "s_dc (fst (deliver_frame p f s)) = s_dc s" "s_out (fst (deliver_frame p f s)) = s_out s"
  "s_authFails (fst (deliver_frame p f s)) = s_authFails s"
  by (simp_all add: deliver_frame_def split: sum.split)

lemma handleStreamFrame_fields [simp]:
  "s_dc (handleStreamFrame env f s) = s_dc s" "s_out (handleStreamFrame env f s) = s_out s"
  "s_authFails (handleStreamFrame env f s) = s_authFails s"
proof -
  have "s_dc s' = s_dc s \<and> s_out s' = s_out s \<and> s_authFails s' = s_authFails s" if "s' = handleStreamFrame env f s" for s'
    unfolding that
  proof (rule handleStreamFrame_cases)
    fix ty h s2 b
    assume "deliver_frame (length (s_heap s)) f (s\<lparr>s_heap := s_heap s @
         [\<lparr>so_st = newStreamState (StreamID f) ty (s_version s \<ge> 4), so_handler = h, so_run = False\<rparr>],
         s_streams := (s_streams s)(StreamID f \<mapsto> length (s_heap s))\<rparr>) = (s2, b)" (is "deliver_frame ?p f ?s1 = _")
    then have "s_dc s2 = s_dc ?s1" "s_out s2 = s_out ?s1" "s_authFails s2 = s_authFails ?s1"
      using deliver_frame_out [of ?p f ?s1] by simp_all
    then show "(s_dc s2 = s_dc s \<and> s_out s2 = s_out s \<and> s_authFails s2 = s_authFails s) \<and>
        s_dc (s2\<lparr>s_heap := (s_heap s2)[?p := (obj s2 ?p)\<lparr>so_run := True\<rparr>]\<rparr>) = s_dc s \<and>
        s_out (s2\<lparr>s_heap := (s_heap s2)[?p := (obj s2 ?p)\<lparr>so_run := True\<rparr>]\<rparr>) = s_out s \<and>
        s_authFails (s2\<lparr>s_heap := (s_heap s2)[?p := (obj s2 ?p)\<lparr>so_run := True\<rparr>]\<rparr>) = s_authFails s"
      by simp
  qed (simp_all add: rejectStream_def)
  then show "s_dc (handleStreamFrame env f s) = s_dc s" "s_out (handleStreamFrame env f s) = s_out s"
    "s_authFails (handleStreamFrame env f s) = s_authFails s"
    by blast+
qed

lemma quiet_consume: "quiet s (fst (session_consume env p f s))"
proof -
  have "quiet s (set_strm p st s)" "quiet s (fst (sendWindowUpdate env p mx (set_strm p st s)))" for st mx
    using quiet_trans [OF quiet_same quiet_dcSend, of "set_strm p (st'::stream_state) (set_strm p st s)" s for st']
    by (simp_all add: quiet_same sendWindowUpdate_def Let_def)
  then show ?thesis
    by (simp add: session_consume_state Let_def split: option.split)
qed

lemma quiet_process: "processStreamFrame env p f res s = (s', e) \<Longrightarrow> quiet s s'"
proof -
  have c: "quiet s t" "quiet s (markReceiveClosed p t)"
    if "session_consume env p f u = (t, e)" "s_dc u = s_dc s" "s_out u = s_out s" for t e u
  proof -
    have "quiet s u"
      using that by (simp add: quiet_same)
    then show "quiet s t"
      using quiet_trans quiet_consume [of u env p f] that(1) by auto
    then show "quiet s (markReceiveClosed p t)"
      by (rule quiet_trans) (simp add: quiet_same)
  qed
  have "quiet s (markReceiveClosed p s)" "quiet s (set_strm p st s)" for st
    by (simp_all add: quiet_same)
  then show "processStreamFrame env p f res s = (s', e) \<Longrightarrow> quiet s s'"
    unfolding processStreamFrame_def Let_def
    by (auto split: sum.splits if_splits option.splits prod.splits dest: c(1) [rotated] c(2) intro: c)
qed

lemma quiet_worker_return: "quiet s (worker_return env p res s)"
proof -
  have "quiet s (hand_back p f t)" "quiet s (exit_worker p (failStream p c e b (hand_back p f t)))"
    if "processStreamFrame env p f res s = (t, x)" for f t x c e b
    using quiet_trans [OF quiet_process [OF that] quiet_same] by (simp_all add: hand_back_def)
  moreover have "quiet s (exit_worker p (hand_back p f s))" for f
    by (simp add: quiet_same hand_back_def)
  ultimately show ?thesis
    by (auto simp: worker_return_def Let_def split: option.split prod.split bool.split)
qed

lemma quiet_writer_step: "quiet s (writer_step n s)"
proof -
  have "quiet s (leave_writer n (failStream p c m b t))" "quiet s (leave_writer n (markSendClosed p t))"
    "quiet s (leave_writer n t)"
    if "dcSend w i fl pl s = (t, x)" for w i fl pl t x p c m b
    using quiet_trans [OF quiet_dcSend [of s w i fl pl] quiet_same] dcSend_eq [OF that] by (simp_all add: leave_writer_def)
  moreover have "quiet s (s\<lparr>s_writers := ws\<rparr>)" "quiet s (set_strm p st s\<lparr>s_writers := ws\<rparr>)" "quiet s (leave_writer n s)" for ws p st
    by (simp_all add: quiet_same leave_writer_def)
  ultimately show ?thesis
    by (auto simp: writer_step_def split: prod.split writer_stage.split reserve_result.split option.split)
qed

lemma quiet_task_step: "quiet s (task_step env n s)"
proof -
  have "quiet s (end_task n t)" if "quiet s t" for t
    using that by (simp add: quiet_def end_task_def)
  moreover have "quiet s (call c s)" "quiet s (call c (s\<lparr>s_tasks := ts\<rparr>))" "quiet s (s\<lparr>s_tasks := ts\<rparr>)" for c ts
    by (simp_all add: quiet_same)
  ultimately show ?thesis
    by (simp add: task_step_def Let_def split: task.split)
qed

lemma quiet_step: "no_dc e \<Longrightarrow> quiet s (sess_do env e s)"
proof (cases e)
  case (EvDispatch n visit conn)
  have "quiet t (routeMessage env visit conn data t)" for t data
    by (simp add: routeMessage_def quiet_handleControl quiet_same split: sum.split)
  then show ?thesis
    using EvDispatch quiet_trans [OF quiet_same [of "s\<lparr>s_inbox := drop_nth n (s_inbox s)\<rparr>" s]]
    by (simp add: sess_do_def dispatch_message_def)
next
  case (EvGoodbye r)
  then show ?thesis
    using quiet_trans [OF quiet_sends(4) quiet_same] by (simp add: sess_do_def Goodbye_def)
qed (simp_all add: sess_do_def no_dc_def receiveMessage_def worker_call_def quiet_worker_return quiet_writer_step quiet_task_step worker_take_def worker_done_def
  sendStreamFrame_def Let_def quiet_same split: option.split list.split sum.split)

lemma quiet_run: "list_all no_dc es \<Longrightarrow> quiet s (sess_run env es s)"
proof (induction es arbitrary: s)
  case (Cons e es)
  then show ?case
    using quiet_trans [OF quiet_step [of e s env] Cons.IH] by simp
qed simp

section \<open>Failed attempts\<close>

text \<open>Three wrong PINs and the channel is gone.\<close>

definition barred :: "session \<Rightarrow> bool" where
  "barred s \<longleftrightarrow> (s_authFails s \<ge> maxAuthFails \<longrightarrow> mute s)"

lemma barred_quiet: "quiet s s' \<Longrightarrow> s_authFails s' = s_authFails s \<Longrightarrow> barred s \<Longrightarrow> barred s'"
  using quiet_mute by (simp add: barred_def)

lemma handleAuth_barred:
  assumes "barred s"
  shows "barred (handleAuth env visit conn pin s)"
proof (cases "Required (s_pin s) \<and> \<not> Verify env (s_pin s) pin")
  case True
  then show ?thesis
    by (simp add: handleAuth_def Let_def barred_def mute_def)
next
  case False
  define pa where "pa = (if s_connectPath s = [] then ''/'' else s_connectPath s)"
  obtain s1 b where n: "notifyHandlers env visit conn pa s = (s1, b)"
    by (cases "notifyHandlers env visit conn pa s")
  have "s_authFails (handleAuth env visit conn pin s) = s_authFails s"
    using False notifyHandlers_fields(5) [OF n]
    unfolding handleAuth_def Let_def pa_def [symmetric] n by (simp split: bool.split)
  then show ?thesis
    using barred_quiet [OF quiet_handleAuth] assms by blast
qed

lemma handleConnect_authFails: "s_authFails (handleConnect env visit conn path v s) = s_authFails s"
proof -
  define pa where "pa = (if path = [] then ''/'' else path)"
  define s1 where "s1 = s\<lparr>s_connectPath := pa\<rparr>"
  define s2 where "s2 = (if s_version s1 = 0 then s1\<lparr>s_version := NegotiateSWSPVersion v\<rparr> else s1)"
  have s2: "s_authFails s2 = s_authFails s"
    by (simp add: s1_def s2_def)
  obtain s3 b where n: "notifyHandlers env visit conn pa s2 = (s3, b)"
    by (cases "notifyHandlers env visit conn pa s2")
  show ?thesis
    unfolding handleConnect_def Let_def pa_def [symmetric] s1_def [symmetric] s2_def [symmetric] n
    using notifyHandlers_fields(5) [OF n] s2 by (simp split: bool.split)
qed

lemma handleControl_barred: "barred s \<Longrightarrow> barred (handleControl env visit conn f s)"
proof (rule handleControl_cases)
  assume s: "barred s"
  show "barred (handleConnect env visit conn path v s)" for path v
    by (rule barred_quiet [OF quiet_handleConnect handleConnect_authFails s])
qed (simp_all add: handleAuth_barred, simp_all add: barred_def mute_def applyWindowUpdate_def applyStreamReset_def
  resetMalformedControl_def split: option.split prod.split)

text \<open>A writer's step calls no handler, counts no attempt and adds no stream.\<close>

lemma writer_step_fields [simp]:
  "s_authFails (writer_step n s) = s_authFails s \<and> s_calls (writer_step n s) = s_calls s \<and>
   length (s_heap (writer_step n s)) = length (s_heap s)"
proof (cases "n < length (s_writers s)")
  case True
  obtain p f g where w: "s_writers s ! n = (p, f, g)"
    by (cases "s_writers s ! n")
  obtain t e where d: "dcSend (Some p) (StreamID f) (Flags f) (Payload f) s = (t, e)"
    by fastforce
  have "s_authFails t = s_authFails s" "s_calls t = s_calls s" "length (s_heap t) = length (s_heap s)"
    using dcSend_eq [OF d] by simp_all
  then show ?thesis
    using True w d by (cases g) (simp_all add: writer_step_def leave_writer_def split: reserve_result.split option.split)
qed (simp add: writer_step_def)

lemma other_authFails: "(\<And>n v c. e \<noteq> EvDispatch n v c) \<Longrightarrow> s_authFails (sess_do env e s) = s_authFails s"
proof -
  assume e: "\<And>n v c. e \<noteq> EvDispatch n v c"
  have w: "s_authFails (worker_return env p res s) = s_authFails s" for p res
  proof -
    have "s_authFails t = s_authFails s" if "processStreamFrame env p f res s = (t, x)" for f t x
      using processStreamFrame_fields(5) [of env p f res s] that by simp
    then show ?thesis
      by (auto simp: worker_return_def Let_def hand_back_def split: option.split prod.split bool.split)
  qed
  have t: "s_authFails (task_step env n s) = s_authFails s" for n
    by (simp add: task_step_def Let_def end_task_def split: task.split)
  show ?thesis
  proof (cases e)
    case (EvDispatch n v c)
    then show ?thesis using e by blast
  qed (simp_all add: sess_do_def w t receiveMessage_def worker_call_def worker_take_def worker_done_def sendStreamFrame_def Goodbye_def Let_def
        split: option.split list.split sum.split)
qed

lemma barred_step: "barred s \<Longrightarrow> no_dc e \<Longrightarrow> barred (sess_do env e s)"
proof (cases "\<exists>n v c. e = EvDispatch n v c")
  case True
  then obtain n v c where e: "e = EvDispatch n v c"
    by blast
  assume s: "barred s"
  have "barred (handleStreamFrame env f t)" if "barred t" for f t
    by (rule barred_quiet [OF quiet_same _ that]) simp_all
  then have "barred (routeMessage env v c data t)" if "barred t" for data t
    using that handleControl_barred by (simp add: routeMessage_def split: sum.split)
  moreover have "barred (s\<lparr>s_inbox := xs\<rparr>)" for xs
    by (rule barred_quiet [OF quiet_same _ s]) simp_all
  ultimately show ?thesis
    using s by (simp add: e sess_do_def dispatch_message_def)
next
  case False
  assume "barred s" "no_dc e"
  then show ?thesis
    using barred_quiet [OF quiet_step other_authFails] False by blast
qed

lemma barred_run: "barred s \<Longrightarrow> list_all no_dc es \<Longrightarrow> barred (sess_run env es s)"
  by (induction es arbitrary: s) (simp_all add: barred_step)

section \<open>After the end of a session\<close>

text \<open>
  The callbacks of a session: those on a stream, those that release resources, and those of the
  connection as a whole.
\<close>

definition on_stream :: "hcall \<Rightarrow> bool" where
  "on_stream c = (case c of OnSYN _ _ _ \<Rightarrow> True | OnDAT _ _ \<Rightarrow> True | OnFIN _ _ \<Rightarrow> True | OnFragment _ _ _ \<Rightarrow> True | _ \<Rightarrow> False)"

definition teardown :: "hcall \<Rightarrow> bool" where
  "teardown c = (case c of OnReset _ _ _ \<Rightarrow> True | VideoStart \<Rightarrow> True | _ \<Rightarrow> False)"

definition stream_calls :: "session \<Rightarrow> hcall list" where
  "stream_calls s = filter on_stream (s_calls s)"

definition conn_calls :: "session \<Rightarrow> hcall list" where
  "conn_calls s = filter (\<lambda>c. \<not> on_stream c \<and> \<not> teardown c) (s_calls s)"

definition due_calls :: "session \<Rightarrow> hcall list" where
  "due_calls s = map snd (s_due s)"

lemma all_closed:
  assumes "sess_inv s" "s_closed s" "p < length (s_heap s)"
  shows "st_closed (strm s p)"
  using open_is_live [OF assms(1,3)] assms(1,2) by (auto simp: sess_inv_def)

text \<open>Only stream callbacks wait in \<open>s_due\<close>.\<close>

definition due_ok :: "session \<Rightarrow> bool" where
  "due_ok s \<longleftrightarrow> list_all on_stream (due_calls s)"

lemma callback_on_stream: "callback p f so = Inr c \<Longrightarrow> on_stream c"
  by (auto simp: callback_def on_stream_def split: if_splits)

lemma due_ok_step: "due_ok s \<Longrightarrow> due_ok (sess_do env e s)"
proof (cases e)
  case (EvTake p)
  assume "due_ok s"
  then show ?thesis
    using EvTake callback_on_stream
    by (auto simp: sess_do_def worker_take_def due_ok_def due_calls_def Let_def split: option.split list.split sum.split)
next
  case (EvCall n)
  assume "due_ok s"
  then show ?thesis
    using EvCall list_all_drop_nth [of on_stream "map snd (s_due s)" n]
    by (simp add: sess_do_def worker_call_def due_ok_def due_calls_def drop_nth_def take_map drop_map)
qed (simp_all add: sess_do_def receiveMessage_def dispatch_message_def worker_done_def sendStreamFrame_def Goodbye_def due_ok_def
  due_calls_def split: option.split)

lemma due_ok_run: "due_ok s \<Longrightarrow> due_ok (sess_run env es s)"
  by (induction es arbitrary: s) (simp_all add: due_ok_step)

lemma due_ok_New: "due_ok (NewSession dc a access video hs)"
  by (simp add: due_ok_def due_calls_def NewSession_def)

text \<open>
  In a closed session a callback that was due may still be made, once; no other callback on a stream
  is, no stream is created, and without a message in the inbox nothing happens to the connection.
\<close>

definition closed_from :: "session \<Rightarrow> session \<Rightarrow> bool" where
  "closed_from s s' \<longleftrightarrow>
     length (s_heap s') = length (s_heap s) \<and>
     mset (stream_calls s') + mset (due_calls s') = mset (stream_calls s) + mset (due_calls s) \<and>
     (s_inbox s = [] \<longrightarrow> s_inbox s' = [] \<and> conn_calls s' = conn_calls s)"

lemma closed_from_trans: "closed_from s t \<Longrightarrow> closed_from t u \<Longrightarrow> closed_from s u"
  by (auto simp: closed_from_def)

lemma closed_from_same:
  assumes "s_calls s' = s_calls s" "s_due s' = s_due s" "s_inbox s' = s_inbox s" "length (s_heap s') = length (s_heap s)"
  shows "closed_from s s'"
  using assms by (simp add: closed_from_def stream_calls_def conn_calls_def due_calls_def)

lemma notify_stream_calls: "notify env conn path hs s = (s', ok) \<Longrightarrow> stream_calls s' = stream_calls s"
proof (induction hs arbitrary: s)
  case (Cons h hs)
  have "stream_calls (call (OnConnect h path) s) = stream_calls s"
    by (simp add: stream_calls_def on_stream_def)
  moreover have "stream_calls (sendControlError env e t) = stream_calls t" for e t
    by (simp add: stream_calls_def)
  ultimately show ?case
    using Cons by (fastforce simp: Let_def split: option.splits)
qed simp

lemma connect_stream_calls: "stream_calls (handleConnect env visit conn path v s) = stream_calls s"
proof -
  define pa where "pa = (if path = [] then ''/'' else path)"
  define s1 where "s1 = s\<lparr>s_connectPath := pa\<rparr>"
  define s2 where "s2 = (if s_version s1 = 0 then s1\<lparr>s_version := NegotiateSWSPVersion v\<rparr> else s1)"
  have s2: "stream_calls s2 = stream_calls s"
    by (simp add: s1_def s2_def stream_calls_def)
  obtain s3 b where n: "notifyHandlers env visit conn pa s2 = (s3, b)"
    by (cases "notifyHandlers env visit conn pa s2")
  show ?thesis
    unfolding handleConnect_def Let_def pa_def [symmetric] s1_def [symmetric] s2_def [symmetric] n
    using notify_stream_calls [OF n [unfolded notifyHandlers_def]] s2
    by (simp add: stream_calls_def on_stream_def split: bool.split)
qed

lemma auth_stream_calls: "stream_calls (handleAuth env visit conn pin s) = stream_calls s"
proof -
  define pa where "pa = (if s_connectPath s = [] then ''/'' else s_connectPath s)"
  obtain s1 b where n: "notifyHandlers env visit conn pa s = (s1, b)"
    by (cases "notifyHandlers env visit conn pa s")
  show ?thesis
    unfolding handleAuth_def Let_def pa_def [symmetric] n
    using notify_stream_calls [OF n [unfolded notifyHandlers_def]]
    by (simp add: stream_calls_def on_stream_def split: bool.split)
qed

lemma connect_heap: "s_heap (handleConnect env visit conn path v s) = s_heap s"
proof -
  define pa where "pa = (if path = [] then ''/'' else path)"
  define s1 where "s1 = s\<lparr>s_connectPath := pa\<rparr>"
  define s2 where "s2 = (if s_version s1 = 0 then s1\<lparr>s_version := NegotiateSWSPVersion v\<rparr> else s1)"
  have s2: "s_heap s2 = s_heap s"
    by (simp add: s1_def s2_def)
  obtain s3 b where n: "notifyHandlers env visit conn pa s2 = (s3, b)"
    by (cases "notifyHandlers env visit conn pa s2")
  show ?thesis
    unfolding handleConnect_def Let_def pa_def [symmetric] s1_def [symmetric] s2_def [symmetric] n
    using notifyHandlers_fields(8) [OF n] s2 by (simp split: bool.split)
qed

lemma auth_heap: "s_heap (handleAuth env visit conn pin s) = s_heap s"
proof -
  define pa where "pa = (if s_connectPath s = [] then ''/'' else s_connectPath s)"
  obtain s1 b where n: "notifyHandlers env visit conn pa s = (s1, b)"
    by (cases "notifyHandlers env visit conn pa s")
  show ?thesis
    unfolding handleAuth_def Let_def pa_def [symmetric] n
    using notifyHandlers_fields(8) [OF n] by (simp split: bool.split)
qed

lemma control_closed:
  "stream_calls (handleControl env visit conn f s) = stream_calls s \<and>
   length (s_heap (handleControl env visit conn f s)) = length (s_heap s)"
  by (rule handleControl_cases)
    (simp_all add: connect_stream_calls [unfolded stream_calls_def] auth_stream_calls [unfolded stream_calls_def] connect_heap
      auth_heap applyWindowUpdate_def applyStreamReset_def
      resetMalformedControl_def stream_calls_def on_stream_def split: option.split prod.split)

lemma route_closed:
  assumes "s_closed s" "s_streams s = Map.empty"
  shows "stream_calls (routeMessage env visit conn data s) = stream_calls s \<and>
    length (s_heap (routeMessage env visit conn data s)) = length (s_heap s)"
  using assms control_closed
  by (simp add: routeMessage_def handleStreamFrame_def rejectStream_def stream_calls_def Let_def split: sum.split option.split)

lemma mset_drop_nth: "n < length xs \<Longrightarrow> mset xs = add_mset (xs ! n) (mset (drop_nth n xs))"
  using arg_cong [OF id_take_nth_drop [of n xs], of mset] by (simp add: drop_nth_def)

lemma sess_closed_step:
  assumes "sess_inv s" "s_closed s" "due_ok s"
  shows "closed_from s (sess_do env e s)"
proof (cases e)
  case (EvMessage data)
  then show ?thesis
    using assms(2) by (simp add: sess_do_def receiveMessage_def closed_from_same)
next
  case (EvDispatch n visit conn)
  show ?thesis
  proof (cases "n < length (s_inbox s)")
    case True
    have "s_streams s = Map.empty"
      using assms(1,2) by (simp add: sess_inv_def)
    then show ?thesis
      using True EvDispatch route_closed [of "s\<lparr>s_inbox := drop_nth n (s_inbox s)\<rparr>"] assms(2)
      by (auto simp: sess_do_def dispatch_message_def closed_from_def due_calls_def stream_calls_def)
  qed (simp add: EvDispatch sess_do_def dispatch_message_def closed_from_same)
next
  case (EvTake p)
  then show ?thesis
    using all_closed [OF assms(1,2), of p]
    by (auto simp: sess_do_def worker_take_def closed_from_def stream_calls_def conn_calls_def due_calls_def Let_def
        split: option.split list.split)
next
  case (EvCall n)
  show ?thesis
  proof (cases "n < length (s_due s)")
    case True
    have c: "on_stream (snd (s_due s ! n))"
      using assms(3) True by (simp add: due_ok_def due_calls_def list_all_length)
    then have "conn_calls (sess_do env e s) = conn_calls s"
      using True EvCall by (simp add: sess_do_def worker_call_def conn_calls_def)
    then show ?thesis
      using True EvCall c mset_drop_nth [OF True]
      by (simp add: sess_do_def worker_call_def closed_from_def stream_calls_def due_calls_def)
  qed (simp add: EvCall sess_do_def worker_call_def closed_from_same)
next
  case (EvReturn p res)
  have "s_calls t = s_calls s \<and> length (s_heap t) = length (s_heap s)" if "processStreamFrame env p f res s = (t, x)" for f t x
    using processStreamFrame_fields(9,10) [of env p f res s] that by simp
  then have "s_calls (worker_return env p res s) = s_calls s \<and> length (s_heap (worker_return env p res s)) = length (s_heap s)"
    by (auto simp: worker_return_def hand_back_def Let_def split: option.split prod.split bool.split)
  then show ?thesis
    using EvReturn by (simp add: sess_do_def closed_from_same)
next
  case (EvWriter n)
  then show ?thesis
    by (simp add: sess_do_def closed_from_same)
next
  case (EvTask n)
  have "\<not> on_stream c \<and> teardown c" if "c = OnReset p x y \<or> c = VideoStart" for c p x y
    using that by (auto simp: on_stream_def teardown_def)
  then show ?thesis
    using EvTask
    by (simp add: sess_do_def task_step_def closed_from_def stream_calls_def conn_calls_def due_calls_def Let_def end_task_def
        split: task.split)
qed (use assms in \<open>simp_all add: sess_do_def worker_done_def sendStreamFrame_def Goodbye_def closed_from_same split: option.split\<close>)

lemma closed_run:
  assumes "sess_inv s" "s_closed s" "due_ok s"
  shows "closed_from s (sess_run env es s)"
  using assms
proof (induction es arbitrary: s)
  case (Cons e es)
  have "s_closed (sess_do env e s)"
    using sess_do_evolves [of s env e] Cons.prems by (simp add: evolves_def)
  then show ?case
    using closed_from_trans [OF sess_closed_step [OF Cons.prems, of env e] Cons.IH [OF sess_do_inv [OF Cons.prems(1)]]]
      due_ok_step [OF Cons.prems(3)] by simp
qed (simp add: closed_from_same)

end
