(* ===== verification/Session_Order.thy ===== *)
theory Session_Order
  imports Session_Quiet
begin

text \<open>
  The order of frames on the wire: once the reset of a stream is sent, no frame of that stream
  follows it, although writers, the worker and the goroutine that sends the reset run side by side.
\<close>

section \<open>A reset is the last word of its stream\<close>

definition written_by :: "nat \<Rightarrow> session \<Rightarrow> frame list" where
  "written_by p s = map snd (filter (\<lambda>(w, f). w = Some p) (s_out s))"

text \<open>A closed stream for which no writer has credit left to use.\<close>

definition has_credit :: "nat \<Rightarrow> session \<Rightarrow> bool" where
  "has_credit p s = list_ex (\<lambda>(q, f, g). q = p \<and> g = HasCredit) (s_writers s)"

definition silenced :: "nat \<Rightarrow> session \<Rightarrow> bool" where
  "silenced p s \<longleftrightarrow> p < length (s_heap s) \<and> st_closed (strm s p) \<and> \<not> has_credit p s"

text \<open>A step that writes nothing for \<open>p\<close> and leaves it silenced if it was.\<close>

definition hushed :: "nat \<Rightarrow> session \<Rightarrow> session \<Rightarrow> bool" where
  "hushed p s s' \<longleftrightarrow> written_by p s' = written_by p s \<and> (silenced p s \<longrightarrow> silenced p s')"

lemma hushed_refl [simp]: "hushed p s s"
  by (simp add: hushed_def)

lemma hushed_trans: "hushed p s t \<Longrightarrow> hushed p t u \<Longrightarrow> hushed p s u"
  by (simp add: hushed_def)

lemma hushed_heap:
  assumes "s_out s' = s_out s" "s_writers s' = s_writers s" "length (s_heap s) \<le> length (s_heap s')"
    "p < length (s_heap s) \<Longrightarrow> st_closed (strm s p) \<Longrightarrow> st_closed (strm s' p)"
  shows "hushed p s s'"
  using assms by (auto simp: hushed_def written_by_def silenced_def has_credit_def)

lemma written_dcSend: "w \<noteq> Some p \<Longrightarrow> written_by p (fst (dcSend w i fl pl s)) = written_by p s"
  by (simp add: written_by_def dcSend_def)

lemma hushed_out: "same_but_out s s' \<Longrightarrow> written_by p s' = written_by p s \<Longrightarrow> hushed p s s'"
  by (simp add: hushed_def silenced_def has_credit_def same_but_out_fields)

lemma hushed_dcSend: "w \<noteq> Some p \<Longrightarrow> hushed p s (fst (dcSend w i fl pl s))"
  by (simp add: hushed_out written_dcSend)

lemma hushed_sends [simp]:
  "hushed p s (send_control env fl j s)" "hushed p s (sendReset env i c m s)" "hushed p s (sendControlError env m s)"
  by (simp_all add: hushed_dcSend send_control_def sendReset_def sendControlError_def)

lemma hushed_sendStreamError [simp]: "hushed p s (sendStreamError env i m s)"
  unfolding sendStreamError_def Let_def
  by (rule hushed_trans [OF hushed_trans [OF hushed_dcSend hushed_dcSend] hushed_dcSend]) simp_all

lemma hushed_set_strm: "st_closed (strm s q) \<longrightarrow> st_closed st \<Longrightarrow> hushed p s (set_strm q st s)"
  by (rule hushed_heap) auto

lemma hushed_stop_at: "hushed p s (stop_at q s)"
  by (rule hushed_heap) (auto simp: stop_at_def)

lemma hushed_failStream: "hushed p s (failStream q c m b s)"
  using hushed_trans [OF hushed_stop_at [of p s q] hushed_heap, of "spawn t (stop_at q s)" for t] by (simp add: failStream_alt hushed_stop_at)

lemma hushed_finishState: "hushed p s (finishState q s)"
  using hushed_set_strm by (simp add: finishState_alt hushed_stop_at)

lemma hushed_marks: "hushed p s (markReceiveClosed q s)" "hushed p s (markSendClosed q s)"
  using hushed_trans [OF hushed_set_strm hushed_finishState, of s q "(strm s q)\<lparr>st_receiveFIN := True\<rparr>" p]
    hushed_trans [OF hushed_set_strm hushed_finishState, of s q "(strm s q)\<lparr>st_sendFIN := True\<rparr>" p]
  by (simp_all add: markReceiveClosed_def markSendClosed_def Let_def hushed_set_strm)

lemma hushed_call [simp]: "hushed p s (call c s)"
  by (rule hushed_heap) simp_all

lemma hushed_spawn [simp]: "hushed p s (spawn t s)"
  by (rule hushed_heap) simp_all

lemma hushed_notify: "notify env conn path hs s = (s', ok) \<Longrightarrow> hushed p s s'"
proof (induction hs arbitrary: s)
  case (Cons h hs)
  show ?case
  proof (cases "conn h path")
    case None
    then show ?thesis
      using Cons.prems hushed_trans [OF hushed_call [of p s "OnConnect h path"] Cons.IH] by (simp add: Let_def)
  next
    case (Some e)
    then show ?thesis
      using Cons.prems hushed_trans [OF hushed_call [of p s "OnConnect h path"] hushed_sends(3)] by (auto simp: Let_def)
  qed
qed simp

lemma hushed_sendReady: "hushed p s (sendReady env s)"
proof -
  define s1 where "s1 = send_control env (FlagSYN OR FlagFIN)
    (JObj ((if s_access s = [] then [] else [(''access'', JStr (s_access s))])
      @ [(''caps'', JArr (map JStr (sort (map fst (s_handlers s))))), (''negotiated_version'', JNum (s_version s)),
         (''routing'', JStr ''target-prefix''), (''server_version'', JNum SWSPVersion), (''type'', JStr ''ready'')])) s"
  have "hushed p s s1"
    unfolding s1_def by (rule hushed_sends(1))
  moreover have "hushed p s1 (spawn TVideo (s1\<lparr>s_videoStarted := True\<rparr>))"
    by (rule hushed_heap) simp_all
  ultimately show ?thesis
    unfolding sendReady_def Let_def s1_def [symmetric] using hushed_trans by presburger
qed

lemma hushed_handleConnect: "hushed p s (handleConnect env visit conn path v s)"
proof -
  define pa where "pa = (if path = [] then ''/'' else path)"
  define s1 where "s1 = s\<lparr>s_connectPath := pa\<rparr>"
  define s2 where "s2 = (if s_version s1 = 0 then s1\<lparr>s_version := NegotiateSWSPVersion v\<rparr> else s1)"
  have s2: "hushed p s s2"
    by (rule hushed_heap) (simp_all add: s1_def s2_def)
  obtain s3 b where n: "notifyHandlers env visit conn pa s2 = (s3, b)"
    by (cases "notifyHandlers env visit conn pa s2")
  have s3: "hushed p s s3"
    by (rule hushed_trans [OF s2 hushed_notify [OF n [unfolded notifyHandlers_def]]])
  moreover have "hushed p s3 (markReady (s3\<lparr>s_authenticated := True, s_ready := True\<rparr>))"
    by (rule hushed_heap) (simp_all add: markReady_def)
  ultimately show ?thesis
    unfolding handleConnect_def Let_def pa_def [symmetric] s1_def [symmetric] s2_def [symmetric] n
    using hushed_trans [OF s2 hushed_sends(1)] hushed_trans [OF hushed_trans [OF s3] hushed_sendReady]
    by (simp split: bool.split)
qed

lemma hushed_handleAuth: "hushed p s (handleAuth env visit conn pin s)"
proof -
  define pa where "pa = (if s_connectPath s = [] then ''/'' else s_connectPath s)"
  obtain s1 b where n: "notifyHandlers env visit conn pa s = (s1, b)"
    by (cases "notifyHandlers env visit conn pa s")
  have s1: "hushed p s s1"
    by (rule hushed_notify [OF n [unfolded notifyHandlers_def]])
  have "hushed p s1 (markReady (s1\<lparr>s_authenticated := True, s_ready := True\<rparr>))"
    by (rule hushed_heap) (simp_all add: markReady_def)
  then have ok: "hushed p s (sendReady env (send_control env fl j (markReady (s1\<lparr>s_authenticated := True, s_ready := True\<rparr>))))" for fl j
    using hushed_trans [OF hushed_trans [OF hushed_trans [OF s1] hushed_sends(1)] hushed_sendReady] by blast
  have "hushed p s (s\<lparr>s_authFails := k\<rparr>)" "hushed p t (t\<lparr>s_dc := d\<rparr>)" for k t d
    by (rule hushed_heap; simp)+
  then have fail: "hushed p s (send_control env fl j (s\<lparr>s_authFails := k\<rparr>))"
    "hushed p s ((send_control env fl j (s\<lparr>s_authFails := k\<rparr>))\<lparr>s_dc := DCClosed\<rparr>)" for fl j k
    using hushed_trans [OF _ hushed_sends(1)] hushed_trans [OF hushed_trans [OF _ hushed_sends(1)]] by blast+
  show ?thesis
    unfolding handleAuth_def Let_def pa_def [symmetric] n
    using ok s1 fail by (simp split: bool.split)
qed

lemma hushed_update: "hushed p s (set_strm q (updateSendMax mx (strm s q)) s)"
  by (rule hushed_set_strm) (simp add: updateSendMax_def)

lemma hushed_handleControl: "hushed p s (handleControl env visit conn f s)"
  by (rule handleControl_cases)
    (simp_all add: hushed_handleConnect hushed_handleAuth applyWindowUpdate_def applyStreamReset_def
      resetMalformedControl_def hushed_failStream hushed_update split: option.split prod.split)

lemma hushed_deliver: "hushed p s (fst (deliver_frame q f s))"
proof (cases "enqueue f (strm s q)")
  case (Inr st)
  have "hushed p s (set_strm q st s)"
    using Inr by (intro hushed_set_strm) (auto simp: enqueue_def Let_def split: if_splits)
  then show ?thesis
    using Inr by (simp add: deliver_frame_def)
qed (simp add: deliver_frame_def hushed_failStream)

lemma hushed_run_flag: "hushed p s (s\<lparr>s_heap := (s_heap s)[q := (obj s q)\<lparr>so_run := b\<rparr>]\<rparr>)"
  by (cases "q = p") (auto intro!: hushed_heap)

lemma hushed_handleStreamFrame: "hushed p s (handleStreamFrame env f s)"
proof -
  have add: "hushed p s (s\<lparr>s_heap := s_heap s @ [x], s_streams := t\<rparr>)" for x t
    by (rule hushed_heap) (simp_all add: nth_append)
  have "hushed p s s2" "hushed p s (s2\<lparr>s_heap := (s_heap s2)[q := (obj s2 q)\<lparr>so_run := True\<rparr>]\<rparr>)"
    if "deliver_frame q f (s\<lparr>s_heap := s_heap s @ [x], s_streams := t\<rparr>) = (s2, b)" for q x t s2 b
  proof -
    show s2: "hushed p s s2"
      using hushed_trans [OF add [of t x] hushed_deliver [of p _ q f]] that by simp
    show "hushed p s (s2\<lparr>s_heap := (s_heap s2)[q := (obj s2 q)\<lparr>so_run := True\<rparr>]\<rparr>)"
      by (rule hushed_trans [OF s2 hushed_run_flag])
  qed
  then show ?thesis
    unfolding handleStreamFrame_def Let_def rejectStream_def
    by (auto simp: hushed_deliver hushed_failStream split: option.split prod.split bool.split)
qed

text \<open>Worker, writer and goroutine steps.\<close>

lemma hushed_work: "w \<noteq> WStop \<Longrightarrow> hushed p s (set_strm q (fst (work_step w (strm s q))) s)"
  using work_same [of w "strm s q" "fst (work_step w (strm s q))" "snd (work_step w (strm s q))"]
  by (intro hushed_set_strm) (simp add: same_stream_def)

lemma hushed_consume: "hushed p s (fst (session_consume env q f s))"
proof -
  have "hushed p t (fst (sendWindowUpdate env q mx t))" for t mx
  proof -
    have "hushed p t (set_strm q ((strm t q)\<lparr>st_advertised := x\<rparr>) t)" for x
      by (rule hushed_set_strm) simp
    then show ?thesis
      using hushed_trans [OF _ hushed_dcSend [of None p]] by (simp add: sendWindowUpdate_def Let_def)
  qed
  then show ?thesis
    using hushed_trans [OF hushed_work [of WConsume p s q]] hushed_work [of WConsume p s q]
    by (simp add: session_consume_state Let_def split: option.split)
qed

lemma hushed_process: "processStreamFrame env q f res s = (s', e) \<Longrightarrow> hushed p s s'"
proof -
  have c: "hushed p s t" "hushed p s (markReceiveClosed q t)" if "session_consume env q f u = (t, e)" "hushed p s u" for t e u
  proof -
    show "hushed p s t"
      using hushed_trans [OF that(2) hushed_consume [of p u env q f]] that(1) by simp
    then show "hushed p s (markReceiveClosed q t)"
      by (rule hushed_trans [OF _ hushed_marks(1)])
  qed
  have frag: "hushed p s (set_strm q ((strm s q)\<lparr>st_fragmenting := x\<rparr>) s)" for x
    by (rule hushed_set_strm) simp
  show "processStreamFrame env q f res s = (s', e) \<Longrightarrow> hushed p s s'"
    unfolding processStreamFrame_def Let_def
    using frag hushed_marks(1) [of p s q] c [OF _ hushed_refl] c [OF _ frag]
    by (auto split: sum.splits if_splits option.splits prod.splits)
qed

lemma hushed_hand_back: "hushed p s (hand_back q f s)"
  unfolding hand_back_def by (rule hushed_set_strm) (simp add: dequeued_def)

lemma hushed_exit: "hushed p s (exit_worker q s)"
  unfolding exit_worker_def by (rule hushed_run_flag)

lemma hushed_worker_return: "hushed p s (worker_return env q res s)"
proof -
  have "hushed p s (hand_back q f t)" "hushed p s (exit_worker q (failStream q c e b (hand_back q f t)))"
    if "processStreamFrame env q f res s = (t, x)" for f t x c e b
    using hushed_trans [OF hushed_process [OF that] hushed_hand_back]
      hushed_trans [OF hushed_trans [OF hushed_trans [OF hushed_process [OF that] hushed_hand_back] hushed_failStream] hushed_exit]
    by simp_all
  moreover have "hushed p s (exit_worker q (hand_back q f s))" for f
    by (rule hushed_trans [OF hushed_hand_back hushed_exit])
  ultimately show ?thesis
    by (auto simp: worker_return_def Let_def split: option.split prod.split bool.split)
qed

lemma silenced_writers:
  assumes "silenced p s" "set ws \<subseteq> set (s_writers s) \<union> {(q, f, g) | q f g. q \<noteq> p \<or> g \<noteq> HasCredit}"
  shows "silenced p (s\<lparr>s_writers := ws\<rparr>)"
  using assms by (auto simp: silenced_def has_credit_def list_ex_iff)

lemma set_drop_nth: "set (drop_nth n xs) \<subseteq> set xs"
  by (auto simp: drop_nth_def dest: in_set_takeD in_set_dropD)

lemma hushed_leave: "hushed p s (leave_writer n s)"
  using silenced_writers [of p s "drop_nth n (s_writers s)"] set_drop_nth [of n "s_writers s"]
  by (auto simp: hushed_def leave_writer_def written_by_def)

lemma hushed_writer_step:
  assumes "silenced p s"
  shows "silenced p (writer_step n s) \<and> written_by p (writer_step n s) = written_by p s"
proof (cases "n < length (s_writers s)")
  case True
  obtain q f g where w: "s_writers s ! n = (q, f, g)"
    by (cases "s_writers s ! n")
  have stage: "hushed p s (s\<lparr>s_writers := (s_writers s)[n := (q, f, g')]\<rparr>)" if "q \<noteq> p \<or> g' \<noteq> HasCredit" for g'
    using assms silenced_writers [OF assms, of "(s_writers s)[n := (q, f, g')]"] set_update_subset_insert [of "s_writers s" n "(q, f, g')"] that
    by (auto simp: hushed_def written_by_def)
  have "hushed p s (writer_step n s)"
  proof (cases g)
    case WaitLock
    then show ?thesis
      using True w stage [of HoldLock] hushed_leave by (simp add: writer_step_def)
  next
    case HoldLock
    have "hushed p s ((set_strm q st s)\<lparr>s_writers := (s_writers s)[n := (q, f, HasCredit)]\<rparr>)"
      if r: "reserveSend (FlowBytes f) (strm s q) = Reserved st" for st
    proof -
      have "\<not> st_closed (strm s q)"
        using r by (auto simp: reserveSend_def split: if_splits)
      then have qp: "q \<noteq> p"
        using assms by (auto simp: silenced_def)
      have "hushed p (s\<lparr>s_writers := (s_writers s)[n := (q, f, HasCredit)]\<rparr>)
          ((set_strm q st s)\<lparr>s_writers := (s_writers s)[n := (q, f, HasCredit)]\<rparr>)"
        by (rule hushed_heap) (use qp in \<open>simp_all add: set_strm_def\<close>)
      then show ?thesis
        using hushed_trans [OF stage] qp by blast
    qed
    then show ?thesis
      using True w HoldLock hushed_leave by (simp add: writer_step_def split: reserve_result.split)
  next
    case HasCredit
    then have "q \<noteq> p"
      using assms True w by (auto simp: silenced_def has_credit_def list_ex_length)
    then have "hushed p s t" if "dcSend (Some q) (StreamID f) (Flags f) (Payload f) s = (t, e)" for t e
      using hushed_dcSend [of "Some q" p] dcSend_eq [OF that] by simp
    then have "hushed p s (leave_writer n t)" "hushed p s (leave_writer n (failStream q c m b t))"
        "hushed p s (leave_writer n (markSendClosed q t))"
      if "dcSend (Some q) (StreamID f) (Flags f) (Payload f) s = (t, e)" for t e c m b
      using that hushed_trans [OF hushed_trans [OF _ hushed_failStream] hushed_leave]
        hushed_trans [OF hushed_trans [OF _ hushed_marks(2)] hushed_leave] hushed_trans [OF _ hushed_leave] by blast+
    then show ?thesis
      using True w HasCredit by (auto simp: writer_step_def split: option.split prod.split)
  qed
  then show ?thesis
    using assms by (simp add: hushed_def)
next
  case False
  then show ?thesis
    using assms by (simp add: writer_step_def)
qed

lemma hushed_task_step: "hushed p s (task_step env n s)"
proof -
  have "hushed p t (end_task n t)" for t
    by (rule hushed_heap) (simp_all add: end_task_def)
  then have e: "hushed p s (end_task n t)" if "hushed p s t" for t
    using hushed_trans [OF that] by blast
  have "hushed p s (s\<lparr>s_tasks := ts\<rparr>)" "hushed p s (call c (s\<lparr>s_tasks := ts\<rparr>))" for ts c
    by (rule hushed_heap; simp)+
  then show ?thesis
    using e hushed_dcSend [of None p s] by (simp add: task_step_def Let_def split: task.split)
qed

lemma hushed_close: "sess_inv s \<Longrightarrow> hushed p s (closeSession s)"
  by (rule hushed_heap) (auto simp: closeSession_alt)

lemma hushed_waiting: "hushed p s (s\<lparr>s_inbox := xs\<rparr>)" "hushed p s (s\<lparr>s_due := ys\<rparr>)"
  by (rule hushed_heap; simp)+

lemma silenced_step:
  assumes "sess_inv s" "silenced p s"
  shows "silenced p (sess_do env e s) \<and> written_by p (sess_do env e s) = written_by p s"
proof -
  have "silenced p (sess_do env e s) \<and> written_by p (sess_do env e s) = written_by p s" if "hushed p s (sess_do env e s)"
    using that assms(2) by (simp add: hushed_def)
  moreover have "hushed p s (sess_do env e s)" if "\<And>n. e \<noteq> EvWriter n"
  proof (cases e)
    case (EvDispatch n v c)
    have "hushed p t (routeMessage env v c d t)" for d t
      by (simp add: routeMessage_def hushed_handleControl hushed_handleStreamFrame split: sum.split)
    then show ?thesis
      using EvDispatch hushed_trans [OF hushed_waiting(1) [of p s "drop_nth n (s_inbox s)"]]
      by (simp add: sess_do_def dispatch_message_def)
  next
    case (EvCall n)
    then show ?thesis
      using hushed_trans [OF hushed_waiting(2) [of p s "drop_nth n (s_due s)"] hushed_call]
      by (simp add: sess_do_def worker_call_def)
  next
    case (EvTake q)
    then show ?thesis
      using hushed_work [of WTake p s q] hushed_trans [OF hushed_work [of WTake p s q] hushed_waiting(2)]
      by (simp add: sess_do_def worker_take_def Let_def split: option.split list.split sum.split)
  next
    case (EvWrite i fl pl)
    have "hushed p s (s\<lparr>s_writers := s_writers s @ [(q, f, WaitLock)]\<rparr>)" for q f
      by (auto simp: hushed_def written_by_def silenced_def has_credit_def)
    then show ?thesis
      using EvWrite by (simp add: sess_do_def sendStreamFrame_def split: option.split)
  next
    case (EvGoodbye r)
    then show ?thesis
      using hushed_trans [OF hushed_sends(3) hushed_close [OF sess_inv_out [OF assms(1) sendControlError_out]]]
      by (simp add: sess_do_def Goodbye_def)
  next
    case (EvDC d)
    have "hushed p s (s\<lparr>s_dc := d\<rparr>)"
      by (rule hushed_heap) simp_all
    then show ?thesis
      using EvDC by (simp add: sess_do_def)
  qed (use that assms in \<open>simp_all add: sess_do_def receiveMessage_def hushed_waiting hushed_worker_return hushed_task_step worker_done_def hushed_exit hushed_close\<close>)
  ultimately show ?thesis
    using hushed_writer_step [OF assms(2)] by (cases "\<exists>n. e = EvWriter n") (auto simp: sess_do_def)
qed

lemma silenced_run:
  assumes "sess_inv s" "silenced p s"
  shows "written_by p (sess_run env es s) = written_by p s"
  using assms
proof (induction es arbitrary: s)
  case (Cons e es)
  then show ?case
    using Cons.IH [OF sess_do_inv [OF Cons.prems(1)]] silenced_step [OF Cons.prems, of env e] by simp
qed simp

end
