(* ===== verification/Session_Props.thy ===== *)
theory Session_Props
  imports Session_Order
begin

text \<open>The properties of a session, over every interleaving of its peer, workers, writers and goroutines.\<close>

section \<open>Writers after the end\<close>

fun weight :: "writer_stage \<Rightarrow> nat" where
  "weight WaitLock = 3"
| "weight HoldLock = 2"
| "weight HasCredit = 1"

definition load :: "session \<Rightarrow> nat" where
  "load s = sum_list (map (\<lambda>(p, f, g). weight g) (s_writers s))"

text \<open>Every writer gets a turn, the newest first.\<close>

definition sweep :: "session \<Rightarrow> session" where
  "sweep s = fold writer_step (rev [0..<length (s_writers s)]) s"

lemma weight_pos [simp]: "0 < weight g"
  by (cases g) simp_all

lemma load_drop:
  assumes "n < length (s_writers s)"
  shows "sum_list (map (\<lambda>(p, f, g). weight g) (drop_nth n (s_writers s))) < load s"
proof -
  have "load s = sum_list (map (\<lambda>(p, f, g). weight g) (take n (s_writers s) @ s_writers s ! n # drop (Suc n) (s_writers s)))"
    unfolding load_def by (simp only: id_take_nth_drop [OF assms, symmetric])
  then show ?thesis
    by (cases "s_writers s ! n") (simp add: drop_nth_def)
qed

lemma load_update:
  assumes "n < length ws" "ws ! n = (p, f, WaitLock)"
  shows "sum_list (map (\<lambda>(p, f, g). weight g) (ws[n := (p, f, HoldLock)])) < sum_list (map (\<lambda>(p, f, g). weight g) ws)"
  using assms by (induction ws arbitrary: n) (auto split: nat.split simp: nth_Cons')

text \<open>In a closed session a writer is stuck only while another one holds its lock.\<close>

lemma closed_writer:
  assumes "sess_inv s" "s_closed s" "n < length (s_writers s)" "s_writers s ! n = (p, f, g)"
  shows "load (writer_step n s) < load s \<or> (g = WaitLock \<and> lock_held p s \<and> writer_step n s = s)"
proof -
  have p: "p < length (s_heap s)"
    using writers_ok_list(1) [OF assms(1)] assms(3,4) by (auto simp: list_all_length)
  have leave: "load (leave_writer n t) < load s" if "s_writers t = s_writers s" for t
    using load_drop [OF assms(3)] that by (simp add: load_def leave_writer_def)
  show ?thesis
  proof (cases g)
    case WaitLock
    then show ?thesis
      using assms(3,4) leave [of s] load_update [OF assms(3)] by (simp add: writer_step_def load_def)
  next
    case HoldLock
    have "reserveSend (FlowBytes f) (strm s p) = NotReserved"
      using all_closed [OF assms(1,2) p] by (simp add: reserveSend_def)
    then show ?thesis
      using assms(3,4) HoldLock leave [of s] by (simp add: writer_step_def)
  next
    case HasCredit
    have "s_writers t = s_writers s" if "dcSend w i fl pl s = (t, e)" for w i fl pl t e
      using dcSend_eq [OF that] by simp
    then show ?thesis
      using assms(3,4) HasCredit leave by (auto simp: writer_step_def split: prod.split option.split)
  qed
qed

lemma writer_step_closed: "s_closed s \<Longrightarrow> s_closed (writer_step n s)"
  using writer_step_evolves [of s n] by (simp add: evolves_def)

lemma sweep_down:
  assumes "sess_inv s" "s_closed s" "k \<le> length (s_writers s)"
  defines "t \<equiv> fold writer_step (rev [0..<k]) s"
  shows "load t \<le> load s \<and> sess_inv t \<and> s_closed t \<and>
    ((\<exists>m < k. snd (snd (s_writers s ! m)) \<noteq> WaitLock) \<or> (0 < k \<and> list_all (\<lambda>(p, f, g). g = WaitLock) (s_writers s)) \<longrightarrow>
      load t < load s)"
  using assms(1-3) unfolding t_def
proof (induction k arbitrary: s)
  case 0
  then show ?case by simp
next
  case (Suc k)
  let ?s = "writer_step k s"
  obtain p f g where w: "s_writers s ! k = (p, f, g)"
    by (cases "s_writers s ! k")
  have inv: "sess_inv ?s" "s_closed ?s"
    using Suc.prems by (simp_all add: writer_step_inv writer_step_closed)
  have fold: "fold writer_step (rev [0..<Suc k]) s = fold writer_step (rev [0..<k]) ?s"
    by simp
  from closed_writer [OF Suc.prems(1,2) _ w] Suc.prems(3)
  consider (move) "load ?s < load s" | (stuck) "g = WaitLock" "lock_held p s" "?s = s"
    by auto
  then show ?case
  proof cases
    case move
    have "length (s_writers ?s) \<ge> k"
      using Suc.prems(3) w
      by (auto simp: writer_step_def leave_writer_def drop_nth_def
          split: writer_stage.split reserve_result.split prod.split option.split dest!: dcSend_eq)
    then show ?thesis
      using Suc.IH [OF inv] move unfolding fold by linarith
  next
    case stuck
    have "\<not> list_all (\<lambda>(p, f, g). g = WaitLock) (s_writers s)"
      using stuck(2) by (fastforce simp: lock_held_def list_ex_iff list_all_iff)
    then show ?thesis
      using Suc.IH [OF Suc.prems(1,2)] Suc.prems(3) stuck w unfolding fold by (auto simp: less_Suc_eq)
  qed
qed

lemma sweep_progress:
  assumes "sess_inv s" "s_closed s"
  shows "sess_inv (sweep s) \<and> s_closed (sweep s) \<and> load (sweep s) \<le> load s - 1"
proof (cases "s_writers s = []")
  case False
  have "(\<exists>m < length (s_writers s). snd (snd (s_writers s ! m)) \<noteq> WaitLock) \<or> list_all (\<lambda>(p, f, g). g = WaitLock) (s_writers s)"
    by (auto simp: list_all_length split: prod.split)
  then show ?thesis
    using sweep_down [OF assms order.refl] False unfolding sweep_def by auto
qed (use assms in \<open>simp add: sweep_def load_def\<close>)

lemma load_zero: "load s = 0 \<Longrightarrow> s_writers s = []"
  using weight_pos by (cases "s_writers s") (auto simp: load_def simp flip: neq0_conv)

lemma sweeps_empty:
  assumes "sess_inv s" "s_closed s" "load s \<le> k"
  shows "s_writers ((sweep ^^ k) s) = []"
  using assms
proof (induction k arbitrary: s)
  case 0
  then show ?case by (simp add: load_zero)
next
  case (Suc k)
  have "load (sweep s) \<le> k"
    using sweep_progress [OF Suc.prems(1,2)] Suc.prems(3) by linarith
  then show ?case
    using Suc.IH [of "sweep s"] sweep_progress [OF Suc.prems(1,2)] by (simp add: funpow_swap1)
qed

lemma load_bound: "load s \<le> 3 * length (s_writers s)"
proof -
  have "weight g \<le> 3" for g
    by (cases g) simp_all
  then have "sum_list (map (\<lambda>(p, f, g). weight g) ws) \<le> 3 * length ws" for ws :: "(nat \<times> frame \<times> writer_stage) list"
    by (induction ws) (auto intro: add_mono)
  then show ?thesis
    by (simp add: load_def)
qed

section \<open>Isolation\<close>

definition others :: "u32 \<Rightarrow> session \<Rightarrow> stream_obj list" where
  "others i s = filter (\<lambda>so. st_id (so_st so) \<noteq> i) (s_heap s)"

lemma filter_update_out: "n < length xs \<Longrightarrow> \<not> P (xs ! n) \<Longrightarrow> \<not> P y \<Longrightarrow> filter P (xs[n := y]) = filter P xs"
  by (induction xs arbitrary: n) (auto split: nat.split simp: nth_Cons')

lemma others_set_strm:
  assumes "p < length (s_heap s)" "st_id (strm s p) = i" "st_id st = i"
  shows "others i (set_strm p st s) = others i s"
  using assms by (simp add: others_def set_strm_def filter_update_out)

lemma others_failStream:
  assumes "p < length (s_heap s)" "st_id (strm s p) = i"
  shows "others i (failStream p c m b s) = others i s"
    "(s_streams (failStream p c m b s))(i := None) = (s_streams s)(i := None)"
  using assms
  by (simp_all add: failStream_alt stop_at_def) (simp_all add: others_def set_strm_def filter_update_out)

lemma others_deliver:
  assumes "p < length (s_heap s)" "st_id (strm s p) = i"
  shows "others i (fst (deliver_frame p f s)) = others i s"
    "(s_streams (fst (deliver_frame p f s)))(i := None) = (s_streams s)(i := None)"
proof -
  have "st_id st = i" if "enqueue f (strm s p) = Inr st" for st
    using that assms(2) by (auto simp: enqueue_def Let_def split: if_splits)
  then show "others i (fst (deliver_frame p f s)) = others i s"
    "(s_streams (fst (deliver_frame p f s)))(i := None) = (s_streams s)(i := None)"
    using assms others_failStream [OF assms] others_set_strm [OF assms] by (simp_all add: deliver_frame_def split: sum.split)
qed

lemma deliver_keeps:
  assumes "p < length (s_heap s)"
  shows "st_id (strm (fst (deliver_frame p f s)) p) = st_id (strm s p)" "length (s_heap (fst (deliver_frame p f s))) = length (s_heap s)"
  using assms
  by (auto simp: deliver_frame_def failStream_alt enqueue_def Let_def split: sum.split if_splits)

lemma others_handleStreamFrame:
  assumes "sess_inv s"
  shows "others (StreamID f) (handleStreamFrame env f s) = others (StreamID f) s \<and>
    (s_streams (handleStreamFrame env f s))(StreamID f := None) = (s_streams s)(StreamID f := None)"
proof -
  let ?same = "\<lambda>t. others (StreamID f) t = others (StreamID f) s \<and> (s_streams t)(StreamID f := None) = (s_streams s)(StreamID f := None)"
  have reject: "?same (rejectStream i c m s)" for i c m
    by (simp add: rejectStream_def others_def)
  have live: "?same (fst (deliver_frame p f s))" "?same (failStream p c m b s)" if "s_streams s (StreamID f) = Some p" for p c m b
    using live_pointer [OF assms that] others_deliver others_failStream by auto
  have fresh: "?same s2" "?same (s2\<lparr>s_heap := (s_heap s2)[length (s_heap s) := (obj s2 (length (s_heap s)))\<lparr>so_run := True\<rparr>]\<rparr>)"
    if "deliver_frame (length (s_heap s)) f (s\<lparr>s_heap := s_heap s @
         [\<lparr>so_st = newStreamState (StreamID f) ty fl, so_handler = h, so_run = False\<rparr>],
         s_streams := (s_streams s)(StreamID f \<mapsto> length (s_heap s))\<rparr>) = (s2, b)" for s2 b ty h fl
  proof -
    define s1 where "s1 = s\<lparr>s_heap := s_heap s @ [\<lparr>so_st = newStreamState (StreamID f) ty fl, so_handler = h, so_run = False\<rparr>],
         s_streams := (s_streams s)(StreamID f \<mapsto> length (s_heap s))\<rparr>"
    have new: "length (s_heap s) < length (s_heap s1)" "st_id (strm s1 (length (s_heap s))) = StreamID f"
      by (simp_all add: s1_def newStreamState_def)
    have s1: "?same s1"
      by (simp add: s1_def others_def newStreamState_def)
    have s2: "s2 = fst (deliver_frame (length (s_heap s)) f s1)"
      using that by (simp add: s1_def)
    show same: "?same s2"
      using s1 others_deliver [OF new] unfolding s2 by simp
    have "length (s_heap s) < length (s_heap s2)" "st_id (strm s2 (length (s_heap s))) = StreamID f"
      using deliver_keeps [OF new(1)] new unfolding s2 by simp_all
    then show "?same (s2\<lparr>s_heap := (s_heap s2)[length (s_heap s) := (obj s2 (length (s_heap s)))\<lparr>so_run := True\<rparr>]\<rparr>)"
      using same by (simp add: others_def filter_update_out)
  qed
  show ?thesis
    by (rule handleStreamFrame_cases [where P = ?same]) (use reject live fresh in auto)
qed

section \<open>A concrete environment\<close>

text \<open>
  A peer's vocabulary for the witnesses: one-byte payloads stand for the JSON texts of a wrong and a right
  PIN, of a connect and of a stream request.
\<close>

definition wenv :: go_env where
  "wenv = \<lparr>js_parse = (\<lambda>bs. if bs = [1] then Some (JObj [(''type'', JStr ''auth''), (''pin'', JStr ''0000'')])
             else if bs = [2] then Some (JObj [(''type'', JStr ''auth''), (''pin'', JStr ''1234'')])
             else if bs = [3] then Some (JObj [(''type'', JStr ''connect''), (''version'', JNum 4)])
             else if bs = [4] then Some (JObj [(''type'', JStr ''tcp'')])
             else if bs = [5] then Some (JObj [(''type'', JStr ''video_answer''), (''sdp'', JStr ''v=0'')]) else None),
     js_print = (\<lambda>j. [0]), js_error = (\<lambda>bs. ''bad json''), sha256 = (\<lambda>bs. bs)\<rparr>"

definition whandler :: handler where
  "whandler = \<lparr>h_type = ''tcp'', h_fragments = False, h_resets = True\<rparr>"

definition wmsg :: "u32 \<Rightarrow> byte \<Rightarrow> sess_event list" where
  "wmsg i b = [EvMessage (BuildFrame i FlagSYN [b]), EvDispatch 0 [] (\<lambda>_ _. None)]"

lemma message_at_once:
  "s_inbox s = [] \<Longrightarrow> sess_run env [EvMessage data, EvDispatch 0 visit conn] s = HandleMessage env visit conn data s"
  by (cases s) (simp add: sess_do_def receiveMessage_def dispatch_message_def HandleMessage_def drop_nth_def)

lemma wmsg_do:
  "s_inbox s = [] \<Longrightarrow> sess_run wenv (wmsg i b) s =
     (if s_closed s then s
      else if i = 0 then handleControl wenv [] (\<lambda>_ _. None) \<lparr>StreamID = 0, Flags = FlagSYN, Payload = [b]\<rparr> s
      else handleStreamFrame wenv \<lparr>StreamID = i, Flags = FlagSYN, Payload = [b]\<rparr> s)"
  unfolding wmsg_def by (subst message_at_once) (simp_all add: HandleMessage_def routeMessage_def ParseFrame_BuildFrame)

lemma syn_flag [simp]:
  "IsSYN \<lparr>StreamID = i, Flags = FlagSYN, Payload = pl\<rparr>" "\<not> IsFIN \<lparr>StreamID = i, Flags = FlagSYN, Payload = pl\<rparr>"
  by (simp_all add: IsSYN_def IsFIN_def FlagSYN_def FlagFIN_def)

lemma wenv_simps [simp]:
  "js_parse wenv [1] = Some (JObj [(''type'', JStr ''auth''), (''pin'', JStr ''0000'')])"
  "js_parse wenv [2] = Some (JObj [(''type'', JStr ''auth''), (''pin'', JStr ''1234'')])"
  "js_parse wenv [3] = Some (JObj [(''type'', JStr ''connect''), (''version'', JNum 4)])"
  "js_parse wenv [4] = Some (JObj [(''type'', JStr ''tcp'')])"
  "js_parse wenv [5] = Some (JObj [(''type'', JStr ''video_answer''), (''sdp'', JStr ''v=0'')])"
  "js_print wenv j = [0]" "sha256 wenv bs = bs"
  by (simp_all add: wenv_def)

lemma wmsg_control:
  assumes "s_inbox s = []"
  shows "sess_run wenv (wmsg 0 1) s = (if s_closed s then s else handleAuth wenv [] (\<lambda>_ _. None) ''0000'' s)"
    "sess_run wenv (wmsg 0 2) s = (if s_closed s then s else handleAuth wenv [] (\<lambda>_ _. None) ''1234'' s)"
    "sess_run wenv (wmsg 0 3) s = (if s_closed s then s else handleConnect wenv [] (\<lambda>_ _. None) [] 4 s)"
    "sess_run wenv (wmsg 0 5) s = (if \<not> s_closed s \<and> s_video s then call (VideoAnswer ''v=0'') s else s)"
  using assms by (simp_all add: wmsg_do handleControl_def json_decode put_control_def zero_control_def)

lemma Verify_wenv: "Verify wenv (Some \<lparr>pinHash = bytes_of p, pin_set = b\<rparr>) x \<longleftrightarrow> p = x"
  by (simp add: Verify_def ConstantTimeCompare_eq bytes_of_inj)

lemma send_control_wenv:
  "send_control wenv fl j s =
     (if s_dc s = DCOpen then s\<lparr>s_out := s_out s @ [(None, \<lparr>StreamID = 0, Flags = fl, Payload = [0]\<rparr>)]\<rparr> else s)"
  by (cases "s_dc s") (simp_all add: send_control_def dcSend_def ValidateFramePayload_def MaxChunkSize_def)

lemmas eval_session = wmsg_control Verify_wenv send_control_wenv handleConnect_def handleAuth_def Let_def
  NewPIN_def Required_def NewSession_def maxAuthFails_def notifyHandlers_def visit_order_def markReady_def call_def sendReady_def

section \<open>Properties\<close>

text \<open>
  C3. The PIN gate: until a message on the control stream presents a PIN that verifies, a session that
  requires one is never ready, creates no stream, calls no handler, not even to resolve the target of
  the connect path, and never releases its unauthenticated slot. The only callbacks a peer can cause
  without the PIN are the two that relay its answers to the video helper.
\<close>

theorem pin_gate:
  assumes "Required a" "filter (proves_pin env a) es = []"
  shows "let s = sess_run env es (NewSession dc a access video hs) in
    \<not> s_ready s \<and> s_heap s = [] \<and> s_streams s = Map.empty \<and> filter (\<lambda>c. \<not> video_relay c) (s_calls s) = []"
proof -
  have "gated (sess_run env es (NewSession dc a access video hs))"
    using gated_run gated_New [OF assms(1)] assms(2) by (simp add: NewSession_def)
  then show ?thesis
    by (simp add: gated_def Let_def list_all_iff filter_empty_conv)
qed

theorem pin_gate_witness:
  "let s = sess_run wenv (wmsg 0 3 @ wmsg 0 1 @ wmsg 7 4) (NewSession DCOpen (NewPIN wenv ''1234'') [] False [whandler]) in
    \<not> s_ready s \<and> s_heap s = [] \<and> s_streams s = Map.empty \<and> filter (\<lambda>c. \<not> video_relay c) (s_calls s) = []"
proof (rule pin_gate)
  show "Required (NewPIN wenv ''1234'')"
    by code_simp
  show "filter (proves_pin wenv (NewPIN wenv ''1234'')) (wmsg 0 3 @ wmsg 0 1 @ wmsg 7 4) = []"
    by code_simp
qed

text \<open>
  C18. Brute force: once three wrong PINs were counted, and as long as the channel is only changed by
  the session itself, nothing more reaches the peer, whatever it sends: every further guess needs a
  new connection.
\<close>

theorem brute_force_bounded:
  assumes "list_all no_dc (es @ es')" "s_authFails (sess_run env es (NewSession dc a access video hs)) \<ge> 3"
  shows "s_out (sess_run env (es @ es') (NewSession dc a access video hs)) =
    s_out (sess_run env es (NewSession dc a access video hs))"
proof -
  let ?s = "sess_run env es (NewSession dc a access video hs)"
  have "barred (NewSession dc a access video hs)"
    by (simp add: barred_def NewSession_def maxAuthFails_def)
  then have "mute ?s"
    using barred_run assms by (auto simp: barred_def maxAuthFails_def)
  then show ?thesis
    using quiet_run [of es' ?s env] assms(1) by (simp add: quiet_def)
qed

theorem brute_force_bounded_witness:
  "s_out (sess_run wenv ((wmsg 0 3 @ wmsg 0 1 @ wmsg 0 1 @ wmsg 0 1) @ wmsg 0 2) (NewSession DCOpen (NewPIN wenv ''1234'') [] False [whandler])) =
    s_out (sess_run wenv (wmsg 0 3 @ wmsg 0 1 @ wmsg 0 1 @ wmsg 0 1) (NewSession DCOpen (NewPIN wenv ''1234'') [] False [whandler]))"
proof (rule brute_force_bounded)
  show "list_all no_dc ((wmsg 0 3 @ wmsg 0 1 @ wmsg 0 1 @ wmsg 0 1) @ wmsg 0 2)"
    by (simp add: no_dc_def wmsg_def)
  show "s_authFails (sess_run wenv (wmsg 0 3 @ wmsg 0 1 @ wmsg 0 1 @ wmsg 0 1) (NewSession DCOpen (NewPIN wenv ''1234'') [] False [whandler])) \<ge> 3"
    by (simp add: eval_session)
qed

text \<open>
  C5. The routing table is exact: at every point of every run a stream identifier is routed to an object
  exactly when that object is the open stream of that identifier, every stream object satisfies the
  accounts of its flow control, and no two writers hold the write lock of one stream.
\<close>

theorem routing_table_exact:
  "let s = sess_run env es (NewSession dc a access video hs) in
    (s_streams s i = Some p \<longleftrightarrow> p < length (s_heap s) \<and> st_id (strm s p) = i \<and> \<not> st_closed (strm s p)) \<and>
    list_all (\<lambda>so. st_inv (so_st so)) (s_heap s) \<and> length (holders p s) \<le> 1"
proof -
  have "sess_inv (sess_run env es (NewSession dc a access video hs))"
    by (rule sess_run_inv [OF sess_inv_New])
  then show ?thesis
    unfolding sess_inv_def table_ok_def heap_ok_def writers_ok_def Let_def by (simp add: list_all_length)
qed

text \<open>
  The transport semantics are fixed once: a version that was negotiated never changes, whatever
  connect messages follow, and a stream has flow control only in a session of version four or more.
\<close>

theorem version_locked:
  "let s = sess_run env es (NewSession dc a access video hs); s' = sess_run env es' s in
    s_version s \<in> {0, s_version s'} \<and>
    list_all (\<lambda>so. \<not> st_flow (so_st so)) (if s_version s' \<ge> 4 then [] else s_heap s')"
proof -
  let ?s = "sess_run env es (NewSession dc a access video hs)"
  let ?s' = "sess_run env es' ?s"
  have "heap_ok ?s'"
    using sess_run_inv [OF sess_run_inv [OF sess_inv_New]] by (simp add: sess_inv_def)
  moreover have "evolves ?s ?s'"
    by (rule sess_run_evolves)
  ultimately show ?thesis
    by (auto simp: Let_def heap_ok_def evolves_def list_all_length)
qed


text \<open>
  C4. A reset is the last word of its stream: once the goroutine of \<^verbatim>\<open>failStream\<close> has finished, having
  put its notification on the wire, no frame of any writer of that stream follows it, under every
  interleaving, a writer that had credit when the stream failed included.
\<close>

theorem reset_is_last:
  assumes "n < length (s_tasks (sess_run env es (NewSession dc a access video hs)))"
    "s_tasks (sess_run env es (NewSession dc a access video hs)) ! n = TNotify p code message notifyPeer"
    "length (s_tasks (task_step env n (sess_run env es (NewSession dc a access video hs)))) <
      length (s_tasks (sess_run env es (NewSession dc a access video hs)))"
  shows "written_by p (sess_run env es' (task_step env n (sess_run env es (NewSession dc a access video hs)))) =
    written_by p (sess_run env es (NewSession dc a access video hs))"
proof -
  let ?s = "sess_run env es (NewSession dc a access video hs)"
  have inv: "sess_inv ?s"
    by (rule sess_run_inv [OF sess_inv_New])
  then have "task_ok ?s (TNotify p code message notifyPeer)"
    using assms(1,2) by (auto simp: sess_inv_def list_all_length)
  moreover have "\<not> lock_held p ?s"
    using assms by (auto simp: task_step_def split: if_splits)
  ultimately have "silenced p ?s"
    by (auto simp: silenced_def task_ok_def has_credit_def lock_held_def list_ex_iff)
  then have "silenced p (task_step env n ?s)" "written_by p (task_step env n ?s) = written_by p ?s"
    using hushed_task_step [of p ?s env n] by (simp_all add: hushed_def)
  then show ?thesis
    using silenced_run [OF task_step_inv [OF inv]] by simp
qed

lemma wmsg_stream:
  "s_inbox s = [] \<Longrightarrow> sess_run wenv (wmsg 7 4) s = (if s_closed s then s else handleStreamFrame wenv \<lparr>StreamID = 7, Flags = FlagSYN, Payload = [4]\<rparr> s)"
  by (simp add: wmsg_do)

lemma event_do:
  "sess_do env (EvWrite i fl pl) s = fst (sendStreamFrame i fl pl s)" "sess_do env (EvWriter n) s = writer_step n s"
  "sess_do env (EvTask n) s = task_step env n s" "sess_do env (EvTake p) s = worker_take p s"
  by (simp_all add: sess_do_def)

lemmas eval_streams = eval_session wmsg_stream event_do whandler_def handleStreamFrame_def json_decode deliver_frame_def enqueue_def
  newStreamState_def swsp_consts failStream_def stopNow_def set_strm_def spawn_def FlowBytes_def sendStreamFrame_def
  ValidateFramePayload_def writer_step_def lock_held_def reserveSend_def task_step_def dcSend_def leave_writer_def drop_nth_def
  IsSYN_def IsFIN_def NegotiateSWSPVersion_def

definition wrun :: "sess_event list" where
  "wrun = wmsg 0 3 @ wmsg 7 4 @ [EvWrite 7 FlagDAT [9]] @ wmsg 7 4 @ [EvTask 0]"

theorem reset_is_last_witness:
  "written_by 0 (sess_run wenv [EvWriter 0, EvWriter 0] (task_step wenv 0 (sess_run wenv wrun (NewSession DCOpen None [] False [whandler])))) =
    written_by 0 (sess_run wenv wrun (NewSession DCOpen None [] False [whandler]))"
proof (rule reset_is_last)
  show "0 < length (s_tasks (sess_run wenv wrun (NewSession DCOpen None [] False [whandler])))"
    by (simp add: wrun_def eval_streams)
  show "s_tasks (sess_run wenv wrun (NewSession DCOpen None [] False [whandler])) ! 0 =
      TNotify 0 ''duplicate_syn'' ''duplicate SYN'' True"
    by (simp add: wrun_def eval_streams)
  show "length (s_tasks (task_step wenv 0 (sess_run wenv wrun (NewSession DCOpen None [] False [whandler])))) <
      length (s_tasks (sess_run wenv wrun (NewSession DCOpen None [] False [whandler])))"
    by (simp add: wrun_def eval_streams end_task_def sendReset_def)
qed

text \<open>A session closed while its worker is about to call: the call is still made.\<close>

definition dying :: session where
  "dying = sess_run wenv (wmsg 0 3 @ wmsg 7 4 @ [EvTake 0]) (NewSession DCOpen None [] False [whandler])"


text \<open>
  C19. Closing a session frees its writers: however many handlers wait for a lock or for credit, giving
  each writer a turn at most three times as often as there are writers lets every one of them return.
\<close>

theorem close_releases_writers:
  "let s = sess_run env es (NewSession dc a access video hs) in
    s_writers ((sweep ^^ (3 * length (s_writers s))) (closeSession s)) = []"
proof -
  let ?s = "sess_run env es (NewSession dc a access video hs)"
  have "sess_inv (closeSession ?s)"
    by (rule closeSession_inv [OF sess_run_inv [OF sess_inv_New]])
  then show ?thesis
    using sweeps_empty [of "closeSession ?s"] load_bound [of "closeSession ?s"] by (simp add: Let_def)
qed

text \<open>
  C20. Errors are local: whatever frame arrives for a stream, well formed or not, accepted, refused or
  failing the stream, the objects of all other streams and their routing are untouched.
\<close>

theorem violation_is_local:
  "let s = sess_run env es (NewSession dc a access video hs); s' = handleStreamFrame env f s in
    others (StreamID f) s' = others (StreamID f) s \<and>
    (s_streams s')(StreamID f := None) = (s_streams s)(StreamID f := None)"
  using others_handleStreamFrame [OF sess_run_inv [OF sess_inv_New]] by (simp add: Let_def)

section \<open>What the code does beyond its comments\<close>

text \<open>\<^verbatim>\<open>OnReady\<close> is documented to fire exactly once; every accepted connect fires it again.\<close>

lemma ready_fires_again:
  "filter (\<lambda>c. c = OnReady) (s_calls (sess_run wenv (wmsg 0 3 @ wmsg 0 3) (NewSession DCOpen None [] False [whandler]))) = [OnReady, OnReady]"
  by (simp add: eval_session whandler_def)

text \<open>A peer that has not given the PIN reaches the video helper.\<close>

lemma video_before_pin:
  "s_calls (sess_run wenv (wmsg 0 3 @ wmsg 0 5) (NewSession DCOpen (NewPIN wenv ''1234'') [] True [whandler])) = [VideoAnswer ''v=0'']"
  by (simp add: eval_session whandler_def)

text \<open>
  The PIN may be given before any connect message: the session is then ready with version zero, and the
  connect that follows changes the transport semantics while a stream is live.
\<close>

lemma version_set_under_live_stream:
  "let s = sess_run wenv (wmsg 0 2 @ wmsg 7 4 @ wmsg 0 3) (NewSession DCOpen (NewPIN wenv ''1234'') [] False [whandler]) in
    s_version s = 4 \<and> map (st_flow \<circ> so_st) (s_heap s) = [False] \<and> s_streams s 7 = Some 0"
  by (simp add: eval_streams)

end
