(* ===== verification/ClientHandshake.thy ===== *)
theory ClientHandshake
  imports Session_Laws Base64
begin

text \<open>
  \<^verbatim>\<open>internal/client/session.go\<close>, the connecting side before the session is established:
  \<^verbatim>\<open>recvControl\<close>, \<^verbatim>\<open>handshake\<close> and \<^verbatim>\<open>setNegotiatedVersion\<close>, with \<^verbatim>\<open>expectedNonceHash\<close> of
  \<^verbatim>\<open>peer.go\<close>. A wait for a control frame is given by the moments at which its two select statements look
  at the peer's channels: what lies in the message queue, whether the queue or the data channel is
  closed, the time, and which arm Go takes when several are ready. A handshake is a function of its
  waits; a wait that no moment ends is still waiting. The PIN prompt is an argument, \<open>None\<close> for a nil
  function.
\<close>

section \<open>The expected proof\<close>

definition expectedNonceHash :: "go_env \<Rightarrow> byte list \<Rightarrow> string" where
  "expectedNonceHash env nonce = EncodeToString StdEncoding (sha256 env nonce)"

section \<open>State\<close>

record client_state =
  cl_dc :: dc_state
  cl_closed :: bool
  cl_caps :: "string list"
  cl_access :: string
  cl_serverVersion :: int
  cl_version :: int
  cl_out :: "frame list"

datatype hs_error =
    ClosedDuringHandshake
  | NotVerified
  | HandshakeTimeout
  | BadFrame frame_error
  | ExpectedVerify
  | BadVerifyJson
  | WrongVerifyType string
  | DeviceNotProved
  | SendFailed
  | UnexpectedStream u32
  | UnsupportedServer int
  | InvalidNegotiated int
  | NoPrompt
  | PromptFailed string
  | TooManyPins
  | ListenerError string

datatype hs_result = HsReady | HsError hs_error | HsWaiting | HsPanic

section \<open>Waiting for a frame\<close>

record moment =
  mo_at :: int
  mo_msg :: "byte list option"
  mo_queueClosed :: bool
  mo_channelClosed :: bool
  mo_pick :: nat

datatype arm = ArmMessage | ArmClosed | ArmTimer

definition handshakeTimeout :: int where
  "handshakeTimeout = 30 * 10 ^ 9"

text \<open>The first select has only the message arm and a default; a receive from the closed queue is ready too.\<close>

definition message_ready :: "moment \<Rightarrow> bool" where
  "message_ready m \<longleftrightarrow> mo_msg m \<noteq> None \<or> mo_queueClosed m"

definition receive_message :: "moment \<Rightarrow> (hs_error, byte list) go_result" where
  "receive_message m = (case mo_msg m of Some b \<Rightarrow> Ok b | None \<Rightarrow> Err ClosedDuringHandshake)"

text \<open>The second select: its ready arms when the timer was started at \<open>start\<close>, and what each returns.\<close>

definition ready_arms :: "int \<Rightarrow> moment \<Rightarrow> arm list" where
  "ready_arms start m =
     (if message_ready m then [ArmMessage] else [])
     @ (if mo_channelClosed m then [ArmClosed] else [])
     @ (if mo_at m - start \<ge> handshakeTimeout then [ArmTimer] else [])"

definition run_arm :: "arm \<Rightarrow> moment \<Rightarrow> (hs_error, byte list) go_result" where
  "run_arm a m =
     (case a of
        ArmMessage \<Rightarrow> receive_message m
      | ArmClosed \<Rightarrow> Err NotVerified
      | ArmTimer \<Rightarrow> Err HandshakeTimeout)"

fun select_wait :: "int \<Rightarrow> moment list \<Rightarrow> (hs_error, byte list) go_result option" where
  "select_wait start [] = None"
| "select_wait start (m # ms) =
     (case ready_arms start m of
        [] \<Rightarrow> select_wait start ms
      | arms \<Rightarrow> Some (run_arm (arms ! (mo_pick m mod length arms)) m))"

definition recvControl :: "moment list \<Rightarrow> (hs_error, byte list) go_result option" where
  "recvControl ms =
     (case ms of
        [] \<Rightarrow> None
      | m # later \<Rightarrow> if message_ready m then Some (receive_message m) else select_wait (mo_at m) later)"

section \<open>Sending\<close>

definition sendRawFrame :: "u32 \<Rightarrow> u16 \<Rightarrow> byte list \<Rightarrow> client_state \<Rightarrow> client_state option" where
  "sendRawFrame streamID flags payload c =
     (if ValidateFramePayload payload \<noteq> Ok () \<or> cl_closed c \<or> cl_dc c \<noteq> DCOpen then None
      else Some (c\<lparr>cl_out := cl_out c @ [\<lparr>StreamID = streamID, Flags = flags, Payload = payload\<rparr>]\<rparr>))"

definition sendControlSYN :: "byte list \<Rightarrow> client_state \<Rightarrow> client_state option" where
  "sendControlSYN payload = sendRawFrame 0 FlagSYN payload"

definition connect_json :: "string \<Rightarrow> string list \<Rightarrow> json" where
  "connect_json path caps =
     JObj [(''caps'', JArr (map JStr caps)), (''path'', JStr path), (''type'', JStr ''connect''), (''version'', JNum SWSPVersion)]"

definition auth_json :: "string \<Rightarrow> json" where
  "auth_json pin = JObj [(''pin'', JStr pin), (''type'', JStr ''auth'')]"

section \<open>The version\<close>

definition setNegotiatedVersion :: "int \<Rightarrow> int \<Rightarrow> client_state \<Rightarrow> (hs_error, client_state) go_result" where
  "setNegotiatedVersion serverVersion0 negotiatedVersion c =
     (let serverVersion = (if serverVersion0 = 0 then 2 else serverVersion0);
          maxVersion = NegotiateSWSPVersion serverVersion
      in if maxVersion < 2 then Err (UnsupportedServer serverVersion)
         else if negotiatedVersion = 0
         then Ok (c\<lparr>cl_serverVersion := serverVersion, cl_version := maxVersion\<rparr>)
         else if negotiatedVersion < 2 \<or> negotiatedVersion > maxVersion then Err (InvalidNegotiated negotiatedVersion)
         else Ok (c\<lparr>cl_serverVersion := serverVersion, cl_version := negotiatedVersion\<rparr>))"

section \<open>Control messages\<close>

record hs_ctl =
  ct_type :: string
  ct_message :: string
  ct_success :: bool
  ct_caps :: "string list"
  ct_serverVersion :: int
  ct_version :: int
  ct_access :: string

definition zero_ctl :: hs_ctl where
  "zero_ctl = \<lparr>ct_type = [], ct_message = [], ct_success = False, ct_caps = [], ct_serverVersion = 0, ct_version = 0, ct_access = []\<rparr>"

text \<open>An element of the wrong type leaves an empty string in its place; the handshake ignores the error of the call.\<close>

definition as_strings :: "json \<Rightarrow> string list \<Rightarrow> string list option" where
  "as_strings v old =
     (case v of
        JArr js \<Rightarrow> Some (map (\<lambda>j. case j of JStr s \<Rightarrow> s | _ \<Rightarrow> []) js)
      | JNull \<Rightarrow> Some []
      | _ \<Rightarrow> None)"

definition put_ctl :: "string \<Rightarrow> json \<Rightarrow> hs_ctl \<Rightarrow> hs_ctl option" where
  "put_ctl k v m =
     (if k = ''type'' then map_option (\<lambda>x. m\<lparr>ct_type := x\<rparr>) (as_string v (ct_type m))
      else if k = ''message'' then map_option (\<lambda>x. m\<lparr>ct_message := x\<rparr>) (as_string v (ct_message m))
      else if k = ''success'' then map_option (\<lambda>x. m\<lparr>ct_success := x\<rparr>) (as_bool v (ct_success m))
      else if k = ''caps'' then map_option (\<lambda>x. m\<lparr>ct_caps := x\<rparr>) (as_strings v (ct_caps m))
      else if k = ''server_version'' then map_option (\<lambda>x. m\<lparr>ct_serverVersion := x\<rparr>) (as_int v (ct_serverVersion m))
      else if k = ''negotiated_version'' then map_option (\<lambda>x. m\<lparr>ct_version := x\<rparr>) (as_int v (ct_version m))
      else if k = ''access'' then map_option (\<lambda>x. m\<lparr>ct_access := x\<rparr>) (as_string v (ct_access m))
      else Some m)"

section \<open>The handshake\<close>

type_synonym prompt = "nat \<Rightarrow> string + string"

datatype hs_turn = HsGo nat client_state | HsStop hs_result client_state

definition ask_pin :: "go_env \<Rightarrow> prompt \<Rightarrow> nat \<Rightarrow> client_state \<Rightarrow> hs_turn" where
  "ask_pin env prompt retry c =
     (case prompt retry of
        Inl e \<Rightarrow> HsStop (HsError (PromptFailed e)) c
      | Inr pin \<Rightarrow>
          (case sendControlSYN (js_print env (auth_json pin)) c of
             None \<Rightarrow> HsStop (HsError SendFailed) c
           | Some c1 \<Rightarrow> HsGo (retry + 1) c1))"

text \<open>One turn of the loop, for what \<^verbatim>\<open>recvControl\<close> returned.\<close>

definition hs_turn :: "go_env \<Rightarrow> prompt option \<Rightarrow> nat \<Rightarrow> (hs_error, byte list) go_result \<Rightarrow> client_state \<Rightarrow> hs_turn" where
  "hs_turn env pinPrompt retry received c =
     (case received of
        Inl e \<Rightarrow> HsStop (HsError e) c
      | Inr msg \<Rightarrow>
          (case ParseFrame msg of
             Inl e \<Rightarrow> HsStop (HsError (BadFrame e)) c
           | Inr f \<Rightarrow>
               if StreamID f \<noteq> 0 then HsStop (HsError (UnexpectedStream (StreamID f))) c
               else if \<not> IsSYN f then HsGo retry c
               else
                 let ctl = fst (Unmarshal put_ctl zero_ctl (js_parse env (Payload f))) in
                 if ct_type ctl = ''ready'' then
                   (let c1 = c\<lparr>cl_caps := ct_caps ctl, cl_access := ct_access ctl\<rparr> in
                    case setNegotiatedVersion (ct_serverVersion ctl) (ct_version ctl) c1 of
                      Inl e \<Rightarrow> HsStop (HsError e) c1
                    | Inr c2 \<Rightarrow> HsStop HsReady c2)
                 else if ct_type ctl = ''auth_required'' then
                   (case pinPrompt of
                      None \<Rightarrow> HsStop (HsError NoPrompt) c
                    | Some prompt \<Rightarrow> ask_pin env prompt retry c)
                 else if ct_type ctl = ''auth_result'' then
                   (if ct_success ctl then HsGo retry c
                    else if retry \<ge> 3 then HsStop (HsError TooManyPins) c
                    else case pinPrompt of
                           None \<Rightarrow> HsStop HsPanic c
                         | Some prompt \<Rightarrow> ask_pin env prompt retry c)
                 else if ct_type ctl = ''error'' then HsStop (HsError (ListenerError (ct_message ctl))) c
                 else HsGo retry c))"

fun hs_loop :: "go_env \<Rightarrow> prompt option \<Rightarrow> nat \<Rightarrow> moment list list \<Rightarrow> client_state \<Rightarrow> hs_result \<times> client_state" where
  "hs_loop env pinPrompt retry [] c = (HsWaiting, c)"
| "hs_loop env pinPrompt retry (w # ws) c =
     (case recvControl w of
        None \<Rightarrow> (HsWaiting, c)
      | Some received \<Rightarrow>
          (case hs_turn env pinPrompt retry received c of
             HsStop r c1 \<Rightarrow> (r, c1)
           | HsGo retry1 c1 \<Rightarrow> hs_loop env pinPrompt retry1 ws c1))"

definition put_verify :: "string \<Rightarrow> json \<Rightarrow> string \<times> string \<Rightarrow> (string \<times> string) option" where
  "put_verify k v m =
     (case m of (t, h) \<Rightarrow>
      if k = ''type'' then map_option (\<lambda>x. (x, h)) (as_string v t)
      else if k = ''hash'' then map_option (\<lambda>x. (t, x)) (as_string v h)
      else Some m)"

definition verify_first :: "go_env \<Rightarrow> byte list \<Rightarrow> (hs_error, byte list) go_result \<Rightarrow> hs_error option" where
  "verify_first env nonce received =
     (case received of
        Inl e \<Rightarrow> Some e
      | Inr msg \<Rightarrow>
          (case ParseFrame msg of
             Inl e \<Rightarrow> Some (BadFrame e)
           | Inr f \<Rightarrow>
               if StreamID f \<noteq> 0 \<or> \<not> IsSYN f then Some ExpectedVerify
               else case Unmarshal put_verify ([], []) (js_parse env (Payload f)) of
                      ((ty, h), ok) \<Rightarrow>
                        if \<not> ok then Some BadVerifyJson
                        else if ty \<noteq> ''verify_nonce_hash'' then Some (WrongVerifyType ty)
                        else if h \<noteq> expectedNonceHash env nonce then Some DeviceNotProved
                        else None))"

definition handshake ::
  "go_env \<Rightarrow> byte list \<Rightarrow> string \<Rightarrow> string list \<Rightarrow> prompt option \<Rightarrow> moment list list \<Rightarrow> client_state \<Rightarrow> hs_result \<times> client_state" where
  "handshake env nonce path caps pinPrompt ws c =
     (case ws of
        [] \<Rightarrow> (HsWaiting, c)
      | w # ws' \<Rightarrow>
          (case recvControl w of
             None \<Rightarrow> (HsWaiting, c)
           | Some received \<Rightarrow>
               (case verify_first env nonce received of
                  Some e \<Rightarrow> (HsError e, c)
                | None \<Rightarrow>
                    (case sendControlSYN (js_print env (connect_json path caps)) c of
                       None \<Rightarrow> (HsError SendFailed, c)
                     | Some c1 \<Rightarrow> hs_loop env pinPrompt 0 ws' c1))))"

definition newClient :: client_state where
  "newClient = \<lparr>cl_dc = DCOpen, cl_closed = False, cl_caps = [], cl_access = [], cl_serverVersion = 0, cl_version = 0, cl_out = []\<rparr>"

section \<open>The outcome of a handshake\<close>

lemma setNegotiatedVersion_range:
  "setNegotiatedVersion sv nv c = Inr c' \<Longrightarrow>
     cl_version c' \<in> {2, 3, 4} \<and> cl_version c' \<le> NegotiateSWSPVersion (cl_serverVersion c') \<and> cl_out c' = cl_out c"
  by (auto simp: setNegotiatedVersion_def NegotiateSWSPVersion_def SWSPVersion_def Let_def split: if_splits)

definition stop_ok :: "hs_result \<Rightarrow> client_state \<Rightarrow> bool" where
  "stop_ok r c \<longleftrightarrow>
     r \<noteq> HsWaiting \<and>
     (r = HsReady \<longrightarrow> cl_version c \<in> {2, 3, 4} \<and> cl_version c \<le> NegotiateSWSPVersion (cl_serverVersion c))"

lemma hs_turn_stop: "hs_turn env pp r w c = HsStop res c' \<Longrightarrow> stop_ok res c'"
  unfolding hs_turn_def Let_def
  by (auto simp: stop_ok_def ask_pin_def dest: setNegotiatedVersion_range
      split: sum.splits if_splits option.splits)

lemma hs_loop_stop:
  "hs_loop env pp r ws c = (res, c') \<Longrightarrow> res \<noteq> HsWaiting \<Longrightarrow> stop_ok res c'"
proof (induction ws arbitrary: r c)
  case (Cons w ws)
  then show ?case
    by (cases "recvControl w"; cases "hs_turn env pp r (the (recvControl w)) c") (auto dest: hs_turn_stop)
qed simp

section \<open>The end of a wait\<close>

text \<open>A wait in which nothing arrives, and one that lasts until the timer fires.\<close>

definition silent :: "moment list \<Rightarrow> bool" where
  "silent ms \<longleftrightarrow> list_all (\<lambda>m. mo_msg m = None) ms"

definition expires :: "moment list \<Rightarrow> bool" where
  "expires ms \<longleftrightarrow> (\<exists>m later. ms = m # later \<and> later \<noteq> [] \<and> mo_at (last later) \<ge> mo_at m + handshakeTimeout)"

lemma select_arm: "ready_arms start m \<noteq> [] \<Longrightarrow> ready_arms start m ! (k mod length (ready_arms start m)) \<in> set (ready_arms start m)"
  by simp

lemma select_returns:
  "later \<noteq> [] \<Longrightarrow> mo_at (last later) \<ge> start + handshakeTimeout \<Longrightarrow> \<exists>out. select_wait start later = Some out"
proof (induction later)
  case (Cons m ms)
  then show ?case
    by (cases "ready_arms start m") (auto simp: ready_arms_def split: if_splits)
qed simp

lemma select_silent:
  "silent ms \<Longrightarrow> select_wait start ms = Some out \<Longrightarrow>
     \<exists>e \<in> {ClosedDuringHandshake, NotVerified, HandshakeTimeout}. out = Inl e"
proof (induction ms)
  case (Cons m ms)
  show ?case
  proof (cases "ready_arms start m")
    case Nil
    then show ?thesis using Cons by (simp add: silent_def)
  next
    case (Cons a as)
    then show ?thesis
      using Cons.prems by (auto simp: silent_def run_arm_def receive_message_def split: arm.splits)
  qed
qed simp

lemma recvControl_returns: "expires w \<Longrightarrow> \<exists>out. recvControl w = Some out"
  using select_returns by (auto simp: expires_def recvControl_def)

lemma recvControl_silent:
  "silent w \<Longrightarrow> recvControl w = Some out \<Longrightarrow> \<exists>e \<in> {ClosedDuringHandshake, NotVerified, HandshakeTimeout}. out = Inl e"
  using select_silent by (auto simp: recvControl_def silent_def receive_message_def split: list.splits if_splits)

lemma silent_end:
  assumes "silent w" "expires w"
  obtains e where "e \<in> {ClosedDuringHandshake, NotVerified, HandshakeTimeout}" "recvControl w = Some (Inl e)"
  using recvControl_returns [OF assms(2)] recvControl_silent [OF assms(1)] by auto

lemma hs_loop_ends:
  assumes "recvControl w = Some (Inl e)" "list_all (\<lambda>w. recvControl w \<noteq> None) ws" "hs_loop env pp r ws c = (HsWaiting, c')"
  shows "hs_loop env pp r (ws @ [w]) c = (HsError e, c')"
  using assms(2,3)
proof (induction ws arbitrary: r c)
  case Nil
  then show ?case using assms(1) by (simp add: hs_turn_def)
next
  case (Cons x ws)
  then obtain out where "recvControl x = Some out" by auto
  then show ?case
    using Cons by (cases "hs_turn env pp r out c") (auto dest: hs_turn_stop simp: stop_ok_def)
qed

text \<open>What the client says on the wire is a connect message and then one auth message per turn.\<close>

lemma ask_pin_out:
  "ask_pin env prompt r c = HsGo r' c' \<Longrightarrow>
     r' = r + 1 \<and> (\<exists>pin. prompt r = Inr pin \<and> cl_out c' = cl_out c @ [\<lparr>StreamID = 0, Flags = FlagSYN, Payload = js_print env (auth_json pin)\<rparr>])"
  by (auto simp: ask_pin_def sendControlSYN_def sendRawFrame_def split: sum.splits option.splits if_splits)

section \<open>A client and a listener in conversation\<close>

definition sound :: "go_env \<Rightarrow> json \<Rightarrow> bool" where
  "sound env j \<longleftrightarrow> js_parse env (js_print env j) = Some j \<and> length (js_print env j) \<le> MaxChunkSize"

definition frame_bytes :: "frame \<Rightarrow> byte list" where
  "frame_bytes f = BuildFrame (StreamID f) (Flags f) (Payload f)"

text \<open>
  The frames of each side reach the other in order: the client reads the listener's next frame, takes
  one turn of its loop, and what it sent is handled by the listener before the client reads again. A
  client with nothing to read learns that the channel was closed, if it was.
\<close>

definition feed :: "go_env \<Rightarrow> frame list \<Rightarrow> session \<Rightarrow> session" where
  "feed env fs s = fold (\<lambda>f. HandleMessage env [] (\<lambda>_ _. None) (frame_bytes f)) fs s"

fun talk :: "go_env \<Rightarrow> prompt option \<Rightarrow> nat \<Rightarrow> nat \<Rightarrow> nat \<Rightarrow> client_state \<Rightarrow> session \<Rightarrow> hs_result \<times> client_state \<times> session" where
  "talk env pp 0 k retry c s = (HsWaiting, c, s)"
| "talk env pp (Suc n) k retry c s =
     (if k < length (s_out s) then
        (case hs_turn env pp retry (Ok (frame_bytes (snd (s_out s ! k)))) c of
           HsStop r c1 \<Rightarrow> (r, c1, s)
         | HsGo retry1 c1 \<Rightarrow> talk env pp n (Suc k) retry1 c1 (feed env (drop (length (cl_out c)) (cl_out c1)) s))
      else if s_dc s = DCClosed then
        (case hs_turn env pp retry (Err NotVerified) c of HsStop r c1 \<Rightarrow> (r, c1, s) | HsGo _ c1 \<Rightarrow> (HsWaiting, c1, s))
      else (HsWaiting, c, s))"

definition meet :: "go_env \<Rightarrow> string \<Rightarrow> string list \<Rightarrow> prompt option \<Rightarrow> nat \<Rightarrow> session \<Rightarrow> hs_result \<times> client_state \<times> session" where
  "meet env path caps pp n s =
     (case sendControlSYN (js_print env (connect_json path caps)) newClient of
        None \<Rightarrow> (HsError SendFailed, newClient, s)
      | Some c \<Rightarrow> talk env pp n 0 0 c (feed env (cl_out c) s))"

text \<open>
  The waits of that conversation, as the client's \<^verbatim>\<open>recvControl\<close> sees them: the listener's frame lies in
  the queue, or the channel is found closed. On them the handshake of the client takes the same turns.
\<close>

definition buffered :: "byte list \<Rightarrow> moment list" where
  "buffered m = [\<lparr>mo_at = 0, mo_msg = Some m, mo_queueClosed = False, mo_channelClosed = False, mo_pick = 0\<rparr>]"

definition gone :: "moment list" where
  "gone = (let m = \<lparr>mo_at = 0, mo_msg = None, mo_queueClosed = False, mo_channelClosed = True, mo_pick = 0\<rparr> in [m, m])"

lemma recvControl_buffered [simp]: "recvControl (buffered m) = Some (Ok m)"
  by (simp add: recvControl_def buffered_def message_ready_def receive_message_def)

lemma recvControl_gone [simp]: "recvControl gone = Some (Err NotVerified)"
  by (simp add: recvControl_def gone_def message_ready_def ready_arms_def run_arm_def handshakeTimeout_def Let_def)

fun talk_waits :: "go_env \<Rightarrow> prompt option \<Rightarrow> nat \<Rightarrow> nat \<Rightarrow> nat \<Rightarrow> client_state \<Rightarrow> session \<Rightarrow> moment list list" where
  "talk_waits env pp 0 k retry c s = []"
| "talk_waits env pp (Suc n) k retry c s =
     (if k < length (s_out s) then
        (case hs_turn env pp retry (Ok (frame_bytes (snd (s_out s ! k)))) c of
           HsStop r c1 \<Rightarrow> [buffered (frame_bytes (snd (s_out s ! k)))]
         | HsGo retry1 c1 \<Rightarrow>
             buffered (frame_bytes (snd (s_out s ! k)))
             # talk_waits env pp n (Suc k) retry1 c1 (feed env (drop (length (cl_out c)) (cl_out c1)) s))
      else if s_dc s = DCClosed then [gone] else [])"

lemma talk_is_loop: "talk env pp n k retry c s = (r, c', s') \<Longrightarrow> hs_loop env pp retry (talk_waits env pp n k retry c s) c = (r, c')"
proof (induction n arbitrary: k retry c s)
  case (Suc n)
  have closed: "hs_turn env pp retry (Err NotVerified) c = HsStop (HsError NotVerified) c"
    by (simp add: hs_turn_def)
  show ?case
  proof (cases "k < length (s_out s)")
    case True
    then show ?thesis
      using Suc.prems Suc.IH by (cases "hs_turn env pp retry (Ok (frame_bytes (snd (s_out s ! k)))) c") auto
  next
    case False
    then show ?thesis
      using Suc.prems closed by (auto split: if_splits)
  qed
qed simp

definition meet_waits :: "go_env \<Rightarrow> string \<Rightarrow> string list \<Rightarrow> prompt option \<Rightarrow> nat \<Rightarrow> session \<Rightarrow> moment list list" where
  "meet_waits env path caps pp n s =
     (case sendControlSYN (js_print env (connect_json path caps)) newClient of
        None \<Rightarrow> []
      | Some c \<Rightarrow> talk_waits env pp n 0 0 c (feed env (cl_out c) s))"

lemma meet_is_handshake:
  assumes "verify_first env nonce (Ok first) = None" "meet env path caps pp n s = (r, c, s')"
  shows "handshake env nonce path caps pp (buffered first # meet_waits env path caps pp n s) newClient = (r, c)"
  using assms talk_is_loop
  by (auto simp: handshake_def meet_def meet_waits_def split: option.splits)

lemma frame_round:
  "length pl \<le> MaxChunkSize \<Longrightarrow> ParseFrame (BuildFrame i fl pl) = Ok \<lparr>StreamID = i, Flags = fl, Payload = pl\<rparr>"
  by (simp add: ParseFrame_BuildFrame MaxChunkSize_def)

lemma syn_flags [simp]:
  "IsSYN \<lparr>StreamID = i, Flags = FlagSYN, Payload = pl\<rparr>" "IsSYN \<lparr>StreamID = i, Flags = FlagSYN OR FlagFIN, Payload = pl\<rparr>"
  by (simp_all add: IsSYN_def FlagSYN_def FlagFIN_def)

definition control_frame :: "go_env \<Rightarrow> u16 \<Rightarrow> json \<Rightarrow> frame" where
  "control_frame env fl j = \<lparr>StreamID = 0, Flags = fl, Payload = js_print env j\<rparr>"

definition ready_json :: "session \<Rightarrow> json" where
  "ready_json s =
     JObj ((if s_access s = [] then [] else [(''access'', JStr (s_access s))])
       @ [(''caps'', JArr (map JStr (sort (map fst (s_handlers s))))), (''negotiated_version'', JNum (s_version s)),
          (''routing'', JStr ''target-prefix''), (''server_version'', JNum SWSPVersion), (''type'', JStr ''ready'')])"

lemma send_control_open:
  "sound env j \<Longrightarrow> s_dc s = DCOpen \<Longrightarrow> send_control env fl j s = s\<lparr>s_out := s_out s @ [(None, control_frame env fl j)]\<rparr>"
  by (simp add: send_control_def dcSend_def sound_def ValidateFramePayload_def control_frame_def)

lemma sendReady_open:
  "sound env (ready_json s) \<Longrightarrow> s_dc s = DCOpen \<Longrightarrow> \<not> s_video s \<Longrightarrow>
     sendReady env s = s\<lparr>s_out := s_out s @ [(None, control_frame env (FlagSYN OR FlagFIN) (ready_json s))]\<rparr>"
  unfolding sendReady_def Let_def ready_json_def [symmetric] by (simp add: send_control_open)

text \<open>The listener's reading of the two messages a client sends.\<close>

lemma listener_connect:
  assumes "sound env (connect_json path caps)" "\<not> s_closed s"
  shows "feed env [control_frame env FlagSYN (connect_json path caps)] s = handleConnect env [] (\<lambda>_ _. None) path 4 s"
  using assms
  by (simp add: feed_def frame_bytes_def control_frame_def HandleMessage_def routeMessage_def sound_def frame_round handleControl_def
      connect_json_def json_decode put_control_def zero_control_def SWSPVersion_def)

lemma listener_auth:
  assumes "sound env (auth_json pin)" "\<not> s_closed s"
  shows "feed env [control_frame env FlagSYN (auth_json pin)] s = handleAuth env [] (\<lambda>_ _. None) pin s"
  using assms
  by (simp add: feed_def frame_bytes_def control_frame_def HandleMessage_def routeMessage_def sound_def frame_round handleControl_def
      auth_json_def json_decode put_control_def zero_control_def)

text \<open>The client's reading of the messages a listener sends.\<close>

lemma client_reads:
  assumes "sound env j" "fl \<in> {FlagSYN, FlagSYN OR FlagFIN}"
  shows "hs_turn env pp r (Ok (frame_bytes (control_frame env fl j))) c =
    (let ctl = fst (Unmarshal put_ctl zero_ctl (Some j)) in
     if ct_type ctl = ''ready'' then
       (let c1 = c\<lparr>cl_caps := ct_caps ctl, cl_access := ct_access ctl\<rparr> in
        case setNegotiatedVersion (ct_serverVersion ctl) (ct_version ctl) c1 of
          Inl e \<Rightarrow> HsStop (HsError e) c1
        | Inr c2 \<Rightarrow> HsStop HsReady c2)
     else if ct_type ctl = ''auth_required'' then
       (case pp of None \<Rightarrow> HsStop (HsError NoPrompt) c | Some prompt \<Rightarrow> ask_pin env prompt r c)
     else if ct_type ctl = ''auth_result'' then
       (if ct_success ctl then HsGo r c
        else if r \<ge> 3 then HsStop (HsError TooManyPins) c
        else case pp of None \<Rightarrow> HsStop HsPanic c | Some prompt \<Rightarrow> ask_pin env prompt r c)
     else if ct_type ctl = ''error'' then HsStop (HsError (ListenerError (ct_message ctl))) c
     else HsGo r c)"
proof -
  have "IsSYN (control_frame env fl j)"
    using assms(2) by (auto simp: control_frame_def)
  then show ?thesis
    using assms(1)
    by (simp add: hs_turn_def frame_bytes_def control_frame_def frame_round sound_def Let_def)
qed

lemma as_strings_caps: "as_strings (JArr (map JStr xs)) old = Some xs"
  by (simp add: as_strings_def o_def)

lemma decode_each:
  "fst (Unmarshal put_ctl zero_ctl (Some (JObj [(''type'', JStr ''auth_required'')]))) = zero_ctl\<lparr>ct_type := ''auth_required''\<rparr>"
  "fst (Unmarshal put_ctl zero_ctl (Some (auth_result b))) = zero_ctl\<lparr>ct_type := ''auth_result'', ct_success := b\<rparr>"
  "fst (Unmarshal put_ctl zero_ctl (Some (ready_json s))) =
     zero_ctl\<lparr>ct_type := ''ready'', ct_caps := sort (map fst (s_handlers s)), ct_serverVersion := 4,
       ct_version := (if s_version s \<in> {- (2 ^ 63)..<2 ^ 63} then s_version s else 0), ct_access := s_access s\<rparr>"
proof -
  show "fst (Unmarshal put_ctl zero_ctl (Some (JObj [(''type'', JStr ''auth_required'')]))) = zero_ctl\<lparr>ct_type := ''auth_required''\<rparr>"
    by (simp add: json_decode put_ctl_def zero_ctl_def)
  show "fst (Unmarshal put_ctl zero_ctl (Some (auth_result b))) = zero_ctl\<lparr>ct_type := ''auth_result'', ct_success := b\<rparr>"
    by (simp add: json_decode put_ctl_def zero_ctl_def auth_result_def)
  have put: "put_ctl ''access'' (JStr x) m = Some (m\<lparr>ct_access := x\<rparr>)" "put_ctl ''caps'' (JArr (map JStr xs)) m = Some (m\<lparr>ct_caps := xs\<rparr>)"
    "put_ctl ''negotiated_version'' (JNum n) m = (if - (2 ^ 63) \<le> n \<and> n < 2 ^ 63 then Some (m\<lparr>ct_version := n\<rparr>) else None)"
    "put_ctl ''routing'' j m = Some m" "put_ctl ''server_version'' (JNum SWSPVersion) m = Some (m\<lparr>ct_serverVersion := 4\<rparr>)"
    "put_ctl ''type'' (JStr x) m = Some (m\<lparr>ct_type := x\<rparr>)" for x xs n j m
    by (simp_all add: put_ctl_def as_string_def as_int_def as_strings_caps SWSPVersion_def)
  show "fst (Unmarshal put_ctl zero_ctl (Some (ready_json s))) =
     zero_ctl\<lparr>ct_type := ''ready'', ct_caps := sort (map fst (s_handlers s)), ct_serverVersion := 4,
       ct_version := (if s_version s \<in> {- (2 ^ 63)..<2 ^ 63} then s_version s else 0), ct_access := s_access s\<rparr>"
    by (simp add: Unmarshal_def ready_json_def put zero_ctl_def)
qed

lemma zero_fields:
  "ct_caps zero_ctl = []" "ct_success zero_ctl = False" "ct_serverVersion zero_ctl = 0" "ct_version zero_ctl = 0"
  "ct_access zero_ctl = []"
  by (simp_all add: zero_ctl_def)

lemma client_reads_each:
  "sound env (JObj [(''type'', JStr ''auth_required'')]) \<Longrightarrow>
     hs_turn env (Some prompt) r (Ok (frame_bytes (control_frame env FlagSYN (JObj [(''type'', JStr ''auth_required'')])))) c =
     ask_pin env prompt r c"
  "sound env (auth_result b) \<Longrightarrow>
     hs_turn env (Some prompt) r (Ok (frame_bytes (control_frame env (FlagSYN OR FlagFIN) (auth_result b)))) c =
     (if b then HsGo r c else if r \<ge> 3 then HsStop (HsError TooManyPins) c else ask_pin env prompt r c)"
  "sound env (ready_json s) \<Longrightarrow> s_version s = 4 \<Longrightarrow>
     hs_turn env pp r (Ok (frame_bytes (control_frame env (FlagSYN OR FlagFIN) (ready_json s)))) c =
     HsStop HsReady (c\<lparr>cl_caps := sort (map fst (s_handlers s)), cl_access := s_access s, cl_serverVersion := 4, cl_version := 4\<rparr>)"
  by (simp_all add: client_reads Let_def decode_each zero_fields setNegotiatedVersion_def NegotiateSWSPVersion_def SWSPVersion_def)

lemma ask_pin_open:
  assumes "prompt r = Inr pin" "sound env (auth_json pin)" "cl_dc c = DCOpen" "\<not> cl_closed c"
  shows "ask_pin env prompt r c = HsGo (Suc r) (c\<lparr>cl_out := cl_out c @ [control_frame env FlagSYN (auth_json pin)]\<rparr>)"
  using assms
  by (simp add: ask_pin_def sendControlSYN_def sendRawFrame_def sound_def ValidateFramePayload_def control_frame_def)

end
