(* ===== verification/Fingerprint.thy ===== *)
theory Fingerprint
  imports BB_Prelude
begin

text \<open>
  \<^verbatim>\<open>internal/sdp/fingerprint.go\<close>: the DTLS fingerprint of a session description. The regular
  expression is written out as a matcher of one line: the literal is matched without regard to case,
  which lets the letter s of the hash name also be the long s of Unicode, then white space, the
  longest run of hexadecimal digits and colons, and white space to the end.
\<close>

section \<open>Definitions\<close>

text \<open>The pieces of the expression: a literal, the letter s, \<^verbatim>\<open>\s\<close> and \<^verbatim>\<open>[0-9A-F:]\<close>.\<close>

fun match_fold :: "string \<Rightarrow> string \<Rightarrow> string option" where
  "match_fold [] s = Some s"
| "match_fold (p # ps) [] = None"
| "match_fold (p # ps) (c # s) = (if ascii_lower c = ascii_lower p then match_fold ps s else None)"

definition match_s :: "string \<Rightarrow> string option" where
  "match_s s = (if prefix [CHR 0xC5, CHR 0xBF] s then Some (drop 2 s) else match_fold ''s'' s)"

definition re_space :: "char \<Rightarrow> bool" where
  "re_space c \<longleftrightarrow> c \<in> {CHR 0x09, CHR 0x0A, CHR 0x0C, CHR 0x0D, CHR 0x20}"

definition fp_char :: "char \<Rightarrow> bool" where
  "fp_char c \<longleftrightarrow> is_digit c \<or> c = CHR '':'' \<or> (let n = of_char (ascii_upper c) :: nat in 65 \<le> n \<and> n \<le> 70)"

definition fingerprintLine :: "string \<Rightarrow> string option" where
  "fingerprintLine line =
     (case match_fold ''a=fingerprint:'' line of
        None \<Rightarrow> None
      | Some s1 \<Rightarrow>
          (case match_s s1 of
             None \<Rightarrow> None
           | Some s2 \<Rightarrow>
               (case match_fold ''ha-256'' s2 of
                  None \<Rightarrow> None
                | Some s3 \<Rightarrow>
                    let s4 = dropWhile re_space s3; m = takeWhile fp_char s4 in
                    if s3 = s4 \<or> m = [] \<or> \<not> list_all re_space (dropWhile fp_char s4) then None else Some m)))"

definition trim_right :: "char \<Rightarrow> string \<Rightarrow> string" where
  "trim_right c s = rev (dropWhile (\<lambda>x. x = c) (rev s))"

fun first_line :: "string list \<Rightarrow> string" where
  "first_line [] = []"
| "first_line (l # ls) =
     (case fingerprintLine (trim_right (CHR 0x0D) l) of Some m \<Rightarrow> ToUpper m | None \<Rightarrow> first_line ls)"

definition ExtractFingerprint :: "string \<Rightarrow> string" where
  "ExtractFingerprint sdp = first_line (Split sdp (CHR 0x0A))"

definition FingerprintsEqual :: "string \<Rightarrow> string \<Rightarrow> bool" where
  "FingerprintsEqual a b \<longleftrightarrow> ToLower a = ToLower b"

section \<open>The normal form\<close>

text \<open>Upper-case hexadecimal digits and colons.\<close>

definition fp_normal :: "char \<Rightarrow> bool" where
  "fp_normal c \<longleftrightarrow> fp_char c \<and> ascii_upper c = c"

lemma ascii_upper_range: "(of_char (ascii_upper c) :: nat) =
    (if 97 \<le> (of_char c :: nat) \<and> (of_char c :: nat) \<le> 122 then of_char c - 32 else of_char c)"
  by (auto simp: ascii_upper_def Let_def intro!: mod_less)

lemma ascii_upper_colon [simp]: "ascii_upper (CHR '':'') = CHR '':''"
  by (simp add: ascii_upper_def)

lemma fp_char_upper: "fp_char c \<Longrightarrow> fp_normal (ascii_upper c)"
  by (auto simp: fp_normal_def fp_char_def is_digit_def Let_def ascii_upper_range)

lemma fingerprintLine_chars: "fingerprintLine l = Some m \<Longrightarrow> m \<noteq> [] \<and> list_all fp_char m"
  by (auto simp: fingerprintLine_def Let_def list_all_iff dest: set_takeWhileD split: option.splits if_splits)

lemma first_line_normal: "list_all fp_normal (first_line ls)"
  by (induction ls) (auto simp: ToUpper_def list_all_iff dest!: fingerprintLine_chars intro: fp_char_upper split: option.split)

lemma ExtractFingerprint_normal: "list_all fp_normal (ExtractFingerprint sdp)"
  by (simp add: ExtractFingerprint_def first_line_normal)

lemma Extract_upper [simp]: "ToUpper (ExtractFingerprint sdp) = ExtractFingerprint sdp"
  using ExtractFingerprint_normal [of sdp] by (simp add: ToUpper_def list_all_iff fp_normal_def map_idI)

lemma ascii_lower_upper [simp]: "ascii_lower (ascii_upper c) = ascii_lower c"
  by (auto simp: ascii_lower_def ascii_upper_def Let_def)

lemma ascii_upper_lower [simp]: "ascii_upper (ascii_lower c) = ascii_upper c"
  by (auto simp: ascii_lower_def ascii_upper_def Let_def)

lemma lower_upper: "ToLower a = ToLower b \<longleftrightarrow> ToUpper a = ToUpper b"
proof -
  have "ToUpper (ToLower s) = ToUpper s" "ToLower (ToUpper s) = ToLower s" for s
    by (simp_all add: ToLower_def ToUpper_def)
  then show ?thesis by metis
qed

text \<open>Comparing without case is comparing the normal forms, which is what both ends extract.\<close>

lemma FingerprintsEqual_normal: "FingerprintsEqual (ExtractFingerprint sdp) b \<longleftrightarrow> ToUpper b = ExtractFingerprint sdp"
  by (auto simp: FingerprintsEqual_def lower_upper)

lemma FingerprintsEqual_extracted:
  "FingerprintsEqual (ExtractFingerprint sdp) (ExtractFingerprint sdp') \<longleftrightarrow> ExtractFingerprint sdp = ExtractFingerprint sdp'"
  by (auto simp: FingerprintsEqual_normal)

text \<open>A line of the usual form is found, whatever precedes it.\<close>

lemma Extract_example:
  "ExtractFingerprint (''v=0'' @ [CHR 0x0D, CHR 0x0A] @ ''A=Fingerprint:SHA-256 ab:0C'' @ [CHR 0x0D, CHR 0x0A]) = ''AB:0C''"
  by code_simp

end
