(* ===== verification/Pairing.thy ===== *)
theory Pairing
  imports GoCrypto Fingerprint
begin

text \<open>
  \<^verbatim>\<open>internal/pairing\<close> (\<^verbatim>\<open>commit.go\<close>, \<^verbatim>\<open>listener.go\<close>), the pair flow of \<^verbatim>\<open>internal/peer/connection.go\<close>
  and \<^verbatim>\<open>cmd/bitbang/connect_pair.go\<close>: two machines that share nothing exchange a committed nonce, a
  challenge and the opening of the commitment over a channel that may be relayed, compute a six-digit
  string from the nonces and the fingerprints they see, and the listener hands out an access code
  only when its operator has typed the string the connector shows.

  Each side is a function of what its waits end with, of the random bytes it draws and of the
  operator's answers; its result is the list of things it does, in order. What a wait ends with may
  depend on what was sent before it. Log lines are left out, and so is the pause that lets the last
  frame flush.
\<close>

section \<open>Commitment and short authentication string\<close>

definition NonceLen :: nat where
  "NonceLen = 32"

definition Commitment :: "go_env \<Rightarrow> byte list \<Rightarrow> string" where
  "Commitment env nonce = EncodeToString StdEncoding (sha256 env nonce)"

definition VerifyCommitment :: "go_env \<Rightarrow> string \<Rightarrow> byte list \<Rightarrow> bool" where
  "VerifyCommitment env commit nonce =
     (let want = Commitment env nonce in ConstantTimeCompare (bytes_of commit) (bytes_of want) = 1)"

text \<open>What is hashed: the two nonces and the two fingerprints in order.\<close>

definition sas_input :: "byte list \<Rightarrow> byte list \<Rightarrow> string \<Rightarrow> string \<Rightarrow> byte list" where
  "sas_input rc rd localFp remoteFp =
     (let fps = sort [ToUpper localFp, ToUpper remoteFp]
      in rc @ rd @ bytes_of (fps ! 0 @ ''|'' @ fps ! 1))"

text \<open>\<^verbatim>\<open>%06d\<close>\<close>

definition pad6 :: "nat \<Rightarrow> string" where
  "pad6 n = replicate (6 - length (nat_digits n)) (CHR ''0'') @ nat_digits n"

definition ComputeSAS :: "go_env \<Rightarrow> byte list \<Rightarrow> byte list \<Rightarrow> string \<Rightarrow> string \<Rightarrow> string" where
  "ComputeSAS env rc rd localFp remoteFp =
     (let sum = sha256 env (sas_input rc rd localFp remoteFp);
          code = unat (BigEndian32 (take 4 sum)) mod 1000000
      in pad6 code)"

section \<open>Messages\<close>

definition MsgPairCommit :: string where "MsgPairCommit = ''pair_commit''"
definition MsgPairChallenge :: string where "MsgPairChallenge = ''pair_challenge''"
definition MsgPairReveal :: string where "MsgPairReveal = ''pair_reveal''"
definition MsgPairCredentials :: string where "MsgPairCredentials = ''pair_credentials''"

lemmas pair_types = MsgPairCommit_def MsgPairChallenge_def MsgPairReveal_def MsgPairCredentials_def

definition PairMessageType :: "go_env \<Rightarrow> byte list \<Rightarrow> string" where
  "PairMessageType env data = fst (Unmarshal put_type [] (js_parse env data))"

definition decodeNonce :: "string \<Rightarrow> byte list option" where
  "decodeNonce s =
     (case DecodeString StdEncoding s of
        None \<Rightarrow> None
      | Some n \<Rightarrow> if length n \<noteq> NonceLen then None else Some n)"

text \<open>\<^verbatim>\<open>json.Marshal\<close> of a map writes its keys in order.\<close>

definition commit_json :: "string \<Rightarrow> json" where
  "commit_json commit = JObj [(''commit'', JStr commit), (''type'', JStr MsgPairCommit)]"

definition BuildPairCommit :: "go_env \<Rightarrow> string \<Rightarrow> byte list" where
  "BuildPairCommit env commit = js_print env (commit_json commit)"

definition ParsePairCommit :: "go_env \<Rightarrow> byte list \<Rightarrow> string option" where
  "ParsePairCommit env data =
     (case Unmarshal (put_key ''commit'') [] (js_parse env data) of
        (commit, ok) \<Rightarrow> if \<not> ok \<or> commit = [] then None else Some commit)"

definition challenge_json :: "byte list \<Rightarrow> json" where
  "challenge_json nonceD = JObj [(''nonce_d'', JStr (EncodeToString StdEncoding nonceD)), (''type'', JStr MsgPairChallenge)]"

definition BuildPairChallenge :: "go_env \<Rightarrow> byte list \<Rightarrow> byte list" where
  "BuildPairChallenge env nonceD = js_print env (challenge_json nonceD)"

definition ParsePairChallenge :: "go_env \<Rightarrow> byte list \<Rightarrow> byte list option" where
  "ParsePairChallenge env data =
     (case Unmarshal (put_key ''nonce_d'') [] (js_parse env data) of
        (nonceD, ok) \<Rightarrow> if \<not> ok then None else decodeNonce nonceD)"

definition reveal_json :: "byte list \<Rightarrow> json" where
  "reveal_json nonceC = JObj [(''nonce_c'', JStr (EncodeToString StdEncoding nonceC)), (''type'', JStr MsgPairReveal)]"

definition BuildPairReveal :: "go_env \<Rightarrow> byte list \<Rightarrow> byte list" where
  "BuildPairReveal env nonceC = js_print env (reveal_json nonceC)"

definition ParsePairReveal :: "go_env \<Rightarrow> byte list \<Rightarrow> byte list option" where
  "ParsePairReveal env data =
     (case Unmarshal (put_key ''nonce_c'') [] (js_parse env data) of
        (nonceC, ok) \<Rightarrow> if \<not> ok then None else decodeNonce nonceC)"

record pair_creds =
  pc_uid :: string
  pc_publicKey :: string
  pc_accessCode :: string

definition creds_json :: "string \<Rightarrow> string \<Rightarrow> string \<Rightarrow> json" where
  "creds_json uid publicKey accessCode =
     JObj [(''access_code'', JStr accessCode), (''public_key'', JStr publicKey), (''type'', JStr MsgPairCredentials), (''uid'', JStr uid)]"

definition BuildPairCredentials :: "go_env \<Rightarrow> string \<Rightarrow> string \<Rightarrow> string \<Rightarrow> byte list" where
  "BuildPairCredentials env uid publicKey accessCode = js_print env (creds_json uid publicKey accessCode)"

definition put_creds :: "string \<Rightarrow> json \<Rightarrow> pair_creds \<Rightarrow> pair_creds option" where
  "put_creds k v m =
     (if k = ''uid'' then map_option (\<lambda>x. m\<lparr>pc_uid := x\<rparr>) (as_string v (pc_uid m))
      else if k = ''public_key'' then map_option (\<lambda>x. m\<lparr>pc_publicKey := x\<rparr>) (as_string v (pc_publicKey m))
      else if k = ''access_code'' then map_option (\<lambda>x. m\<lparr>pc_accessCode := x\<rparr>) (as_string v (pc_accessCode m))
      else Some m)"

definition ParsePairCredentials :: "go_env \<Rightarrow> byte list \<Rightarrow> pair_creds option" where
  "ParsePairCredentials env data =
     (case Unmarshal put_creds \<lparr>pc_uid = [], pc_publicKey = [], pc_accessCode = []\<rparr> (js_parse env data) of
        (m, ok) \<Rightarrow> if \<not> ok \<or> pc_uid m = [] then None else Some m)"

section \<open>The operator\<close>

definition MaxSASAttempts :: nat where
  "MaxSASAttempts = 3"

datatype prompt_status = PromptOK | PromptAbort | PromptTimeout

type_synonym sas_prompt = "nat \<Rightarrow> string \<times> prompt_status"

text \<open>The loop, by the number of attempts that are left; \<open>None\<close> is the match.\<close>

fun sas_loop :: "string \<Rightarrow> sas_prompt \<Rightarrow> nat \<Rightarrow> nat \<Rightarrow> string option" where
  "sas_loop expected prompt attempt 0 = Some ''sas_mismatch''"
| "sas_loop expected prompt attempt (Suc left) =
     (case prompt attempt of
        (typed, status) \<Rightarrow>
          (case status of
             PromptAbort \<Rightarrow> Some ''user_declined''
           | PromptTimeout \<Rightarrow> Some ''timeout''
           | PromptOK \<Rightarrow> if TrimSpace typed = expected then None else sas_loop expected prompt (attempt + 1) left))"

definition PromptForSAS :: "string \<Rightarrow> sas_prompt \<Rightarrow> string option" where
  "PromptForSAS expected prompt = sas_loop expected prompt 1 MaxSASAttempts"

section \<open>The listener\<close>

record device_id =
  id_UID :: string
  id_Code :: string
  id_PublicB64 :: string

text \<open>
  The frames of a run are what \<open>pair_frames\<close> collects.
  \<open>pw_commit\<close> and \<open>pw_reveal\<close> are what the two waits for a frame end with, \<open>pw_nonce\<close> the bytes drawn,
  \<open>pw_sends\<close> and \<open>pw_delivers\<close> whether the challenge and the credentials could be sent, \<open>pw_grant\<close> the hook
  that mints a code. A pairing whose credentials could not be sent is approved all the same.
\<close>

record pair_world =
  pw_local :: string
  pw_remote :: string
  pw_commit :: "byte list option"
  pw_nonce :: "byte list option"
  pw_sends :: bool
  pw_reveal :: "byte list option"
  pw_prompt :: sas_prompt
  pw_grant :: "string option option"
  pw_delivers :: bool
  pw_doneHook :: bool

datatype pair_act =
    PairSend "byte list"
  | PairRejected string
  | PairApproved
  | PairMint
  | PairClose
  | PairDone

fun pair_frames :: "pair_act list \<Rightarrow> byte list list" where
  "pair_frames [] = []"
| "pair_frames (PairSend b # acts) = b # pair_frames acts"
| "pair_frames (_ # acts) = pair_frames acts"

definition deliver :: "go_env \<Rightarrow> device_id \<Rightarrow> pair_world \<Rightarrow> string \<Rightarrow> pair_act list" where
  "deliver env dev w code = (if pw_delivers w then [PairSend (BuildPairCredentials env (id_UID dev) (id_PublicB64 dev) code)] else [])"

definition pair_verdict :: "go_env \<Rightarrow> device_id \<Rightarrow> pair_world \<Rightarrow> byte list \<Rightarrow> byte list \<Rightarrow> string \<Rightarrow> string \<Rightarrow> pair_act list" where
  "pair_verdict env dev w rc rd localFp remoteFp =
     (case PromptForSAS (ComputeSAS env rc rd localFp remoteFp) (pw_prompt w) of
        Some reason \<Rightarrow> [PairRejected reason, PairClose]
      | None \<Rightarrow>
          (case pw_grant w of
             Some None \<Rightarrow> [PairMint, PairRejected ''user_declined'', PairClose]
           | Some (Some code) \<Rightarrow> PairMint # deliver env dev w code @ [PairApproved, PairClose]
           | None \<Rightarrow> deliver env dev w (id_Code dev) @ [PairApproved, PairClose]))"

definition pair_exchange :: "go_env \<Rightarrow> device_id \<Rightarrow> pair_world \<Rightarrow> string \<Rightarrow> string \<Rightarrow> pair_act list" where
  "pair_exchange env dev w localFp remoteFp =
     (case pw_commit w of
        None \<Rightarrow> [PairRejected ''timeout'', PairClose]
      | Some data \<Rightarrow>
          if PairMessageType env data \<noteq> MsgPairCommit then [PairRejected ''timeout'', PairClose]
          else case ParsePairCommit env data of
                 None \<Rightarrow> [PairRejected ''user_declined'', PairClose]
               | Some commit \<Rightarrow>
                   (case pw_nonce w of
                      None \<Rightarrow> [PairRejected ''user_declined'', PairClose]
                    | Some rd \<Rightarrow>
                        if \<not> pw_sends w then [PairClose]
                        else PairSend (BuildPairChallenge env rd) #
                          (case pw_reveal w of
                             None \<Rightarrow> [PairRejected ''timeout'', PairClose]
                           | Some data2 \<Rightarrow>
                               if PairMessageType env data2 \<noteq> MsgPairReveal then [PairRejected ''timeout'', PairClose]
                               else case ParsePairReveal env data2 of
                                      None \<Rightarrow> [PairRejected ''sas_mismatch'', PairClose]
                                    | Some rc \<Rightarrow>
                                        if \<not> VerifyCommitment env commit rc then [PairRejected ''sas_mismatch'', PairClose]
                                        else pair_verdict env dev w rc rd localFp remoteFp)))"

definition handlePairRequestOnOpen :: "go_env \<Rightarrow> device_id \<Rightarrow> pair_world \<Rightarrow> pair_act list" where
  "handlePairRequestOnOpen env dev w =
     (let localFp = ExtractFingerprint (pw_local w); remoteFp = ExtractFingerprint (pw_remote w) in
      if localFp = [] \<or> remoteFp = [] then [PairRejected ''user_declined'', PairClose]
      else pair_exchange env dev w localFp remoteFp)
     @ (if pw_doneHook w then [PairDone] else [])"

section \<open>The connector\<close>

text \<open>What a wait of the connector ends with: what it waits for, a verdict, an error, the deadline.\<close>

datatype 'a pair_wait = PwGot 'a | PwOutcome string | PwError string | PwDeadline

datatype dc_wait = DcOpened | DcError string | DcDeadline

datatype pair_fail =
    BadPairCode
  | PairSignaling string
  | PairTimedOut string
  | PairSetup string
  | NoNonce
  | SendPair string
  | BadChallenge
  | MissingFingerprints
  | UnexpectedMessage
  | BadCredentials

record remote_spec =
  rs_server :: string
  rs_uid :: string
  rs_code :: string

datatype pair_result = Paired remote_spec | PairRefused string | PairFailed pair_fail

text \<open>
  What the connector does besides returning: frames on the channel, the string it shows, and the
  answer it gives to the listener's offer. \<open>cw_answer\<close> is what setting up the peer connection and
  answering the offer come to, with the two session descriptions when they succeed.
\<close>

datatype conn_act = ConnAnswer string | ConnSend "byte list" | ConnShow string

fun conn_frames :: "conn_act list \<Rightarrow> byte list list" where
  "conn_frames [] = []"
| "conn_frames (ConnSend b # acts) = b # conn_frames acts"
| "conn_frames (_ # acts) = conn_frames acts"

record conn_world =
  cw_server :: string
  cw_connect :: "string option"
  cw_routed :: "unit pair_wait"
  cw_offer :: "unit pair_wait"
  cw_answer :: "string + string \<times> string"
  cw_open :: dc_wait
  cw_nonce :: "byte list option"
  cw_send1 :: bool
  cw_challenge :: "byte list pair_wait"
  cw_send2 :: bool
  cw_verdict :: "byte list pair_wait"

definition isPairCode :: "string \<Rightarrow> bool" where
  "isPairCode code \<longleftrightarrow> length code = 6 \<and> list_all is_digit code"

definition handlePairOutcome :: "string + string \<times> string \<Rightarrow> string \<Rightarrow> pair_result" where
  "handlePairOutcome r server =
     (case r of
        Inl reason \<Rightarrow> PairRefused reason
      | Inr (uid, code) \<Rightarrow> Paired \<lparr>rs_server = server, rs_uid = uid, rs_code = code\<rparr>)"

definition conn_verdict :: "go_env \<Rightarrow> conn_world \<Rightarrow> pair_result" where
  "conn_verdict env w =
     (case cw_verdict w of
        PwGot data \<Rightarrow>
          if PairMessageType env data \<noteq> MsgPairCredentials then PairFailed UnexpectedMessage
          else (case ParsePairCredentials env data of
                  None \<Rightarrow> PairFailed BadCredentials
                | Some m \<Rightarrow> handlePairOutcome (Inr (pc_uid m, pc_accessCode m)) (cw_server w))
      | PwOutcome reason \<Rightarrow> handlePairOutcome (Inl reason) (cw_server w)
      | PwError e \<Rightarrow> PairFailed (PairSignaling e)
      | PwDeadline \<Rightarrow> PairFailed (PairTimedOut ''approval''))"

definition conn_reveal :: "go_env \<Rightarrow> conn_world \<Rightarrow> byte list \<Rightarrow> byte list \<Rightarrow> string \<Rightarrow> string \<Rightarrow> conn_act list \<times> pair_result" where
  "conn_reveal env w rc rd localSDP remoteSDP =
     (if \<not> cw_send2 w then ([], PairFailed (SendPair ''pair_reveal''))
      else
        let localFp = ExtractFingerprint localSDP; remoteFp = ExtractFingerprint remoteSDP in
        if localFp = [] \<or> remoteFp = [] then ([ConnSend (BuildPairReveal env rc)], PairFailed MissingFingerprints)
        else ([ConnSend (BuildPairReveal env rc), ConnShow (ComputeSAS env rc rd localFp remoteFp)], conn_verdict env w))"

definition conn_exchange :: "go_env \<Rightarrow> conn_world \<Rightarrow> string \<Rightarrow> string \<Rightarrow> conn_act list \<times> pair_result" where
  "conn_exchange env w localSDP remoteSDP =
     (case cw_nonce w of
        None \<Rightarrow> ([], PairFailed NoNonce)
      | Some rc \<Rightarrow>
          if \<not> cw_send1 w then ([], PairFailed (SendPair ''pair_commit''))
          else
            let commit = ConnSend (BuildPairCommit env (Commitment env rc)) in
            case cw_challenge w of
              PwGot data \<Rightarrow>
                (case ParsePairChallenge env data of
                   None \<Rightarrow> ([commit], PairFailed BadChallenge)
                 | Some n \<Rightarrow>
                     if PairMessageType env data \<noteq> MsgPairChallenge then ([commit], PairFailed BadChallenge)
                     else (case conn_reveal env w rc n localSDP remoteSDP of (acts, r) \<Rightarrow> (commit # acts, r)))
            | PwOutcome reason \<Rightarrow> ([commit], handlePairOutcome (Inl reason) (cw_server w))
            | PwError e \<Rightarrow> ([commit], PairFailed (PairSignaling e))
            | PwDeadline \<Rightarrow> ([commit], PairFailed (PairTimedOut ''challenge'')))"

definition conn_setup :: "go_env \<Rightarrow> conn_world \<Rightarrow> conn_act list \<times> pair_result" where
  "conn_setup env w =
     (case cw_answer w of
        Inl e \<Rightarrow> ([], PairFailed (PairSetup e))
      | Inr (localSDP, remoteSDP) \<Rightarrow>
          (case cw_open w of
             DcError e \<Rightarrow> ([ConnAnswer localSDP], PairFailed (PairSignaling e))
           | DcDeadline \<Rightarrow> ([ConnAnswer localSDP], PairFailed (PairTimedOut ''data channel''))
           | DcOpened \<Rightarrow>
               (case conn_exchange env w localSDP remoteSDP of (acts, r) \<Rightarrow> (ConnAnswer localSDP # acts, r))))"

definition runPairConnect :: "go_env \<Rightarrow> string \<Rightarrow> conn_world \<Rightarrow> conn_act list \<times> pair_result" where
  "runPairConnect env code w =
     (if \<not> isPairCode code then ([], PairFailed BadPairCode)
      else case cw_connect w of
             Some e \<Rightarrow> ([], PairFailed (PairSetup e))
           | None \<Rightarrow>
               (case cw_routed w of
                  PwOutcome reason \<Rightarrow> ([], handlePairOutcome (Inl reason) (cw_server w))
                | PwError e \<Rightarrow> ([], PairFailed (PairSignaling e))
                | PwDeadline \<Rightarrow> ([], PairFailed (PairTimedOut ''routing''))
                | PwGot _ \<Rightarrow>
                    (case cw_offer w of
                       PwOutcome reason \<Rightarrow> ([], handlePairOutcome (Inl reason) (cw_server w))
                     | PwError e \<Rightarrow> ([], PairFailed (PairSignaling e))
                     | PwDeadline \<Rightarrow> ([], PairFailed (PairTimedOut ''offer''))
                     | PwGot _ \<Rightarrow> conn_setup env w)))"

end
