(* ===== verification/Connection.thy ===== *)
theory Connection
  imports ClientHandshake Pairing
begin

text \<open>
  \<^verbatim>\<open>internal/peer/connection.go\<close> and \<^verbatim>\<open>verify.go\<close>, the listener's end of one peer connection, and
  the connector's \<^verbatim>\<open>HandleOffer\<close> in \<^verbatim>\<open>internal/client/peer.go\<close>, with the identifiers of
  \<^verbatim>\<open>internal/identity/identity.go\<close>. The connector encrypts its fingerprint, a nonce and its access code to
  the listener's key; the listener decrypts, checks the code and the fingerprint, and proves on the open channel
  that it did.

  WebRTC is not modelled: whether a description is accepted, what an answer looks like and when a
  channel opens or closes come in with the events. RSA and the parsing of a public key are arguments.
  A callback is known by a number, and the ones that were run are recorded.
\<close>

section \<open>Identifiers\<close>

definition uidFromPubkeyDER :: "go_env \<Rightarrow> byte list \<Rightarrow> string" where
  "uidFromPubkeyDER env der = EncodeToString RawURLEncoding (take 16 (sha256 env der))"

definition fromPrivateKeyAndCode :: "go_env \<Rightarrow> byte list \<Rightarrow> string \<Rightarrow> device_id" where
  "fromPrivateKeyAndCode env pubDER code =
     \<lparr>id_UID = EncodeToString RawURLEncoding (take 16 (sha256 env pubDER)), id_Code = code,
      id_PublicB64 = EncodeToString StdEncoding pubDER\<rparr>"

section \<open>The listener's connection\<close>

record connection =
  cn_clientID :: string
  cn_pairing :: bool
  cn_authorize :: "(string \<Rightarrow> string option) option"
  cn_inbox :: "byte list list"
  cn_nonce :: "byte list option"
  cn_verifyFailed :: bool
  cn_access :: string
  cn_closed :: bool
  cn_onCloseSet :: bool
  cn_onClose :: "nat option"
  cn_calls :: "nat list"
  cn_messages :: "byte list list"
  cn_sent :: "byte list list"
  cn_dcClosed :: bool
  cn_pcClosed :: bool

type_synonym message = "string \<Rightarrow> json option"

text \<open>A type assertion on a field of a message: the string, or the empty one.\<close>

definition msg_string :: "message \<Rightarrow> string \<Rightarrow> string" where
  "msg_string msg k = (case msg k of Some (JStr s) \<Rightarrow> s | _ \<Rightarrow> [])"

definition relayAcceptanceMinWait :: nat where
  "relayAcceptanceMinWait = 8"

definition relayWaitFor :: "message \<Rightarrow> nat" where
  "relayWaitFor msg = (if msg ''force_relay'' = Some (JBool True) then 0 else relayAcceptanceMinWait)"

definition newConnection :: "string \<Rightarrow> bool \<Rightarrow> (string \<Rightarrow> string option) option \<Rightarrow> connection" where
  "newConnection clientID pairing auth =
     \<lparr>cn_clientID = clientID, cn_pairing = pairing, cn_authorize = auth, cn_inbox = [], cn_nonce = None,
      cn_verifyFailed = False, cn_access = [], cn_closed = False, cn_onCloseSet = False, cn_onClose = None, cn_calls = [],
      cn_messages = [], cn_sent = [], cn_dcClosed = False, cn_pcClosed = False\<rparr>"

text \<open>
  \<^verbatim>\<open>setupConnection\<close>: the steps of WebRTC that may fail, in order, and what is sent to the signaling
  server; a step that fails is named.
\<close>

datatype setup_error = MissingClientID | CreatePeer | CreateChannel | CreateOffer | SetLocalDescription

definition setupConnection ::
  "setup_error option \<Rightarrow> string \<Rightarrow> string \<Rightarrow> bool \<Rightarrow> (setup_error, connection \<times> (string \<times> json) list) go_result" where
  "setupConnection failing localSDP clientID pairing =
     (case failing of
        Some e \<Rightarrow> Err e
      | None \<Rightarrow>
          Ok (newConnection clientID pairing None,
              [(''type'', JStr ''offer''), (''client_id'', JStr clientID), (''sdp'', JStr localSDP), (''streams'', JObj [])]))"

definition HandleRequest ::
  "setup_error option \<Rightarrow> string \<Rightarrow> message \<Rightarrow> (setup_error, connection \<times> (string \<times> json) list) go_result" where
  "HandleRequest failing localSDP msg =
     (let clientID = msg_string msg ''client_id'' in
      if clientID = [] then Err MissingClientID else setupConnection failing localSDP clientID False)"

definition HandlePairRequest ::
  "setup_error option \<Rightarrow> string \<Rightarrow> message \<Rightarrow> (setup_error, connection \<times> (string \<times> json) list) go_result" where
  "HandlePairRequest failing localSDP msg =
     (let clientID = msg_string msg ''client_id'' in
      if clientID = [] then Err MissingClientID else setupConnection failing localSDP clientID True)"

section \<open>Teardown\<close>

definition run_callback :: "nat option \<Rightarrow> connection \<Rightarrow> connection" where
  "run_callback fn c = (case fn of None \<Rightarrow> c | Some f \<Rightarrow> c\<lparr>cn_calls := cn_calls c @ [f]\<rparr>)"

definition SetOnClose :: "nat option \<Rightarrow> connection \<Rightarrow> connection" where
  "SetOnClose fn c =
     (if cn_onCloseSet c then c
      else
        let c1 = c\<lparr>cn_onCloseSet := True\<rparr> in
        if \<not> cn_closed c1 then c1\<lparr>cn_onClose := fn\<rparr> else run_callback fn c1)"

definition fireClose :: "connection \<Rightarrow> connection" where
  "fireClose c = (if cn_closed c then c else run_callback (cn_onClose c) (c\<lparr>cn_closed := True\<rparr>))"

definition CloseConn :: "connection \<Rightarrow> connection" where
  "CloseConn c = (fireClose c)\<lparr>cn_pcClosed := True\<rparr>"

section \<open>The answer\<close>

record verify_req =
  vr_fingerprint :: string
  vr_nonce :: string
  vr_code :: string

definition zero_req :: verify_req where
  "zero_req = \<lparr>vr_fingerprint = [], vr_nonce = [], vr_code = []\<rparr>"

definition put_req :: "string \<Rightarrow> json \<Rightarrow> verify_req \<Rightarrow> verify_req option" where
  "put_req k v m =
     (if k = ''fingerprint'' then map_option (\<lambda>x. m\<lparr>vr_fingerprint := x\<rparr>) (as_string v (vr_fingerprint m))
      else if k = ''nonce'' then map_option (\<lambda>x. m\<lparr>vr_nonce := x\<rparr>) (as_string v (vr_nonce m))
      else if k = ''code'' then map_option (\<lambda>x. m\<lparr>vr_code := x\<rparr>) (as_string v (vr_code m))
      else Some m)"

datatype answer_error =
    RemoteDescription
  | MissingRequest
  | DecodeRequest
  | DecryptRequest
  | ParseRequest
  | BadAccessCode
  | DecodeNonce
  | NoFingerprint
  | FingerprintMismatch

definition markVerifyFailed :: "connection \<Rightarrow> connection" where
  "markVerifyFailed c = c\<lparr>cn_verifyFailed := True\<rparr>"

text \<open>The check of the access code: the hook, or the identity's own code.\<close>

definition check_code :: "device_id \<Rightarrow> string \<Rightarrow> connection \<Rightarrow> connection option" where
  "check_code dev code c =
     (case cn_authorize c of
        Some auth \<Rightarrow> (case auth code of None \<Rightarrow> None | Some access \<Rightarrow> Some (c\<lparr>cn_access := access\<rparr>))
      | None \<Rightarrow> if ConstantTimeCompare (bytes_of code) (bytes_of (id_Code dev)) \<noteq> 1 then None else Some c)"

definition HandleAnswer ::
  "go_env \<Rightarrow> (byte list \<Rightarrow> byte list option) \<Rightarrow> device_id \<Rightarrow> string \<Rightarrow> string \<Rightarrow> bool \<Rightarrow> connection
     \<Rightarrow> (answer_error, unit) go_result \<times> connection" where
  "HandleAnswer env decrypt dev sdp encB64 accepted c =
     (if \<not> accepted then (Err RemoteDescription, c)
      else if encB64 = [] then (Err MissingRequest, markVerifyFailed c)
      else case DecodeString StdEncoding encB64 of
        None \<Rightarrow> (Err DecodeRequest, markVerifyFailed c)
      | Some ciphertext \<Rightarrow>
          (case decrypt ciphertext of
             None \<Rightarrow> (Err DecryptRequest, markVerifyFailed c)
           | Some plaintext \<Rightarrow>
               (case Unmarshal put_req zero_req (js_parse env plaintext) of
                  (req, ok) \<Rightarrow>
                    if \<not> ok then (Err ParseRequest, markVerifyFailed c)
                    else case check_code dev (vr_code req) c of
                      None \<Rightarrow> (Err BadAccessCode, markVerifyFailed c)
                    | Some c1 \<Rightarrow>
                        (case DecodeString StdEncoding (vr_nonce req) of
                           None \<Rightarrow> (Err DecodeNonce, markVerifyFailed c1)
                         | Some nonceBytes \<Rightarrow>
                             let actual = ExtractFingerprint sdp in
                             if actual = [] then (Err NoFingerprint, markVerifyFailed c1)
                             else if \<not> FingerprintsEqual actual (vr_fingerprint req)
                             then (Err FingerprintMismatch, markVerifyFailed c1)
                             else (Ok (), c1\<lparr>cn_nonce := Some nonceBytes\<rparr>)))))"

definition verify_json :: "string \<Rightarrow> json" where
  "verify_json h = JObj [(''type'', JStr ''verify_nonce_hash''), (''hash'', JStr h)]"

definition buildVerifyNonceHashFrame :: "go_env \<Rightarrow> byte list \<Rightarrow> byte list" where
  "buildVerifyNonceHashFrame env nonce =
     BuildFrame 0 FlagSYN (js_print env (verify_json (EncodeToString StdEncoding (sha256 env nonce))))"

definition handleRequestOnOpen :: "go_env \<Rightarrow> bool \<Rightarrow> connection \<Rightarrow> connection" where
  "handleRequestOnOpen env sends c =
     (if cn_verifyFailed c then CloseConn c
      else case cn_nonce c of
        None \<Rightarrow> CloseConn c
      | Some nonce \<Rightarrow>
          if sends then c\<lparr>cn_sent := cn_sent c @ [buildVerifyNonceHashFrame env nonce]\<rparr> else CloseConn c)"

section \<open>Events of a connection\<close>

text \<open>A full inbox of the pair flow drops the frame; the regular flow calls the session's handler.\<close>

definition onDCMessage :: "byte list \<Rightarrow> connection \<Rightarrow> connection" where
  "onDCMessage m c =
     (if cn_pairing c then (if length (cn_inbox c) < 8 then c\<lparr>cn_inbox := cn_inbox c @ [m]\<rparr> else c)
      else c\<lparr>cn_messages := cn_messages c @ [m]\<rparr>)"

definition onDCClose :: "connection \<Rightarrow> connection" where
  "onDCClose c = (fireClose (c\<lparr>cn_dcClosed := True\<rparr>))\<lparr>cn_pcClosed := True\<rparr>"

text \<open>The argument tells that the new state is Failed or Closed.\<close>

definition onStateChange :: "bool \<Rightarrow> connection \<Rightarrow> connection" where
  "onStateChange terminal c =
     (if cn_dcClosed c then c
      else if terminal then (fireClose c)\<lparr>cn_pcClosed := True\<rparr> else c)"

datatype conn_event =
    CeAnswer string string bool
  | CeOpen bool
  | CeMessage "byte list"
  | CeSetOnClose "nat option"
  | CeDCClose
  | CeState bool
  | CeClose

primrec conn_step :: "go_env \<Rightarrow> (byte list \<Rightarrow> byte list option) \<Rightarrow> device_id \<Rightarrow> conn_event \<Rightarrow> connection \<Rightarrow> connection" where
  "conn_step env decrypt dev (CeAnswer sdp enc acc) c = snd (HandleAnswer env decrypt dev sdp enc acc c)"
| "conn_step env decrypt dev (CeOpen sends) c = (if cn_pairing c then c else handleRequestOnOpen env sends c)"
| "conn_step env decrypt dev (CeMessage m) c = onDCMessage m c"
| "conn_step env decrypt dev (CeSetOnClose fn) c = SetOnClose fn c"
| "conn_step env decrypt dev CeDCClose c = onDCClose c"
| "conn_step env decrypt dev (CeState t) c = onStateChange t c"
| "conn_step env decrypt dev CeClose c = CloseConn c"

abbreviation conn_run :: "go_env \<Rightarrow> (byte list \<Rightarrow> byte list option) \<Rightarrow> device_id \<Rightarrow> conn_event list \<Rightarrow> connection \<Rightarrow> connection" where
  "conn_run env decrypt dev evs c \<equiv> fold (conn_step env decrypt dev) evs c"

section \<open>The connector's answer\<close>

datatype peer_mode = ModeURL | ModePair

record 'k client_peer =
  cp_mode :: peer_mode
  cp_uid :: string
  cp_code :: string
  cp_pubkey :: "'k option"
  cp_nonce :: "byte list option"

definition payload_json :: "string \<Rightarrow> byte list \<Rightarrow> string \<Rightarrow> json" where
  "payload_json fp nonce code =
     JObj ([(''fingerprint'', JStr fp), (''nonce'', JStr (EncodeToString StdEncoding nonce))]
       @ (if code = [] then [] else [(''code'', JStr code)]))"

definition encryptVerifyPayload ::
  "go_env \<Rightarrow> ('k \<Rightarrow> byte list \<Rightarrow> byte list option) \<Rightarrow> 'k \<Rightarrow> string \<Rightarrow> byte list \<Rightarrow> string \<Rightarrow> string option" where
  "encryptVerifyPayload env encrypt pubkey fp nonce code =
     map_option (EncodeToString StdEncoding) (encrypt pubkey (js_print env (payload_json fp nonce code)))"

datatype offer_error =
    OfferMissingSDP
  | OfferMissingKey
  | BadDevicePubkey
  | PubkeyMismatch string
  | AnswerFailed string
  | LocalNoFingerprint
  | NoVerifyNonce
  | EncryptFailed

definition importDevicePubkey :: "(byte list \<Rightarrow> 'k option) \<Rightarrow> string \<Rightarrow> ('k \<times> byte list) option" where
  "importDevicePubkey parse keyText =
     (case DecodeString StdEncoding keyText of
        None \<Rightarrow> None
      | Some der \<Rightarrow> (case parse der of None \<Rightarrow> None | Some k \<Rightarrow> Some (k, der)))"

text \<open>The first part of \<^verbatim>\<open>HandleOffer\<close>: the key the offer carries must be the one the URL names.\<close>

definition pin_key ::
  "go_env \<Rightarrow> (byte list \<Rightarrow> 'k option) \<Rightarrow> message \<Rightarrow> 'k client_peer \<Rightarrow> (offer_error, 'k client_peer) go_result" where
  "pin_key env parse msg p =
     (if cp_mode p = ModeURL then
        let keyText = msg_string msg ''device_pubkey'' in
        if keyText = [] then Err OfferMissingKey
        else case importDevicePubkey parse keyText of
               None \<Rightarrow> Err BadDevicePubkey
             | Some (pubkey, der) \<Rightarrow>
                 let got = uidFromPubkeyDER env der in
                 if got \<noteq> cp_uid p then Err (PubkeyMismatch got) else Ok (p\<lparr>cp_pubkey := Some pubkey\<rparr>)
      else Ok p)"

text \<open>
  \<open>answer\<close> is what setting the remote description, creating the answer and setting it as the local
  one come to. The second component of the result is the peer as it is left.
\<close>

definition HandleOffer ::
  "go_env \<Rightarrow> (byte list \<Rightarrow> 'k option) \<Rightarrow> ('k \<Rightarrow> byte list \<Rightarrow> byte list option) \<Rightarrow> (string \<Rightarrow> string + string) \<Rightarrow> byte list option
     \<Rightarrow> message \<Rightarrow> 'k client_peer \<Rightarrow> (offer_error, string \<times> string) go_result \<times> 'k client_peer" where
  "HandleOffer env parse encrypt answer random msg p =
     (let offerSDP = msg_string msg ''sdp'' in
      if offerSDP = [] then (Err OfferMissingSDP, p)
      else case pin_key env parse msg p of
        Inl e \<Rightarrow> (Err e, p)
      | Inr p1 \<Rightarrow>
          (case answer offerSDP of
             Inl e \<Rightarrow> (Err (AnswerFailed e), p1)
           | Inr localSDP \<Rightarrow>
               if cp_mode p1 = ModePair then (Ok (localSDP, []), p1)
               else
                 let fp = ExtractFingerprint localSDP in
                 if fp = [] then (Err LocalNoFingerprint, p1)
                 else case random of
                        None \<Rightarrow> (Err NoVerifyNonce, p1)
                      | Some nonce \<Rightarrow>
                          let p2 = p1\<lparr>cp_nonce := Some nonce\<rparr> in
                          (case cp_pubkey p2 of
                             None \<Rightarrow> (Err EncryptFailed, p2)
                           | Some pubkey \<Rightarrow>
                               (case encryptVerifyPayload env encrypt pubkey fp nonce (cp_code p2) of
                                  None \<Rightarrow> (Err EncryptFailed, p2)
                                | Some encrypted \<Rightarrow> (Ok (localSDP, encrypted), p2)))))"

end
