(* ===== verification/Handshake_Agreement.thy ===== *)
theory Handshake_Agreement
  imports Connection
begin

text \<open>
  The two ends of the handshake composed: an honest client and an honest listener reach the same
  verdict, and agree on the version, the capabilities and the role.
\<close>

section \<open>The listener's moves\<close>

lemma notify_all:
  "notify env (\<lambda>_ _. None) path hs s = (s\<lparr>s_calls := s_calls s @ map (\<lambda>h. OnConnect h path) hs\<rparr>, True)"
proof (induction hs arbitrary: s)
  case (Cons h hs)
  then show ?case
    by (simp add: call_def)
qed simp

lemma connect_asks:
  assumes "Required (s_pin s)" "s_version s = 0" "s_dc s = DCOpen" "sound env (JObj [(''type'', JStr ''auth_required'')])"
  shows "handleConnect env visit conn path 4 s =
    s\<lparr>s_connectPath := (if path = [] then ''/'' else path), s_version := 4,
      s_out := s_out s @ [(None, control_frame env FlagSYN (JObj [(''type'', JStr ''auth_required'')]))]\<rparr>"
  using assms by (simp add: handleConnect_def Let_def send_control_open NegotiateSWSPVersion_def SWSPVersion_def)

lemma auth_wrong:
  assumes "Required (s_pin s)" "\<not> Verify env (s_pin s) pin" "s_dc s = DCOpen" "sound env (auth_result False)"
  shows "handleAuth env visit conn pin s =
    s\<lparr>s_authFails := s_authFails s + 1, s_out := s_out s @ [(None, control_frame env (FlagSYN OR FlagFIN) (auth_result False))],
      s_dc := (if s_authFails s + 1 \<ge> 3 then DCClosed else DCOpen)\<rparr>"
  using assms by (simp add: handleAuth_def Let_def send_control_open maxAuthFails_def)

lemma ready_json_cong:
  "s_access t = s_access s \<Longrightarrow> s_handlers t = s_handlers s \<Longrightarrow> s_version t = s_version s \<Longrightarrow> ready_json t = ready_json s"
  by (simp add: ready_json_def)

lemma auth_right:
  assumes "Required (s_pin s)" "Verify env (s_pin s) pin" "s_dc s = DCOpen" "\<not> s_video s"
    "sound env (auth_result True)" "sound env (ready_json s)"
  shows "\<exists>calls. handleAuth env visit (\<lambda>_ _. None) pin s =
    s\<lparr>s_authenticated := True, s_ready := True, s_calls := calls,
      s_out := s_out s @ [(None, control_frame env (FlagSYN OR FlagFIN) (auth_result True)),
                          (None, control_frame env (FlagSYN OR FlagFIN) (ready_json s))]\<rparr>"
proof -
  define path where "path = (if s_connectPath s = [] then ''/'' else s_connectPath s)"
  define calls where "calls = s_calls s @ map (\<lambda>h. OnConnect h path) (visit_order visit s) @ [OnReady]"
  define s1 where "s1 = s\<lparr>s_authenticated := True, s_ready := True, s_calls := calls,
    s_out := s_out s @ [(None, control_frame env (FlagSYN OR FlagFIN) (auth_result True))]\<rparr>"
  have "handleAuth env visit (\<lambda>_ _. None) pin s = sendReady env s1"
    using assms(1-3,5)
    unfolding handleAuth_def Let_def path_def [symmetric] notifyHandlers_def notify_all
    by (simp add: markReady_def call_def send_control_open s1_def calls_def)
  moreover have "ready_json s1 = ready_json s"
    by (rule ready_json_cong) (simp_all add: s1_def)
  ultimately have "handleAuth env visit (\<lambda>_ _. None) pin s =
      s1\<lparr>s_out := s_out s1 @ [(None, control_frame env (FlagSYN OR FlagFIN) (ready_json s))]\<rparr>"
    using sendReady_open [of env s1] assms by (simp add: s1_def)
  then show ?thesis
    by (auto simp: s1_def)
qed

section \<open>One attempt\<close>

text \<open>The state of the conversation when the client is about to be asked for its PIN for the time \<open>r\<close>.\<close>

definition asking :: "go_env \<Rightarrow> nat \<Rightarrow> nat \<Rightarrow> client_state \<Rightarrow> session \<Rightarrow> bool" where
  "asking env r k c s \<longleftrightarrow>
     length (s_out s) = Suc k \<and> r < 3 \<and> s_authFails s = r \<and> \<not> s_closed s \<and> s_dc s = DCOpen \<and> s_version s = 4 \<and>
     Required (s_pin s) \<and> \<not> s_video s \<and> \<not> s_ready s \<and> cl_dc c = DCOpen \<and> \<not> cl_closed c \<and>
     (snd (s_out s ! k) = control_frame env FlagSYN (JObj [(''type'', JStr ''auth_required'')]) \<or>
      snd (s_out s ! k) = control_frame env (FlagSYN OR FlagFIN) (auth_result False))"

definition replies_sound :: "go_env \<Rightarrow> bool" where
  "replies_sound env \<longleftrightarrow>
     sound env (JObj [(''type'', JStr ''auth_required'')]) \<and> sound env (auth_result False) \<and> sound env (auth_result True)"

lemma asking_turn:
  assumes "asking env r k c s" "replies_sound env" "sound env (auth_json (pins r))"
  shows "talk env (Some (\<lambda>r. Inr (pins r))) (Suc n) k r c s =
    talk env (Some (\<lambda>r. Inr (pins r))) n (Suc k) (Suc r)
      (c\<lparr>cl_out := cl_out c @ [control_frame env FlagSYN (auth_json (pins r))]\<rparr>)
      (handleAuth env [] (\<lambda>_ _. None) (pins r) s)"
proof -
  have "hs_turn env (Some (\<lambda>r. Inr (pins r))) r (Ok (frame_bytes (snd (s_out s ! k)))) c =
      ask_pin env (\<lambda>r. Inr (pins r)) r c"
    using assms(1,2) client_reads_each(1,2) [of env] by (auto simp: asking_def replies_sound_def)
  moreover have "ask_pin env (\<lambda>r. Inr (pins r)) r c =
      HsGo (Suc r) (c\<lparr>cl_out := cl_out c @ [control_frame env FlagSYN (auth_json (pins r))]\<rparr>)"
    using assms(1,3) by (intro ask_pin_open) (simp_all add: asking_def)
  ultimately show ?thesis
    using assms(1,3) listener_auth [OF assms(3), of s] by (simp add: asking_def)
qed

lemma attempt_wrong:
  assumes "asking env r k c s" "replies_sound env" "sound env (auth_json (pins r))" "\<not> Verify env (s_pin s) (pins r)" "r < 2"
  shows "\<exists>c' s'. talk env (Some (\<lambda>r. Inr (pins r))) (Suc n) k r c s =
      talk env (Some (\<lambda>r. Inr (pins r))) n (Suc k) (Suc r) c' s' \<and> asking env (Suc r) (Suc k) c' s' \<and>
      s_pin s' = s_pin s \<and> s_handlers s' = s_handlers s \<and> s_access s' = s_access s"
  using assms(1,2,4,5) asking_turn [where pins = pins, OF assms(1-3), of n] auth_wrong [of s env "pins r" "[]" "\<lambda>_ _. None"]
  by (intro exI [of _ "c\<lparr>cl_out := cl_out c @ [control_frame env FlagSYN (auth_json (pins r))]\<rparr>"]
      exI [of _ "handleAuth env [] (\<lambda>_ _. None) (pins r) s"])
    (auto simp: asking_def replies_sound_def nth_append)

lemma attempt_last:
  assumes "asking env 2 k c s" "replies_sound env" "sound env (auth_json (pins 2))" "\<not> Verify env (s_pin s) (pins 2)"
  shows "\<exists>c' s'. talk env (Some (\<lambda>r. Inr (pins r))) (Suc (Suc n)) k 2 c s = (HsError TooManyPins, c', s') \<and>
      \<not> s_ready s' \<and> s_dc s' = DCClosed"
proof -
  have s': "handleAuth env [] (\<lambda>_ _. None) (pins 2) s =
      s\<lparr>s_authFails := 3, s_out := s_out s @ [(None, control_frame env (FlagSYN OR FlagFIN) (auth_result False))], s_dc := DCClosed\<rparr>"
    using auth_wrong [of s env "pins 2" "[]" "\<lambda>_ _. None"] assms(1,2,4) by (simp add: asking_def replies_sound_def)
  show ?thesis
    using asking_turn [where pins = pins, OF assms(1-3), of "Suc n"] assms(1,2) client_reads_each(2) [of env False]
    unfolding s' by (simp add: asking_def replies_sound_def nth_append)
qed

lemma attempt_right:
  assumes "asking env r k c s" "replies_sound env" "sound env (auth_json (pins r))" "Verify env (s_pin s) (pins r)"
    "sound env (ready_json s)"
  shows "\<exists>c' s'. talk env (Some (\<lambda>r. Inr (pins r))) (Suc (Suc (Suc n))) k r c s = (HsReady, c', s') \<and>
      s_ready s' \<and> s_version s' = 4 \<and> cl_version c' = 4 \<and> cl_caps c' = sort (map fst (s_handlers s)) \<and> cl_access c' = s_access s"
proof -
  obtain calls where s': "handleAuth env [] (\<lambda>_ _. None) (pins r) s =
      s\<lparr>s_authenticated := True, s_ready := True, s_calls := calls,
        s_out := s_out s @ [(None, control_frame env (FlagSYN OR FlagFIN) (auth_result True)),
                            (None, control_frame env (FlagSYN OR FlagFIN) (ready_json s))]\<rparr>"
    using auth_right [of s env "pins r" "[]"] assms by (auto simp: asking_def replies_sound_def)
  have "s_version s = 4" "length (s_out s) = Suc k"
    using assms(1) by (simp_all add: asking_def)
  then show ?thesis
    using asking_turn [where pins = pins, OF assms(1-3), of "Suc (Suc n)"] assms(2,5) client_reads_each(2) [of env True] client_reads_each(3) [of env s]
    unfolding s' by (simp add: replies_sound_def nth_append feed_def)
qed

lemma asking_ready: "asking env r k c s \<Longrightarrow> asking env r' k' c' s' \<Longrightarrow> s_handlers s' = s_handlers s \<Longrightarrow>
    s_access s' = s_access s \<Longrightarrow> ready_json s' = ready_json s"
  by (simp add: asking_def ready_json_def)

lemma attempts:
  assumes "asking env 0 k c s" "replies_sound env" "list_all (\<lambda>r. sound env (auth_json (pins r))) [0, 1, 2]" "sound env (ready_json s)"
  shows "case talk env (Some (\<lambda>r. Inr (pins r))) (Suc (Suc (Suc (Suc (Suc n))))) k 0 c s of (r, c', s') \<Rightarrow>
    if list_ex (\<lambda>i. Verify env (s_pin s) (pins i)) [0, 1, 2]
    then r = HsReady \<and> s_ready s' \<and> s_version s' = 4 \<and> cl_version c' = 4 \<and>
      cl_caps c' = sort (map fst (s_handlers s)) \<and> cl_access c' = s_access s
    else r = HsError TooManyPins \<and> \<not> s_ready s' \<and> s_dc s' = DCClosed"
proof -
  have pins: "sound env (auth_json (pins 0))" "sound env (auth_json (pins 1))" "sound env (auth_json (pins 2))"
    using assms(3) by simp_all
  show ?thesis
  proof (cases "Verify env (s_pin s) (pins 0)")
    case True
    then show ?thesis
      using attempt_right [where pins = pins, OF assms(1,2) pins(1) True assms(4), of "Suc (Suc n)"] by (auto simp del: talk.simps)
  next
    case False
    from attempt_wrong [where pins = pins, OF assms(1,2) pins(1) False, of "Suc (Suc (Suc (Suc n)))"]
    obtain c1 s1 where one: "talk env (Some (\<lambda>r. Inr (pins r))) (Suc (Suc (Suc (Suc (Suc n))))) k 0 c s =
        talk env (Some (\<lambda>r. Inr (pins r))) (Suc (Suc (Suc (Suc n)))) (Suc k) 1 c1 s1"
      and a1: "asking env 1 (Suc k) c1 s1" and f1: "s_pin s1 = s_pin s" "s_handlers s1 = s_handlers s" "s_access s1 = s_access s"
      by (auto simp del: talk.simps)
    have j1: "sound env (ready_json s1)"
      using asking_ready [OF assms(1) a1 f1(2,3)] assms(4) by simp
    show ?thesis
    proof (cases "Verify env (s_pin s) (pins 1)")
      case True
      then show ?thesis
        using attempt_right [where pins = pins, OF a1 assms(2) pins(2) _ j1, of "Suc n"] one f1 by (auto simp del: talk.simps)
    next
      case False': False
      from attempt_wrong [where pins = pins, OF a1 assms(2) pins(2), of "Suc (Suc (Suc n))"] False' f1
      obtain c2 s2 where two: "talk env (Some (\<lambda>r. Inr (pins r))) (Suc (Suc (Suc (Suc n)))) (Suc k) 1 c1 s1 =
          talk env (Some (\<lambda>r. Inr (pins r))) (Suc (Suc (Suc n))) (Suc (Suc k)) 2 c2 s2"
        and a2: "asking env 2 (Suc (Suc k)) c2 s2"
        and f2: "s_pin s2 = s_pin s" "s_handlers s2 = s_handlers s" "s_access s2 = s_access s"
        by (auto simp: numeral_2_eq_2 simp del: talk.simps)
      have j2: "sound env (ready_json s2)"
        using asking_ready [OF assms(1) a2 f2(2,3)] assms(4) by simp
      show ?thesis
        using attempt_right [where pins = pins, OF a2 assms(2) pins(3) _ j2, of n] attempt_last [where pins = pins, OF a2 assms(2) pins(3), of "Suc n"]
          one two f2 False False'
        by (cases "Verify env (s_pin s) (pins 2)") (auto simp del: talk.simps)
    qed
  qed
qed

section \<open>Properties\<close>

text \<open>The proof the listener sends is the one the client expects.\<close>

lemma verify_passes:
  assumes "sound env (verify_json (expectedNonceHash env nonce))"
  shows "verify_first env nonce (Ok (buildVerifyNonceHashFrame env nonce)) = None"
  using assms
  by (simp add: verify_first_def buildVerifyNonceHashFrame_def expectedNonceHash_def sound_def frame_round
      verify_json_def json_decode put_verify_def)

definition listener_of :: "go_env \<Rightarrow> string \<Rightarrow> string \<Rightarrow> handler list \<Rightarrow> session" where
  "listener_of env pin access hs = NewSession DCOpen (NewPIN env pin) access False hs"

definition agreed :: "session \<Rightarrow> session" where
  "agreed s = s\<lparr>s_version := 4\<rparr>"

text \<open>
  C7. The two ends of the handshake agree. The listener requires a PIN, has no video bridge, and its
  handlers accept the connection; the client may try three PINs and finds the listener's proof in the
  first frame. Then the two finish within five more frames: if one of the three PINs verifies, both
  sides are ready, with version four on both ends and with the capabilities and the role the listener
  has; if none does, the client gives up, the listener is not ready and has closed the channel. What the
  client ends with is what its handshake function returns on the frames the listener sent.
\<close>

theorem handshake_agreement:
  assumes "pin \<noteq> []" "replies_sound env" "sound env (connect_json path caps)"
    "sound env (verify_json (expectedNonceHash env nonce))"
    "list_all (\<lambda>r. sound env (auth_json (pins r))) [0, 1, 2]"
    "sound env (ready_json (agreed (listener_of env pin access hs)))"
  shows "case meet env path caps (Some (\<lambda>r. Inr (pins r))) 5 (listener_of env pin access hs) of (r, c, s) \<Rightarrow>
    handshake env nonce path caps (Some (\<lambda>r. Inr (pins r)))
      (buffered (buildVerifyNonceHashFrame env nonce)
        # meet_waits env path caps (Some (\<lambda>r. Inr (pins r))) 5 (listener_of env pin access hs)) newClient = (r, c) \<and>
    (if list_ex (\<lambda>i. Verify env (NewPIN env pin) (pins i)) [0, 1, 2]
     then r = HsReady \<and> s_ready s \<and> s_version s = 4 \<and> cl_version c = 4 \<and>
       cl_caps c = sort (map fst (s_handlers (listener_of env pin access hs))) \<and> cl_access c = access
     else r = HsError TooManyPins \<and> \<not> s_ready s \<and> s_dc s = DCClosed)"
proof -
  let ?s = "listener_of env pin access hs"
  define c where "c = newClient\<lparr>cl_out := [control_frame env FlagSYN (connect_json path caps)]\<rparr>"
  define s where "s = feed env [control_frame env FlagSYN (connect_json path caps)] ?s"
  have start: "meet env path caps pp n ?s = talk env pp n 0 0 c s" for pp n
    using assms(3)
    by (simp add: meet_def sendControlSYN_def sendRawFrame_def newClient_def sound_def ValidateFramePayload_def
        c_def s_def control_frame_def)
  have s: "s = ?s\<lparr>s_connectPath := (if path = [] then ''/'' else path), s_version := 4,
      s_out := [(None, control_frame env FlagSYN (JObj [(''type'', JStr ''auth_required'')]))]\<rparr>"
    using assms(1-3) listener_connect [OF assms(3), of ?s] connect_asks [of ?s env "[]" "\<lambda>_ _. None" path]
    by (simp add: s_def listener_of_def NewSession_def NewPIN_def Required_def replies_sound_def)
  then have ask: "asking env 0 0 c s"
    using assms(1) by (simp add: asking_def listener_of_def NewSession_def NewPIN_def Required_def c_def newClient_def)
  have "ready_json s = ready_json (agreed ?s)"
    by (rule ready_json_cong) (simp_all add: s agreed_def)
  with assms(6) have ready: "sound env (ready_json s)"
    by simp
  have fields: "s_pin s = NewPIN env pin" "s_handlers s = s_handlers ?s" "s_access s = access"
    by (simp_all add: s listener_of_def NewSession_def)
  have five: "5 = Suc (Suc (Suc (Suc (Suc 0))))"
    by simp
  obtain r c' s' where m: "meet env path caps (Some (\<lambda>r. Inr (pins r))) 5 ?s = (r, c', s')"
    by (metis prod_cases3)
  then have "talk env (Some (\<lambda>r. Inr (pins r))) (Suc (Suc (Suc (Suc (Suc 0))))) 0 0 c s = (r, c', s')"
    unfolding start five .
  then show ?thesis
    using attempts [where pins = pins and n = 0, OF ask assms(2,5) ready] meet_is_handshake [OF verify_passes [OF assms(4)] m]
    unfolding m fields by simp
qed

text \<open>A codec for the messages of one conversation: each has a number.\<close>

definition msg_table :: "json list" where
  "msg_table = [JObj [(''type'', JStr ''auth_required'')], auth_result False, auth_result True, connect_json ''/'' [''tcp''],
     auth_json ''0000'', auth_json ''1234'',
     JObj [(''caps'', JArr [JStr ''tcp'']), (''negotiated_version'', JNum 4), (''routing'', JStr ''target-prefix''),
       (''server_version'', JNum 4), (''type'', JStr ''ready'')],
     verify_json []]"

definition table_env :: go_env where
  "table_env = indexed_env msg_table"

lemma table_sound: "j \<in> set msg_table \<Longrightarrow> sound table_env j"
proof -
  assume j: "j \<in> set msg_table"
  then have "readable table_env j"
    by (simp add: table_env_def indexed_readable msg_table_def)
  then show ?thesis
    by (simp add: sound_def readable_def table_env_def indexed_env_def MaxChunkSize_def)
qed

theorem handshake_agreement_witness:
  "case meet table_env ''/'' [''tcp''] (Some (\<lambda>r. Inr (if r = 0 then ''0000'' else ''1234''))) 5
      (listener_of table_env ''1234'' [] [\<lparr>h_type = ''tcp'', h_fragments = False, h_resets = True\<rparr>]) of (r, c, s) \<Rightarrow>
    r = HsReady \<and> s_ready s \<and> cl_version c = 4 \<and> cl_caps c = [''tcp'']"
proof -
  have hash: "expectedNonceHash table_env [] = []"
    unfolding expectedNonceHash_def table_env_def indexed_env_def by code_simp
  let ?pins = "\<lambda>r :: nat. if r = 0 then ''0000'' else ''1234''"
  let ?h = "\<lparr>h_type = ''tcp'', h_fragments = False, h_resets = True\<rparr>"
  have "replies_sound table_env" "sound table_env (connect_json ''/'' [''tcp''])"
    "list_all (\<lambda>r. sound table_env (auth_json (?pins r))) [0, 1, 2]"
    "sound table_env (ready_json (agreed (listener_of table_env ''1234'' [] [?h])))"
    "sound table_env (verify_json (expectedNonceHash table_env []))"
    unfolding replies_sound_def
    by (auto intro!: table_sound simp: hash msg_table_def ready_json_def agreed_def listener_of_def NewSession_def SWSPVersion_def)
  moreover have "Verify table_env (NewPIN table_env ''1234'') ''1234''"
    by (simp add: Verify_NewPIN)
  moreover have "map fst (s_handlers (listener_of table_env ''1234'' [] [?h])) = [''tcp'']"
    by (simp add: listener_of_def NewSession_def)
  ultimately show ?thesis
    using handshake_agreement [of "''1234''" table_env "''/''" "[''tcp'']" "[]" ?pins "[]" "[?h]"] by (simp split: prod.splits)
qed

text \<open>
  C21. A silent listener does not hold the client: when the handshake is still waiting after some waits,
  each of which returned, and in the next one no message arrives until the timeout has passed, then the
  handshake ends there, with the error of the closed channel, of the closed queue or of the timeout, and
  with the client as it was; it is never taken for a success.
\<close>

theorem handshake_returns:
  assumes "list_all (\<lambda>w. recvControl w \<noteq> None) ws" "handshake env nonce path caps pp ws c = (HsWaiting, c')"
    "silent w" "expires w"
  shows "handshake env nonce path caps pp (ws @ [w]) c \<in>
    {(HsError ClosedDuringHandshake, c'), (HsError NotVerified, c'), (HsError HandshakeTimeout, c')}"
proof -
  obtain e where e: "e \<in> {ClosedDuringHandshake, NotVerified, HandshakeTimeout}" "recvControl w = Some (Inl e)"
    by (rule silent_end [OF assms(3,4)])
  have "handshake env nonce path caps pp (ws @ [w]) c = (HsError e, c')"
  proof (cases ws)
    case Nil
    then show ?thesis
      using assms(2) e(2) by (simp add: handshake_def verify_first_def)
  next
    case (Cons x xs)
    then obtain out where x: "recvControl x = Some out"
      using assms(1) by auto
    have v: "verify_first env nonce out = None"
      using assms(2) Cons x by (auto simp: handshake_def split: option.splits)
    obtain c1 where "sendControlSYN (js_print env (connect_json path caps)) c = Some c1" "hs_loop env pp 0 xs c1 = (HsWaiting, c')"
      using assms(2) Cons x v by (auto simp: handshake_def split: option.splits)
    then show ?thesis
      using hs_loop_ends [OF e(2), of xs env pp 0 c1 c'] assms(1) Cons x v by (simp add: handshake_def)
  qed
  with e(1) show ?thesis by auto
qed

text \<open>A channel found closed when the second look comes, half a minute later: two arms are ready.\<close>

definition hush :: "moment list" where
  "hush = [\<lparr>mo_at = 0, mo_msg = None, mo_queueClosed = False, mo_channelClosed = False, mo_pick = 0\<rparr>,
     \<lparr>mo_at = handshakeTimeout, mo_msg = None, mo_queueClosed = False, mo_channelClosed = True, mo_pick = 1\<rparr>]"

theorem handshake_returns_witness:
  "handshake table_env [] ''/'' [''tcp''] None ([] @ [hush]) newClient \<in>
    {(HsError ClosedDuringHandshake, newClient), (HsError NotVerified, newClient), (HsError HandshakeTimeout, newClient)}"
proof (rule handshake_returns)
  show "list_all (\<lambda>w. recvControl w \<noteq> None) []" "handshake table_env [] ''/'' [''tcp''] None [] newClient = (HsWaiting, newClient)"
    by (simp_all add: handshake_def)
  show "silent hush" "expires hush"
    by (simp_all add: hush_def silent_def expires_def)
qed

text \<open>
  C22. An established client speaks a version it knows: whatever a listener claims, a handshake that
  succeeds leaves version two, three or four, and never one above the
  listener's own.
\<close>

theorem client_version_known:
  "case handshake env nonce path caps pp ws c of (r, c') \<Rightarrow>
    if r = HsReady then cl_version c' \<in> {2, 3, 4} \<and> cl_version c' \<le> NegotiateSWSPVersion (cl_serverVersion c') else True"
proof -
  have "stop_ok r c' \<or> r \<noteq> HsReady" if "handshake env nonce path caps pp ws c = (r, c')" for r c'
    using that hs_loop_stop [of env pp 0] by (auto simp: handshake_def split: list.splits option.splits)
  then show ?thesis
    by (auto simp: stop_ok_def split: prod.split)
qed

end
