(* ===== verification/ClientStream.thy ===== *)
theory ClientStream
  imports Flow
begin

text \<open>
  \<^verbatim>\<open>internal/client/session.go\<close>, the state of one stream on the connecting side, and the two
  flow-controlled links it forms with the listener's stream state of theory \<open>Flow\<close>. The worker
  of \<^verbatim>\<open>deliverStream\<close> holds the frame it is handing to the caller.
\<close>

section \<open>State\<close>

record client_stream =
  cs_id :: u32
  cs_pending :: "frame list"
  cs_hand :: "frame option"
  cs_abandoned :: bool
  cs_queuedBytes :: int
  cs_queuedFrames :: int
  cs_receivedBytes :: nat
  cs_consumedBytes :: nat
  cs_advertisedMax :: nat
  cs_lastUpdateAt :: nat
  cs_windowActive :: bool
  cs_sentBytes :: nat
  cs_sendLimit :: nat
  cs_streamErr :: "string option"
  cs_inboundFIN :: bool
  cs_inboundDelivered :: bool
  cs_outboundFIN :: bool

definition newClientStream :: "u32 \<Rightarrow> client_stream" where
  "newClientStream i =
     \<lparr>cs_id = i, cs_pending = [], cs_hand = None, cs_abandoned = False, cs_queuedBytes = 0, cs_queuedFrames = 0,
      cs_receivedBytes = 0, cs_consumedBytes = 0, cs_advertisedMax = 0, cs_lastUpdateAt = 0, cs_windowActive = False,
      cs_sentBytes = 0, cs_sendLimit = 0, cs_streamErr = None, cs_inboundFIN = False, cs_inboundDelivered = False,
      cs_outboundFIN = False\<rparr>"

datatype client_error = QueueFull | ReceiveWindowExceeded | ClientStreamClosed | StreamFinished | StreamNotStarted

section \<open>Receiving\<close>

definition releaseFrame :: "frame \<Rightarrow> client_stream \<Rightarrow> client_stream" where
  "releaseFrame f st =
     st\<lparr>cs_queuedFrames := cs_queuedFrames st - 1, cs_queuedBytes := cs_queuedBytes st - int (length (Payload f))\<rparr>"

text \<open>
  \<open>first\<close> is the choice the final select makes when the stream is abandoned and the channel has
  room at the same time.
\<close>

definition clientEnqueue :: "bool \<Rightarrow> frame \<Rightarrow> bool \<Rightarrow> client_stream \<Rightarrow> client_stream \<times> client_error option" where
  "clientEnqueue first f enforceWindow st =
     (let flowBytes = FlowBytes f; bytes = int (length (Payload f)) in
      if cs_inboundFIN st then (st, Some StreamFinished)
      else if enforceWindow \<and> \<not> cs_windowActive st then (st, Some StreamNotStarted)
      else if enforceWindow \<and> (cs_receivedBytes st > cs_advertisedMax st \<or> flowBytes > cs_advertisedMax st - cs_receivedBytes st)
      then (st, Some ReceiveWindowExceeded)
      else if cs_queuedFrames st \<ge> int MaxQueuedStreamFrames \<or> cs_queuedBytes st + bytes > int InitialStreamWindow
      then (st, Some QueueFull)
      else
        let st1 = st\<lparr>cs_queuedFrames := cs_queuedFrames st + 1, cs_queuedBytes := cs_queuedBytes st + bytes,
                     cs_receivedBytes := cs_receivedBytes st + flowBytes,
                     cs_inboundFIN := (cs_inboundFIN st \<or> IsFIN f)\<rparr>
        in if length (cs_pending st1) < MaxQueuedStreamFrames \<and> \<not> (cs_abandoned st1 \<and> first)
           then (st1\<lparr>cs_pending := cs_pending st1 @ [f]\<rparr>, None)
           else if cs_abandoned st1 then (releaseFrame f st1, Some ClientStreamClosed)
           else (releaseFrame f st1, Some QueueFull))"

definition clientConsume :: "frame \<Rightarrow> bool \<Rightarrow> client_stream \<Rightarrow> client_stream \<times> nat option" where
  "clientConsume f flowControl st0 =
     (let flowBytes = FlowBytes f; st = releaseFrame f st0 in
      if \<not> flowControl \<or> flowBytes = 0 then (st, None)
      else
        let st1 = st\<lparr>cs_consumedBytes := cs_consumedBytes st + flowBytes\<rparr> in
        if cs_consumedBytes st1 - cs_lastUpdateAt st1 < StreamWindowUpdateThreshold then (st1, None)
        else
          let adv = InitialStreamWindow + cs_consumedBytes st1
          in (st1\<lparr>cs_lastUpdateAt := cs_consumedBytes st1, cs_advertisedMax := adv\<rparr>, Some adv))"

definition updateSendLimit :: "nat \<Rightarrow> client_stream \<Rightarrow> client_stream" where
  "updateSendLimit maxBytes st = (if maxBytes > cs_sendLimit st then st\<lparr>cs_sendLimit := maxBytes\<rparr> else st)"

definition activateInitialWindow :: "client_stream \<Rightarrow> client_stream" where
  "activateInitialWindow st =
     (if \<not> cs_windowActive st
      then updateSendLimit InitialStreamWindow (st\<lparr>cs_advertisedMax := InitialStreamWindow, cs_windowActive := True\<rparr>)
      else st)"

text \<open>One turn of \<^verbatim>\<open>reserveSend\<close>; the difference is taken in 64 bits.\<close>

definition clientReserve :: "nat \<Rightarrow> client_stream \<Rightarrow> client_stream reserve_result" where
  "clientReserve n st =
     (if cs_streamErr st \<noteq> None then NotReserved
      else if n \<le> (cs_sendLimit st + 2 ^ 64 - cs_sentBytes st) mod 2 ^ 64
      then Reserved (st\<lparr>cs_sentBytes := cs_sentBytes st + n\<rparr>)
      else Blocked)"

definition failClientStream :: "string \<Rightarrow> client_stream \<Rightarrow> client_stream" where
  "failClientStream err st =
     (let st1 = (if cs_streamErr st = None then st\<lparr>cs_streamErr := Some err\<rparr> else st)
      in st1\<lparr>cs_abandoned := True\<rparr>)"

section \<open>The delivery worker\<close>

datatype deliver = DTake | DHand | DDrop | DAbandon string

definition deliver_step :: "deliver \<Rightarrow> client_stream \<Rightarrow> client_stream \<times> nat option" where
  "deliver_step e st =
     (case e of
        DTake \<Rightarrow>
          (case (cs_hand st, cs_pending st) of
             (None, f # fs) \<Rightarrow> (st\<lparr>cs_hand := Some f, cs_pending := fs\<rparr>, None)
           | _ \<Rightarrow> (st, None))
      | DHand \<Rightarrow>
          (case cs_hand st of
             Some f \<Rightarrow>
               (let (st1, u) = clientConsume f True (st\<lparr>cs_hand := None\<rparr>)
                in (st1\<lparr>cs_inboundDelivered := (cs_inboundDelivered st1 \<or> IsFIN f)\<rparr>, if IsFIN f then None else u))
           | None \<Rightarrow> (st, None))
      | DDrop \<Rightarrow>
          (case cs_hand st of
             Some f \<Rightarrow> if cs_abandoned st then (releaseFrame f (st\<lparr>cs_hand := None\<rparr>), None) else (st, None)
           | None \<Rightarrow> (st, None))
      | DAbandon err \<Rightarrow> (failClientStream err st, None))"

section \<open>Invariant\<close>

definition held :: "client_stream \<Rightarrow> frame list" where
  "held st = (case cs_hand st of None \<Rightarrow> [] | Some f \<Rightarrow> [f]) @ cs_pending st"

definition cs_inv :: "client_stream \<Rightarrow> bool" where
  "cs_inv st \<longleftrightarrow>
     cs_queuedFrames st = int (length (held st)) \<and>
     cs_queuedBytes st = int (sum_list (map (length \<circ> Payload) (held st))) \<and>
     cs_queuedFrames st \<le> int MaxQueuedStreamFrames \<and>
     cs_queuedBytes st \<le> int InitialStreamWindow \<and>
     cs_receivedBytes st \<le> cs_advertisedMax st \<and>
     cs_lastUpdateAt st \<le> cs_consumedBytes st \<and>
     cs_advertisedMax st = (if cs_windowActive st then cs_lastUpdateAt st + InitialStreamWindow else 0) \<and>
     cs_consumedBytes st + sum_list (map FlowBytes (held st)) \<le> cs_receivedBytes st \<and>
     (\<not> cs_windowActive st \<longrightarrow> held st = [] \<and> cs_lastUpdateAt st = 0) \<and>
     cs_sentBytes st \<le> cs_sendLimit st \<and> cs_sendLimit st < 2 ^ 64"

definition client_accept :: "frame \<Rightarrow> client_stream \<Rightarrow> client_error + client_stream" where
  "client_accept f st = (case clientEnqueue False f True st of (st', None) \<Rightarrow> Inr st' | (_, Some e) \<Rightarrow> Inl e)"

definition client_reserve :: "nat \<Rightarrow> client_stream \<Rightarrow> client_stream option" where
  "client_reserve n st = (case clientReserve n st of Reserved st' \<Rightarrow> Some st' | _ \<Rightarrow> None)"

definition client_raise :: "nat \<Rightarrow> client_stream \<Rightarrow> client_stream" where
  "client_raise m st = updateSendLimit (m mod 2 ^ 64) st"

lemma cs_inv_new: "cs_inv (newClientStream i)"
  by (simp add: cs_inv_def newClientStream_def held_def)

lemma cs_inv_activate [inv_step]: "cs_inv st \<Longrightarrow> cs_inv (activateInitialWindow st)"
  by (auto simp: cs_inv_def held_def activateInitialWindow_def updateSendLimit_def InitialStreamWindow_def)

lemma cs_inv_accept [inv_step]: "cs_inv st \<Longrightarrow> client_accept f st = Inr st' \<Longrightarrow> cs_inv st'"
  by (auto simp: client_accept_def clientEnqueue_def cs_inv_def held_def Let_def split: if_splits prod.splits option.splits)

lemma cs_inv_raise [inv_step]: "cs_inv st \<Longrightarrow> cs_inv (client_raise m st)"
  by (auto simp: cs_inv_def held_def client_raise_def updateSendLimit_def)

lemma clientReserve_nowrap:
  assumes "cs_inv st"
  shows "clientReserve n st =
    (if cs_streamErr st \<noteq> None then NotReserved
     else if cs_sentBytes st + n \<le> cs_sendLimit st then Reserved (st\<lparr>cs_sentBytes := cs_sentBytes st + n\<rparr>)
     else Blocked)"
proof -
  have "cs_sentBytes st \<le> cs_sendLimit st" "cs_sendLimit st < 2 ^ 64"
    using assms by (simp_all add: cs_inv_def)
  then have "(cs_sendLimit st + 2 ^ 64 - cs_sentBytes st) mod 2 ^ 64 = cs_sendLimit st - cs_sentBytes st"
    by (simp add: mod_if)
  then show ?thesis
    using \<open>cs_sentBytes st \<le> cs_sendLimit st\<close> by (auto simp: clientReserve_def)
qed

lemma cs_inv_reserve [inv_step]: "cs_inv st \<Longrightarrow> client_reserve n st = Some st' \<Longrightarrow> cs_inv st'"
  using clientReserve_nowrap [of st n]
  by (auto simp: client_reserve_def cs_inv_def held_def split: if_splits)

lemma consume_step_inv:
  assumes "cs_inv st" "cs_hand st = Some f" "clientConsume f True (st\<lparr>cs_hand := None\<rparr>) = (st', u)"
  shows "cs_inv st'" "cs_receivedBytes st' = cs_receivedBytes st" "cs_advertisedMax st \<le> cs_advertisedMax st'"
    "case u of None \<Rightarrow> True | Some m \<Rightarrow> m = cs_advertisedMax st'"
  using assms
  by (auto simp: clientConsume_def releaseFrame_def cs_inv_def held_def Let_def split: if_splits)

lemma cs_inv_deliver:
  assumes "cs_inv st" "deliver_step e st = (st', u)"
  shows "cs_inv st' \<and> cs_receivedBytes st' = cs_receivedBytes st \<and> cs_advertisedMax st \<le> cs_advertisedMax st' \<and>
    (case u of None \<Rightarrow> True | Some m \<Rightarrow> m \<le> cs_advertisedMax st')"
proof (cases e)
  case DTake
  then show ?thesis
    using assms by (auto simp: deliver_step_def cs_inv_def held_def split: option.splits list.splits)
next
  case DHand
  show ?thesis
  proof (cases "cs_hand st")
    case None
    then show ?thesis using DHand assms by (auto simp: deliver_step_def)
  next
    case (Some f)
    obtain st1 v where c: "clientConsume f True (st\<lparr>cs_hand := None\<rparr>) = (st1, v)" by fastforce
    have "st' = st1\<lparr>cs_inboundDelivered := (cs_inboundDelivered st1 \<or> IsFIN f)\<rparr>" "u = (if IsFIN f then None else v)"
      using assms(2) DHand Some c by (auto simp: deliver_step_def)
    then show ?thesis
      using consume_step_inv [OF assms(1) Some c] by (auto simp: cs_inv_def held_def split: option.splits)
  qed
next
  case DDrop
  then show ?thesis
    using assms by (auto simp: deliver_step_def releaseFrame_def cs_inv_def held_def split: option.splits if_splits)
next
  case (DAbandon err)
  then show ?thesis
    using assms by (auto simp: deliver_step_def failClientStream_def Let_def cs_inv_def held_def)
qed

section \<open>The credit contract, both roles\<close>

interpretation client_send: credit_sender cs_sentBytes cs_sendLimit client_reserve client_raise cs_inv
proof
  fix s s' n m
  assume inv: "cs_inv s"
  show "client_reserve n s = Some s' \<Longrightarrow> cs_sentBytes s' = cs_sentBytes s + n \<and> cs_sendLimit s' = cs_sendLimit s \<and> cs_inv s'"
    using cs_inv_reserve [OF inv, of n s'] clientReserve_nowrap [OF inv, of n]
    by (auto simp: client_reserve_def split: if_splits)
  show "cs_sentBytes (client_raise m s) = cs_sentBytes s \<and> cs_sendLimit (client_raise m s) \<le> max (cs_sendLimit s) m \<and> cs_inv (client_raise m s)"
    using cs_inv_raise [OF inv, of m] mod_less_eq_dividend [of m "2 ^ 64"]
    by (auto simp: client_raise_def updateSendLimit_def le_max_iff_disj)
  show "cs_sentBytes s \<le> cs_sendLimit s"
    using inv by (simp add: cs_inv_def)
qed

interpretation client_recv: credit_receiver cs_receivedBytes cs_advertisedMax client_accept
  "\<lambda>e. e = ReceiveWindowExceeded" deliver_step cs_inv
proof
  fix r r' f e c u
  assume inv: "cs_inv r"
  show "client_accept f r = Inr r' \<Longrightarrow> cs_receivedBytes r' = cs_receivedBytes r + FlowBytes f \<and> cs_advertisedMax r' = cs_advertisedMax r \<and> cs_inv r'"
    using cs_inv_accept [OF inv]
    by (auto simp: client_accept_def clientEnqueue_def Let_def split: if_splits prod.splits option.splits)
  show "client_accept f r = Inl e \<Longrightarrow> e = ReceiveWindowExceeded \<Longrightarrow> cs_advertisedMax r < cs_receivedBytes r + FlowBytes f"
    by (auto simp: client_accept_def clientEnqueue_def Let_def split: if_splits prod.splits option.splits)
  show "deliver_step c r = (r', u) \<Longrightarrow> cs_receivedBytes r' = cs_receivedBytes r \<and> cs_advertisedMax r \<le> cs_advertisedMax r' \<and> cs_inv r' \<and>
      (case u of None \<Rightarrow> True | Some m \<Rightarrow> m \<le> cs_advertisedMax r')"
    using cs_inv_deliver [OF inv] by blast
qed

text \<open>Uploads run from the client's stream state to the listener's, downloads the other way.\<close>

interpretation up: credit_link cs_sentBytes cs_sendLimit client_reserve client_raise cs_inv
  st_received st_advertised enqueue flow_violation work_step "\<lambda>st. st_flow st \<and> st_inv st"
  by unfold_locales

interpretation down: credit_link st_sent st_sendMax flow_reserve updateSendMax "\<lambda>st. st_flow st \<and> st_inv st"
  cs_receivedBytes cs_advertisedMax client_accept "\<lambda>e. e = ReceiveWindowExceeded" deliver_step cs_inv
  by unfold_locales

definition up_start :: "u32 \<Rightarrow> string \<Rightarrow> (client_stream, stream_state) link" where
  "up_start i ty = \<lparr>k_sender = activateInitialWindow (newClientStream i), k_receiver = newStreamState i ty True,
     k_flight = [], k_updates = []\<rparr>"

definition down_start :: "u32 \<Rightarrow> string \<Rightarrow> (stream_state, client_stream) link" where
  "down_start i ty = \<lparr>k_sender = newStreamState i ty True, k_receiver = activateInitialWindow (newClientStream i),
     k_flight = [], k_updates = []\<rparr>"

lemma up_start_balanced: "up.balanced (up_start i ty)"
  using cs_inv_activate [OF cs_inv_new [of i]] st_inv_new [of i ty True]
  by (simp add: up.balanced_def up_start_def newStreamState_def activateInitialWindow_def newClientStream_def updateSendLimit_def
      InitialStreamWindow_def)

lemma down_start_balanced: "down.balanced (down_start i ty)"
  using cs_inv_activate [OF cs_inv_new [of i]] st_inv_new [of i ty True]
  by (simp add: down.balanced_def down_start_def newStreamState_def activateInitialWindow_def newClientStream_def updateSendLimit_def
      InitialStreamWindow_def)

section \<open>Properties\<close>

text \<open>
  C23. Neither end ever accuses the other of exceeding its window: over any interleaving of writes
  that wait for credit, arrivals, consumption and window updates, an upload never ends in the
  listener's flow control violation and a download never in the client's.
\<close>

theorem honest_peers_never_violate:
  "link_trace client_reserve client_raise enqueue work_step es (up_start i ty) \<noteq>
     Err (StreamReceiveError ''flow_control_violation'') \<and>
   link_trace flow_reserve updateSendMax client_accept deliver_step es' (down_start i ty) \<noteq> Err ReceiveWindowExceeded"
  using up.trace_no_violation [OF up_start_balanced, of es i ty] down.trace_no_violation [OF down_start_balanced, of es' i ty]
  by (auto simp: flow_violation_def)

section \<open>The SYN's bytes are outside the window but inside the queue\<close>

definition syn_frame :: frame where
  "syn_frame = \<lparr>StreamID = 1, Flags = FlagSYN, Payload = [0]\<rparr>"

definition full_frame :: frame where
  "full_frame = \<lparr>StreamID = 1, Flags = FlagDAT, Payload = replicate MaxChunkSize 0\<rparr>"

lemma full_frame_simps: "FlowBytes full_frame = MaxChunkSize" "length (Payload full_frame) = MaxChunkSize"
    "\<not> IsFIN full_frame" "FlowBytes syn_frame = 0" "length (Payload syn_frame) = 1" "\<not> IsFIN syn_frame"
  by (simp_all add: full_frame_def syn_frame_def FlowBytes_def IsSYN_def IsFIN_def FlagDAT_def FlagSYN_def FlagFIN_def)

abbreviation up_trace :: "work link_event list \<Rightarrow> (client_stream, stream_state) link \<Rightarrow>
    recv_error + (client_stream, stream_state) link" where
  "up_trace \<equiv> link_trace client_reserve client_raise enqueue work_step"

lemma up_writes:
  assumes "cs_inv (k_sender k)" "cs_streamErr (k_sender k) = None"
    and "cs_sentBytes (k_sender k) + n * MaxChunkSize \<le> cs_sendLimit (k_sender k)"
  shows "up_trace (replicate n (Write full_frame) @ es) k =
    up_trace es (k\<lparr>k_sender := (k_sender k)\<lparr>cs_sentBytes := cs_sentBytes (k_sender k) + n * MaxChunkSize\<rparr>,
                   k_flight := k_flight k @ replicate n full_frame\<rparr>)"
  using assms
proof (induction n arbitrary: k)
  case (Suc n)
  let ?s = "(k_sender k)\<lparr>cs_sentBytes := cs_sentBytes (k_sender k) + MaxChunkSize\<rparr>"
  have r: "client_reserve MaxChunkSize (k_sender k) = Some ?s"
    using clientReserve_nowrap [OF Suc.prems(1)] Suc.prems by (simp add: client_reserve_def)
  then have "cs_inv ?s" using cs_inv_reserve [OF Suc.prems(1)] by blast
  with Suc.prems Suc.IH [of "k\<lparr>k_sender := ?s, k_flight := k_flight k @ [full_frame]\<rparr>"] r show ?case
    by (simp add: link_do_def full_frame_simps algebra_simps)
qed simp

definition bump :: "nat \<Rightarrow> stream_state \<Rightarrow> stream_state" where
  "bump n st = st\<lparr>st_received := st_received st + n * MaxChunkSize, st_queuedFrames := st_queuedFrames st + int n,
     st_queuedBytes := st_queuedBytes st + int (n * MaxChunkSize), st_queue := st_queue st @ replicate n full_frame\<rparr>"

lemma enqueue_full_frame:
  assumes "st_inv st" "\<not> st_closed st" "\<not> st_receiveQueuedFIN st"
    and "st_received st + MaxChunkSize \<le> st_advertised st" "st_queuedFrames st < int MaxQueuedStreamFrames"
  shows "enqueue full_frame st =
    (if st_queuedBytes st + int MaxChunkSize \<le> int InitialStreamWindow then Ok (bump 1 st)
     else Err (StreamReceiveError ''receive_overflow''))"
  using assms channel_never_full [OF assms(1)]
  by (auto simp: enqueue_def full_frame_simps bump_def Let_def)

lemma up_arrivals:
  assumes "st_inv (k_receiver k)" "\<not> st_closed (k_receiver k)" "\<not> st_receiveQueuedFIN (k_receiver k)"
    and "st_received (k_receiver k) + n * MaxChunkSize \<le> st_advertised (k_receiver k)"
    and "st_queuedFrames (k_receiver k) + int n \<le> int MaxQueuedStreamFrames"
    and "st_queuedBytes (k_receiver k) + int (n * MaxChunkSize) \<le> int InitialStreamWindow"
    and "k_flight k = replicate n full_frame @ fs"
  shows "st_inv (bump n (k_receiver k)) \<and>
    up_trace (replicate n Arrive @ es) k = up_trace es (k\<lparr>k_receiver := bump n (k_receiver k), k_flight := fs\<rparr>)"
  using assms
proof (induction n arbitrary: k)
  case 0
  then show ?case by (cases k) (simp add: bump_def)
next
  case (Suc n)
  let ?r = "bump 1 (k_receiver k)"
  have "int MaxChunkSize \<le> int (Suc n * MaxChunkSize)" by simp
  then have "st_queuedBytes (k_receiver k) + int MaxChunkSize \<le> int InitialStreamWindow"
    using Suc.prems(6) by linarith
  then have e: "enqueue full_frame (k_receiver k) = Ok ?r"
    using enqueue_full_frame [OF Suc.prems(1-3)] Suc.prems(4,5) by simp
  then have "st_inv ?r" using enqueue_inv Suc.prems(1) by blast
  moreover have "bump n ?r = bump (Suc n) (k_receiver k)"
    by (simp add: bump_def algebra_simps)
  ultimately show ?case
    using e Suc.prems Suc.IH [of "k\<lparr>k_receiver := ?r, k_flight := replicate n full_frame @ fs\<rparr>"]
    by (simp add: link_do_def) (simp add: bump_def)
qed

lemma up_after_syn:
  "up_trace (Write syn_frame # Arrive # es) (up_start i ty) =
   up_trace es ((up_start i ty)\<lparr>k_receiver := (newStreamState i ty True)\<lparr>st_queuedFrames := 1, st_queuedBytes := 1,
      st_queue := [syn_frame]\<rparr>\<rparr>)"
proof -
  have "client_reserve 0 (activateInitialWindow (newClientStream i)) = Some (activateInitialWindow (newClientStream i))"
    by (simp add: client_reserve_def clientReserve_def activateInitialWindow_def updateSendLimit_def newClientStream_def)
  moreover have "enqueue syn_frame (newStreamState i ty True) =
      Ok ((newStreamState i ty True)\<lparr>st_queuedFrames := 1, st_queuedBytes := 1, st_queue := [syn_frame]\<rparr>)"
    by (simp add: enqueue_def full_frame_simps newStreamState_def MaxQueuedStreamFrames_def InitialStreamWindow_def Let_def)
  ultimately show ?thesis
    by (simp add: link_do_def full_frame_simps up_start_def)
qed

text \<open>
  The initial window cannot be used in full while the opening frame waits: a client that opens a
  stream with a one-byte SYN and then writes exactly the one mebibyte the SYN grants, in 32 frames,
  keeps its side of the credit contract, yet the listener resets the stream with a receive overflow
  if its worker has not finished with the SYN, because the queue bound counts the SYN's bytes and the
  window does not.
\<close>

theorem initial_window_overflows:
  "up_trace (Write syn_frame # Arrive # replicate 32 (Write full_frame) @ replicate 31 Arrive @ [Arrive]) (up_start i ty) =
     Err (StreamReceiveError ''receive_overflow'') \<and>
   sum_list (map FlowBytes (replicate 32 full_frame)) = InitialStreamWindow"
proof -
  let ?r = "(newStreamState i ty True)\<lparr>st_queuedFrames := 1, st_queuedBytes := 1, st_queue := [syn_frame]\<rparr>"
  let ?k = "(up_start i ty)\<lparr>k_receiver := ?r\<rparr>"
  let ?k2 = "?k\<lparr>k_sender := (k_sender ?k)\<lparr>cs_sentBytes := cs_sentBytes (k_sender ?k) + 32 * MaxChunkSize\<rparr>,
      k_flight := k_flight ?k @ replicate 32 full_frame\<rparr>"
  have s: "cs_inv (k_sender ?k)" "cs_streamErr (k_sender ?k) = None"
      "cs_sentBytes (k_sender ?k) + 32 * MaxChunkSize \<le> cs_sendLimit (k_sender ?k)"
    using cs_inv_activate [OF cs_inv_new [of i]]
    by (simp_all add: up_start_def activateInitialWindow_def updateSendLimit_def newClientStream_def MaxChunkSize_def InitialStreamWindow_def)
  have inv: "st_inv ?r"
    by (simp add: st_inv_defs newStreamState_def full_frame_simps InitialStreamWindow_def MaxQueuedStreamFrames_def StreamWindowUpdateThreshold_def)
  have fl: "k_flight ?k2 = replicate 31 full_frame @ [full_frame]"
    using replicate_append_same [of 31 full_frame] by (simp add: up_start_def flip: replicate_Suc)
  have arr: "st_inv (bump 31 ?r) \<and> up_trace (replicate 31 Arrive @ [Arrive]) ?k2 =
      up_trace [Arrive] (?k2\<lparr>k_receiver := bump 31 ?r, k_flight := [full_frame]\<rparr>)"
    using up_arrivals [of ?k2 31 "[full_frame]" "[Arrive]"] inv fl
    by (simp add: newStreamState_def MaxChunkSize_def InitialStreamWindow_def MaxQueuedStreamFrames_def)
  have "enqueue full_frame (bump 31 ?r) = Err (StreamReceiveError ''receive_overflow'')"
    using enqueue_full_frame [of "bump 31 ?r"] arr
    by (simp add: bump_def newStreamState_def MaxChunkSize_def InitialStreamWindow_def MaxQueuedStreamFrames_def)
  then have "up_trace [Arrive] (?k2\<lparr>k_receiver := bump 31 ?r, k_flight := [full_frame]\<rparr>) = Err (StreamReceiveError ''receive_overflow'')"
    by (simp add: link_do_def)
  then show ?thesis
    using up_after_syn [of "replicate 32 (Write full_frame) @ replicate 31 Arrive @ [Arrive]" i ty]
      up_writes [OF s, of "replicate 31 Arrive @ [Arrive]"] arr
    by (simp only: sum_list_replicate map_replicate full_frame_simps) (simp add: MaxChunkSize_def InitialStreamWindow_def)
qed

end
