(* ===== verification/ClientSession.thy ===== *)
theory ClientSession
  imports ClientHandshake ClientStream
begin

text \<open>
  \<^verbatim>\<open>internal/client/session.go\<close>, the established session of the connecting side: the dispatcher,
  the streams a caller opens, their delivery workers and writers, and the teardown. As on the listener,
  stream objects live in a heap and are named by address, a writer inside \<^verbatim>\<open>sendFrame\<close> has a stage,
  and the goroutine that \<^verbatim>\<open>failStream\<close> starts is part of the state.
\<close>

section \<open>State\<close>

record client_session =
  cx_base :: client_state
  cx_next :: u32
  cx_heap :: "client_stream list"
  cx_streams :: "u32 \<Rightarrow> nat option"
  cx_writers :: "(nat \<times> frame \<times> writer_stage) list"
  cx_tasks :: "(nat \<times> string \<times> string) list"

definition newClientSession :: "client_state \<Rightarrow> client_session" where
  "newClientSession c = \<lparr>cx_base = c, cx_next = 1, cx_heap = [], cx_streams = Map.empty, cx_writers = [], cx_tasks = []\<rparr>"

abbreviation cstrm :: "client_session \<Rightarrow> nat \<Rightarrow> client_stream" where
  "cstrm s p \<equiv> cx_heap s ! p"

definition set_cstrm :: "nat \<Rightarrow> client_stream \<Rightarrow> client_session \<Rightarrow> client_session" where
  "set_cstrm p st s = s\<lparr>cx_heap := (cx_heap s)[p := st]\<rparr>"

definition flowControlEnabled :: "client_session \<Rightarrow> bool" where
  "flowControlEnabled s \<longleftrightarrow> cl_version (cx_base s) \<ge> 4"

definition sendRaw :: "u32 \<Rightarrow> u16 \<Rightarrow> byte list \<Rightarrow> client_session \<Rightarrow> client_session \<times> bool" where
  "sendRaw i fl pl s = (case sendRawFrame i fl pl (cx_base s) of None \<Rightarrow> (s, False) | Some c \<Rightarrow> (s\<lparr>cx_base := c\<rparr>, True))"

section \<open>Streams\<close>

definition OpenStream :: "client_session \<Rightarrow> client_session \<times> nat" where
  "OpenStream s =
     (let i = cx_next s; p = length (cx_heap s); s1 = s\<lparr>cx_next := i + 2\<rparr> in
      if cl_closed (cx_base s)
      then (s1\<lparr>cx_heap := cx_heap s @ [failClientStream ''data channel closed'' (newClientStream i)]\<rparr>, p)
      else (s1\<lparr>cx_heap := cx_heap s @ [newClientStream i], cx_streams := (cx_streams s)(i \<mapsto> p)\<rparr>, p))"

definition detachStream :: "nat \<Rightarrow> client_session \<Rightarrow> client_session \<times> bool" where
  "detachStream p s =
     (if cx_streams s (cs_id (cstrm s p)) = Some p
      then (s\<lparr>cx_streams := (cx_streams s)(cs_id (cstrm s p) := None)\<rparr>, True) else (s, False))"

definition detachFinishedStream :: "nat \<Rightarrow> client_session \<Rightarrow> client_session" where
  "detachFinishedStream p s =
     (if cs_inboundDelivered (cstrm s p) \<and> cs_outboundFIN (cstrm s p) then fst (detachStream p s) else s)"

definition clientFailStream :: "nat \<Rightarrow> string \<Rightarrow> string \<Rightarrow> bool \<Rightarrow> client_session \<Rightarrow> client_session" where
  "clientFailStream p code message notifyPeer s =
     (case detachStream p s of
        (s1, False) \<Rightarrow> s
      | (s1, True) \<Rightarrow>
          (let s2 = set_cstrm p (failClientStream message (cstrm s1 p)) s1
           in if notifyPeer then s2\<lparr>cx_tasks := cx_tasks s2 @ [(p, code, message)]\<rparr> else s2))"

definition markClosed :: "client_session \<Rightarrow> client_session" where
  "markClosed s = s\<lparr>cx_base := (cx_base s)\<lparr>cl_closed := True\<rparr>\<rparr>"

definition finishStreams :: "client_session \<Rightarrow> client_session" where
  "finishStreams s =
     (let s1 = markClosed s in
      s1\<lparr>cx_streams := Map.empty,
         cx_heap := map (\<lambda>p. if cx_streams s (cs_id (cstrm s p)) = Some p then (cstrm s p)\<lparr>cs_abandoned := True\<rparr> else cstrm s p)
                      [0..<length (cx_heap s)]\<rparr>)"

definition CloseClient :: "client_session \<Rightarrow> client_session" where
  "CloseClient s =
     (let s1 = finishStreams s in
      if cl_dc (cx_base s1) = DCNil then s1 else s1\<lparr>cx_base := (cx_base s1)\<lparr>cl_dc := DCClosed\<rparr>\<rparr>)"

definition CloseStream :: "nat \<Rightarrow> client_session \<Rightarrow> client_session" where
  "CloseStream p s =
     (if flowControlEnabled s \<or> \<not> cs_outboundFIN (cstrm s p)
      then clientFailStream p ''cancelled'' ''stream closed'' True s
      else case detachStream p s of
             (s1, True) \<Rightarrow> set_cstrm p (failClientStream ''stream closed'' (cstrm s1 p)) s1
           | (s1, False) \<Rightarrow> s1)"

section \<open>Control messages\<close>

definition clientResetMalformed :: "go_env \<Rightarrow> byte list \<Rightarrow> client_session \<Rightarrow> client_session" where
  "clientResetMalformed env payload s =
     (case Unmarshal put_target 0 (js_parse env payload) of
        (target, ok) \<Rightarrow>
          if \<not> ok \<or> target = 0 then s
          else case cx_streams s (of_nat target) of
                 None \<Rightarrow> s
               | Some p \<Rightarrow> clientFailStream p ''invalid_control'' (js_error env payload) True s)"

definition clientControl :: "go_env \<Rightarrow> frame \<Rightarrow> client_session \<Rightarrow> client_session \<times> bool" where
  "clientControl env f s =
     (if \<not> IsSYN f then (s, False)
      else
        let j = js_parse env (Payload f); (ty, ok) = Unmarshal put_type [] j in
        if \<not> ok then (s, False)
        else if ty = ''window_update'' then
          (case Unmarshal put_window_update zero_update j of
             ((_, u), ok) \<Rightarrow>
               if \<not> ok then (clientResetMalformed env (Payload f) s, True)
               else case cx_streams s (of_nat (wu_stream u)) of
                      None \<Rightarrow> (s, True)
                    | Some p \<Rightarrow>
                        if wu_stream u = 0 \<or> wu_max u = 0
                        then (clientFailStream p ''invalid_control'' ''invalid stream window update'' True s, True)
                        else (set_cstrm p (updateSendLimit (wu_max u) (cstrm s p)) s, True))
        else if ty = ''error'' then (finishStreams s, True)
        else if ty = ''stream_reset'' then
          (case Unmarshal put_stream_reset zero_reset j of
             ((_, r), ok) \<Rightarrow>
               if \<not> ok then (clientResetMalformed env (Payload f) s, True)
               else case cx_streams s (of_nat (sr_stream r)) of
                      None \<Rightarrow> (s, True)
                    | Some p \<Rightarrow>
                        (let message0 = (if sr_message r = [] then sr_code r else sr_message r);
                             message = (if message0 = [] then ''stream reset by peer'' else message0)
                         in (clientFailStream p (sr_code r) message False s, True)))
        else (s, False))"

section \<open>The dispatcher\<close>

definition client_code :: "client_error \<Rightarrow> string" where
  "client_code e =
     (case e of
        ReceiveWindowExceeded \<Rightarrow> ''flow_control_violation''
      | StreamFinished \<Rightarrow> ''protocol_error''
      | StreamNotStarted \<Rightarrow> ''protocol_error''
      | _ \<Rightarrow> ''receive_overflow'')"

definition client_text :: "client_error \<Rightarrow> string" where
  "client_text e =
     (case e of
        QueueFull \<Rightarrow> ''stream receive queue full''
      | ReceiveWindowExceeded \<Rightarrow> ''stream receive window exceeded''
      | ClientStreamClosed \<Rightarrow> ''stream closed''
      | StreamFinished \<Rightarrow> ''stream direction already finished''
      | StreamNotStarted \<Rightarrow> ''stream has not sent SYN'')"

text \<open>
  One turn of the loop of \<^verbatim>\<open>startDispatcher\<close>; \<open>first\<close> is the choice of the select in the stream's
  enqueue. \<open>None\<close> is the channel closing, on which the loop marks the session closed and leaves.
\<close>

definition dispatch :: "go_env \<Rightarrow> bool \<Rightarrow> byte list option \<Rightarrow> client_session \<Rightarrow> client_session" where
  "dispatch env first m s =
     (if cl_closed (cx_base s) then finishStreams s
      else case m of
        None \<Rightarrow> finishStreams (markClosed s)
      | Some msg \<Rightarrow>
          (case ParseFrame msg of
             Inl _ \<Rightarrow> s
           | Inr f \<Rightarrow>
               if StreamID f = 0 then (if flowControlEnabled s then fst (clientControl env f s) else s)
               else case cx_streams s (StreamID f) of
                      None \<Rightarrow> s
                    | Some p \<Rightarrow>
                        (case clientEnqueue first f (flowControlEnabled s) (cstrm s p) of
                           (st, None) \<Rightarrow> set_cstrm p st s
                         | (st, Some e) \<Rightarrow>
                             (let s1 = set_cstrm p st s in
                              if e = ClientStreamClosed then s1
                              else clientFailStream p (client_code e) (client_text e) True s1))))"

section \<open>The delivery worker\<close>

definition deliver_turn :: "go_env \<Rightarrow> nat \<Rightarrow> client_session \<Rightarrow> client_session" where
  "deliver_turn env p s =
     (case cs_hand (cstrm s p) of
        None \<Rightarrow> set_cstrm p (fst (deliver_step DTake (cstrm s p))) s
      | Some f \<Rightarrow>
          (let (st1, update) = clientConsume f (flowControlEnabled s) ((cstrm s p)\<lparr>cs_hand := None\<rparr>);
               s1 = set_cstrm p st1 s
           in if IsFIN f then detachFinishedStream p (set_cstrm p (st1\<lparr>cs_inboundDelivered := True\<rparr>) s1)
              else case update of
                     None \<Rightarrow> s1
                   | Some mx \<Rightarrow>
                       (case sendRaw 0 FlagSYN (js_print env (JObj [(''type'', JStr ''window_update''),
                               (''stream_id'', JNum (uint (cs_id st1))), (''max_bytes'', JNum (int mx))])) s1 of
                          (s2, True) \<Rightarrow> s2
                        | (s2, False) \<Rightarrow> clientFailStream p ''control_send_failed'' ''data channel closed'' False s2)))"

section \<open>Writers\<close>

definition sendFrame :: "u32 \<Rightarrow> u16 \<Rightarrow> byte list \<Rightarrow> client_session \<Rightarrow> client_session \<times> bool" where
  "sendFrame i fl pl s =
     (if ValidateFramePayload pl \<noteq> Ok () then (s, False)
      else if i = 0 then sendRaw 0 fl pl s
      else case cx_streams s i of
             None \<Rightarrow> (s, False)
           | Some p \<Rightarrow> (s\<lparr>cx_writers := cx_writers s @ [(p, \<lparr>StreamID = i, Flags = fl, Payload = pl\<rparr>, WaitLock)]\<rparr>, True))"

definition client_lock_held :: "nat \<Rightarrow> client_session \<Rightarrow> bool" where
  "client_lock_held p s = list_ex (\<lambda>(q, f, g). q = p \<and> g \<noteq> WaitLock) (cx_writers s)"

definition client_leave :: "nat \<Rightarrow> client_session \<Rightarrow> client_session" where
  "client_leave n s = s\<lparr>cx_writers := drop_nth n (cx_writers s)\<rparr>"

definition client_stage :: "nat \<Rightarrow> nat \<Rightarrow> frame \<Rightarrow> writer_stage \<Rightarrow> client_session \<Rightarrow> client_session" where
  "client_stage n p f g s = s\<lparr>cx_writers := (cx_writers s)[n := (p, f, g)]\<rparr>"

definition client_writer :: "nat \<Rightarrow> client_session \<Rightarrow> client_session" where
  "client_writer n s =
     (if n \<ge> length (cx_writers s) then s
      else case cx_writers s ! n of
        (p, f, WaitLock) \<Rightarrow>
          if client_lock_held p s then s
          else if cs_outboundFIN (cstrm s p) then client_leave n s
          else if \<not> flowControlEnabled s then client_stage n p f HasCredit s
          else if \<not> IsSYN f \<and> \<not> cs_windowActive (cstrm s p) then client_leave n s
          else client_stage n p f HoldLock
                 (if IsSYN f then set_cstrm p (activateInitialWindow (cstrm s p)) s else s)
      | (p, f, HoldLock) \<Rightarrow>
          (case clientReserve (FlowBytes f) (cstrm s p) of
             NotReserved \<Rightarrow> client_leave n s
           | Blocked \<Rightarrow> if cl_closed (cx_base s) \<or> cs_abandoned (cstrm s p) then client_leave n s else s
           | Reserved st \<Rightarrow> client_stage n p f HasCredit (set_cstrm p st s))
      | (p, f, HasCredit) \<Rightarrow>
          (case sendRaw (StreamID f) (Flags f) (Payload f) s of
             (s1, False) \<Rightarrow>
               client_leave n (if flowControlEnabled s \<and> IsSYN f
                               then clientFailStream p ''send_error'' ''data channel closed'' False s1 else s1)
           | (s1, True) \<Rightarrow>
               client_leave n (if IsFIN f
                               then detachFinishedStream p (set_cstrm p ((cstrm s1 p)\<lparr>cs_outboundFIN := True\<rparr>) s1) else s1)))"

definition client_task :: "go_env \<Rightarrow> nat \<Rightarrow> client_session \<Rightarrow> client_session" where
  "client_task env n s =
     (if n \<ge> length (cx_tasks s) then s
      else case cx_tasks s ! n of
        (p, code, message) \<Rightarrow>
          if client_lock_held p s then s
          else
            let s1 = s\<lparr>cx_tasks := drop_nth n (cx_tasks s)\<rparr>; i = cs_id (cstrm s p) in
            if flowControlEnabled s then fst (sendRaw 0 FlagSYN (js_print env (reset_json i code message)) s1)
            else fst (sendRaw i FlagFIN [] s1))"

section \<open>Runs\<close>

datatype client_event =
    CxOpen
  | CxMessage bool "byte list"
  | CxChannelClosed
  | CxDeliver nat
  | CxAbandon nat
  | CxWrite u32 u16 "byte list"
  | CxWriter nat
  | CxTask nat
  | CxCloseStream nat
  | CxClose

definition client_do :: "go_env \<Rightarrow> client_event \<Rightarrow> client_session \<Rightarrow> client_session" where
  "client_do env e s =
     (case e of
        CxOpen \<Rightarrow> fst (OpenStream s)
      | CxMessage first m \<Rightarrow> dispatch env first (Some m) s
      | CxChannelClosed \<Rightarrow> dispatch env False None s
      | CxDeliver p \<Rightarrow> if p < length (cx_heap s) then deliver_turn env p s else s
      | CxAbandon p \<Rightarrow>
          if p < length (cx_heap s) \<and> (cs_abandoned (cstrm s p) \<or> cl_closed (cx_base s))
          then (case cs_hand (cstrm s p) of
                  Some f \<Rightarrow> set_cstrm p (releaseFrame f ((cstrm s p)\<lparr>cs_hand := None\<rparr>)) s
                | None \<Rightarrow> s)
          else s
      | CxWrite i fl pl \<Rightarrow> fst (sendFrame i fl pl s)
      | CxWriter n \<Rightarrow> client_writer n s
      | CxTask n \<Rightarrow> client_task env n s
      | CxCloseStream p \<Rightarrow> if p < length (cx_heap s) then CloseStream p s else s
      | CxClose \<Rightarrow> CloseClient s)"

abbreviation client_run :: "go_env \<Rightarrow> client_event list \<Rightarrow> client_session \<Rightarrow> client_session" where
  "client_run env es s \<equiv> fold (client_do env) es s"

section \<open>What a step may change\<close>

lemma cs_id_ops [simp]:
  "cs_id (failClientStream m st) = cs_id st" "cs_id (updateSendLimit mx st) = cs_id st"
  "cs_id (activateInitialWindow st) = cs_id st" "cs_id (releaseFrame f st) = cs_id st"
  "cs_id (fst (clientEnqueue b f w st)) = cs_id st" "cs_id (fst (clientConsume f w st)) = cs_id st"
  "cs_id (fst (deliver_step DTake st)) = cs_id st"
  by (simp_all add: failClientStream_def updateSendLimit_def activateInitialWindow_def releaseFrame_def clientEnqueue_def
      clientConsume_def deliver_step_def Let_def split: option.split list.split)

lemma cs_id_reserve: "clientReserve n st = Reserved st' \<Longrightarrow> cs_id st' = cs_id st"
  by (auto simp: clientReserve_def split: if_splits)

text \<open>
  Every step but opening a stream is tame: it renames no stream, routes nothing new, and a closed
  session stays closed and says nothing.
\<close>

definition tame :: "client_session \<Rightarrow> client_session \<Rightarrow> bool" where
  "tame s s' \<longleftrightarrow>
     map cs_id (cx_heap s') = map cs_id (cx_heap s) \<and> cx_next s' = cx_next s \<and> cx_streams s' \<subseteq>\<^sub>m cx_streams s \<and>
     (cl_closed (cx_base s) \<longrightarrow> cl_closed (cx_base s') \<and> cl_out (cx_base s') = cl_out (cx_base s))"

lemma tame_refl [simp]: "tame s s"
  by (simp add: tame_def)

lemma tame_trans: "tame s t \<Longrightarrow> tame t u \<Longrightarrow> tame s u"
  by (auto simp: tame_def intro: map_le_trans)

lemma tame_length: "tame s s' \<Longrightarrow> length (cx_heap s') = length (cx_heap s)"
  by (metis length_map tame_def)

lemma tame_set: "cs_id st = cs_id (cstrm s p) \<Longrightarrow> tame s (set_cstrm p st s)"
proof -
  assume "cs_id st = cs_id (cstrm s p)"
  then have "map cs_id ((cx_heap s)[p := st]) = map cs_id (cx_heap s)"
    by (cases "p < length (cx_heap s)") (simp_all add: map_update list_update_same_conv list_update_beyond)
  then show ?thesis
    by (simp add: tame_def set_cstrm_def)
qed

lemma tame_tasks: "tame s (s\<lparr>cx_tasks := ts\<rparr>)" "tame s (s\<lparr>cx_writers := ws\<rparr>)"
  by (simp_all add: tame_def)

lemma tame_sendRaw: "tame s (fst (sendRaw i fl pl s))"
  by (auto simp: tame_def sendRaw_def sendRawFrame_def split: option.split)

lemma tame_detach: "tame s (fst (detachStream p s))"
  by (auto simp: tame_def detachStream_def map_le_def)

lemma tame_detachFinished: "tame s (detachFinishedStream p s)"
  by (simp add: detachFinishedStream_def tame_detach)

lemma tame_fail: "tame s (clientFailStream p c m b s)"
proof -
  obtain s1 won where d: "detachStream p s = (s1, won)"
    by (cases "detachStream p s")
  have s1: "tame s s1"
    using tame_detach [of s p] d by simp
  then have "tame s (set_cstrm p (failClientStream m (cstrm s1 p)) s1)"
    by (rule tame_trans) (simp add: tame_set)
  then show ?thesis
    using d tame_trans [OF _ tame_tasks(1)] by (cases won) (simp_all add: clientFailStream_def Let_def)
qed

lemma tame_finish: "tame s (finishStreams s)"
  unfolding tame_def finishStreams_def markClosed_def Let_def
  by (auto intro!: nth_equalityI simp: map_le_def)

lemma tame_markClosed: "tame s (markClosed s)"
  by (simp add: tame_def markClosed_def)

lemma tame_malformed: "tame s (clientResetMalformed env pl s)"
  by (simp add: clientResetMalformed_def tame_fail split: prod.split option.split)

lemma tame_control: "tame s (fst (clientControl env f s))"
proof -
  obtain ty ok where ty: "Unmarshal put_type [] (js_parse env (Payload f)) = (ty, ok)"
    by (cases "Unmarshal put_type [] (js_parse env (Payload f))")
  obtain t u ok1 where u: "Unmarshal put_window_update zero_update (js_parse env (Payload f)) = ((t, u), ok1)"
    by (cases "Unmarshal put_window_update zero_update (js_parse env (Payload f))") auto
  obtain t' r ok2 where r: "Unmarshal put_stream_reset zero_reset (js_parse env (Payload f)) = ((t', r), ok2)"
    by (cases "Unmarshal put_stream_reset zero_reset (js_parse env (Payload f))") auto
  show ?thesis
    unfolding clientControl_def Let_def ty u r prod.case
    by (simp add: tame_malformed tame_fail tame_finish tame_set split: option.split)
qed

lemma tame_dispatch: "tame s (dispatch env first m s)"
proof -
  have enq: "tame s (set_cstrm p st s)" "tame s (clientFailStream p c x b (set_cstrm p st s))"
    if "clientEnqueue first f w (cstrm s p) = (st, e)" for p f w st e c x b
  proof -
    have "cs_id st = cs_id (cstrm s p)"
      using cs_id_ops(5) [of first f w "cstrm s p"] that by simp
    then show "tame s (set_cstrm p st s)" "tame s (clientFailStream p c x b (set_cstrm p st s))"
      using tame_trans [OF tame_set tame_fail] by (simp_all add: tame_set)
  qed
  then show ?thesis
    unfolding dispatch_def
    using tame_trans [OF tame_markClosed tame_finish]
    by (auto simp: tame_finish tame_control Let_def split: option.split sum.split prod.split)
qed

lemma tame_deliver: "tame s (deliver_turn env p s)"
proof (cases "cs_hand (cstrm s p)")
  case None
  then show ?thesis
    by (simp add: deliver_turn_def tame_set)
next
  case (Some f)
  obtain st1 u where c: "clientConsume f (flowControlEnabled s) ((cstrm s p)\<lparr>cs_hand := None\<rparr>) = (st1, u)"
    by (cases "clientConsume f (flowControlEnabled s) ((cstrm s p)\<lparr>cs_hand := None\<rparr>)")
  have st1: "cs_id st1 = cs_id (cstrm s p)"
    using cs_id_ops(6) [of f "flowControlEnabled s" "(cstrm s p)\<lparr>cs_hand := None\<rparr>"] c by simp
  define s1 where "s1 = set_cstrm p st1 s"
  have s1: "tame s s1"
    unfolding s1_def by (rule tame_set [OF st1])
  have "cs_id st1 = cs_id (cstrm s1 p)"
    using st1 by (cases "p < length (cx_heap s)") (simp_all add: s1_def set_cstrm_def list_update_beyond)
  then have fin: "tame s (detachFinishedStream p (set_cstrm p (st1\<lparr>cs_inboundDelivered := True\<rparr>) s1))"
    by (intro tame_trans [OF s1] tame_trans [OF tame_set tame_detachFinished]) simp
  have raw: "tame s s2" "tame s (clientFailStream p x y b s2)" if "sendRaw i fl pl s1 = (s2, ok)" for i fl pl s2 ok x y b
    using tame_trans [OF s1 tame_sendRaw [of s1 i fl pl]] tame_trans [OF tame_trans [OF s1 tame_sendRaw [of s1 i fl pl]] tame_fail] that
    by simp_all
  show ?thesis
    unfolding deliver_turn_def Some option.case c prod.case Let_def s1_def [symmetric]
    using fin s1 raw by (simp split: option.split prod.split bool.split)
qed

lemma tame_writer: "tame s (client_writer n s)"
proof -
  have leave: "tame s (client_leave n t)" if "tame s t" for t
    using tame_trans [OF that tame_tasks(2)] by (simp add: client_leave_def)
  have stage: "tame s (client_stage n p f g t)" if "tame s t" for p f g t
    using tame_trans [OF that tame_tasks(2)] by (simp add: client_stage_def)
  have raw: "tame s t" "tame s (clientFailStream p c m b t)"
      "tame s (detachFinishedStream p (set_cstrm p ((cstrm t p)\<lparr>cs_outboundFIN := x\<rparr>) t))"
    if "sendRaw i fl pl s = (t, ok)" for i fl pl t ok p c m b x
  proof -
    show t: "tame s t"
      using tame_sendRaw [of s i fl pl] that by simp
    show "tame s (clientFailStream p c m b t)"
      by (rule tame_trans [OF t tame_fail])
    show "tame s (detachFinishedStream p (set_cstrm p ((cstrm t p)\<lparr>cs_outboundFIN := x\<rparr>) t))"
      by (intro tame_trans [OF t] tame_trans [OF tame_set tame_detachFinished]) simp
  qed
  show ?thesis
  proof (cases "n < length (cx_writers s)")
    case True
    obtain p f g where w: "cx_writers s ! n = (p, f, g)"
      by (cases "cx_writers s ! n")
    show ?thesis
    proof (cases g)
      case WaitLock
      then show ?thesis
        using True w leave stage by (simp add: client_writer_def tame_set)
    next
      case HoldLock
      then show ?thesis
        using True w leave stage cs_id_reserve by (simp add: client_writer_def tame_set split: reserve_result.split)
    next
      case HasCredit
      then show ?thesis
        using True w leave raw by (simp add: client_writer_def split: prod.split bool.split)
    qed
  next
    case False
    then show ?thesis
      by (simp add: client_writer_def)
  qed
qed

lemma tame_task: "tame s (client_task env n s)"
  using tame_trans [OF tame_tasks(1) tame_sendRaw] by (simp add: client_task_def Let_def split: prod.split)

lemma tame_step: "e \<noteq> CxOpen \<Longrightarrow> tame s (client_do env e s)"
proof (cases e)
  case (CxCloseStream p)
  have "tame s (set_cstrm p (failClientStream m (cstrm s1 p)) s1)" "tame s s1" if "detachStream p s = (s1, b)" for s1 b m
    using tame_detach [of s p] tame_trans [OF tame_detach [of s p] tame_set] that by simp_all
  then show ?thesis
    using CxCloseStream by (auto simp: client_do_def CloseStream_def tame_fail split: prod.split bool.split)
next
  case (CxWrite i fl pl)
  then show ?thesis
    by (simp add: client_do_def sendFrame_def tame_sendRaw tame_tasks split: option.split)
next
  case CxClose
  have "tame t (t\<lparr>cx_base := (cx_base t)\<lparr>cl_dc := d\<rparr>\<rparr>)" for t d
    by (simp add: tame_def)
  then show ?thesis
    using CxClose tame_finish tame_trans [OF tame_finish] by (simp add: client_do_def CloseClient_def Let_def)
qed (simp_all add: client_do_def tame_dispatch tame_deliver tame_writer tame_task tame_set split: option.split)

section \<open>Invariant\<close>

definition cx_inv :: "client_session \<Rightarrow> bool" where
  "cx_inv s \<longleftrightarrow>
     cx_next s = word_of_nat (2 * length (cx_heap s) + 1) \<and>
     map cs_id (cx_heap s) = map (\<lambda>p. word_of_nat (2 * p + 1)) [0..<length (cx_heap s)] \<and>
     (\<forall>i p. cx_streams s i = Some p \<longrightarrow> p < length (cx_heap s) \<and> cs_id (cstrm s p) = i)"

lemma nth_cs_id: "map cs_id xs = map cs_id ys \<Longrightarrow> p < length ys \<Longrightarrow> cs_id (xs ! p) = cs_id (ys ! p)"
  by (metis length_map nth_map)

lemma cx_inv_tame: "cx_inv s \<Longrightarrow> tame s s' \<Longrightarrow> cx_inv s'"
proof -
  assume inv: "cx_inv s" and t: "tame s s'"
  have len: "length (cx_heap s') = length (cx_heap s)"
    by (rule tame_length [OF t])
  have "p < length (cx_heap s') \<and> cs_id (cstrm s' p) = i" if "cx_streams s' i = Some p" for i p
  proof -
    have "cx_streams s i = Some p"
      using t that unfolding tame_def map_le_def by (metis domI)
    then show ?thesis
      using inv nth_cs_id [of "cx_heap s'" "cx_heap s" p] t len by (auto simp: cx_inv_def tame_def)
  qed
  then show ?thesis
    using inv t len by (simp add: cx_inv_def tame_def)
qed

lemma cx_inv_open: "cx_inv s \<Longrightarrow> cx_inv (fst (OpenStream s))"
proof -
  assume inv: "cx_inv s"
  have old: "p < Suc (length (cx_heap s)) \<and> cs_id ((cx_heap s @ [x]) ! p) = i" if "cx_streams s i = Some p" for i p x
    using inv that by (auto simp: cx_inv_def nth_append less_SucI)
  show ?thesis
    using inv old by (auto simp: cx_inv_def OpenStream_def Let_def newClientStream_def algebra_simps split: if_splits)
qed

lemma cx_run_inv: "cx_inv s \<Longrightarrow> cx_inv (client_run env es s)"
proof (induction es arbitrary: s)
  case (Cons e es)
  have "cx_inv (client_do env e s)"
  proof (cases "e = CxOpen")
    case True
    then show ?thesis
      using cx_inv_open [OF Cons.prems] by (simp add: client_do_def)
  next
    case False
    then show ?thesis
      using cx_inv_tame [OF Cons.prems tame_step] by blast
  qed
  then show ?case
    using Cons.IH by simp
qed simp

lemma odd_ids_distinct: "distinct (map (\<lambda>p. word_of_nat (2 * p + 1) :: u32) [0..<n])" if "n \<le> 2 ^ 31"
proof -
  have "p = q" if "(word_of_nat (2 * p + 1) :: u32) = word_of_nat (2 * q + 1)" "p < n" "q < n" for p q
  proof -
    have small: "unat (word_of_nat m :: u32) = m" if "m < 2 ^ 32" for m
      using that by (simp add: unat_of_nat)
    have "2 * p + 1 < 2 ^ 32" "2 * q + 1 < 2 ^ 32"
      using that(2,3) \<open>n \<le> 2 ^ 31\<close> by simp_all
    then have "unat (word_of_nat (2 * p + 1) :: u32) = 2 * p + 1" "unat (word_of_nat (2 * q + 1) :: u32) = 2 * q + 1"
      using small by blast+
    then have "2 * p + 1 = 2 * q + 1"
      using that(1) by metis
    then show ?thesis
      by simp
  qed
  then show ?thesis
    by (auto simp: distinct_map inj_on_def)
qed

section \<open>Properties\<close>

text \<open>
  Stream identifiers of a client: the n-th stream opened has the n-th odd number, the first two to
  the power 31 are distinct, and what arrives for an identifier only ever reaches the stream that was
  opened with it.
\<close>

theorem client_stream_ids:
  "let s = client_run env es (newClientSession c) in
    map cs_id (cx_heap s) = map (\<lambda>p. word_of_nat (2 * p + 1)) [0..<length (cx_heap s)] \<and>
    distinct (map cs_id (take (2 ^ 31) (cx_heap s))) \<and>
    (case cx_streams s i of None \<Rightarrow> True | Some p \<Rightarrow> p < length (cx_heap s) \<and> cs_id (cx_heap s ! p) = i)"
proof -
  let ?s = "client_run env es (newClientSession c)"
  have inv: "cx_inv ?s"
    by (rule cx_run_inv) (simp add: cx_inv_def newClientSession_def)
  then have ids: "map cs_id (cx_heap ?s) = map (\<lambda>p. word_of_nat (2 * p + 1)) [0..<length (cx_heap ?s)]"
    by (simp add: cx_inv_def)
  have "map cs_id (take (2 ^ 31) (cx_heap ?s)) = map (\<lambda>p. word_of_nat (2 * p + 1)) [0..<min (2 ^ 31) (length (cx_heap ?s))]"
    unfolding take_map [symmetric] ids by (cases "2 ^ 31 \<le> length (cx_heap ?s)") (simp_all add: take_map take_upt)
  then have "distinct (map cs_id (take (2 ^ 31) (cx_heap ?s)))"
    using odd_ids_distinct [of "min (2 ^ 31) (length (cx_heap ?s))"] by simp
  then show ?thesis
    using inv ids unfolding Let_def by (auto simp: cx_inv_def split: option.split)
qed

lemma closed_stays:
  assumes "cl_closed (cx_base s)" "cx_streams s = Map.empty"
  shows "cl_closed (cx_base (client_run env es s)) \<and> cl_out (cx_base (client_run env es s)) = cl_out (cx_base s) \<and>
    cx_streams (client_run env es s) = Map.empty"
  using assms
proof (induction es arbitrary: s)
  case (Cons e es)
  have "cl_closed (cx_base (client_do env e s)) \<and> cl_out (cx_base (client_do env e s)) = cl_out (cx_base s) \<and>
      cx_streams (client_do env e s) = Map.empty"
  proof (cases "e = CxOpen")
    case True
    then show ?thesis
      using Cons.prems by (simp add: client_do_def OpenStream_def Let_def)
  next
    case False
    then show ?thesis
      using tame_step [of e s env] Cons.prems map_le_antisym by (fastforce simp: tame_def)
  qed
  then show ?case
    using Cons.IH [of "client_do env e s"] by simp
qed simp

text \<open>
  A closed client is done: once its streams were finished, because the caller closed it, the
  listener said goodbye or the channel went away, it puts nothing more on the wire and routes no
  frame, whatever its callers, workers and goroutines still do.
\<close>

theorem client_closed_silent:
  "let s = client_run env es (newClientSession c); s' = client_run env es' (finishStreams s) in
    cl_out (cx_base s') = cl_out (cx_base s) \<and> cx_streams s' = Map.empty"
proof -
  let ?s = "client_run env es (newClientSession c)"
  have "cl_closed (cx_base (finishStreams ?s))" "cx_streams (finishStreams ?s) = Map.empty"
    "cl_out (cx_base (finishStreams ?s)) = cl_out (cx_base ?s)"
    by (simp_all add: finishStreams_def markClosed_def Let_def)
  then show ?thesis
    using closed_stays [of "finishStreams ?s" env es'] by (simp add: Let_def)
qed

end
