(* ===== verification/FileShare.thy ===== *)
theory FileShare
  imports FilePath
begin

text \<open>
  \<^verbatim>\<open>internal/fileshare/safepath.go\<close> and \<^verbatim>\<open>filesystem.go\<close>: which files of the listener a peer may
  stat, list, read and write. A file system maps the components of an absolute path to a node, and
  a symbolic link holds its target; \<open>walk\<close> is the resolution of \<^verbatim>\<open>filepath.EvalSymlinks\<close>, with its
  limit of 255 links, and of the kernel, with a limit of 40, and \<open>walk_create\<close> is the resolution of
  an open that may create its last component. The working directory is an argument. Media types and
  the bytes of files are not modelled.
\<close>

section \<open>File system\<close>

datatype node = NDir "string list" int | NReg int int | NLink string

type_synonym file_system = "string list \<Rightarrow> node option"

function walk :: "file_system \<Rightarrow> nat \<Rightarrow> string list \<Rightarrow> string list \<Rightarrow> string list option" where
  "walk fs n done [] = Some done"
| "walk fs n done (c # cs) =
     (if c = ''..'' then walk fs n (butlast done) cs
      else case fs (done @ [c]) of
             None \<Rightarrow> None
           | Some (NDir _ _) \<Rightarrow> walk fs n (done @ [c]) cs
           | Some (NReg _ _) \<Rightarrow> (if cs = [] then Some (done @ [c]) else None)
           | Some (NLink t) \<Rightarrow>
               (case n of 0 \<Rightarrow> None | Suc m \<Rightarrow> walk fs m (if IsAbs t then [] else done) (comps t @ cs)))"
  by pat_completeness auto
termination
  by (relation "measures [\<lambda>(fs, n, done, cs). n, \<lambda>(fs, n, done, cs). length cs]") auto

function walk_create :: "file_system \<Rightarrow> nat \<Rightarrow> string list \<Rightarrow> string list \<Rightarrow> string list option" where
  "walk_create fs n done [] = Some done"
| "walk_create fs n done (c # cs) =
     (if c = ''..'' then walk_create fs n (butlast done) cs
      else case fs (done @ [c]) of
             None \<Rightarrow> (if cs = [] then Some (done @ [c]) else None)
           | Some (NDir _ _) \<Rightarrow> walk_create fs n (done @ [c]) cs
           | Some (NReg _ _) \<Rightarrow> (if cs = [] then Some (done @ [c]) else None)
           | Some (NLink t) \<Rightarrow>
               (case n of 0 \<Rightarrow> None | Suc m \<Rightarrow> walk_create fs m (if IsAbs t then [] else done) (comps t @ cs)))"
  by pat_completeness auto
termination
  by (relation "measures [\<lambda>(fs, n, done, cs). n, \<lambda>(fs, n, done, cs). length cs]") auto

definition EvalSymlinks :: "file_system \<Rightarrow> string \<Rightarrow> string option" where
  "EvalSymlinks fs p = map_option (path_of True) (walk fs 255 [] (clean_comps p))"

definition node_at :: "file_system \<Rightarrow> string list \<Rightarrow> node option" where
  "node_at fs p = (if p = [] then Some (case fs [] of Some (NDir ns m) \<Rightarrow> NDir ns m | _ \<Rightarrow> NDir [] 0) else fs p)"

definition Stat :: "file_system \<Rightarrow> string \<Rightarrow> node option" where
  "Stat fs p = (case walk fs 40 [] (clean_comps p) of None \<Rightarrow> None | Some q \<Rightarrow> node_at fs q)"

section \<open>SafePath\<close>

definition systemFiles :: "string list" where
  "systemFiles = [''.DS_Store'', ''Thumbs.db'', ''desktop.ini'', ''.git'', ''__pycache__'', ''.env'']"

definition withinBase :: "string \<Rightarrow> string \<Rightarrow> bool" where
  "withinBase path base =
     (if path = base then True
      else if suffix ''/'' base then prefix base path
      else prefix (base @ ''/'') path)"

definition SafePath :: "file_system \<Rightarrow> string \<Rightarrow> string \<Rightarrow> string \<Rightarrow> string" where
  "SafePath fs cwd baseDir relPath =
     (let base = Abs cwd baseDir; requested = Abs cwd (JoinPath [base, relPath]) in
      if \<not> withinBase requested base then []
      else case EvalSymlinks fs base of
             None \<Rightarrow> []
           | Some realBase \<Rightarrow>
               (case EvalSymlinks fs requested of
                  None \<Rightarrow> []
                | Some realPath \<Rightarrow> if \<not> withinBase realPath realBase then [] else realPath))"

definition ShouldShow :: "string \<Rightarrow> bool \<Rightarrow> bool" where
  "ShouldShow name showHidden =
     (if name \<in> set systemFiles then False
      else if \<not> showHidden \<and> prefix ''.'' name then False
      else True)"

section \<open>Reads\<close>

datatype share_mode = ModeBrowse | ModeSend

record file_share =
  BasePath :: string
  ShareMode :: share_mode
  FileName :: string
  UploadEnabled :: bool

definition visibleUnder :: "file_system \<Rightarrow> string \<Rightarrow> string \<Rightarrow> string \<Rightarrow> bool" where
  "visibleUnder fs cwd baseDir path =
     (let base0 = Abs cwd baseDir;
          base = (case EvalSymlinks fs base0 of Some real \<Rightarrow> real | None \<Rightarrow> base0)
      in case Rel base path of
           None \<Rightarrow> False
         | Some rel \<Rightarrow>
             if rel = ''.'' then True
             else list_all (\<lambda>part. part = [] \<or> part = ''.'' \<or> ShouldShow part False) (Split rel slash))"

definition resolveForRead :: "file_system \<Rightarrow> string \<Rightarrow> file_share \<Rightarrow> string \<Rightarrow> string" where
  "resolveForRead fs cwd f relPath =
     (if ShareMode f = ModeSend then
        (if relPath = [] \<or> relPath = ''/'' \<or> relPath = ''.'' \<or> relPath = FileName f then BasePath f else [])
      else
        let path = SafePath fs cwd (BasePath f) relPath in
        if path = [] \<or> \<not> visibleUnder fs cwd (BasePath f) path then [] else path)"

record file_stat =
  fst_name :: string
  fst_dir :: bool
  fst_size :: int
  fst_modified :: int

definition statForInfo :: "string \<Rightarrow> node \<Rightarrow> file_stat" where
  "statForInfo name info =
     (case info of
        NDir _ m \<Rightarrow> \<lparr>fst_name = name, fst_dir = True, fst_size = 0, fst_modified = m\<rparr>
      | NReg sz m \<Rightarrow> \<lparr>fst_name = name, fst_dir = False, fst_size = sz, fst_modified = m\<rparr>
      | NLink _ \<Rightarrow> \<lparr>fst_name = name, fst_dir = False, fst_size = 0, fst_modified = 0\<rparr>)"

datatype share_error = ErrNotFound | ErrExists | NoDirectory | SendMode | UploadsDisabled | PathTraversal
  | NoParent | ResolveFailed | InvalidFilename | CreateFailed

definition StatPath :: "file_system \<Rightarrow> string \<Rightarrow> file_share \<Rightarrow> string \<Rightarrow> (share_error, file_stat) go_result" where
  "StatPath fs cwd f relPath =
     (let path = resolveForRead fs cwd f relPath in
      if path = [] then Err ErrNotFound
      else case Stat fs path of None \<Rightarrow> Err ErrNotFound | Some info \<Rightarrow> Ok (statForInfo (Base path) info))"

definition ListPath :: "file_system \<Rightarrow> string \<Rightarrow> file_share \<Rightarrow> string \<Rightarrow> (share_error, file_stat list) go_result" where
  "ListPath fs cwd f relPath =
     (if ShareMode f = ModeSend then Err NoDirectory
      else
        let path = resolveForRead fs cwd f relPath in
        if path = [] then Err ErrNotFound
        else case Stat fs path of
               Some (NDir names _) \<Rightarrow>
                 Ok (List.map_filter
                       (\<lambda>name. if \<not> ShouldShow name False then None
                                else map_option (statForInfo name) (Stat fs (JoinPath [path, name]))) names)
             | _ \<Rightarrow> Err ErrNotFound)"

text \<open>\<^verbatim>\<open>OpenRead\<close>, with the path it opens.\<close>

definition OpenRead :: "file_system \<Rightarrow> string \<Rightarrow> file_share \<Rightarrow> string \<Rightarrow> (share_error, string \<times> file_stat) go_result" where
  "OpenRead fs cwd f relPath =
     (let path = resolveForRead fs cwd f relPath in
      if path = [] then Err ErrNotFound
      else case Stat fs path of
             Some (NReg sz m) \<Rightarrow> Ok (path, statForInfo (Base path) (NReg sz m))
           | _ \<Rightarrow> Err ErrNotFound)"

section \<open>Writes\<close>

definition resolveForWrite :: "file_system \<Rightarrow> string \<Rightarrow> file_share \<Rightarrow> string \<Rightarrow> (share_error, string) go_result" where
  "resolveForWrite fs cwd f relPath =
     (let base = Abs cwd (BasePath f); requested = Abs cwd (JoinPath [base, relPath]) in
      if \<not> withinBase requested base then Err PathTraversal
      else case EvalSymlinks fs base of
             None \<Rightarrow> Err ResolveFailed
           | Some realBase \<Rightarrow>
               (case EvalSymlinks fs requested of
                  Some realPath \<Rightarrow> if \<not> withinBase realPath realBase then Err PathTraversal else Ok realPath
                | None \<Rightarrow>
                    (case EvalSymlinks fs (Dir requested) of
                       None \<Rightarrow> Err NoParent
                     | Some realParent \<Rightarrow>
                         (case Stat fs realParent of
                            Some (NDir _ _) \<Rightarrow>
                              if \<not> withinBase realParent realBase then Err PathTraversal
                              else Ok (JoinPath [realParent, Base requested])
                          | _ \<Rightarrow> Err NoParent))))"

text \<open>\<^verbatim>\<open>OpenWrite\<close>, with the place in the file system the new file's bytes go to.\<close>

definition OpenWrite :: "file_system \<Rightarrow> string \<Rightarrow> file_share \<Rightarrow> string \<Rightarrow> bool \<Rightarrow> (share_error, string list) go_result" where
  "OpenWrite fs cwd f relPath overwrite =
     (if ShareMode f = ModeSend then Err SendMode
      else if \<not> UploadEnabled f then Err UploadsDisabled
      else case resolveForWrite fs cwd f relPath of
             Inl e \<Rightarrow> Err e
           | Inr path \<Rightarrow>
               if \<not> overwrite \<and> Stat fs path \<noteq> None then Err ErrExists
               else if \<not> ShouldShow (Base path) False then Err InvalidFilename
               else case walk_create fs 40 [] (clean_comps path) of
                      None \<Rightarrow> Err CreateFailed
                    | Some q \<Rightarrow> (case node_at fs q of Some (NDir _ _) \<Rightarrow> Err CreateFailed | _ \<Rightarrow> Ok q))"

section \<open>Resolution\<close>

lemma clean_good: "IsAbs p \<Longrightarrow> list_all good_comp (clean_comps p)"
  using clean_comps_good by (simp add: list_all_iff)

definition dir_path :: "file_system \<Rightarrow> string list \<Rightarrow> bool" where
  "dir_path fs p \<longleftrightarrow> (\<forall>q c. prefix (q @ [c]) p \<longrightarrow> (\<exists>ns m. fs (q @ [c]) = Some (NDir ns m)))"

text \<open>A resolved path: real directories all the way, and no link at its end.\<close>

definition real_path :: "file_system \<Rightarrow> string list \<Rightarrow> bool" where
  "real_path fs p \<longleftrightarrow>
     dir_path fs p \<or> (p \<noteq> [] \<and> dir_path fs (butlast p) \<and> (\<exists>sz m. fs p = Some (NReg sz m)))"

lemma dir_path_Nil [simp]: "dir_path fs []"
  by (simp add: dir_path_def)

lemma dir_path_snoc [simp]: "dir_path fs (p @ [c]) \<longleftrightarrow> dir_path fs p \<and> (\<exists>ns m. fs (p @ [c]) = Some (NDir ns m))"
  by (auto simp: dir_path_def)

lemma dir_path_butlast: "dir_path fs p \<Longrightarrow> dir_path fs (butlast p)"
  by (cases p rule: rev_cases) simp_all

lemma comps_pending: "c \<in> set (comps t) \<Longrightarrow> c = ''..'' \<or> good_comp c"
  using comps_good by (auto simp: good_comp_def)

lemma walk_real:
  assumes "walk fs n done cs = Some r" "dir_path fs done" "list_all good_comp done" "list_all (\<lambda>c. c = ''..'' \<or> good_comp c) cs"
  shows "real_path fs r \<and> list_all good_comp r"
  using assms
proof (induction fs n "done" cs rule: walk.induct)
  case (1 fs n "done")
  then show ?case by (simp add: real_path_def)
next
  case (2 fs n "done" c cs)
  note IH = 2(1-3) and run = 2(4) and dir = 2(5) and good = 2(6)
  have pending: "list_all (\<lambda>c. c = ''..'' \<or> good_comp c) cs" "c = ''..'' \<or> good_comp c"
    using 2(7) by simp_all
  show ?case
  proof (cases "c = ''..''")
    case True
    have "list_all good_comp (butlast done)"
      using good by (auto simp: list_all_iff dest: in_set_butlastD)
    then show ?thesis
      using IH(1) [OF True _ dir_path_butlast [OF dir] _ pending(1)] run True by simp
  next
    case False
    then have c: "good_comp c"
      using pending by simp
    then obtain nd where nd: "fs (done @ [c]) = Some nd"
      using run False by (cases "fs (done @ [c])") simp_all
    show ?thesis
    proof (cases nd)
      case (NDir ns m)
      then show ?thesis
        using IH(2) [OF False nd NDir] run False nd dir good c pending(1) by simp
    next
      case (NReg sz m)
      then have "r = done @ [c]"
        using run False nd by (simp split: if_splits)
      then show ?thesis
        using NReg nd dir good c by (simp add: real_path_def)
    next
      case (NLink t)
      then obtain m where m: "n = Suc m"
        using run False nd by (cases n) simp_all
      have "list_all (\<lambda>c. c = ''..'' \<or> good_comp c) (comps t @ cs)"
        using pending(1) comps_pending by (auto simp: list_all_iff)
      moreover have "walk fs m (if IsAbs t then [] else done) (comps t @ cs) = Some r"
        using run False nd NLink m by simp
      ultimately show ?thesis
        using IH(3) [OF False nd NLink m] dir good by (cases "IsAbs t") simp_all
    qed
  qed
qed

lemma walk_dirs:
  assumes "dir_path fs (done @ cs)" "list_all good_comp cs"
  shows "walk fs n done cs = Some (done @ cs)"
  using assms
proof (induction cs arbitrary: "done")
  case (Cons c cs)
  have "\<exists>ns m. fs (done @ [c]) = Some (NDir ns m)"
    using Cons.prems(1) unfolding dir_path_def by (metis append.assoc append_Cons append_Nil prefixI)
  moreover have "c \<noteq> ''..''"
    using Cons.prems(2) by (simp add: good_comp_def)
  ultimately show ?case
    using Cons.IH [of "done @ [c]"] Cons.prems by auto
qed simp

text \<open>Opening a resolved path follows no link.\<close>

lemma walk_real_path:
  assumes "real_path fs r" "list_all good_comp r"
  shows "walk fs n [] r = Some r"
proof (cases "dir_path fs r")
  case True
  then show ?thesis
    using walk_dirs [of fs "[]" r] assms(2) by simp
next
  case False
  then obtain p c sz m where r: "r = p @ [c]" "dir_path fs p" "fs r = Some (NReg sz m)"
    using assms(1) by (cases r rule: rev_cases) (auto simp: real_path_def)
  have step: "walk fs n d (cs @ [c]) = Some (d @ cs @ [c])"
    if "dir_path fs (d @ cs)" "list_all good_comp (cs @ [c])" "fs (d @ cs @ [c]) = Some (NReg sz m)" for d cs
    using that
  proof (induction cs arbitrary: d)
    case Nil
    then show ?case
      by (auto simp: good_comp_def)
  next
    case (Cons x cs)
    have "\<exists>ns m. fs (d @ [x]) = Some (NDir ns m)"
      using Cons.prems(1) unfolding dir_path_def by (metis append.assoc append_Cons append_Nil prefixI)
    moreover have "x \<noteq> ''..''"
      using Cons.prems(2) by (simp add: good_comp_def)
    ultimately show ?case
      using Cons.IH [of "d @ [x]"] Cons.prems by auto
  qed
  show ?thesis
    using step [of "[]" p] r assms(2) by simp
qed

lemma EvalSymlinks_Some:
  assumes "EvalSymlinks fs p = Some r" "IsAbs p"
  obtains cs where "r = path_of True cs" "real_path fs cs" "list_all good_comp cs" "clean_comps r = cs" "IsAbs r"
proof -
  obtain cs where cs: "walk fs 255 [] (clean_comps p) = Some cs" "r = path_of True cs"
    using assms(1) by (auto simp: EvalSymlinks_def)
  have good: "real_path fs cs" "list_all good_comp cs"
    using walk_real [OF cs(1)] clean_good [OF assms(2)] by (auto simp: list_all_iff)
  then have "clean_comps r = cs" "IsAbs r"
    using cs(2) by (simp_all add: list_all_iff)
  then show ?thesis
    using that cs good by blast
qed

section \<open>Containment\<close>

lemma Join_two: "xs \<noteq> [] \<Longrightarrow> ys \<noteq> [] \<Longrightarrow> Join (xs @ ys) s = Join xs s @ s @ Join ys s"
proof (induction xs s rule: Join.induct)
  case (2 x sep)
  then show ?case by (cases ys) simp_all
qed simp_all

lemma Split_Join_rest:
  "xs \<noteq> [] \<Longrightarrow> \<forall>x \<in> set xs. c \<notin> set x \<Longrightarrow> Split (Join xs [c] @ c # z) c = xs @ Split z c"
  by (induction xs "[c]" rule: Join.induct) (auto simp: Split_append)

text \<open>The prefix test on strings is a prefix test on components.\<close>

lemma withinBase_comps:
  assumes "list_all good_comp ps" "list_all good_comp bs"
  shows "withinBase (path_of True ps) (path_of True bs) \<longleftrightarrow> prefix bs ps"
proof (cases "bs = []")
  case True
  then show ?thesis
    by (simp add: withinBase_def path_of_def suffix_def)
next
  case False
  have nslash: "\<forall>x \<in> set bs. slash \<notin> set x" "\<forall>x \<in> set ps. slash \<notin> set x"
    using assms by (auto simp: list_all_iff good_comp_def)
  have eq: "path_of True ps = path_of True bs \<longleftrightarrow> ps = bs"
    using clean_comps_path_of(1) assms by (metis list_all_iff)
  have "\<not> suffix ''/'' (path_of True bs)"
  proof
    assume "suffix ''/'' (path_of True bs)"
    then obtain z where z: "path_of True bs = z @ ''/''"
      by (auto simp: suffix_def)
    have "Join bs ''/'' \<noteq> []"
      using assms(2) False by (cases bs; cases "tl bs") (auto simp: good_comp_def)
    with z obtain y where "Join bs ''/'' = y @ [slash]"
      by (cases z) (auto simp: path_of_def)
    then have "Split (Join bs ''/'') slash = Split (y @ slash # []) slash"
      by simp
    then have "bs = Split (y @ slash # []) slash"
      using Split_Join [OF False nslash(1)] by simp
    moreover have "Split (y @ slash # []) slash = Split y slash @ [[]]"
      using Split_not_Nil by (induction y) (auto split: list.split)
    ultimately show False
      using assms(2) by (auto simp: list_all_iff good_comp_def)
  qed
  moreover have "prefix (path_of True bs @ ''/'') (path_of True ps) \<longleftrightarrow> strict_prefix bs ps"
  proof
    assume "prefix (path_of True bs @ ''/'') (path_of True ps)"
    then obtain z where "Join ps ''/'' = Join bs ''/'' @ slash # z"
      by (auto simp: prefix_def path_of_def)
    then have "Split (Join ps ''/'') slash = bs @ Split z slash"
      using Split_Join_rest [OF False nslash(1)] by simp
    moreover have "ps \<noteq> []"
      using \<open>Join ps ''/'' = Join bs ''/'' @ slash # z\<close> by auto
    ultimately show "strict_prefix bs ps"
      using Split_Join [OF _ nslash(2)] by (auto simp: strict_prefix_def prefix_def)
  next
    assume "strict_prefix bs ps"
    then obtain qs where "ps = bs @ qs" "qs \<noteq> []"
      by (auto simp: strict_prefix_def prefix_def)
    then show "prefix (path_of True bs @ ''/'') (path_of True ps)"
      using Join_two [OF False, of qs "''/''"] by (auto simp: path_of_def prefix_def)
  qed
  ultimately show ?thesis
    using eq by (auto simp: withinBase_def strict_prefix_def)
qed

lemma IsAbs_requested [simp]: "IsAbs cwd \<Longrightarrow> IsAbs (Abs cwd p)"
  by simp

lemma SafePath_inside:
  assumes "IsAbs cwd" "SafePath fs cwd b rel \<noteq> []" "EvalSymlinks fs (Abs cwd b) = Some root"
  shows "\<exists>below. clean_comps (SafePath fs cwd b rel) = clean_comps root @ below \<and> IsAbs (SafePath fs cwd b rel) \<and>
    list_all good_comp (clean_comps root @ below) \<and>
    walk fs n [] (clean_comps (SafePath fs cwd b rel)) = Some (clean_comps (SafePath fs cwd b rel))"
proof -
  define req where "req = Abs cwd (JoinPath [Abs cwd b, rel])"
  obtain real where real: "EvalSymlinks fs req = Some real" "withinBase real root" "SafePath fs cwd b rel = real"
    using assms(2,3) by (auto simp: SafePath_def Let_def req_def split: if_splits option.splits)
  obtain rs where rs: "real = path_of True rs" "real_path fs rs" "list_all good_comp rs" "clean_comps real = rs" "IsAbs real"
    using EvalSymlinks_Some [OF real(1)] assms(1) by (auto simp: req_def)
  obtain bs where bs: "root = path_of True bs" "list_all good_comp bs" "clean_comps root = bs"
    using EvalSymlinks_Some [OF assms(3)] assms(1) by auto
  have "prefix bs rs"
    using withinBase_comps [OF rs(3) bs(2)] real(2) rs(1) bs(1) by simp
  then obtain below where "rs = bs @ below"
    by (auto simp: prefix_def)
  then show ?thesis
    using real(3) rs bs walk_real_path [OF rs(2,3)] by auto
qed

lemma visibleUnder_comps:
  assumes "EvalSymlinks fs (Abs cwd b) = Some root" "IsAbs root" "IsAbs p" "clean_comps p = clean_comps root @ below"
    "list_all good_comp below" "visibleUnder fs cwd b p"
  shows "list_all (\<lambda>c. ShouldShow c False) below"
proof (cases "below = []")
  case False
  then have "Rel root p = Some (Join below ''/'')"
    using Rel_below [OF assms(2-4)] by simp
  moreover have "Split (Join below ''/'') slash = below"
    using False assms(5) by (intro Split_Join) (auto simp: list_all_iff good_comp_def)
  moreover have "Join below ''/'' \<noteq> ''.''"
  proof
    assume "Join below ''/'' = ''.''"
    then have "below = [''.'']"
      using calculation(2) by simp
    then show False
      using assms(5) by (simp add: good_comp_def)
  qed
  ultimately show ?thesis
    using assms(1,5,6) by (auto simp: visibleUnder_def Let_def list_all_iff good_comp_def)
qed simp

section \<open>Creating a file\<close>

lemma walk_create_dirs:
  assumes "dir_path fs (d @ cs)" "list_all good_comp cs"
  shows "walk_create fs n d (cs @ ys) = walk_create fs n (d @ cs) ys"
  using assms
proof (induction cs arbitrary: d)
  case (Cons c cs)
  have "\<exists>ns m. fs (d @ [c]) = Some (NDir ns m)"
    using Cons.prems(1) unfolding dir_path_def by (metis append.assoc append_Cons append_Nil prefixI)
  moreover have "c \<noteq> ''..''"
    using Cons.prems(2) by (simp add: good_comp_def)
  ultimately show ?case
    using Cons.IH [of "d @ [c]"] Cons.prems by auto
qed simp

lemma walk_create_real:
  assumes "real_path fs r" "list_all good_comp r"
  shows "walk_create fs n [] r = Some r"
proof (cases "dir_path fs r")
  case True
  then show ?thesis
    using walk_create_dirs [of fs "[]" r n "[]"] assms(2) by simp
next
  case False
  then obtain p c sz m where r: "r = p @ [c]" "dir_path fs p" "fs r = Some (NReg sz m)"
    using assms(1) by (cases r rule: rev_cases) (auto simp: real_path_def)
  have "c \<noteq> ''..''"
    using assms(2) r(1) by (simp add: good_comp_def)
  then show ?thesis
    using walk_create_dirs [of fs "[]" p n "[c]"] r assms(2) by simp
qed

lemma join_child:
  assumes "list_all good_comp ps" "good_comp b"
  shows "clean_comps (JoinPath [path_of True ps, b]) = ps @ [b]"
proof -
  have good: "\<forall>c \<in> set (ps @ [b]). good_comp c"
    using assms by (auto simp: list_all_iff)
  have "comps (path_of True ps @ ''/'' @ b) = ps @ [b]"
  proof (cases "ps = []")
    case True
    then show ?thesis
      using assms(2) by (simp add: path_of_def comps_def Split_clean good_comp_def)
  next
    case False
    have "comps (''/'' @ Join (ps @ [b]) ''/'') = ps @ [b]"
      by (rule Split_slash_Join(1) [OF good])
    then show ?thesis
      using Join_two [OF False, of "[b]" "''/''"] by (simp add: path_of_def)
  qed
  moreover have "b \<noteq> []" "IsAbs (path_of True ps @ ''/'' @ b)"
    using assms(2) by (simp_all add: good_comp_def path_of_def IsAbs_def)
  moreover have "\<forall>c \<in> set (ps @ [b]). c \<noteq> ''..''"
    using good by (auto simp: good_comp_def)
  ultimately have "clean_comps (path_of True ps @ ''/'' @ b) = ps @ [b]"
    using norm_comps_id [of "ps @ [b]" True "[]"] by (simp add: clean_comps_def)
  moreover have "JoinPath [path_of True ps, b] = Clean (path_of True ps @ ''/'' @ b)"
    by (simp add: path_of_def)
  ultimately show ?thesis
    using \<open>IsAbs (path_of True ps @ ''/'' @ b)\<close> by simp
qed

lemma clean_comps_Dir: "IsAbs p \<Longrightarrow> clean_comps (Dir p) = butlast (clean_comps p) \<and> IsAbs (Dir p)"
proof -
  assume p: "IsAbs p"
  then have "\<forall>c \<in> set (butlast (clean_comps p)). good_comp c"
    using clean_comps_good by (auto dest: in_set_butlastD)
  then show ?thesis
    using p clean_comps_path_of by (simp add: Dir_def)
qed

text \<open>What \<^verbatim>\<open>resolveForWrite\<close> hands to \<^verbatim>\<open>os.Create\<close>: a resolved path, or a name in a resolved directory.\<close>

lemma resolveForWrite_cases:
  assumes "IsAbs cwd" "resolveForWrite fs cwd f rel = Ok w" "EvalSymlinks fs (Abs cwd (BasePath f)) = Some root"
  obtains (old) "real_path fs (clean_comps w)" "list_all good_comp (clean_comps w)" "prefix (clean_comps root) (clean_comps w)"
    | (new) p b where "clean_comps w = p @ [b]" "dir_path fs p" "list_all good_comp (p @ [b])" "prefix (clean_comps root) p"
proof -
  define req where "req = Abs cwd (JoinPath [Abs cwd (BasePath f), rel])"
  have abs: "IsAbs req" "IsAbs (Abs cwd (BasePath f))"
    using assms(1) by (simp_all add: req_def)
  obtain bs where bs: "root = path_of True bs" "list_all good_comp bs" "clean_comps root = bs"
    using EvalSymlinks_Some [OF assms(3) abs(2)] by auto
  show ?thesis
  proof (cases "EvalSymlinks fs req")
    case (Some real)
    then have w: "w = real" "withinBase real root"
      using assms(2,3) by (simp_all add: resolveForWrite_def Let_def req_def split: if_splits)
    obtain rs where rs: "real = path_of True rs" "real_path fs rs" "list_all good_comp rs" "clean_comps real = rs"
      using EvalSymlinks_Some [OF Some abs(1)] by auto
    show ?thesis
      using old w rs bs withinBase_comps [OF rs(3) bs(2)] by simp
  next
    case None
    then obtain par where par: "EvalSymlinks fs (Dir req) = Some par" "withinBase par root" "w = JoinPath [par, Base req]"
        "\<exists>ns m. Stat fs par = Some (NDir ns m)"
      using assms(2,3) unfolding resolveForWrite_def Let_def req_def [symmetric]
      by (auto split: if_splits option.splits node.splits)
    obtain ps where ps: "par = path_of True ps" "real_path fs ps" "list_all good_comp ps" "clean_comps par = ps"
      using EvalSymlinks_Some [OF par(1)] clean_comps_Dir [OF abs(1)] by auto
    have "clean_comps req \<noteq> []"
      using None by (auto simp: EvalSymlinks_def)
    then have base: "Base req = last (clean_comps req)" "good_comp (Base req)"
      using clean_comps_good [OF abs(1)] abs(1) by (auto simp: Base_def Let_def IsAbs_def)
    have "dir_path fs ps"
      using par(4) ps walk_real_path [OF ps(2,3), of 40]
      by (auto simp: Stat_def node_at_def real_path_def split: if_splits)
    moreover have "clean_comps w = ps @ [Base req]"
      using par(3) ps(1) join_child [OF ps(3) base(2)] by simp
    moreover have "prefix bs ps"
      using withinBase_comps [OF ps(3) bs(2)] par(2) ps(1) bs(1) by simp
    ultimately show ?thesis
      using new [of ps "Base req"] ps(3) base(2) bs(3) by simp
  qed
qed

section \<open>Properties\<close>

text \<open>
  C16. Reads stay inside the share: the path a peer's request resolves to is the resolved share root
  followed by components that are all shown in listings, and it holds no symbolic link, so opening it
  leads nowhere else.
\<close>

theorem read_stays_inside:
  assumes "IsAbs cwd" "ShareMode f = ModeBrowse" "EvalSymlinks fs (Abs cwd (BasePath f)) = Some root"
    "resolveForRead fs cwd f relPath \<noteq> []"
  shows "\<exists>below. clean_comps (resolveForRead fs cwd f relPath) = clean_comps root @ below \<and>
    list_all (\<lambda>c. ShouldShow c False) below \<and>
    walk fs n [] (clean_comps (resolveForRead fs cwd f relPath)) = Some (clean_comps (resolveForRead fs cwd f relPath))"
proof -
  let ?p = "SafePath fs cwd (BasePath f) relPath"
  have p: "resolveForRead fs cwd f relPath = ?p" "?p \<noteq> []" "visibleUnder fs cwd (BasePath f) ?p"
    using assms(2,4) by (auto simp: resolveForRead_def Let_def split: if_splits)
  obtain below where below: "clean_comps ?p = clean_comps root @ below" "IsAbs ?p" "list_all good_comp (clean_comps root @ below)"
      "walk fs n [] (clean_comps ?p) = Some (clean_comps ?p)"
    using SafePath_inside [OF assms(1) p(2) assms(3), of n] by auto
  have "IsAbs root"
    using EvalSymlinks_Some [OF assms(3)] assms(1) by auto
  then have "list_all (\<lambda>c. ShouldShow c False) below"
    using visibleUnder_comps [OF assms(3) _ below(2,1) _ p(3)] below(3) by simp
  then show ?thesis
    using p(1) below(1,4) by auto
qed

definition demo_fs :: file_system where
  "demo_fs = map_of
     [([''srv''], NDir [''share''] 1), ([''srv'', ''share''], NDir [''a.txt'', ''in'', ''out'', ''new'', ''.git''] 1),
      ([''srv'', ''share'', ''a.txt''], NReg 5 1), ([''srv'', ''share'', ''in''], NLink ''a.txt''),
      ([''srv'', ''share'', ''out''], NLink ''/etc''), ([''srv'', ''share'', ''new''], NLink ''/etc/cron''),
      ([''srv'', ''share'', ''.git''], NDir [] 1), ([''etc''], NDir [] 1)]"

definition demo_share :: file_share where
  "demo_share = \<lparr>BasePath = ''/srv/share'', ShareMode = ModeBrowse, FileName = [], UploadEnabled = True\<rparr>"

theorem read_stays_inside_witness:
  "resolveForRead demo_fs ''/'' demo_share ''in'' = ''/srv/share/a.txt'' \<and>
   (\<exists>below. clean_comps (resolveForRead demo_fs ''/'' demo_share ''in'') = clean_comps ''/srv/share'' @ below \<and>
    list_all (\<lambda>c. ShouldShow c False) below \<and>
    walk demo_fs 0 [] (clean_comps (resolveForRead demo_fs ''/'' demo_share ''in'')) =
      Some (clean_comps (resolveForRead demo_fs ''/'' demo_share ''in'')))"
proof
  show r: "resolveForRead demo_fs ''/'' demo_share ''in'' = ''/srv/share/a.txt''"
    by code_simp
  show "\<exists>below. clean_comps (resolveForRead demo_fs ''/'' demo_share ''in'') = clean_comps ''/srv/share'' @ below \<and>
    list_all (\<lambda>c. ShouldShow c False) below \<and>
    walk demo_fs 0 [] (clean_comps (resolveForRead demo_fs ''/'' demo_share ''in'')) =
      Some (clean_comps (resolveForRead demo_fs ''/'' demo_share ''in''))"
  proof (rule read_stays_inside)
    show "IsAbs ''/''" "ShareMode demo_share = ModeBrowse"
      by (simp_all add: IsAbs_def demo_share_def)
    show "EvalSymlinks demo_fs (Abs ''/'' (BasePath demo_share)) = Some ''/srv/share''"
      by code_simp
    show "resolveForRead demo_fs ''/'' demo_share ''in'' \<noteq> []"
      using r by simp
  qed
qed

text \<open>
  C17. Writes stay inside the share, with one exception: unless the name to be written is itself a
  symbolic link, the file an upload creates or truncates lies under the resolved share root.
\<close>

theorem write_stays_inside:
  assumes "IsAbs cwd" "EvalSymlinks fs (Abs cwd (BasePath f)) = Some root" "resolveForWrite fs cwd f relPath = Ok w"
    "\<not> (\<exists>t. fs (clean_comps w) = Some (NLink t))" "OpenWrite fs cwd f relPath overwrite = Ok q"
  shows "q = clean_comps w \<and> prefix (clean_comps root) q"
proof -
  have q: "walk_create fs 40 [] (clean_comps w) = Some q"
    using assms(3,5) by (auto simp: OpenWrite_def split: if_splits option.splits node.splits)
  show ?thesis
  proof (cases rule: resolveForWrite_cases [OF assms(1,3,2)])
    case 1
    then show ?thesis
      using q walk_create_real [OF 1(1,2), of 40] by simp
  next
    case (2 p b)
    then have "walk_create fs 40 [] (clean_comps w) = walk_create fs 40 p [b]" "b \<noteq> ''..''"
      using walk_create_dirs [of fs "[]" p 40 "[b]"] by (simp_all add: good_comp_def)
    then have "q = p @ [b]"
      using q assms(4) 2(1) by (auto split: option.splits node.splits)
    then show ?thesis
      using 2 by simp
  qed
qed

theorem write_stays_inside_witness:
  "[''srv'', ''share'', ''b.txt''] = clean_comps ''/srv/share/b.txt'' \<and> prefix (clean_comps ''/srv/share'') [''srv'', ''share'', ''b.txt'']"
proof (rule write_stays_inside)
  show "IsAbs ''/''"
    by (simp add: IsAbs_def)
  show "EvalSymlinks demo_fs (Abs ''/'' (BasePath demo_share)) = Some ''/srv/share''"
    by code_simp
  show "resolveForWrite demo_fs ''/'' demo_share ''b.txt'' = Ok ''/srv/share/b.txt''"
    by code_simp
  show "\<not> (\<exists>t. demo_fs (clean_comps ''/srv/share/b.txt'') = Some (NLink t))"
  proof -
    have "demo_fs (clean_comps ''/srv/share/b.txt'') = None"
      by code_simp
    then show ?thesis by simp
  qed
  show "OpenWrite demo_fs ''/'' demo_share ''b.txt'' False = Ok [''srv'', ''share'', ''b.txt'']"
    by code_simp
qed

text \<open>
  The exception is reachable: a link inside the share to a file that does not exist resolves to
  nothing, so the check falls back to the parent of the link, and the upload creates the file the
  link points to, outside the share. A hidden directory's contents can be written too, because only
  the last component is checked.
\<close>

theorem dangling_link_escapes:
  "resolveForWrite demo_fs ''/'' demo_share ''new'' = Ok ''/srv/share/new'' \<and>
   OpenWrite demo_fs ''/'' demo_share ''new'' False = Ok [''etc'', ''cron''] \<and>
   OpenWrite demo_fs ''/'' demo_share ''out/cron'' False = Err PathTraversal \<and>
   OpenWrite demo_fs ''/'' demo_share ''.git/config'' False = Ok [''srv'', ''share'', ''.git'', ''config''] \<and>
   resolveForRead demo_fs ''/'' demo_share ''.git/config'' = []"
  by code_simp

end
