(* ===== verification/Pairing_Props.thy ===== *)
theory Pairing_Props
  imports Pairing
begin

text \<open>
  What pairing promises: the messages are read back, the string both ends compute is a function of
  the nonces and of the pair of fingerprints and its preimage determines them, an honest exchange
  ends with the same verdict on both sides, and no credential leaves the listener without a
  commitment that opened and a string that was typed.
\<close>

section \<open>Messages\<close>

lemma pair_keys [simp]:
  "ToLower ''commit'' = ''commit''"
  "ToLower ''nonce_c'' = ''nonce_c''"
  "ToLower ''nonce_d'' = ''nonce_d''"
  "ToLower ''uid'' = ''uid''"
  "ToLower ''public_key'' = ''public_key''"
  "ToLower ''access_code'' = ''access_code''"
  by code_simp+

lemma pair_message_types:
  "readable env (commit_json c) \<Longrightarrow> PairMessageType env (BuildPairCommit env c) = MsgPairCommit"
  "readable env (challenge_json n) \<Longrightarrow> PairMessageType env (BuildPairChallenge env n) = MsgPairChallenge"
  "readable env (reveal_json n) \<Longrightarrow> PairMessageType env (BuildPairReveal env n) = MsgPairReveal"
  "readable env (creds_json u k a) \<Longrightarrow> PairMessageType env (BuildPairCredentials env u k a) = MsgPairCredentials"
  by (simp_all add: readable_def PairMessageType_def BuildPairCommit_def BuildPairChallenge_def BuildPairReveal_def
      BuildPairCredentials_def commit_json_def challenge_json_def reveal_json_def creds_json_def json_decode)

lemma decodeNonce_Encode: "length n = NonceLen \<Longrightarrow> decodeNonce (EncodeToString StdEncoding n) = Some n"
  by (simp add: decodeNonce_def)

text \<open>The four messages of a pairing are codecs, for any library that reads back what it prints.\<close>

interpretation commit_msg: codec "BuildPairCommit env" "ParsePairCommit env" "\<lambda>c. c \<noteq> [] \<and> readable env (commit_json c)" for env
  by unfold_locales
    (simp add: ParsePairCommit_def BuildPairCommit_def commit_json_def readable_def json_decode put_key_def)

interpretation challenge_msg: codec "BuildPairChallenge env" "ParsePairChallenge env"
    "\<lambda>n. length n = NonceLen \<and> readable env (challenge_json n)" for env
  by unfold_locales
    (simp add: ParsePairChallenge_def BuildPairChallenge_def challenge_json_def readable_def json_decode put_key_def decodeNonce_Encode)

interpretation reveal_msg: codec "BuildPairReveal env" "ParsePairReveal env"
    "\<lambda>n. length n = NonceLen \<and> readable env (reveal_json n)" for env
  by unfold_locales
    (simp add: ParsePairReveal_def BuildPairReveal_def reveal_json_def readable_def json_decode put_key_def decodeNonce_Encode)

interpretation creds_msg: codec "\<lambda>m. BuildPairCredentials env (pc_uid m) (pc_publicKey m) (pc_accessCode m)" "ParsePairCredentials env"
    "\<lambda>m. pc_uid m \<noteq> [] \<and> readable env (creds_json (pc_uid m) (pc_publicKey m) (pc_accessCode m))" for env
  by unfold_locales
    (simp add: ParsePairCredentials_def BuildPairCredentials_def creds_json_def readable_def json_decode put_creds_def)

lemma VerifyCommitment_iff: "VerifyCommitment env commit nonce \<longleftrightarrow> commit = Commitment env nonce"
  by (simp add: VerifyCommitment_def Let_def CompareStrings_eq)

text \<open>A commitment binds its owner: the nonces that open it have one hash.\<close>

lemma commitment_binds:
  "VerifyCommitment env commit n \<Longrightarrow> VerifyCommitment env commit n' \<Longrightarrow> sha256 env n = sha256 env n'"
  by (simp add: VerifyCommitment_iff Commitment_def EncodeToString_inj)

section \<open>The string\<close>

lemma sort2: "sort [a, b] = (if a \<le> b then [a, b] else [b, a :: string])"
  by simp

lemma sas_input_sym: "sas_input rc rd a b = sas_input rc rd b a"
  unfolding sas_input_def sort2 by (cases "ToUpper a = ToUpper b") (auto simp: Let_def)

lemma ComputeSAS_sym: "ComputeSAS env rc rd a b = ComputeSAS env rc rd b a"
  by (simp only: ComputeSAS_def sas_input_sym [of rc rd a b])

lemma fp_normal_no_bar: "list_all fp_normal s \<Longrightarrow> CHR ''|'' \<notin> set s"
  by (auto simp: list_all_iff fp_normal_def fp_char_def is_digit_def ascii_upper_def)

lemma split_at_bar:
  assumes "CHR ''|'' \<notin> set a" "CHR ''|'' \<notin> set c" "a @ ''|'' @ b = c @ ''|'' @ d"
  shows "a = c \<and> b = d"
  using assms Split_append [of "CHR ''|''" a b] Split_append [of "CHR ''|''" c d] by (metis append.left_neutral append_Cons list.inject append_same_eq same_append_eq)

text \<open>
  What the short string authenticates: with nonces of the fixed length, the bytes that are hashed
  are the same if and only if the two nonces are and the two ends see the same pair of fingerprints,
  in either order. A relay in the middle, which has a fingerprint of its own on each leg, makes the
  two ends hash different bytes.
\<close>

theorem sas_input_exact:
  assumes "length rc = NonceLen" "length rd = NonceLen" "length rc' = NonceLen" "length rd' = NonceLen"
  shows "sas_input rc rd (ExtractFingerprint s1) (ExtractFingerprint s2) =
      sas_input rc' rd' (ExtractFingerprint t1) (ExtractFingerprint t2) \<longleftrightarrow>
    rc = rc' \<and> rd = rd' \<and>
    sort [ExtractFingerprint s1, ExtractFingerprint s2] = sort [ExtractFingerprint t1, ExtractFingerprint t2]"
proof -
  have input: "sas_input x y (ExtractFingerprint s) (ExtractFingerprint t) =
      x @ y @ bytes_of (hd (sort [ExtractFingerprint s, ExtractFingerprint t]) @ ''|'' @ last (sort [ExtractFingerprint s, ExtractFingerprint t]))"
    for x y s t
    by (simp add: sas_input_def)
  have clean: "CHR ''|'' \<notin> set (hd (sort [ExtractFingerprint s, ExtractFingerprint t]))" for s t
    using fp_normal_no_bar [OF ExtractFingerprint_normal] by simp
  have pair: "sort [ExtractFingerprint s, ExtractFingerprint t] =
      [hd (sort [ExtractFingerprint s, ExtractFingerprint t]), last (sort [ExtractFingerprint s, ExtractFingerprint t])]" for s t
    by simp
  show ?thesis (is "?l = ?r")
  proof
    assume ?l
    then have "rc = rc'" "rd = rd'"
        "hd (sort [ExtractFingerprint s1, ExtractFingerprint s2]) @ ''|'' @ last (sort [ExtractFingerprint s1, ExtractFingerprint s2]) =
         hd (sort [ExtractFingerprint t1, ExtractFingerprint t2]) @ ''|'' @ last (sort [ExtractFingerprint t1, ExtractFingerprint t2])"
      using assms unfolding input by (simp_all add: bytes_of_inj)
    then show ?r
      using split_at_bar [OF clean clean] pair by metis
  next
    assume r: ?r
    then show ?l
      unfolding input by simp
  qed
qed

section \<open>The operator\<close>

lemma sas_loop_match:
  "sas_loop expected prompt k n = None \<Longrightarrow>
     \<exists>j \<ge> k. j < k + n \<and> snd (prompt j) = PromptOK \<and> TrimSpace (fst (prompt j)) = expected \<and>
       (\<forall>i \<ge> k. i < j \<longrightarrow> snd (prompt i) = PromptOK \<and> TrimSpace (fst (prompt i)) \<noteq> expected)"
proof (induction n arbitrary: k)
  case (Suc n)
  obtain typed status where p: "prompt k = (typed, status)" by fastforce
  show ?case
  proof (cases "status = PromptOK \<and> TrimSpace typed = expected")
    case True
    then show ?thesis
      using p by (intro exI [of _ k]) auto
  next
    case False
    then have "sas_loop expected prompt (Suc k) n = None" "status = PromptOK" "TrimSpace typed \<noteq> expected"
      using Suc.prems p by (auto split: prompt_status.splits if_splits)
    with Suc.IH [of "Suc k"] p show ?thesis
      by (metis (no_types, lifting) Suc_leD add_Suc_shift antisym fst_conv not_less_eq_eq snd_conv le_antisym)
  qed
qed simp

lemma sas_loop_reason: "sas_loop expected prompt k n = Some r \<Longrightarrow> r \<in> {''sas_mismatch'', ''user_declined'', ''timeout''}"
  by (induction n arbitrary: k) (auto split: prod.splits prompt_status.splits if_splits)

section \<open>The listener\<close>

lemma pair_frames_append [simp]: "pair_frames (a @ b) = pair_frames a @ pair_frames b"
  by (induction a rule: pair_frames.induct) simp_all

lemma verdict_approves: "PairApproved \<in> set (pair_verdict env dev w rc rd l r) \<longleftrightarrow>
    PromptForSAS (ComputeSAS env rc rd l r) (pw_prompt w) = None \<and> pw_grant w \<noteq> Some None"
  by (auto simp: pair_verdict_def deliver_def split: option.splits if_splits)

lemma verdict_silent: "PairApproved \<notin> set (pair_verdict env dev w rc rd l r) \<Longrightarrow> pair_frames (pair_verdict env dev w rc rd l r) = []"
  by (auto simp: pair_verdict_def deliver_def split: option.splits if_splits)

text \<open>An exchange that approves, and one that does not.\<close>

lemma exchange_approves:
  assumes "PairApproved \<in> set (pair_exchange env dev w l r)"
  obtains d1 d2 rd rc where "pw_commit w = Some d1" "ParsePairCommit env d1 = Some (Commitment env rc)" "pw_nonce w = Some rd"
    "pw_reveal w = Some d2" "ParsePairReveal env d2 = Some rc" "PromptForSAS (ComputeSAS env rc rd l r) (pw_prompt w) = None"
  using assms by (auto simp: pair_exchange_def verdict_approves VerifyCommitment_iff split: option.splits if_splits)

lemma exchange_silent:
  "PairApproved \<notin> set (pair_exchange env dev w l r) \<Longrightarrow>
     pair_frames (pair_exchange env dev w l r) \<in> {[], (case pw_nonce w of None \<Rightarrow> [] | Some rd \<Rightarrow> [BuildPairChallenge env rd])}"
  by (auto simp: pair_exchange_def verdict_silent split: option.splits)

lemma typed_string:
  assumes "PromptForSAS e p = None"
  shows "\<exists>k. k \<in> {1, 2, 3} \<and> snd (p k) = PromptOK \<and> TrimSpace (fst (p k)) = e"
proof -
  obtain j where "1 \<le> j" "j < 1 + 3" "snd (p j) = PromptOK" "TrimSpace (fst (p j)) = e"
    using sas_loop_match [of e p 1 3] assms by (auto simp: PromptForSAS_def MaxSASAttempts_def)
  then show ?thesis
    by (intro exI [of _ j]) auto
qed

text \<open>
  C28. No credential leaves the listener before the pairing is verified. When the listener approves,
  the connector had committed to its nonce before the challenge was sent, its reveal opened that
  commitment, and within three attempts the operator typed the string the listener computes from the
  two nonces and the two fingerprints it sees. When it does not approve, the only frame it has sent
  is at most the challenge.
\<close>

theorem pair_credentials_gated:
  "if PairApproved \<in> set (handlePairRequestOnOpen env dev w)
   then \<exists>d1 d2 rd rc k. pw_commit w = Some d1 \<and> ParsePairCommit env d1 = Some (Commitment env rc) \<and> pw_nonce w = Some rd \<and>
     pw_reveal w = Some d2 \<and> ParsePairReveal env d2 = Some rc \<and> k \<in> {1, 2, 3} \<and> snd (pw_prompt w k) = PromptOK \<and>
     TrimSpace (fst (pw_prompt w k)) =
       ComputeSAS env rc rd (ExtractFingerprint (pw_local w)) (ExtractFingerprint (pw_remote w))
   else pair_frames (handlePairRequestOnOpen env dev w)
      \<in> {[], (case pw_nonce w of None \<Rightarrow> [] | Some rd \<Rightarrow> [BuildPairChallenge env rd])}"
proof (cases "PairApproved \<in> set (handlePairRequestOnOpen env dev w)")
  case True
  then have "PairApproved \<in> set (pair_exchange env dev w (ExtractFingerprint (pw_local w)) (ExtractFingerprint (pw_remote w)))"
    by (auto simp: handlePairRequestOnOpen_def Let_def split: if_splits)
  then obtain d1 d2 rd rc where "pw_commit w = Some d1" "ParsePairCommit env d1 = Some (Commitment env rc)" "pw_nonce w = Some rd"
      "pw_reveal w = Some d2" "ParsePairReveal env d2 = Some rc"
    and typed: "PromptForSAS (ComputeSAS env rc rd (ExtractFingerprint (pw_local w)) (ExtractFingerprint (pw_remote w))) (pw_prompt w) = None"
    by (rule exchange_approves)
  with typed_string [OF typed] True show ?thesis by auto
next
  case False
  then show ?thesis
    using exchange_silent [of env dev w "ExtractFingerprint (pw_local w)" "ExtractFingerprint (pw_remote w)"]
    by (auto simp: handlePairRequestOnOpen_def Let_def split: if_splits)
qed

section \<open>Both ends\<close>

text \<open>
  The two sides wired together: the frames of each reach the other in order; where the listener sends
  no further frame the connector learns the reason from the signaling server.
\<close>

definition frame_at :: "nat \<Rightarrow> byte list list \<Rightarrow> byte list option" where
  "frame_at i fs = (if i < length fs then Some (fs ! i) else None)"

fun refusal :: "pair_act list \<Rightarrow> string option" where
  "refusal [] = None"
| "refusal (PairRejected r # acts) = Some r"
| "refusal (_ # acts) = refusal acts"

definition heard :: "nat \<Rightarrow> pair_act list \<Rightarrow> byte list pair_wait" where
  "heard i acts =
     (case frame_at i (pair_frames acts) of
        Some b \<Rightarrow> PwGot b
      | None \<Rightarrow> (case refusal acts of Some r \<Rightarrow> PwOutcome r | None \<Rightarrow> PwDeadline))"

definition wired :: "go_env \<Rightarrow> device_id \<Rightarrow> string \<Rightarrow> pair_world \<Rightarrow> conn_world \<Rightarrow> bool" where
  "wired env dev code wd wc \<longleftrightarrow>
     (let c = conn_frames (fst (runPairConnect env code wc)); d = handlePairRequestOnOpen env dev wd in
      pw_commit wd = frame_at 0 c \<and> pw_reveal wd = frame_at 1 c \<and>
      cw_challenge wc = heard 0 d \<and> cw_verdict wc = heard 1 d)"

text \<open>Both sides get as far as an open channel, draw their nonces, and see the same two descriptions.\<close>

definition both_ready :: "go_env \<Rightarrow> device_id \<Rightarrow> string \<Rightarrow> pair_world \<Rightarrow> conn_world \<Rightarrow> byte list \<Rightarrow> byte list \<Rightarrow> bool" where
  "both_ready env dev code wd wc rc rd \<longleftrightarrow>
     isPairCode code \<and> cw_connect wc = None \<and> cw_routed wc = PwGot () \<and> cw_offer wc = PwGot () \<and>
     cw_answer wc = Inr (pw_remote wd, pw_local wd) \<and> cw_open wc = DcOpened \<and> cw_send1 wc \<and> cw_send2 wc \<and> pw_sends wd \<and>
     cw_nonce wc = Some rc \<and> length rc = NonceLen \<and> pw_nonce wd = Some rd \<and> length rd = NonceLen \<and>
     ExtractFingerprint (pw_local wd) \<noteq> [] \<and> ExtractFingerprint (pw_remote wd) \<noteq> [] \<and> sha256 env rc \<noteq> [] \<and>
     readable env (commit_json (Commitment env rc)) \<and> readable env (challenge_json rd) \<and> readable env (reveal_json rc)"

lemma Commitment_nonempty: "sha256 env rc \<noteq> [] \<Longrightarrow> Commitment env rc \<noteq> []"
  using EncodeToString_inj [of StdEncoding "sha256 env rc" "[]"] by (simp add: Commitment_def EncodeToString.simps(1))

lemma wired_exchange:
  assumes "wired env dev code wd wc" "both_ready env dev code wd wc rc rd"
  shows "handlePairRequestOnOpen env dev wd =
      PairSend (BuildPairChallenge env rd) # pair_verdict env dev wd rc rd (ExtractFingerprint (pw_local wd)) (ExtractFingerprint (pw_remote wd))
        @ (if pw_doneHook wd then [PairDone] else [])" (is ?dev)
    and "runPairConnect env code wc =
      ([ConnAnswer (pw_remote wd), ConnSend (BuildPairCommit env (Commitment env rc)), ConnSend (BuildPairReveal env rc),
        ConnShow (ComputeSAS env rc rd (ExtractFingerprint (pw_local wd)) (ExtractFingerprint (pw_remote wd)))], conn_verdict env wc)" (is ?conn)
proof -
  note ready = assms(2) [unfolded both_ready_def]
  note types = pair_message_types(1) [of env "Commitment env rc"] pair_message_types(2) [of env rd] pair_message_types(3) [of env rc]
  have conn: "runPairConnect env code wc =
      (case conn_exchange env wc (pw_remote wd) (pw_local wd) of (acts, r) \<Rightarrow> (ConnAnswer (pw_remote wd) # acts, r))"
    using ready by (simp add: runPairConnect_def conn_setup_def)
  have "conn_frames (fst (conn_exchange env wc (pw_remote wd) (pw_local wd))) ! 0 = BuildPairCommit env (Commitment env rc)"
      "0 < length (conn_frames (fst (conn_exchange env wc (pw_remote wd) (pw_local wd))))"
    using ready by (auto simp: conn_exchange_def Let_def split: pair_wait.split option.split prod.split)
  then have commit: "pw_commit wd = Some (BuildPairCommit env (Commitment env rc))"
    using assms(1) conn by (cases "conn_exchange env wc (pw_remote wd) (pw_local wd)") (simp add: wired_def Let_def frame_at_def)
  have parsed: "ParsePairCommit env (BuildPairCommit env (Commitment env rc)) = Some (Commitment env rc)"
    using ready commit_msg.dec_enc [of "Commitment env rc" env] by (simp add: Commitment_nonempty)
  have "pair_frames (handlePairRequestOnOpen env dev wd) ! 0 = BuildPairChallenge env rd" "0 < length (pair_frames (handlePairRequestOnOpen env dev wd))"
    using ready commit types parsed by (simp_all add: handlePairRequestOnOpen_def Let_def pair_exchange_def)
  then have "cw_challenge wc = PwGot (BuildPairChallenge env rd)"
    using assms(1) by (simp add: wired_def Let_def heard_def frame_at_def)
  then show c: ?conn
    using ready types challenge_msg.dec_enc [of rd env]
    by (simp add: conn conn_exchange_def conn_reveal_def Let_def ComputeSAS_sym [of env rc rd "ExtractFingerprint (pw_remote wd)"])
  then have "pw_reveal wd = Some (BuildPairReveal env rc)"
    using assms(1) by (simp add: wired_def Let_def frame_at_def)
  then show ?dev
    using ready commit types parsed reveal_msg.dec_enc [of rc env]
    by (simp add: handlePairRequestOnOpen_def Let_def pair_exchange_def VerifyCommitment_iff)
qed

text \<open>The wiring is consistent: these are the frames of a pairing that succeeds.\<close>

lemma wired_honest:
  assumes "both_ready env dev code wd wc rc rd"
    "pw_commit wd = Some (BuildPairCommit env (Commitment env rc))" "pw_reveal wd = Some (BuildPairReveal env rc)"
    "PromptForSAS (ComputeSAS env rc rd (ExtractFingerprint (pw_local wd)) (ExtractFingerprint (pw_remote wd))) (pw_prompt wd) = None"
    "pw_grant wd = Some (Some c)" "pw_delivers wd" "cw_challenge wc = PwGot (BuildPairChallenge env rd)"
    "cw_verdict wc = PwGot (BuildPairCredentials env (id_UID dev) (id_PublicB64 dev) c)"
  shows "wired env dev code wd wc"
proof -
  note ready = assms(1) [unfolded both_ready_def]
  note types = pair_message_types(1) [of env "Commitment env rc"] pair_message_types(2) [of env rd] pair_message_types(3) [of env rc]
  have "ParsePairCommit env (BuildPairCommit env (Commitment env rc)) = Some (Commitment env rc)"
    using ready commit_msg.dec_enc [of "Commitment env rc" env] by (simp add: Commitment_nonempty)
  then have "pair_frames (handlePairRequestOnOpen env dev wd) =
      [BuildPairChallenge env rd, BuildPairCredentials env (id_UID dev) (id_PublicB64 dev) c]"
    using ready assms types reveal_msg.dec_enc [of rc env]
    by (simp add: handlePairRequestOnOpen_def Let_def pair_exchange_def VerifyCommitment_iff pair_verdict_def deliver_def)
  moreover have "conn_frames (fst (runPairConnect env code wc)) = [BuildPairCommit env (Commitment env rc), BuildPairReveal env rc]"
    using ready assms types challenge_msg.dec_enc [of rd env]
    by (simp add: runPairConnect_def conn_setup_def conn_exchange_def conn_reveal_def Let_def)
  ultimately show ?thesis
    using assms by (simp add: wired_def Let_def heard_def frame_at_def)
qed

text \<open>What the connector ends with when the listener approved with a code.\<close>

definition got_code :: "pair_world \<Rightarrow> conn_world \<Rightarrow> device_id \<Rightarrow> string \<Rightarrow> pair_result" where
  "got_code wd wc dev code =
     (if pw_delivers wd then Paired \<lparr>rs_server = cw_server wc, rs_uid = id_UID dev, rs_code = code\<rparr>
      else PairFailed (PairTimedOut ''approval''))"

text \<open>
  C29. Pairing agrees. When both sides get as far as an open channel whose fingerprints they see
  alike, the string the connector shows is the one the listener's operator is asked for, and the
  connector ends with exactly the verdict of the listener: paired with the listener's identifier and
  the code that was minted for it (or the device's own where nothing is minted) if the operator types
  that string within three attempts and the grant is not withdrawn, and otherwise refused with the
  listener's reason. Where the listener approves and its credentials frame could not be sent, the
  connector does not pair: its wait for the approval ends at the deadline.
\<close>

theorem pairing_agreement:
  assumes "wired env dev code wd wc" "both_ready env dev code wd wc rc rd" "id_UID dev \<noteq> []"
    "readable env (creds_json (id_UID dev) (id_PublicB64 dev) (case pw_grant wd of Some (Some c) \<Rightarrow> c | _ \<Rightarrow> id_Code dev))"
  shows "let sas = ComputeSAS env rc rd (ExtractFingerprint (pw_local wd)) (ExtractFingerprint (pw_remote wd)) in
    ConnShow sas \<in> set (fst (runPairConnect env code wc)) \<and>
    snd (runPairConnect env code wc) =
      (case PromptForSAS sas (pw_prompt wd) of
         Some reason \<Rightarrow> PairRefused reason
       | None \<Rightarrow>
           (case pw_grant wd of
              Some None \<Rightarrow> PairRefused ''user_declined''
            | Some (Some c) \<Rightarrow> got_code wd wc dev c
            | None \<Rightarrow> got_code wd wc dev (id_Code dev)))"
proof -
  define sas where "sas = ComputeSAS env rc rd (ExtractFingerprint (pw_local wd)) (ExtractFingerprint (pw_remote wd))"
  note run = wired_exchange [OF assms(1,2)]
  have got: "conn_verdict env wc = Paired \<lparr>rs_server = cw_server wc, rs_uid = id_UID dev, rs_code = c\<rparr>"
    if "cw_verdict wc = PwGot (BuildPairCredentials env (id_UID dev) (id_PublicB64 dev) c)"
      "readable env (creds_json (id_UID dev) (id_PublicB64 dev) c)" for c
    using that assms(3) pair_message_types(4) [OF that(2)]
      creds_msg.dec_enc [of "\<lparr>pc_uid = id_UID dev, pc_publicKey = id_PublicB64 dev, pc_accessCode = c\<rparr>" env]
    by (simp add: conn_verdict_def handlePairOutcome_def)
  have refused: "conn_verdict env wc = PairRefused reason" if "cw_verdict wc = PwOutcome reason" for reason
    using that by (simp add: conn_verdict_def handlePairOutcome_def)
  have lost: "conn_verdict env wc = PairFailed (PairTimedOut ''approval'')" if "cw_verdict wc = PwDeadline"
    using that by (simp add: conn_verdict_def)
  have "cw_verdict wc = heard 1 (handlePairRequestOnOpen env dev wd)"
    using assms(1) by (simp add: wired_def Let_def)
  then have "conn_verdict env wc =
      (case PromptForSAS sas (pw_prompt wd) of
         Some reason \<Rightarrow> PairRefused reason
       | None \<Rightarrow>
           (case pw_grant wd of
              Some None \<Rightarrow> PairRefused ''user_declined''
            | Some (Some c) \<Rightarrow> got_code wd wc dev c
            | None \<Rightarrow> got_code wd wc dev (id_Code dev)))"
    using got refused lost assms(4) unfolding run(1) sas_def [symmetric] pair_verdict_def deliver_def
    by (auto simp: heard_def frame_at_def got_code_def split: option.splits)
  then show ?thesis
    unfolding run(2) sas_def [symmetric] Let_def by simp
qed

section \<open>A pairing, run\<close>

definition demo_rc :: "byte list" where "demo_rc = replicate 32 0"
definition demo_rd :: "byte list" where "demo_rd = replicate 32 1"

definition pair_table :: "json list" where
  "pair_table = [commit_json (EncodeToString StdEncoding demo_rc), challenge_json demo_rd, reveal_json demo_rc, creds_json ''dev'' ''key'' ''minted'']"

definition pair_env :: go_env where
  "pair_env = indexed_env pair_table"

definition demo_sdp :: "char \<Rightarrow> string" where
  "demo_sdp c = ''a=fingerprint:sha-256 '' @ [c]"

definition demo_dev :: device_id where
  "demo_dev = \<lparr>id_UID = ''dev'', id_Code = ''own'', id_PublicB64 = ''key''\<rparr>"

text \<open>The operator mistypes once.\<close>

definition demo_wd :: pair_world where
  "demo_wd = \<lparr>pw_local = demo_sdp (CHR ''A''), pw_remote = demo_sdp (CHR ''b''),
     pw_commit = Some (BuildPairCommit pair_env (Commitment pair_env demo_rc)), pw_nonce = Some demo_rd, pw_sends = True,
     pw_reveal = Some (BuildPairReveal pair_env demo_rc),
     pw_prompt = (\<lambda>k. (if k = 1 then ''123456'' else '' 000000 '', PromptOK)), pw_grant = Some (Some ''minted''), pw_delivers = True, pw_doneHook = True\<rparr>"

definition demo_wc :: conn_world where
  "demo_wc = \<lparr>cw_server = ''bitba.ng'', cw_connect = None, cw_routed = PwGot (), cw_offer = PwGot (),
     cw_answer = Inr (demo_sdp (CHR ''b''), demo_sdp (CHR ''A'')), cw_open = DcOpened, cw_nonce = Some demo_rc, cw_send1 = True,
     cw_challenge = PwGot (BuildPairChallenge pair_env demo_rd), cw_send2 = True,
     cw_verdict = PwGot (BuildPairCredentials pair_env ''dev'' ''key'' ''minted'')\<rparr>"

lemma pair_env_readable: "j \<in> set pair_table \<Longrightarrow> readable pair_env j"
  by (simp add: pair_env_def indexed_readable pair_table_def)

lemma pair_env_Commitment: "Commitment pair_env n = EncodeToString StdEncoding n"
  by (simp add: Commitment_def pair_env_def indexed_env_def)

lemma demo_fps: "ExtractFingerprint (demo_sdp (CHR ''A'')) = ''A''" "ExtractFingerprint (demo_sdp (CHR ''b'')) = ''B''"
  by code_simp+

lemma demo_ready: "both_ready pair_env demo_dev ''123456'' demo_wd demo_wc demo_rc demo_rd"
proof -
  have "isPairCode ''123456''"
    by code_simp
  moreover have "readable pair_env (commit_json (EncodeToString StdEncoding demo_rc))" "readable pair_env (challenge_json demo_rd)"
      "readable pair_env (reveal_json demo_rc)"
    by (simp_all add: pair_env_readable pair_table_def)
  moreover have "sha256 pair_env demo_rc \<noteq> []"
    by (simp add: demo_rc_def pair_env_def indexed_env_def)
  ultimately show ?thesis
    by (simp add: both_ready_def demo_wd_def demo_wc_def demo_fps pair_env_Commitment)
      (simp add: demo_rc_def demo_rd_def NonceLen_def)
qed

lemma demo_sas: "ComputeSAS pair_env demo_rc demo_rd ''A'' ''B'' = ''000000''"
proof -
  have four: "replicate 4 (0 :: byte) = [0, 0, 0, 0]"
    by (simp add: eval_nat_numeral)
  have "take 4 (sha256 pair_env (sas_input demo_rc demo_rd ''A'' ''B'')) = [0, 0, 0, 0]"
    by (simp add: pair_env_def indexed_env_def sas_input_def demo_rc_def Let_def four)
  moreover have "BigEndian32 [0, 0, 0, 0] = 0"
    by (simp add: BigEndian32_def)
  moreover have "pad6 0 = ''000000''"
    by code_simp
  ultimately show ?thesis
    by (simp add: ComputeSAS_def)
qed

lemma demo_typed: "PromptForSAS ''000000'' (pw_prompt demo_wd) = None"
proof -
  have "TrimSpace ''123456'' = ''123456''" "TrimSpace '' 000000 '' = ''000000''"
    by code_simp+
  then show ?thesis
    by (simp add: PromptForSAS_def MaxSASAttempts_def numeral_3_eq_3 demo_wd_def)
qed

lemma demo_wired: "wired pair_env demo_dev ''123456'' demo_wd demo_wc"
  using demo_typed
  by (intro wired_honest [OF demo_ready, where c = "''minted''"])
    (simp_all add: demo_wd_def demo_wc_def demo_dev_def demo_fps demo_sas)

theorem pairing_agreement_witness:
  "snd (runPairConnect pair_env ''123456'' demo_wc) = Paired \<lparr>rs_server = ''bitba.ng'', rs_uid = ''dev'', rs_code = ''minted''\<rparr>"
proof -
  have "readable pair_env (creds_json (id_UID demo_dev) (id_PublicB64 demo_dev) (case pw_grant demo_wd of Some (Some c) \<Rightarrow> c | _ \<Rightarrow> id_Code demo_dev))"
    by (simp add: pair_env_readable pair_table_def demo_dev_def demo_wd_def)
  from pairing_agreement [OF demo_wired demo_ready _ this] show ?thesis
    using demo_typed by (simp add: demo_dev_def demo_wd_def demo_wc_def demo_fps demo_sas got_code_def)
qed

theorem sas_input_exact_witness:
  "sas_input demo_rc demo_rd (ExtractFingerprint (demo_sdp (CHR ''A''))) (ExtractFingerprint (demo_sdp (CHR ''b''))) \<noteq>
   sas_input demo_rc demo_rd (ExtractFingerprint (demo_sdp (CHR ''A''))) (ExtractFingerprint (demo_sdp (CHR ''A'')))"
  using sas_input_exact [of demo_rc demo_rd demo_rc demo_rd "demo_sdp (CHR ''A'')" "demo_sdp (CHR ''b'')" "demo_sdp (CHR ''A'')" "demo_sdp (CHR ''A'')"]
  by (simp add: demo_rc_def demo_rd_def NonceLen_def demo_fps)

end
