(* ===== verification/Connection_Props.thy ===== *)
theory Connection_Props
  imports Connection Pairing_Props
begin

text \<open>
  What bidirectional verification promises: the listener proves itself only after every answer it took
  carried an authorized code and the fingerprint of the channel, the connector's credentials go only
  to the key its URL names, the two ends accept each other when nobody interferes, and the teardown
  callback runs once whatever comes first.
\<close>

section \<open>The answer\<close>

lemma request_keys [simp]:
  "ToLower ''fingerprint'' = ''fingerprint''"
  "ToLower ''nonce'' = ''nonce''"
  by code_simp+

definition authorized :: "(string \<Rightarrow> string option) option \<Rightarrow> device_id \<Rightarrow> string \<Rightarrow> bool" where
  "authorized auth dev code \<longleftrightarrow> (case auth of Some a \<Rightarrow> a code \<noteq> None | None \<Rightarrow> code = id_Code dev)"

text \<open>
  The nonce an answer proves, if it proves anything: its request decrypts to a well-formed payload with
  an authorized code and the fingerprint of the description it came with.
\<close>

definition proved_nonce ::
  "go_env \<Rightarrow> (byte list \<Rightarrow> byte list option) \<Rightarrow> device_id \<Rightarrow> (string \<Rightarrow> string option) option \<Rightarrow> string \<times> string \<Rightarrow> byte list option" where
  "proved_nonce env decrypt dev auth a =
     (case Option.bind (DecodeString StdEncoding (snd a)) decrypt of
        None \<Rightarrow> None
      | Some plaintext \<Rightarrow>
          (case Unmarshal put_req zero_req (js_parse env plaintext) of
             (req, ok) \<Rightarrow>
               if ok \<and> snd a \<noteq> [] \<and> authorized auth dev (vr_code req) \<and> ExtractFingerprint (fst a) \<noteq> [] \<and>
                  ToUpper (vr_fingerprint req) = ExtractFingerprint (fst a)
               then DecodeString StdEncoding (vr_nonce req) else None))"

lemma check_code_authorized: "check_code dev code c = None \<longleftrightarrow> \<not> authorized (cn_authorize c) dev code"
  by (auto simp: check_code_def authorized_def CompareStrings_eq split: option.splits)

lemma check_code_same:
  "check_code dev code c = Some c1 \<Longrightarrow> c1 = c\<lparr>cn_access := cn_access c1\<rparr> \<and> authorized (cn_authorize c) dev code"
  using check_code_authorized [of dev code c]
  by (auto simp: check_code_def split: option.splits if_splits)

lemma HandleAnswer_cases:
  obtains "\<not> acc" "HandleAnswer env decrypt dev sdp enc acc c = (Err RemoteDescription, c)"
  | a e where "acc" "proved_nonce env decrypt dev (cn_authorize c) (sdp, enc) = None"
      "HandleAnswer env decrypt dev sdp enc acc c = (Err e, c\<lparr>cn_verifyFailed := True, cn_access := a\<rparr>)"
  | a n where "acc" "proved_nonce env decrypt dev (cn_authorize c) (sdp, enc) = Some n"
      "HandleAnswer env decrypt dev sdp enc acc c = (Ok (), c\<lparr>cn_nonce := Some n, cn_access := a\<rparr>)"
proof -
  have mark: "markVerifyFailed c1 = c\<lparr>cn_verifyFailed := True, cn_access := cn_access c1\<rparr>" if "c1 = c\<lparr>cn_access := cn_access c1\<rparr>" for c1
    using that by (cases c1; cases c) (simp add: markVerifyFailed_def)
  show thesis
  proof (cases acc)
    case False
    then show thesis
      using that(1) by (simp add: HandleAnswer_def)
  next
    case True
    show thesis
    proof (cases "proved_nonce env decrypt dev (cn_authorize c) (sdp, enc)")
      case None
      have "\<exists>e c1. HandleAnswer env decrypt dev sdp enc acc c = (Err e, markVerifyFailed c1) \<and> c1 = c\<lparr>cn_access := cn_access c1\<rparr>"
        using None True
        by (auto simp: HandleAnswer_def proved_nonce_def Let_def FingerprintsEqual_normal check_code_authorized
            dest: check_code_same split: option.splits prod.splits if_splits)
      then show thesis
        using that(2) [OF True None] mark by metis
    next
      case (Some n)
      then obtain ct pt req where req: "DecodeString StdEncoding enc = Some ct" "decrypt ct = Some pt"
          "Unmarshal put_req zero_req (js_parse env pt) = (req, True)" "enc \<noteq> []" "ExtractFingerprint sdp \<noteq> []"
          "ToUpper (vr_fingerprint req) = ExtractFingerprint sdp" "DecodeString StdEncoding (vr_nonce req) = Some n"
        and auth: "authorized (cn_authorize c) dev (vr_code req)"
        by (auto simp: proved_nonce_def bind_eq_Some_conv split: option.splits prod.splits if_splits)
      then obtain c1 where c1: "check_code dev (vr_code req) c = Some c1"
        using check_code_authorized [of dev "vr_code req" c] by (cases "check_code dev (vr_code req) c") simp_all
      then have "c1\<lparr>cn_nonce := Some n\<rparr> = c\<lparr>cn_nonce := Some n, cn_access := cn_access c1\<rparr>"
        using check_code_same by (cases c; cases c1) fastforce
      then have "\<exists>a. HandleAnswer env decrypt dev sdp enc acc c = (Ok (), c\<lparr>cn_nonce := Some n, cn_access := a\<rparr>)"
        using req c1 True by (auto simp: HandleAnswer_def Let_def FingerprintsEqual_normal)
      then show thesis
        using that(3) [OF True Some] by metis
    qed
  qed
qed

section \<open>The reply\<close>

fun accepted_answers :: "conn_event list \<Rightarrow> (string \<times> string) list" where
  "accepted_answers [] = []"
| "accepted_answers (CeAnswer sdp enc True # evs) = (sdp, enc) # accepted_answers evs"
| "accepted_answers (_ # evs) = accepted_answers evs"

lemma accepted_append [simp]: "accepted_answers (a @ b) = accepted_answers a @ accepted_answers b"
  by (induction a rule: accepted_answers.induct) simp_all

text \<open>The fields an event other than an answer leaves alone.\<close>

lemma callback_fields [simp]:
  "cn_authorize (run_callback fn c) = cn_authorize c" "cn_nonce (run_callback fn c) = cn_nonce c"
  "cn_verifyFailed (run_callback fn c) = cn_verifyFailed c" "cn_sent (run_callback fn c) = cn_sent c"
  "cn_pairing (run_callback fn c) = cn_pairing c" "cn_closed (run_callback fn c) = cn_closed c"
  "cn_onCloseSet (run_callback fn c) = cn_onCloseSet c" "cn_onClose (run_callback fn c) = cn_onClose c"
  by (simp_all add: run_callback_def split: option.split)

lemma fireClose_fields [simp]:
  "cn_authorize (fireClose c) = cn_authorize c" "cn_nonce (fireClose c) = cn_nonce c"
  "cn_verifyFailed (fireClose c) = cn_verifyFailed c" "cn_sent (fireClose c) = cn_sent c" "cn_pairing (fireClose c) = cn_pairing c"
  by (simp_all add: fireClose_def)

lemma step_fields:
  "cn_authorize (conn_step env decrypt dev ev c) = cn_authorize c"
  "cn_pairing (conn_step env decrypt dev ev c) = cn_pairing c"
proof -
  have "cn_authorize (conn_step env decrypt dev ev c) = cn_authorize c \<and> cn_pairing (conn_step env decrypt dev ev c) = cn_pairing c"
  proof (cases ev)
    case (CeAnswer sdp enc acc)
    then show ?thesis
      by (cases rule: HandleAnswer_cases [of acc env decrypt dev sdp enc c]) simp_all
  qed (simp_all add: handleRequestOnOpen_def CloseConn_def onDCMessage_def SetOnClose_def Let_def onDCClose_def onStateChange_def
      split: option.split)
  then show "cn_authorize (conn_step env decrypt dev ev c) = cn_authorize c"
    "cn_pairing (conn_step env decrypt dev ev c) = cn_pairing c" by simp_all
qed

lemma run_authorize: "cn_authorize (conn_run env decrypt dev evs c) = cn_authorize c"
  by (induction evs arbitrary: c) (simp_all add: step_fields)

text \<open>The verdicts of the answers so far are what the connection remembers.\<close>

definition verdicts ::
  "go_env \<Rightarrow> (byte list \<Rightarrow> byte list option) \<Rightarrow> device_id \<Rightarrow> (string \<Rightarrow> string option) option \<Rightarrow> conn_event list \<Rightarrow> byte list option list" where
  "verdicts env decrypt dev auth evs = map (proved_nonce env decrypt dev auth) (accepted_answers evs)"

definition remembers :: "byte list option list \<Rightarrow> connection \<Rightarrow> bool" where
  "remembers vs c \<longleftrightarrow> (cn_verifyFailed c \<longleftrightarrow> None \<in> set vs) \<and> (\<not> cn_verifyFailed c \<longrightarrow> cn_nonce c = (if vs = [] then None else last vs))"

lemma step_remembers:
  assumes "remembers (verdicts env decrypt dev (cn_authorize c) evs) c"
  shows "remembers (verdicts env decrypt dev (cn_authorize c) (evs @ [ev])) (conn_step env decrypt dev ev c)"
proof (cases ev)
  case (CeAnswer sdp enc acc)
  show ?thesis
    by (cases rule: HandleAnswer_cases [of acc env decrypt dev sdp enc c])
      (use assms CeAnswer in \<open>auto simp: remembers_def verdicts_def\<close>)
qed (use assms in \<open>auto simp: remembers_def verdicts_def handleRequestOnOpen_def CloseConn_def onDCMessage_def SetOnClose_def Let_def
    onDCClose_def onStateChange_def split: option.split\<close>)

lemma run_remembers:
  "remembers (verdicts env decrypt dev auth evs) (conn_run env decrypt dev evs (newConnection cid pairing auth))"
proof (induction evs rule: rev_induct)
  case Nil
  then show ?case by (simp add: remembers_def verdicts_def newConnection_def)
next
  case (snoc ev evs)
  then show ?case
    using step_remembers [of env decrypt dev "conn_run env decrypt dev evs (newConnection cid pairing auth)" evs ev]
    by (simp add: run_authorize newConnection_def)
qed

lemma open_sends:
  assumes "remembers vs c"
  shows "cn_sent (conn_step env decrypt dev (CeOpen sends) c) = cn_sent c \<or>
    (\<exists>n. cn_sent (conn_step env decrypt dev (CeOpen sends) c) = cn_sent c @ [buildVerifyNonceHashFrame env n] \<and>
       None \<notin> set vs \<and> vs \<noteq> [] \<and> last vs = Some n)"
  using assms by (auto simp: handleRequestOnOpen_def CloseConn_def remembers_def split: option.split if_splits)

text \<open>
  C26. The listener proves itself to nobody it has not verified. Whatever the order of answers, channel
  and teardown events, every frame the connection layer sends is the proof for the nonce of the last
  answer taken before the channel opened, and by then every answer that was taken had decrypted to an
  authorized code and to the fingerprint of its own session description. So a relay that puts its own
  fingerprint into the answer, a wrong code, and an answer without a request all leave the connector
  without the proof it waits for.
\<close>

theorem proof_only_when_verified:
  "set (cn_sent (conn_run env decrypt dev evs (newConnection cid False auth))) \<subseteq>
     {buildVerifyNonceHashFrame env n | n pre sends post.
        evs = pre @ CeOpen sends # post \<and> None \<notin> set (verdicts env decrypt dev auth pre) \<and>
        verdicts env decrypt dev auth pre \<noteq> [] \<and> last (verdicts env decrypt dev auth pre) = Some n}"
proof (induction evs rule: rev_induct)
  case Nil
  then show ?case by (simp add: newConnection_def)
next
  case (snoc ev evs)
  let ?c = "conn_run env decrypt dev evs (newConnection cid False auth)"
  let ?v = "verdicts env decrypt dev auth evs"
  let ?S = "\<lambda>evs. {buildVerifyNonceHashFrame env n | n pre sends post. evs = pre @ CeOpen sends # post \<and> None \<notin> set (verdicts env decrypt dev auth pre) \<and>
        verdicts env decrypt dev auth pre \<noteq> [] \<and> last (verdicts env decrypt dev auth pre) = Some n}"
  have grow: "?S evs \<subseteq> ?S (evs @ [ev])"
    by fastforce
  have kept: "cn_sent (conn_step env decrypt dev ev ?c) = cn_sent ?c" if "\<forall>sends. ev \<noteq> CeOpen sends"
  proof (cases ev)
    case (CeAnswer sdp enc acc)
    then show ?thesis
      by (cases rule: HandleAnswer_cases [of acc env decrypt dev sdp enc ?c]) simp_all
  qed (use that in \<open>simp_all add: CloseConn_def onDCMessage_def SetOnClose_def Let_def onDCClose_def onStateChange_def\<close>)
  show ?case
  proof (cases "\<exists>sends. ev = CeOpen sends")
    case False
    with kept snoc grow show ?thesis by auto
  next
    case True
    then obtain sends where ev: "ev = CeOpen sends" by blast
    have r: "remembers ?v ?c"
      by (rule run_remembers)
    have old: "set (cn_sent ?c) \<subseteq> ?S (evs @ [ev])"
      using snoc grow by (rule order_trans)
    consider "cn_sent (conn_step env decrypt dev ev ?c) = cn_sent ?c"
      | n where "cn_sent (conn_step env decrypt dev ev ?c) = cn_sent ?c @ [buildVerifyNonceHashFrame env n]"
          "None \<notin> set ?v" "?v \<noteq> []" "last ?v = Some n"
      using open_sends [OF r, of env decrypt dev sends] unfolding ev by blast
    then show ?thesis
    proof cases
      case 1
      with old show ?thesis by simp
    next
      case (2 n)
      then have "buildVerifyNonceHashFrame env n \<in> ?S (evs @ [ev])"
        using ev by auto
      with old 2(1) show ?thesis by simp
    qed
  qed
qed

section \<open>Both ends\<close>

definition client_listens :: "go_env \<Rightarrow> 'k client_peer \<Rightarrow> byte list \<Rightarrow> bool" where
  "client_listens env p frame \<longleftrightarrow> (case cp_nonce p of None \<Rightarrow> False | Some n \<Rightarrow> verify_first env n (Ok frame) = None)"

text \<open>
  C27. Verification agrees. Take a connector whose URL names the listener's key, whose encrypted request
  reaches the listener unchanged and is decrypted by the listener's key. The listener accepts it exactly
  when the code it holds is authorized and the description that arrives has the fingerprint of its own;
  then the only frame it hears on the open channel is the proof it asked for. With any other code or
  fingerprint the answer is refused, the channel carries nothing and is closed.
\<close>

theorem verification_agreement:
  assumes "HandleOffer env parse encrypt answer random msg p = (Ok (localSDP, enc), p')" "cp_mode p = ModeURL"
    and key: "\<And>der k pt ct. parse der = Some k \<Longrightarrow> uidFromPubkeyDER env der = cp_uid p \<Longrightarrow> encrypt k pt = Some ct \<Longrightarrow>
      ct \<noteq> [] \<and> decrypt ct = Some pt"
    and "\<And>n. random = Some n \<Longrightarrow> readable env (payload_json (ExtractFingerprint localSDP) n (cp_code p)) \<and>
      sound env (verify_json (expectedNonceHash env n))"
  shows "case conn_run env decrypt dev [CeAnswer sdp enc True, CeOpen True] (newConnection cid False auth) of c \<Rightarrow>
    if authorized auth dev (cp_code p) \<and> ExtractFingerprint sdp = ExtractFingerprint localSDP
    then \<exists>frame. cn_sent c = [frame] \<and> client_listens env p' frame
    else cn_sent c = [] \<and> cn_closed c"
proof -
  obtain der k nonce ct where k: "parse der = Some k" "uidFromPubkeyDER env der = cp_uid p"
      and fp: "ExtractFingerprint localSDP \<noteq> []" and n: "random = Some nonce" "cp_nonce p' = Some nonce"
      and ct: "encrypt k (js_print env (payload_json (ExtractFingerprint localSDP) nonce (cp_code p))) = Some ct"
      and enc: "enc = EncodeToString StdEncoding ct"
    using assms(1,2)
    by (auto simp: HandleOffer_def pin_key_def importDevicePubkey_def encryptVerifyPayload_def Let_def
        split: if_splits sum.splits option.splits prod.splits)
  have "ct \<noteq> []" and plain: "decrypt ct = Some (js_print env (payload_json (ExtractFingerprint localSDP) nonce (cp_code p)))"
    using key [OF k ct] by simp_all
  then have ne: "enc \<noteq> []"
    using EncodeToString_inj [of StdEncoding ct "[]"] by (simp add: enc EncodeToString.simps(1))
  have read: "readable env (payload_json (ExtractFingerprint localSDP) nonce (cp_code p))"
    and proof_sound: "sound env (verify_json (expectedNonceHash env nonce))"
    using assms(4) [OF n(1)] by simp_all
  have "proved_nonce env decrypt dev auth (sdp, enc) =
      (if authorized auth dev (cp_code p) \<and> ExtractFingerprint sdp = ExtractFingerprint localSDP then Some nonce else None)"
    using plain ne read fp
    by (auto simp: proved_nonce_def enc readable_def payload_json_def json_decode put_req_def zero_req_def)
  moreover have "client_listens env p' (buildVerifyNonceHashFrame env nonce)"
    using proof_sound n(2)
    by (simp add: client_listens_def verify_first_def buildVerifyNonceHashFrame_def expectedNonceHash_def sound_def
        frame_round verify_json_def json_decode put_verify_def)
  ultimately show ?thesis
    by (cases rule: HandleAnswer_cases [of True env decrypt dev sdp enc "newConnection cid False auth"])
      (auto simp: newConnection_def handleRequestOnOpen_def CloseConn_def fireClose_def split: if_splits)
qed

text \<open>A verification, run: the key is a number that is put in front of the plaintext.\<close>

definition verify_env :: go_env where
  "verify_env = indexed_env [payload_json ''B'' [9] ''own'', verify_json (EncodeToString StdEncoding [9])]"

definition demo_peer :: "byte client_peer" where
  "demo_peer = \<lparr>cp_mode = ModeURL, cp_uid = uidFromPubkeyDER verify_env [5], cp_code = ''own'', cp_pubkey = None, cp_nonce = None\<rparr>"

definition demo_offer :: message where
  "demo_offer = [''sdp'' \<mapsto> JStr ''v=0'', ''device_pubkey'' \<mapsto> JStr (EncodeToString StdEncoding [5])]"

definition demo_request :: string where
  "demo_request = EncodeToString StdEncoding (5 # js_print verify_env (payload_json ''B'' [9] ''own''))"

definition demo_decrypt :: "byte list \<Rightarrow> byte list option" where
  "demo_decrypt ct = (case ct of [] \<Rightarrow> None | k # pt \<Rightarrow> Some pt)"

lemma pubkey_text: "EncodeToString StdEncoding [5 :: byte] \<noteq> []"
  using EncodeToString_inj [of StdEncoding "[5 :: byte]" "[]"] by (simp add: EncodeToString.simps(1))

theorem verification_agreement_witness:
  "(case conn_run verify_env demo_decrypt demo_dev [CeAnswer (demo_sdp (CHR ''b'')) demo_request True, CeOpen True] (newConnection ''c'' False None) of c \<Rightarrow>
      \<exists>frame. cn_sent c = [frame] \<and> client_listens verify_env (demo_peer\<lparr>cp_pubkey := Some 5, cp_nonce := Some [9]\<rparr>) frame) \<and>
   (case conn_run verify_env demo_decrypt demo_dev [CeAnswer (demo_sdp (CHR ''A'')) demo_request True, CeOpen True] (newConnection ''c'' False None) of c \<Rightarrow>
      cn_sent c = [] \<and> cn_closed c)"
proof -
  let ?parse = "\<lambda>der. case der of [] \<Rightarrow> None | k # _ \<Rightarrow> Some k"
  let ?answer = "\<lambda>_. Inr (demo_sdp (CHR ''b''))"
  have offer: "HandleOffer verify_env ?parse (\<lambda>k pt. Some (k # pt)) ?answer (Some [9]) demo_offer demo_peer =
      (Ok (demo_sdp (CHR ''b''), demo_request), demo_peer\<lparr>cp_pubkey := Some 5, cp_nonce := Some [9]\<rparr>)"
    using pubkey_text
    by (simp del: EncodeToString.simps add: HandleOffer_def pin_key_def importDevicePubkey_def encryptVerifyPayload_def demo_peer_def demo_offer_def
        msg_string_def demo_fps demo_request_def Let_def)
  have readable: "readable verify_env (payload_json ''B'' [9] ''own'')" "sound verify_env (verify_json (expectedNonceHash verify_env [9]))"
  proof -
    show "readable verify_env (payload_json ''B'' [9] ''own'')"
      unfolding verify_env_def by (rule indexed_readable) simp_all
    have "readable verify_env (verify_json (EncodeToString StdEncoding [9]))"
      unfolding verify_env_def by (rule indexed_readable) simp_all
    then show "sound verify_env (verify_json (expectedNonceHash verify_env [9]))"
      by (simp add: sound_def readable_def expectedNonceHash_def verify_env_def indexed_env_def MaxChunkSize_def)
  qed
  have agree: "case conn_run verify_env demo_decrypt demo_dev [CeAnswer sdp demo_request True, CeOpen True] (newConnection ''c'' False None) of c \<Rightarrow>
      if authorized None demo_dev (cp_code demo_peer) \<and> ExtractFingerprint sdp = ExtractFingerprint (demo_sdp (CHR ''b''))
      then \<exists>frame. cn_sent c = [frame] \<and> client_listens verify_env (demo_peer\<lparr>cp_pubkey := Some 5, cp_nonce := Some [9]\<rparr>) frame
      else cn_sent c = [] \<and> cn_closed c" for sdp
  proof (rule verification_agreement [OF offer])
    show "cp_mode demo_peer = ModeURL"
      by (simp add: demo_peer_def)
  qed (use readable in \<open>auto simp: demo_decrypt_def demo_fps demo_peer_def\<close>)
  have "authorized None demo_dev (cp_code demo_peer)"
    by (simp add: demo_peer_def authorized_def demo_dev_def)
  then show ?thesis
    using agree [of "demo_sdp (CHR ''b'')"] agree [of "demo_sdp (CHR ''A'')"]
    unfolding demo_fps by (simp only: if_True if_False list.inject char.inject simp_thms)
qed

text \<open>The connector encrypts its code only to a key whose hash is the identifier in its URL.\<close>

lemma code_sealed:
  assumes "HandleOffer env parse encrypt answer random msg p = (Ok (localSDP, enc), p')" "enc \<noteq> []"
  shows "\<exists>der k n ct. parse der = Some k \<and> uidFromPubkeyDER env der = cp_uid p \<and> cp_nonce p' = Some n \<and>
    encrypt k (js_print env (payload_json (ExtractFingerprint localSDP) n (cp_code p))) = Some ct \<and> enc = EncodeToString StdEncoding ct"
  using assms
  by (cases "cp_mode p")
    (auto simp: HandleOffer_def pin_key_def importDevicePubkey_def encryptVerifyPayload_def Let_def
      split: if_splits sum.splits option.splits prod.splits, blast)

section \<open>Teardown\<close>

fun first_callback :: "conn_event list \<Rightarrow> nat option" where
  "first_callback [] = None"
| "first_callback (CeSetOnClose fn # evs) = fn"
| "first_callback (_ # evs) = first_callback evs"

definition teardown_exact :: "conn_event list \<Rightarrow> connection \<Rightarrow> bool" where
  "teardown_exact evs c \<longleftrightarrow>
     (cn_onCloseSet c \<longleftrightarrow> (\<exists>fn. CeSetOnClose fn \<in> set evs)) \<and>
     (cn_onCloseSet c \<and> \<not> cn_closed c \<longrightarrow> cn_onClose c = first_callback evs) \<and>
     (\<not> cn_onCloseSet c \<longrightarrow> cn_onClose c = None) \<and>
     cn_calls c = (if cn_closed c \<and> cn_onCloseSet c then (case first_callback evs of None \<Rightarrow> [] | Some f \<Rightarrow> [f]) else [])"

lemma first_callback_append:
  "first_callback (evs @ [ev]) = (if \<exists>fn. CeSetOnClose fn \<in> set evs then first_callback evs else first_callback [ev])"
  by (induction evs rule: first_callback.induct) auto

lemma fireClose_exact: "teardown_exact evs c \<Longrightarrow> teardown_exact evs (fireClose c) \<and> cn_closed (fireClose c)"
  by (auto simp: teardown_exact_def fireClose_def run_callback_def split: option.splits)

lemma exact_cong:
  "teardown_exact evs c \<Longrightarrow> cn_onCloseSet c' = cn_onCloseSet c \<Longrightarrow> cn_closed c' = cn_closed c \<Longrightarrow> cn_onClose c' = cn_onClose c \<Longrightarrow>
     cn_calls c' = cn_calls c \<Longrightarrow> teardown_exact evs c'"
  by (simp add: teardown_exact_def)

lemma step_exact:
  assumes "teardown_exact evs c"
  shows "teardown_exact (evs @ [ev]) (conn_step env decrypt dev ev c)"
proof -
  have keep: "teardown_exact (evs @ [ev]) c'" if "teardown_exact evs c'" "\<forall>fn. ev \<noteq> CeSetOnClose fn" for c'
    using that by (auto simp: teardown_exact_def first_callback_append split: conn_event.split)
  show ?thesis
  proof (cases ev)
    case (CeSetOnClose fn)
    then show ?thesis
      using assms by (auto simp: teardown_exact_def first_callback_append SetOnClose_def Let_def run_callback_def split: option.splits)
  next
    case (CeAnswer sdp enc acc)
    show ?thesis
      by (rule keep, cases rule: HandleAnswer_cases [of acc env decrypt dev sdp enc c])
        (use assms CeAnswer in \<open>auto intro: exact_cong [OF assms]\<close>)
  next
    case (CeOpen sends)
    then show ?thesis
      using assms fireClose_exact [OF assms] exact_cong [OF assms] exact_cong [of evs "fireClose c"]
      by (intro keep) (auto simp: handleRequestOnOpen_def CloseConn_def split: option.split)
  next
    case (CeMessage m)
    then show ?thesis
      by (intro keep) (auto simp: onDCMessage_def intro: exact_cong [OF assms])
  next
    case CeDCClose
    have "teardown_exact evs (c\<lparr>cn_dcClosed := True\<rparr>)"
      by (rule exact_cong [OF assms]) simp_all
    from fireClose_exact [OF this] CeDCClose show ?thesis
      by (intro keep) (auto simp: onDCClose_def intro: exact_cong)
  next
    case (CeState t)
    then show ?thesis
      using assms fireClose_exact [OF assms] exact_cong [of evs "fireClose c"]
      by (intro keep) (auto simp: onStateChange_def)
  next
    case CeClose
    then show ?thesis
      using fireClose_exact [OF assms] exact_cong [of evs "fireClose c"]
      by (intro keep) (auto simp: CloseConn_def)
  qed
qed

text \<open>
  Teardown runs once. However the installation of the close callback, the channel's and the
  connection's terminal states and explicit closes interleave, the first callback installed is the
  only one that ever runs, and it has run exactly when the connection is closed.
\<close>

theorem close_callback_once:
  "case conn_run env decrypt dev evs (newConnection cid pairing auth) of c \<Rightarrow>
     cn_calls c = (if cn_closed c then (case first_callback evs of None \<Rightarrow> [] | Some f \<Rightarrow> [f]) else [])"
proof -
  have exact: "teardown_exact evs (conn_run env decrypt dev evs (newConnection cid pairing auth))"
  proof (induction evs rule: rev_induct)
    case Nil
    then show ?case by (simp add: teardown_exact_def newConnection_def)
  next
    case (snoc ev evs)
    then show ?case
      using step_exact [of evs "conn_run env decrypt dev evs (newConnection cid pairing auth)" ev] by simp
  qed
  have "first_callback evs = None" if "\<nexists>fn. CeSetOnClose fn \<in> set evs"
    using that by (induction evs rule: first_callback.induct) auto
  with exact show ?thesis
    by (auto simp: teardown_exact_def split: option.split)
qed

end
