(* ===== verification/FileStream.thy ===== *)
theory FileStream
  imports GoCrypto
begin

text \<open>
  \<^verbatim>\<open>internal/streamtype/file.go\<close>: the handler of file streams, with which a connector reads, writes and
  lists the files of a listener. The callbacks of the session and the goroutine of each request
  interleave one step at a time, so the requests, their pipes and the open files live in heaps and are
  named by address.

  A pipe's writer waits until what it wrote is read; what it is waiting to hand over is the pipe's
  content. The model lets the next callback come, and close the pipe behind that content, while the
  writer still waits, so it has every interleaving of the source and some more; only that a write
  fails which the reader had begun to take is not reported to the caller. A step of a goroutine takes with it what the outside contributes: how many bytes a read
  returns, whether a read or a write of the file fails, and whether each frame can be sent. The file
  system is an argument. Log lines and the wait for the send buffer are left out, but not that the
  wait gives up when the request is cancelled.
\<close>

section \<open>Requests\<close>

datatype fs_error = FsNotFound | FsExists | FsOther string

record file_meta =
  fm_size :: int
  fm_modified :: int
  fm_mime :: string

record file_system_ops =
  fs_openRead :: "string \<Rightarrow> (fs_error, file_meta \<times> byte list) go_result"
  fs_openWrite :: "string \<Rightarrow> bool \<Rightarrow> fs_error option"
  fs_list :: "string \<Rightarrow> (fs_error, json list) go_result"

record file_op =
  fo_op :: string
  fo_path :: string
  fo_size :: int
  fo_overwrite :: bool

definition zero_op :: file_op where
  "zero_op = \<lparr>fo_op = [], fo_path = [], fo_size = 0, fo_overwrite = False\<rparr>"

text \<open>The type and the range of a request are decoded too; only an error of theirs matters.\<close>

definition as_ints :: "json \<Rightarrow> bool" where
  "as_ints v =
     (case v of
        JArr js \<Rightarrow> list_all (\<lambda>j. as_int j 0 \<noteq> None) js
      | JNull \<Rightarrow> True
      | _ \<Rightarrow> False)"

definition put_fileop :: "string \<Rightarrow> json \<Rightarrow> file_op \<Rightarrow> file_op option" where
  "put_fileop k v m =
     (if k = ''type'' then map_option (\<lambda>x. m) (as_string v [])
      else if k = ''op'' then map_option (\<lambda>x. m\<lparr>fo_op := x\<rparr>) (as_string v (fo_op m))
      else if k = ''path'' then map_option (\<lambda>x. m\<lparr>fo_path := x\<rparr>) (as_string v (fo_path m))
      else if k = ''size'' then map_option (\<lambda>x. m\<lparr>fo_size := x\<rparr>) (as_int v (fo_size m))
      else if k = ''overwrite'' then map_option (\<lambda>x. m\<lparr>fo_overwrite := x\<rparr>) (as_bool v (fo_overwrite m))
      else if k = ''range'' then (if as_ints v then Some m else None)
      else Some m)"

definition fileErrMessage :: "fs_error \<Rightarrow> string \<Rightarrow> string" where
  "fileErrMessage e path =
     (case e of
        FsNotFound \<Rightarrow> ''not found: '' @ path
      | FsExists \<Rightarrow> ''exists: '' @ path
      | FsOther m \<Rightarrow> m)"

section \<open>State\<close>

text \<open>A file opened for reading holds the bytes still to come, one opened for writing those written.\<close>

record open_file =
  of_data :: "byte list"
  of_open :: bool

text \<open>
  \<open>fp_got\<close> is no field of the source: it records the bytes the stream's callbacks were given for an
  upload (\<open>note_given\<close> below), or those of the file a download opened.
\<close>

record pipe =
  pi_buf :: "byte list"
  pi_close :: bool
  pi_err :: bool

record file_pending =
  fp_op :: string
  fp_pipe :: "pipe option"
  fp_closer :: "nat option"
  fp_closed :: bool
  fp_got :: "byte list"

datatype file_task =
    TaskGet nat u32 string
  | TaskSetCloser nat u32 nat file_meta
  | TaskMeta nat u32 nat file_meta
  | TaskSend nat u32 nat
  | TaskPut nat u32 nat
  | TaskList u32 string
  | TaskDefer nat u32 "nat option"

text \<open>\<open>TaskDefer\<close> is a goroutine that has only its deferred \<^verbatim>\<open>finishStream\<close> left to run.\<close>

text \<open>A frame sent: the request it answers, if it has an object, the stream, the flags and the payload.\<close>

type_synonym file_frame = "nat option \<times> u32 \<times> u16 \<times> byte list"

record file_handler =
  fh_streams :: "u32 \<Rightarrow> nat option"
  fh_pendings :: "file_pending list"
  fh_files :: "open_file list"
  fh_tasks :: "file_task list"
  fh_out :: "file_frame list"

definition NewFile :: file_handler where
  "NewFile = \<lparr>fh_streams = Map.empty, fh_pendings = [], fh_files = [], fh_tasks = [], fh_out = []\<rparr>"

text \<open>
  What the outside contributes to one step: the bytes a read returns, whether the read or write fails,
  whether a wait for the send buffer gives up, and which of the frames of the step can be sent.
\<close>

record file_choice =
  fc_n :: nat
  fc_fault :: bool
  fc_cancel :: bool
  fc_err :: string
  fc_ok :: "nat \<Rightarrow> bool"

section \<open>Frames\<close>

definition fh_send :: "bool \<Rightarrow> nat option \<Rightarrow> u32 \<Rightarrow> u16 \<Rightarrow> byte list \<Rightarrow> file_handler \<Rightarrow> file_handler" where
  "fh_send ok who i flags payload h = (if ok then h\<lparr>fh_out := fh_out h @ [(who, i, flags, payload)]\<rparr> else h)"

definition error_status :: "string \<Rightarrow> json" where
  "error_status msg = JObj [(''error'', JStr msg), (''status'', JStr ''error'')]"

definition ok_status :: json where
  "ok_status = JObj [(''status'', JStr ''ok'')]"

definition sendFileError :: "go_env \<Rightarrow> (nat \<Rightarrow> bool) \<Rightarrow> nat option \<Rightarrow> u32 \<Rightarrow> string \<Rightarrow> file_handler \<Rightarrow> file_handler" where
  "sendFileError env ok who i msg h =
     fh_send (ok 1) who i FlagFIN [] (fh_send (ok 0) who i FlagSYN (js_print env (error_status msg)) h)"

section \<open>Requests in progress\<close>

abbreviation pend :: "file_handler \<Rightarrow> nat \<Rightarrow> file_pending" where
  "pend h a \<equiv> fh_pendings h ! a"

definition upd_pend :: "nat \<Rightarrow> (file_pending \<Rightarrow> file_pending) \<Rightarrow> file_handler \<Rightarrow> file_handler" where
  "upd_pend a f h = h\<lparr>fh_pendings := (fh_pendings h)[a := f (pend h a)]\<rparr>"

definition close_file :: "nat \<Rightarrow> file_handler \<Rightarrow> file_handler" where
  "close_file x h = h\<lparr>fh_files := (fh_files h)[x := (fh_files h ! x)\<lparr>of_open := False\<rparr>]\<rparr>"

text \<open>Closing with an error counts unless the pipe was closed in the ordinary way before.\<close>

definition cancel_pipe :: "pipe \<Rightarrow> pipe" where
  "cancel_pipe p = (if pi_buf p = [] \<and> pi_close p then p else p\<lparr>pi_err := True\<rparr>)"

definition close_pending :: "nat \<Rightarrow> file_handler \<Rightarrow> file_handler" where
  "close_pending a h =
     (if fp_closed (pend h a) then h
      else
        let closer = fp_closer (pend h a);
            h1 = upd_pend a (\<lambda>p. p\<lparr>fp_closed := True, fp_pipe := map_option cancel_pipe (fp_pipe p)\<rparr>) h
        in case closer of None \<Rightarrow> h1 | Some x \<Rightarrow> close_file x h1)"

definition trackStream :: "u32 \<Rightarrow> file_pending \<Rightarrow> file_handler \<Rightarrow> file_handler" where
  "trackStream i p h =
     (let old = fh_streams h i; a = length (fh_pendings h);
          h1 = h\<lparr>fh_pendings := fh_pendings h @ [p], fh_streams := (fh_streams h)(i \<mapsto> a)\<rparr>
      in case old of None \<Rightarrow> h1 | Some b \<Rightarrow> close_pending b h1)"

definition finishStream :: "u32 \<Rightarrow> nat \<Rightarrow> file_handler \<Rightarrow> file_handler" where
  "finishStream i want h =
     (let h1 = (if fh_streams h i = Some want then h\<lparr>fh_streams := (fh_streams h)(i := None)\<rparr> else h)
      in close_pending want h1)"

definition start :: "file_task \<Rightarrow> file_handler \<Rightarrow> file_handler" where
  "start t h = h\<lparr>fh_tasks := fh_tasks h @ [t]\<rparr>"

definition openFile :: "byte list \<Rightarrow> file_handler \<Rightarrow> file_handler \<times> nat" where
  "openFile data h = (h\<lparr>fh_files := fh_files h @ [\<lparr>of_data = data, of_open = True\<rparr>]\<rparr>, length (fh_files h))"

section \<open>The callbacks of a stream\<close>

definition file_OnSYN ::
  "go_env \<Rightarrow> file_system_ops \<Rightarrow> (nat \<Rightarrow> bool) \<Rightarrow> u32 \<Rightarrow> byte list \<Rightarrow> bool \<Rightarrow> file_handler \<Rightarrow> file_handler" where
  "file_OnSYN env fs ok i payload final h =
     (case Unmarshal put_fileop zero_op (js_parse env payload) of
        (op, decoded) \<Rightarrow>
          if \<not> decoded then sendFileError env ok None i (''bad request: '' @ js_error env payload) h
          else if fo_op op = ''get'' then
            (let a = length (fh_pendings h) in
             start (TaskGet a i (fo_path op))
               (trackStream i \<lparr>fp_op = ''get'', fp_pipe = None, fp_closer = None, fp_closed = False, fp_got = []\<rparr> h))
          else if fo_op op = ''list'' then start (TaskList i (fo_path op)) h
          else if fo_op op = ''put'' then
            (case fs_openWrite fs (fo_path op) (fo_overwrite op) of
               Some e \<Rightarrow> sendFileError env ok None i (fileErrMessage e (fo_path op)) h
             | None \<Rightarrow>
                 (case openFile [] h of
                    (h1, x) \<Rightarrow>
                      if final then
                        fh_send (ok 1) None i FlagFIN [] (fh_send (ok 0) None i FlagSYN (js_print env ok_status) (close_file x h1))
                      else
                        let a = length (fh_pendings h1) in
                        start (TaskPut a i x)
                          (fh_send (ok 0) (Some a) i FlagSYN (js_print env ok_status)
                            (trackStream i \<lparr>fp_op = ''put'', fp_pipe = Some \<lparr>pi_buf = [], pi_close = False, pi_err = False\<rparr>,
                               fp_closer = Some x, fp_closed = False, fp_got = []\<rparr> h1))))
          else sendFileError env ok None i (''unknown op: '' @ fo_op op) h)"

text \<open>The stream's request, when it is an upload.\<close>

definition put_of :: "u32 \<Rightarrow> file_handler \<Rightarrow> nat option" where
  "put_of i h = (case fh_streams h i of None \<Rightarrow> None | Some a \<Rightarrow> if fp_op (pend h a) = ''put'' then Some a else None)"

text \<open>Writing to the pipe; a pipe that was closed refuses. The flag tells that the callback returned an error.\<close>

definition pipe_write :: "nat \<Rightarrow> byte list \<Rightarrow> file_handler \<Rightarrow> file_handler \<times> bool" where
  "pipe_write a payload h =
     (case fp_pipe (pend h a) of
        None \<Rightarrow> (h, True)
      | Some p \<Rightarrow>
          if pi_err p \<or> pi_close p then (h, True)
          else (upd_pend a (\<lambda>q. q\<lparr>fp_pipe := Some (p\<lparr>pi_buf := pi_buf p @ payload\<rparr>)\<rparr>) h, False))"

definition file_OnDAT :: "u32 \<Rightarrow> byte list \<Rightarrow> file_handler \<Rightarrow> file_handler \<times> bool" where
  "file_OnDAT i payload h =
     (case put_of i h of
        None \<Rightarrow> (h, False)
      | Some a \<Rightarrow> if payload \<noteq> [] then pipe_write a payload h else (h, False))"

definition pipe_close :: "nat \<Rightarrow> file_handler \<Rightarrow> file_handler" where
  "pipe_close a h = upd_pend a (\<lambda>q. q\<lparr>fp_pipe := map_option (\<lambda>p. if pi_err p then p else p\<lparr>pi_close := True\<rparr>) (fp_pipe q)\<rparr>) h"

definition file_OnFIN :: "u32 \<Rightarrow> byte list \<Rightarrow> file_handler \<Rightarrow> file_handler \<times> bool" where
  "file_OnFIN i payload h =
     (case put_of i h of
        None \<Rightarrow> (h, False)
      | Some a \<Rightarrow>
          (case (if payload \<noteq> [] then pipe_write a payload h else (h, False)) of
             (h1, True) \<Rightarrow> (h1, True)
           | (h1, False) \<Rightarrow> (pipe_close a h1, False)))"

definition file_OnReset :: "u32 \<Rightarrow> file_handler \<Rightarrow> file_handler" where
  "file_OnReset i h =
     (case fh_streams h i of
        None \<Rightarrow> h
      | Some a \<Rightarrow> close_pending a (h\<lparr>fh_streams := (fh_streams h)(i := None)\<rparr>))"

section \<open>The goroutines\<close>

definition meta_json :: "file_meta \<Rightarrow> json" where
  "meta_json m =
     JObj [(''mime'', JStr (fm_mime m)), (''modified'', JNum (fm_modified m)), (''size'', JNum (fm_size m)), (''status'', JStr ''ok'')]"

definition upd_file :: "nat \<Rightarrow> (byte list \<Rightarrow> byte list) \<Rightarrow> file_handler \<Rightarrow> file_handler" where
  "upd_file x f h = h\<lparr>fh_files := (fh_files h)[x := (fh_files h ! x)\<lparr>of_data := f (of_data (fh_files h ! x))\<rparr>]\<rparr>"

text \<open>\<^verbatim>\<open>handleGet\<close>, up to the loop.\<close>

definition run_get :: "go_env \<Rightarrow> file_system_ops \<Rightarrow> file_choice \<Rightarrow> nat \<Rightarrow> u32 \<Rightarrow> string \<Rightarrow> file_handler \<Rightarrow> file_task \<times> file_handler" where
  "run_get env fs c a i path h =
     (case fs_openRead fs path of
        Inl e \<Rightarrow> (TaskDefer a i None, sendFileError env (fc_ok c) (Some a) i (fileErrMessage e path) h)
      | Inr (m, data) \<Rightarrow>
          (case openFile data (upd_pend a (\<lambda>p. p\<lparr>fp_got := data\<rparr>) h) of (h1, x) \<Rightarrow> (TaskSetCloser a i x m, h1)))"

definition setCloser :: "nat \<Rightarrow> u32 \<Rightarrow> nat \<Rightarrow> file_meta \<Rightarrow> file_handler \<Rightarrow> file_task \<times> file_handler" where
  "setCloser a i x m h =
     (if fp_closed (pend h a) then (TaskDefer a i (Some x), close_file x h)
      else (TaskMeta a i x m, upd_pend a (\<lambda>p. p\<lparr>fp_closer := Some x\<rparr>) h))"

text \<open>
  One turn of the loop that sends a file. A read of a file that was closed under it fails. The file
  keeps the bytes that were not handed to the stream.
\<close>

definition send_turn :: "file_choice \<Rightarrow> nat \<Rightarrow> u32 \<Rightarrow> nat \<Rightarrow> file_handler \<Rightarrow> file_task \<times> file_handler" where
  "send_turn c a i x h =
     (let f = fh_files h ! x;
          n = (if of_open f then min (fc_n c) (min MaxChunkSize (length (of_data f))) else 0);
          failed = (\<not> of_open f \<or> fc_fault c \<or> of_data f = [])
      in if n > 0 \<and> fc_cancel c \<and> fp_closed (pend h a) then (TaskDefer a i (Some x), h)
         else if n > 0 \<and> \<not> fc_ok c 0 then (TaskDefer a i (Some x), h)
         else
           let h1 = (if n > 0 then fh_send True (Some a) i FlagDAT (take n (of_data f)) (upd_file x (drop n) h) else h) in
           if failed then (TaskDefer a i (Some x), fh_send (fc_ok c 1) (Some a) i FlagFIN [] h1)
           else (TaskSend a i x, h1))"

text \<open>
  One turn of the copy of an upload into its file; a write that fails may have written part of what it
  was given.
\<close>

definition put_failed :: "go_env \<Rightarrow> file_choice \<Rightarrow> string \<Rightarrow> nat \<Rightarrow> u32 \<Rightarrow> nat \<Rightarrow> file_handler \<Rightarrow> file_task \<times> file_handler" where
  "put_failed env c e a i x h =
     (TaskDefer a i (Some x), fh_send (fc_ok c 0) (Some a) i FlagFIN (js_print env (error_status (''write failed: '' @ e))) h)"

definition put_turn :: "go_env \<Rightarrow> file_choice \<Rightarrow> nat \<Rightarrow> u32 \<Rightarrow> nat \<Rightarrow> file_handler \<Rightarrow> file_task \<times> file_handler" where
  "put_turn env c a i x h =
     (case fp_pipe (pend h a) of
        None \<Rightarrow> (TaskPut a i x, h)
      | Some p \<Rightarrow>
          if pi_err p then put_failed env c ''context canceled'' a i x h
          else if pi_buf p \<noteq> [] then
            (let n = min (max 1 (fc_n c)) (min MaxChunkSize (length (pi_buf p)));
                 h1 = upd_pend a (\<lambda>q. q\<lparr>fp_pipe := Some (p\<lparr>pi_buf := drop n (pi_buf p)\<rparr>)\<rparr>) h
             in if \<not> of_open (fh_files h ! x) then put_failed env c (fc_err c) a i x h1
                else if fc_fault c then put_failed env c (fc_err c) a i x (upd_file x (\<lambda>d. d @ take (n - 1) (pi_buf p)) h1)
                else (TaskPut a i x, upd_file x (\<lambda>d. d @ take n (pi_buf p)) h1))
          else if pi_close p then
            (TaskDefer a i (Some x), fh_send (fc_ok c 0) (Some a) i FlagFIN (js_print env ok_status) h)
          else (TaskPut a i x, h))"

definition handleList :: "go_env \<Rightarrow> file_system_ops \<Rightarrow> file_choice \<Rightarrow> u32 \<Rightarrow> string \<Rightarrow> file_handler \<Rightarrow> file_handler" where
  "handleList env fs c i path h =
     (case fs_list fs path of
        Inl e \<Rightarrow> sendFileError env (fc_ok c) None i (fileErrMessage e path) h
      | Inr entries \<Rightarrow>
          let body = js_print env (JObj [(''entries'', JArr entries)]) in
          if ValidateFramePayload body \<noteq> Ok () then sendFileError env (fc_ok c) None i ''directory listing is too large'' h
          else if \<not> fc_ok c 0 then h
          else fh_send (fc_ok c 2) None i FlagFIN []
                 (fh_send (fc_ok c 1) None i FlagDAT body (fh_send True None i FlagSYN (js_print env ok_status) h)))"

fun run_task :: "go_env \<Rightarrow> file_system_ops \<Rightarrow> file_choice \<Rightarrow> file_task \<Rightarrow> file_handler \<Rightarrow> file_task option \<times> file_handler" where
  "run_task env fs c (TaskGet a i path) h = apfst Some (run_get env fs c a i path h)"
| "run_task env fs c (TaskDefer a i x) h = (None, finishStream i a h)"
| "run_task env fs c (TaskSetCloser a i x m) h = apfst Some (setCloser a i x m h)"
| "run_task env fs c (TaskMeta a i x m) h =
     (if fc_ok c 0 then (Some (TaskSend a i x), fh_send True (Some a) i FlagSYN (js_print env (meta_json m)) h)
      else (Some (TaskDefer a i (Some x)), h))"
| "run_task env fs c (TaskSend a i x) h = apfst Some (send_turn c a i x h)"
| "run_task env fs c (TaskPut a i x) h = apfst Some (put_turn env c a i x h)"
| "run_task env fs c (TaskList i path) h = (None, handleList env fs c i path h)"

definition step_task :: "go_env \<Rightarrow> file_system_ops \<Rightarrow> file_choice \<Rightarrow> nat \<Rightarrow> file_handler \<Rightarrow> file_handler" where
  "step_task env fs c k h =
     (if k < length (fh_tasks h) then
        (case run_task env fs c (fh_tasks h ! k) h of
           (Some t, h1) \<Rightarrow> h1\<lparr>fh_tasks := (fh_tasks h)[k := t]\<rparr>
         | (None, h1) \<Rightarrow> h1\<lparr>fh_tasks := take k (fh_tasks h) @ drop (Suc k) (fh_tasks h)\<rparr>)
      else h)"

text \<open>
  Every payload that the session hands to \<^verbatim>\<open>OnDAT\<close> or \<^verbatim>\<open>OnFIN\<close> of an upload is recorded, whatever the
  callback does with it, up to the FIN that closes the pipe.
\<close>

definition note_given :: "u32 \<Rightarrow> byte list \<Rightarrow> file_handler \<Rightarrow> file_handler" where
  "note_given i payload h =
     (case put_of i h of
        None \<Rightarrow> h
      | Some a \<Rightarrow>
          (case fp_pipe (pend h a) of
             None \<Rightarrow> h
           | Some p \<Rightarrow> if pi_close p then h else upd_pend a (\<lambda>q. q\<lparr>fp_got := fp_got q @ payload\<rparr>) h))"

datatype file_event =
    FileSYN u32 "byte list" bool "nat \<Rightarrow> bool"
  | FileDAT u32 "byte list"
  | FileFIN u32 "byte list"
  | FileReset u32
  | FileTask nat file_choice

primrec file_step :: "go_env \<Rightarrow> file_system_ops \<Rightarrow> file_event \<Rightarrow> file_handler \<Rightarrow> file_handler" where
  "file_step env fs (FileSYN i payload final ok) h = file_OnSYN env fs ok i payload final h"
| "file_step env fs (FileDAT i payload) h = fst (file_OnDAT i payload (note_given i payload h))"
| "file_step env fs (FileFIN i payload) h = fst (file_OnFIN i payload (note_given i payload h))"
| "file_step env fs (FileReset i) h = file_OnReset i h"
| "file_step env fs (FileTask k c) h = step_task env fs c k h"

inductive file_reachable :: "go_env \<Rightarrow> file_system_ops \<Rightarrow> file_handler \<Rightarrow> bool" for env fs where
  start: "file_reachable env fs NewFile"
| step: "file_reachable env fs h \<Longrightarrow> file_reachable env fs (file_step env fs ev h)"

lemma file_reachable_run: "file_reachable env fs h \<Longrightarrow> file_reachable env fs (fold (file_step env fs) evs h)"
  by (induction evs arbitrary: h) (auto intro: file_reachable.step)

end
