(* ===== verification/Goroutines.thy ===== *)
theory Goroutines
  imports BB_Prelude "HOL-Library.Multiset"
begin

text \<open>
  Lists of goroutines, shared by the handlers of streams. A step takes one goroutine out of the list, runs
  it and puts it back in its place or, when it has ended, leaves it out. Invariants hold for the goroutines in
  any order, so a proof may take the one that runs to be the first.
\<close>

definition resume :: "'a option \<Rightarrow> 'a list \<Rightarrow> 'a list" where
  "resume r T = (case r of None \<Rightarrow> T | Some t \<Rightarrow> t # T)"

definition put_back :: "nat \<Rightarrow> 'a option \<Rightarrow> 'a list \<Rightarrow> 'a list" where
  "put_back k r T = (case r of None \<Rightarrow> take k T @ drop (Suc k) T | Some t \<Rightarrow> T[k := t])"

lemma mset_nth_out: "k < length T \<Longrightarrow> mset T = mset (T ! k # (take k T @ drop (Suc k) T))"
  by (metis id_take_nth_drop union_mset_add_mset_right mset.simps(2) mset_append)

lemma mset_put_back: "k < length T \<Longrightarrow> mset (put_back k r T) = mset (resume r (take k T @ drop (Suc k) T))"
  using mset_nth_out [of k "T[k := the r]"] by (cases r) (simp_all add: put_back_def resume_def)

end
