(* ===== verification/FileStream_Laws.thy ===== *)
theory FileStream_Laws
  imports FileStream Goroutines
begin

text \<open>
  What file streams promise: a download sends exactly the bytes of the file it opened, in order, an
  upload that is acknowledged has exactly the bytes it was given in its file, a request that is
  reset or ends closes its file, and no file stays open once the goroutines are done. The invariant
  is over the list of goroutines and the handler's state; a lemma for each primitive change says what
  it leaves intact.
\<close>

section \<open>The invariant\<close>

fun task_addr :: "file_task \<Rightarrow> nat option" where
  "task_addr (TaskGet a i path) = Some a"
| "task_addr (TaskSetCloser a i x m) = Some a"
| "task_addr (TaskMeta a i x m) = Some a"
| "task_addr (TaskSend a i x) = Some a"
| "task_addr (TaskPut a i x) = Some a"
| "task_addr (TaskDefer a i xo) = Some a"
| "task_addr (TaskList i path) = None"

fun task_stream :: "file_task \<Rightarrow> u32" where
  "task_stream (TaskGet a i path) = i"
| "task_stream (TaskSetCloser a i x m) = i"
| "task_stream (TaskMeta a i x m) = i"
| "task_stream (TaskSend a i x) = i"
| "task_stream (TaskPut a i x) = i"
| "task_stream (TaskDefer a i xo) = i"
| "task_stream (TaskList i path) = i"

fun task_file :: "file_task \<Rightarrow> nat option" where
  "task_file (TaskSetCloser a i x m) = Some x"
| "task_file (TaskMeta a i x m) = Some x"
| "task_file (TaskSend a i x) = Some x"
| "task_file (TaskPut a i x) = Some x"
| "task_file (TaskDefer a i xo) = xo"
| "task_file _ = None"

fun deferred :: "file_task \<Rightarrow> bool" where
  "deferred (TaskDefer a i xo) = True"
| "deferred _ = False"

definition dats :: "nat \<Rightarrow> file_handler \<Rightarrow> byte list" where
  "dats a h = concat (map (\<lambda>(w, i, fl, p). p) (filter (\<lambda>(w, i, fl, p). w = Some a \<and> fl = FlagDAT) (fh_out h)))"

text \<open>The file of a request that has one is its closer, and it is closed with the request.\<close>

definition owns :: "file_handler \<Rightarrow> nat \<Rightarrow> nat \<Rightarrow> bool" where
  "owns h a x \<longleftrightarrow> fp_closer (pend h a) = Some x \<and> (fp_closed (pend h a) \<longrightarrow> \<not> of_open (fh_files h ! x))"

fun ftask_ok :: "file_handler \<Rightarrow> file_task \<Rightarrow> bool" where
  "ftask_ok h (TaskGet a i path) \<longleftrightarrow>
     a < length (fh_pendings h) \<and> fp_op (pend h a) = ''get'' \<and> fp_closer (pend h a) = None \<and> dats a h = [] \<and> fp_got (pend h a) = []"
| "ftask_ok h (TaskSetCloser a i x m) \<longleftrightarrow>
     a < length (fh_pendings h) \<and> x < length (fh_files h) \<and> fp_op (pend h a) = ''get'' \<and> fp_closer (pend h a) = None \<and>
     dats a h = [] \<and> of_data (fh_files h ! x) = fp_got (pend h a)"
| "ftask_ok h (TaskMeta a i x m) \<longleftrightarrow>
     a < length (fh_pendings h) \<and> x < length (fh_files h) \<and> fp_op (pend h a) = ''get'' \<and> owns h a x \<and>
     dats a h = [] \<and> of_data (fh_files h ! x) = fp_got (pend h a)"
| "ftask_ok h (TaskSend a i x) \<longleftrightarrow>
     a < length (fh_pendings h) \<and> x < length (fh_files h) \<and> fp_op (pend h a) = ''get'' \<and> owns h a x \<and>
     dats a h @ of_data (fh_files h ! x) = fp_got (pend h a)"
| "ftask_ok h (TaskPut a i x) \<longleftrightarrow>
     a < length (fh_pendings h) \<and> x < length (fh_files h) \<and> fp_op (pend h a) = ''put'' \<and> owns h a x \<and> dats a h = [] \<and>
     (\<exists>p. fp_pipe (pend h a) = Some p \<and> (pi_err p \<or> of_data (fh_files h ! x) @ pi_buf p = fp_got (pend h a)))"
| "ftask_ok h (TaskDefer a i xo) \<longleftrightarrow>
     a < length (fh_pendings h) \<and> (\<forall>x. xo = Some x \<longrightarrow> x < length (fh_files h) \<and> (owns h a x \<or> \<not> of_open (fh_files h ! x)))"
| "ftask_ok h (TaskList i path) \<longleftrightarrow> True"

text \<open>An acknowledged upload.\<close>

definition acked :: "go_env \<Rightarrow> nat \<Rightarrow> file_handler \<Rightarrow> bool" where
  "acked env a h \<longleftrightarrow> (\<exists>i. (Some a, i, FlagFIN, js_print env ok_status) \<in> set (fh_out h))"

definition stored :: "file_task list \<Rightarrow> file_handler \<Rightarrow> nat \<Rightarrow> bool" where
  "stored T h a \<longleftrightarrow>
     a < length (fh_pendings h) \<and>
     (\<exists>x p. fp_closer (pend h a) = Some x \<and> x < length (fh_files h) \<and> of_data (fh_files h ! x) = fp_got (pend h a) \<and>
        fp_pipe (pend h a) = Some p \<and> pi_close p \<and>
        (\<forall>t \<in> set T. task_addr t = Some a \<or> task_file t = Some x \<longrightarrow> deferred t))"

definition out_ok :: "file_handler \<Rightarrow> bool" where
  "out_ok h \<longleftrightarrow> (\<forall>f \<in> set (fh_out h). \<forall>a. fst f = Some a \<longrightarrow> a < length (fh_pendings h))"

definition file_inv :: "go_env \<Rightarrow> file_task list \<Rightarrow> file_handler \<Rightarrow> bool" where
  "file_inv env T h \<longleftrightarrow>
     (\<forall>t \<in> set T. ftask_ok h t) \<and>
     distinct (List.map_filter task_addr T) \<and> distinct (List.map_filter task_file T) \<and>
     (\<forall>i a. fh_streams h i = Some a \<longrightarrow> (\<exists>t \<in> set T. task_addr t = Some a \<and> task_stream t = i)) \<and>
     (\<forall>x < length (fh_files h). of_open (fh_files h ! x) \<longrightarrow> Some x \<in> task_file ` set T) \<and>
     (\<forall>a < length (fh_pendings h). prefix (dats a h) (fp_got (pend h a))) \<and>
     (\<forall>a. acked env a h \<longrightarrow> stored T h a) \<and>
     out_ok h"

lemma file_inv_parts:
  assumes "file_inv env T h"
  shows "t \<in> set T \<Longrightarrow> ftask_ok h t"
    and "fh_streams h i = Some a \<Longrightarrow> \<exists>t \<in> set T. task_addr t = Some a \<and> task_stream t = i"
    and "x < length (fh_files h) \<Longrightarrow> of_open (fh_files h ! x) \<Longrightarrow> Some x \<in> task_file ` set T"
    and "a < length (fh_pendings h) \<Longrightarrow> prefix (dats a h) (fp_got (pend h a))"
    and "acked env a h \<Longrightarrow> stored T h a"
    and "out_ok h"
  using assms by (simp_all add: file_inv_def)

section \<open>Changes that do not matter\<close>

definition same_pipe :: "pipe option \<Rightarrow> pipe option \<Rightarrow> bool" where
  "same_pipe p p' \<longleftrightarrow>
     (case (p, p') of
        (None, None) \<Rightarrow> True
      | (Some q, Some q') \<Rightarrow> pi_close q' = pi_close q \<and> (pi_err q' \<or> (pi_buf q' = pi_buf q \<and> pi_err q' = pi_err q))
      | _ \<Rightarrow> False)"

text \<open>A request may be closed, together with its file; nothing else about it changes.\<close>

definition same_pending :: "file_handler \<Rightarrow> file_handler \<Rightarrow> nat \<Rightarrow> bool" where
  "same_pending h h' a \<longleftrightarrow>
     fp_op (pend h' a) = fp_op (pend h a) \<and> fp_closer (pend h' a) = fp_closer (pend h a) \<and> fp_got (pend h' a) = fp_got (pend h a) \<and>
     same_pipe (fp_pipe (pend h a)) (fp_pipe (pend h' a)) \<and> dats a h' = dats a h \<and>
     (\<forall>x < length (fh_files h). owns h a x \<longrightarrow> owns h' a x)"

definition harmless :: "go_env \<Rightarrow> file_handler \<Rightarrow> file_handler \<Rightarrow> bool" where
  "harmless env h h' \<longleftrightarrow>
     length (fh_pendings h') = length (fh_pendings h) \<and> length (fh_files h') = length (fh_files h) \<and>
     fh_streams h' \<subseteq>\<^sub>m fh_streams h \<and>
     (\<forall>a < length (fh_pendings h). same_pending h h' a) \<and>
     (\<forall>x < length (fh_files h). of_data (fh_files h' ! x) = of_data (fh_files h ! x) \<and> (of_open (fh_files h' ! x) \<longrightarrow> of_open (fh_files h ! x))) \<and>
     (\<forall>a. acked env a h' \<longrightarrow> acked env a h) \<and>
     (out_ok h \<longrightarrow> out_ok h')"

lemma harmless_task:
  assumes "harmless env h h'" "ftask_ok h t"
  shows "ftask_ok h' t"
proof -
  have p: "same_pending h h' a" if "a < length (fh_pendings h)" for a
    using assms(1) that by (simp add: harmless_def)
  have f: "of_data (fh_files h' ! x) = of_data (fh_files h ! x)" "of_open (fh_files h' ! x) \<Longrightarrow> of_open (fh_files h ! x)"
    if "x < length (fh_files h)" for x
    using assms(1) that by (auto simp: harmless_def)
  have len: "length (fh_pendings h') = length (fh_pendings h)" "length (fh_files h') = length (fh_files h)"
    using assms(1) by (simp_all add: harmless_def)
  show ?thesis
  proof (cases t)
    case (TaskPut a i x)
    then show ?thesis
      using assms(2) p [of a] f [of x] len by (auto simp: same_pending_def same_pipe_def split: option.splits)
  qed (use assms(2) p f len in \<open>auto simp: same_pending_def\<close>)
qed

lemma harmless_inv:
  assumes "file_inv env T h" "harmless env h h'"
  shows "file_inv env T h'"
proof -
  have "stored T h' a" if "stored T h a" for a
  proof -
    obtain x p where x: "a < length (fh_pendings h)" "fp_closer (pend h a) = Some x" "x < length (fh_files h)"
        "of_data (fh_files h ! x) = fp_got (pend h a)" "\<forall>t \<in> set T. task_addr t = Some a \<or> task_file t = Some x \<longrightarrow> deferred t"
      and p: "fp_pipe (pend h a) = Some p" "pi_close p"
      using \<open>stored T h a\<close> by (auto simp: stored_def)
    have "same_pending h h' a" "of_data (fh_files h' ! x) = of_data (fh_files h ! x)"
      using assms(2) x by (auto simp: harmless_def)
    moreover from this(1) p have "\<exists>p'. fp_pipe (pend h' a) = Some p' \<and> pi_close p'"
      by (auto simp: same_pending_def same_pipe_def split: option.splits)
    ultimately show ?thesis
      using assms(2) x by (auto simp: stored_def harmless_def same_pending_def)
  qed
  moreover have "prefix (dats a h') (fp_got (pend h' a))" if "a < length (fh_pendings h')" for a
    using that assms unfolding file_inv_def harmless_def same_pending_def by simp
  moreover have "\<exists>t \<in> set T. task_addr t = Some a \<and> task_stream t = i" if "fh_streams h' i = Some a" for i a
  proof -
    have "fh_streams h i = Some a"
      using that assms(2) unfolding harmless_def map_le_def by (metis domI)
    then show ?thesis
      using assms(1) unfolding file_inv_def by blast
  qed
  ultimately show ?thesis
    using assms harmless_task [OF assms(2)] unfolding file_inv_def harmless_def by simp
qed

lemma dats_send: "dats a (fh_send ok w i fl p h) = (if ok \<and> w = Some a \<and> fl = FlagDAT then dats a h @ p else dats a h)"
  by (simp add: dats_def fh_send_def)

lemma fh_send_fields [simp]:
  "fh_pendings (fh_send ok w i fl p h) = fh_pendings h" "fh_files (fh_send ok w i fl p h) = fh_files h"
  "fh_streams (fh_send ok w i fl p h) = fh_streams h" "fh_tasks (fh_send ok w i fl p h) = fh_tasks h"
  by (simp_all add: fh_send_def)

lemma flags_distinct [simp]: "FlagSYN \<noteq> FlagDAT" "FlagFIN \<noteq> FlagDAT" "FlagSYN \<noteq> FlagFIN" "FlagDAT \<noteq> FlagFIN" "FlagDAT \<noteq> FlagSYN" "FlagFIN \<noteq> FlagSYN"
  by (simp_all add: FlagSYN_def FlagDAT_def FlagFIN_def)

lemma send_harmless:
  assumes "w = None \<or> fl = FlagSYN \<or> (fl = FlagFIN \<and> p \<noteq> js_print env ok_status)"
    "\<forall>a. w = Some a \<longrightarrow> a < length (fh_pendings h)"
  shows "harmless env h (fh_send ok w i fl p h)"
  using assms
  by (auto simp: harmless_def same_pending_def same_pipe_def owns_def dats_def acked_def out_ok_def fh_send_def split: option.splits)

lemma dats_out: "fh_out h' = fh_out h \<Longrightarrow> dats a h' = dats a h"
  by (simp add: dats_def)

lemma close_file_fields [simp]:
  "fh_pendings (close_file x h) = fh_pendings h" "fh_streams (close_file x h) = fh_streams h"
  "fh_out (close_file x h) = fh_out h" "length (fh_files (close_file x h)) = length (fh_files h)" "fh_tasks (close_file x h) = fh_tasks h"
  by (simp_all add: close_file_def)

lemma close_file_nth:
  "y < length (fh_files h) \<Longrightarrow> of_data (fh_files (close_file x h) ! y) = of_data (fh_files h ! y) \<and>
     (of_open (fh_files (close_file x h) ! y) \<longleftrightarrow> of_open (fh_files h ! y) \<and> y \<noteq> x)"
  by (cases "x < length (fh_files h)") (auto simp: close_file_def nth_list_update)

lemma close_file_harmless: "harmless env h (close_file x h)"
  by (auto simp: harmless_def same_pending_def same_pipe_def owns_def acked_def out_ok_def close_file_nth dats_out [of "close_file x h"]
      split: option.splits)

lemma upd_pend_fields [simp]:
  "fh_streams (upd_pend a f h) = fh_streams h" "fh_files (upd_pend a f h) = fh_files h" "fh_out (upd_pend a f h) = fh_out h"
  "fh_tasks (upd_pend a f h) = fh_tasks h" "length (fh_pendings (upd_pend a f h)) = length (fh_pendings h)"
  by (simp_all add: upd_pend_def)

lemma upd_pend_nth: "b < length (fh_pendings h) \<Longrightarrow> pend (upd_pend a f h) b = (if b = a then f (pend h a) else pend h b)"
  by (auto simp: upd_pend_def nth_list_update)

lemma close_pending_harmless: "harmless env h (close_pending a h)"
proof (cases "fp_closed (pend h a)")
  case True
  then show ?thesis
    by (auto simp: close_pending_def harmless_def same_pending_def same_pipe_def split: option.splits)
next
  case False
  define h1 where "h1 = upd_pend a (\<lambda>p. p\<lparr>fp_closed := True, fp_pipe := map_option cancel_pipe (fp_pipe p)\<rparr>) h"
  have h': "close_pending a h = (case fp_closer (pend h a) of None \<Rightarrow> h1 | Some x \<Rightarrow> close_file x h1)"
    using False unfolding h1_def by (simp add: close_pending_def Let_def)
  have shape: "length (fh_pendings (close_pending a h)) = length (fh_pendings h)" "fh_streams (close_pending a h) = fh_streams h"
      "fh_out (close_pending a h) = fh_out h" "length (fh_files (close_pending a h)) = length (fh_files h)"
    by (simp_all add: h' h1_def split: option.split)
  have pend: "pend (close_pending a h) b = (if b = a then (pend h a)\<lparr>fp_closed := True, fp_pipe := map_option cancel_pipe (fp_pipe (pend h a))\<rparr> else pend h b)"
    if "b < length (fh_pendings h)" for b
    using that by (simp add: h' h1_def upd_pend_nth split: option.split)
  have files: "of_data (fh_files (close_pending a h) ! x) = of_data (fh_files h ! x) \<and>
      (of_open (fh_files (close_pending a h) ! x) \<longleftrightarrow> of_open (fh_files h ! x) \<and> fp_closer (pend h a) \<noteq> Some x)"
    if "x < length (fh_files h)" for x
    using that close_file_nth [of x h1] by (auto simp: h' h1_def split: option.split)
  have "same_pending h (close_pending a h) b" if "b < length (fh_pendings h)" for b
    using that files pend [OF that] dats_out [OF shape(3), of b]
    by (auto simp: same_pending_def same_pipe_def owns_def cancel_pipe_def split: option.split)
  then show ?thesis
    using shape files by (simp add: harmless_def acked_def out_ok_def)
qed

lemma close_pending_fields [simp]:
  "fh_streams (close_pending a h) = fh_streams h" "fh_out (close_pending a h) = fh_out h" "fh_tasks (close_pending a h) = fh_tasks h"
  "length (fh_pendings (close_pending a h)) = length (fh_pendings h)" "length (fh_files (close_pending a h)) = length (fh_files h)"
  by (auto simp: close_pending_def Let_def split: option.split)

lemma close_pending_closed: "a < length (fh_pendings h) \<Longrightarrow> fp_closed (pend (close_pending a h) a)"
  by (auto simp: close_pending_def Let_def upd_pend_nth split: option.split)

text \<open>Taking a stream out of the table.\<close>

lemma drop_stream_harmless: "harmless env h (h\<lparr>fh_streams := (fh_streams h)(i := None)\<rparr>)"
  by (auto simp: harmless_def same_pending_def same_pipe_def owns_def acked_def out_ok_def map_le_def
      dats_out [of "h\<lparr>fh_streams := (fh_streams h)(i := None)\<rparr>" h] split: option.splits)

lemma drop_stream_inv: "file_inv env T h \<Longrightarrow> file_inv env T (h\<lparr>fh_streams := (fh_streams h)(i := None)\<rparr>)"
  by (rule harmless_inv [OF _ drop_stream_harmless])

lemma close_pending_inv: "file_inv env T h \<Longrightarrow> file_inv env T (close_pending a h)"
  by (rule harmless_inv [OF _ close_pending_harmless])

lemma send_inv:
  "file_inv env T h \<Longrightarrow> w = None \<or> fl = FlagSYN \<or> (fl = FlagFIN \<and> p \<noteq> js_print env ok_status) \<Longrightarrow>
     (\<forall>a. w = Some a \<longrightarrow> a < length (fh_pendings h)) \<Longrightarrow> file_inv env T (fh_send ok w i fl p h)"
  by (rule harmless_inv [OF _ send_harmless])

text \<open>The printer tells an acknowledgement from an error and from nothing.\<close>

definition clear_acks :: "go_env \<Rightarrow> bool" where
  "clear_acks env \<longleftrightarrow> js_print env ok_status \<noteq> [] \<and> (\<forall>m. js_print env (error_status m) \<noteq> js_print env ok_status)"

lemma error_inv:
  assumes "file_inv env T h" "clear_acks env" "\<forall>a. w = Some a \<longrightarrow> a < length (fh_pendings h)"
  shows "file_inv env T (sendFileError env ok w i msg h)"
  unfolding sendFileError_def
  by (intro send_inv assms(1)) (use assms in \<open>auto simp: clear_acks_def split: option.splits\<close>)

lemma inv_tasks:
  "file_inv env T h \<Longrightarrow> mset T = mset T' \<Longrightarrow> file_inv env T' h"
proof -
  assume inv: "file_inv env T h" and m: "mset T = mset T'"
  then have "set T = set T'" "distinct (List.map_filter f T) = distinct (List.map_filter f T')" for f :: "file_task \<Rightarrow> nat option"
  proof -
    show "set T = set T'"
      using m by (metis set_mset_mset)
    have "mset (List.map_filter f T) = mset (List.map_filter f T')"
      using m by (simp add: List.map_filter_def)
    then show "distinct (List.map_filter f T) = distinct (List.map_filter f T')"
      by (metis distinct_count_atmost_1 set_mset_mset)
  qed
  with inv show ?thesis
    unfolding file_inv_def stored_def by simp
qed

text \<open>
  A goroutine that ends: its request is finished, so the file it held is closed and no stream leads
  to it.
\<close>

lemma finish_inv:
  assumes "file_inv env (TaskDefer a i xo # T) h"
  shows "file_inv env T (finishStream i a h)"
proof -
  define h1 where "h1 = (if fh_streams h i = Some a then h\<lparr>fh_streams := (fh_streams h)(i := None)\<rparr> else h)"
  have h': "finishStream i a h = close_pending a h1"
    by (simp add: finishStream_def h1_def)
  have "file_inv env (TaskDefer a i xo # T) h1"
    using assms drop_stream_inv [OF assms, of i] by (simp add: h1_def)
  then have inv: "file_inv env (TaskDefer a i xo # T) (finishStream i a h)"
    unfolding h' by (rule close_pending_inv)
  have a: "a < length (fh_pendings h)"
    using assms by (simp add: file_inv_def)
  have gone: "\<exists>t' \<in> set T. task_addr t' = Some b \<and> task_stream t' = j" if "fh_streams (finishStream i a h) j = Some b" for j b
  proof -
    have "fh_streams h j = Some b" "\<not> (j = i \<and> b = a)"
      using that by (auto simp: h' h1_def split: if_splits)
    then show ?thesis
      using file_inv_parts(2) [OF assms, of j b] by auto
  qed
  have "fp_closed (pend (finishStream i a h) a)"
    unfolding h' using a by (intro close_pending_closed) (simp add: h1_def)
  then have closed: "\<not> of_open (fh_files (finishStream i a h) ! x)" if "xo = Some x" for x
    using inv that by (auto simp: file_inv_def owns_def)
  have "stored T (finishStream i a h) b" if "acked env b (finishStream i a h)" for b
    using inv that unfolding file_inv_def stored_def by (metis list.set_intros(2))
  then show ?thesis
    using inv gone closed unfolding file_inv_def by (auto simp: map_filter_simps split: option.splits)
qed

section \<open>A goroutine and its request\<close>

text \<open>
  A change to one request: its object, its file (or a new one) and frames of its own. Everybody else's
  are as they were.
\<close>

definition own_change :: "go_env \<Rightarrow> file_task \<Rightarrow> file_task \<Rightarrow> nat \<Rightarrow> file_handler \<Rightarrow> file_handler \<Rightarrow> bool" where
  "own_change env t t' a h h' \<longleftrightarrow>
     fh_streams h' = fh_streams h \<and> length (fh_pendings h') = length (fh_pendings h) \<and>
     length (fh_files h) \<le> length (fh_files h') \<and>
     (\<forall>b < length (fh_pendings h). b \<noteq> a \<longrightarrow> pend h' b = pend h b) \<and> (\<forall>b. b \<noteq> a \<longrightarrow> dats b h' = dats b h) \<and>
     (\<forall>y < length (fh_files h). task_file t \<noteq> Some y \<longrightarrow> fh_files h' ! y = fh_files h ! y) \<and>
     (\<forall>y < length (fh_files h'). length (fh_files h) \<le> y \<longrightarrow> task_file t' = Some y) \<and>
     (\<forall>y. task_file t = Some y \<longrightarrow> task_file t' = Some y) \<and>
     (\<forall>y. task_file t' = Some y \<longrightarrow> task_file t = Some y \<or> length (fh_files h) \<le> y) \<and>
     (\<forall>b. acked env b h' \<longrightarrow> acked env b h) \<and> (out_ok h \<longrightarrow> out_ok h')"

lemma ftask_ok_others:
  assumes "own_change env t t' a h h'" "ftask_ok h s" "task_addr s \<noteq> Some a" "task_file s \<noteq> task_file t \<or> task_file s = None"
  shows "ftask_ok h' s"
proof -
  have "pend h' b = pend h b" if "b < length (fh_pendings h)" "task_addr s = Some b" for b
    using assms(1,3) that by (auto simp: own_change_def)
  moreover have "fh_files h' ! y = fh_files h ! y" if "y < length (fh_files h)" "task_file s = Some y" for y
    using assms(1,4) that by (auto simp: own_change_def)
  moreover have "dats b h' = dats b h" if "task_addr s = Some b" for b
    using assms(1,3) that by (auto simp: own_change_def)
  moreover have "length (fh_pendings h') = length (fh_pendings h)" "length (fh_files h) \<le> length (fh_files h')"
    using assms(1) by (simp_all add: own_change_def)
  ultimately show ?thesis
    using assms(2) by (cases s) (auto simp: owns_def)
qed

lemma others_disjoint:
  assumes "file_inv env (t # T) h" "s \<in> set T"
  shows "task_addr t = Some a \<Longrightarrow> task_addr s \<noteq> Some a" "task_file t = Some x \<Longrightarrow> task_file s \<noteq> Some x"
  using assms by (auto simp: file_inv_def map_filter_simps map_filter_def image_iff split: option.splits)

lemma own_inv:
  assumes "file_inv env (t # T) h" "own_change env t t' a h h'" "task_addr t = Some a" "task_addr t' = Some a"
    "task_stream t' = task_stream t" "ftask_ok h' t'" "\<not> deferred t" "prefix (dats a h') (fp_got (pend h' a))"
  shows "file_inv env (t' # T) h'"
proof -
  have "ftask_ok h' s" if "s \<in> set T" for s
    using ftask_ok_others [OF assms(2), of s] others_disjoint [OF assms(1) that] assms(1,3) that
    by (cases "task_file t") (auto simp: file_inv_def)
  moreover have "distinct (List.map_filter task_addr (t' # T))"
    using assms(1,3,4) by (simp add: file_inv_def map_filter_simps)
  moreover have "distinct (List.map_filter task_file (t' # T))"
  proof -
    have "y < length (fh_files h)" if "s \<in> set T" "task_file s = Some y" for s y
      using assms(1) that by (cases s) (auto simp: file_inv_def)
    then have "y \<notin> set (List.map_filter task_file T)" if "length (fh_files h) \<le> y" for y
      using that by (force simp: map_filter_def)
    then show ?thesis
      using assms(1,2) by (auto simp: file_inv_def own_change_def map_filter_simps split: option.splits)
  qed
  moreover have "\<exists>s \<in> set (t' # T). task_addr s = Some b \<and> task_stream s = j" if "fh_streams h' j = Some b" for j b
    using assms(1-5) that unfolding file_inv_def own_change_def by (metis list.set_intros set_ConsD)
  moreover have "Some y \<in> task_file ` set (t' # T)" if "y < length (fh_files h')" "of_open (fh_files h' ! y)" for y
  proof (cases "y < length (fh_files h) \<and> task_file t \<noteq> Some y")
    case True
    then have "of_open (fh_files h ! y)"
      using assms(2) that by (simp add: own_change_def)
    then have "Some y \<in> task_file ` set (t # T)"
      using assms(1) True unfolding file_inv_def by blast
    then show ?thesis
      using True by auto
  next
    case False
    then have "task_file t' = Some y"
      using assms(2) that unfolding own_change_def by (meson not_less)
    then show ?thesis by force
  qed
  moreover have "prefix (dats b h') (fp_got (pend h' b))" if "b < length (fh_pendings h')" for b
    using assms(1,2,8) that by (cases "b = a") (auto simp: file_inv_def own_change_def)
  moreover have "stored (t' # T) h' b" if "acked env b h'" for b
  proof -
    have st: "stored (t # T) h b"
      using assms(1,2) that by (auto simp: file_inv_def own_change_def)
    then obtain x p where x: "b < length (fh_pendings h)" "fp_closer (pend h b) = Some x" "x < length (fh_files h)"
        "of_data (fh_files h ! x) = fp_got (pend h b)" "fp_pipe (pend h b) = Some p" "pi_close p"
        "\<forall>s \<in> set (t # T). task_addr s = Some b \<or> task_file s = Some x \<longrightarrow> deferred s"
      unfolding stored_def by blast
    then have b: "b \<noteq> a" "task_file t \<noteq> Some x"
      using assms(3,7) by auto
    then have "pend h' b = pend h b" "fh_files h' ! x = fh_files h ! x" "task_file t' \<noteq> Some x" "x < length (fh_files h')"
        "length (fh_pendings h') = length (fh_pendings h)"
      using assms(2) x by (auto simp: own_change_def)
    then show ?thesis
      using b x assms(4) by (auto simp: stored_def)
  qed
  moreover have "out_ok h'"
    using assms(1,2) by (simp add: file_inv_def own_change_def)
  ultimately show ?thesis
    using assms(6) unfolding file_inv_def by (simp add: Ball_def)
qed

text \<open>The same goroutine goes on, or ends.\<close>

lemma front_task: "t \<in> set T \<Longrightarrow> file_inv env T h \<Longrightarrow> \<exists>T'. mset T = mset (t # T') \<and> file_inv env (t # T') h"
proof -
  assume t: "t \<in> set T" and inv: "file_inv env T h"
  have "mset T = mset (t # remove1 t T)"
    using t by simp
  then show ?thesis
    using inv_tasks [OF inv] by blast
qed

lemma ack_inv:
  assumes "file_inv env T h" "stored T h a"
  shows "file_inv env T (fh_send ok (Some a) i FlagFIN p h)"
proof -
  have "ftask_ok (fh_send ok (Some a) i FlagFIN p h) t \<longleftrightarrow> ftask_ok h t" for t
    by (cases t) (simp_all add: dats_send owns_def)
  moreover have "stored T (fh_send ok (Some a) i FlagFIN p h) b \<longleftrightarrow> stored T h b" for b
    by (simp add: stored_def)
  moreover have "stored T h b" if "acked env b (fh_send ok (Some a) i FlagFIN p h)" for b
  proof -
    have "b = a \<or> acked env b h"
      using that by (auto simp: acked_def fh_send_def split: if_splits)
    then show ?thesis
      using assms by (auto simp: file_inv_def)
  qed
  moreover have "out_ok (fh_send ok (Some a) i FlagFIN p h)"
    using assms by (auto simp: file_inv_def out_ok_def stored_def fh_send_def)
  ultimately show ?thesis
    using assms by (auto simp: file_inv_def dats_send)
qed

lemma own_change_refl: "task_file t' = task_file t \<Longrightarrow> own_change env t t' a h h"
  by (auto simp: own_change_def)

lemma own_change_send:
  assumes "own_change env t t' a h h'" "a < length (fh_pendings h)" "fl \<noteq> FlagFIN \<or> p \<noteq> js_print env ok_status"
  shows "own_change env t t' a h (fh_send ok (Some a) i fl p h')"
proof -
  have "acked env b (fh_send ok (Some a) i fl p h') \<longleftrightarrow> acked env b h'" for b
    using assms(3) by (auto simp: acked_def fh_send_def)
  moreover have "out_ok h' \<Longrightarrow> out_ok (fh_send ok (Some a) i fl p h')"
    using assms(1,2) by (auto simp: out_ok_def own_change_def fh_send_def)
  ultimately show ?thesis
    using assms(1) by (auto simp: own_change_def dats_send)
qed

lemma own_change_trans_pend:
  assumes "own_change env t t' a h h'" "a < length (fh_pendings h)"
  shows "own_change env t t' a h (upd_pend a f h')"
  using assms by (auto simp: own_change_def upd_pend_nth dats_out [of "upd_pend a f h'" h'] acked_def out_ok_def)

lemma upd_file_fields [simp]:
  "fh_streams (upd_file x f h) = fh_streams h" "fh_pendings (upd_file x f h) = fh_pendings h" "fh_out (upd_file x f h) = fh_out h"
  "length (fh_files (upd_file x f h)) = length (fh_files h)"
  by (simp_all add: upd_file_def)

lemma upd_file_nth:
  "y < length (fh_files h) \<Longrightarrow> fh_files (upd_file x f h) ! y =
     (if y = x then (fh_files h ! x)\<lparr>of_data := f (of_data (fh_files h ! x))\<rparr> else fh_files h ! y)"
  by (auto simp: upd_file_def nth_list_update)

lemma own_change_trans_file:
  assumes "own_change env t t' a h h'" "task_file t = Some x"
  shows "own_change env t t' a h (upd_file x f h')"
  using assms by (auto simp: own_change_def upd_file_nth dats_out [of "upd_file x f h'" h'] acked_def out_ok_def)

lemma ftask_ok_send:
  "fl \<noteq> FlagDAT \<or> w \<noteq> task_addr t \<Longrightarrow> ftask_ok (fh_send ok w i fl p h) t \<longleftrightarrow> ftask_ok h t"
  by (cases t) (auto simp: dats_send owns_def)

lemma run_get_inv:
  assumes "file_inv env (TaskGet a i path # T) h" "clear_acks env" "run_get env fs c a i path h = (t', h')"
  shows "file_inv env (t' # T) h'"
proof -
  have ok: "ftask_ok h (TaskGet a i path)"
    by (rule file_inv_parts(1) [OF assms(1)]) simp
  show ?thesis
  proof (cases "fs_openRead fs path")
    case (Inl e)
    then have h': "t' = TaskDefer a i None" "h' = sendFileError env (fc_ok c) (Some a) i (fileErrMessage e path) h"
      using assms(3) by (simp_all add: run_get_def)
    have "file_inv env (TaskGet a i path # T) h'"
      unfolding h' by (rule error_inv [OF assms(1,2)]) (use ok in simp)
    moreover have "own_change env (TaskGet a i path) t' a h' h'"
      by (rule own_change_refl) (simp add: h')
    moreover have "fh_pendings h' = fh_pendings h"
      by (simp add: h' sendFileError_def)
    ultimately show ?thesis
      using own_inv [of env "TaskGet a i path" T h' t' a h'] file_inv_parts(4) [of env _ h' a] ok by (simp add: h')
  next
    case (Inr md)
    obtain m data where md: "md = (m, data)" by (cases md)
    define h1 where "h1 = upd_pend a (\<lambda>p. p\<lparr>fp_got := data\<rparr>) h"
    have h': "t' = TaskSetCloser a i (length (fh_files h)) m" "h' = h1\<lparr>fh_files := fh_files h1 @ [\<lparr>of_data = data, of_open = True\<rparr>]\<rparr>"
      using assms(3) Inr md by (simp_all add: run_get_def openFile_def h1_def)
    have out: "fh_out h' = fh_out h"
      by (simp add: h' h1_def)
    have pend: "pend h' b = (if b = a then (pend h a)\<lparr>fp_got := data\<rparr> else pend h b)" if "b < length (fh_pendings h)" for b
      using that by (simp add: h' h1_def upd_pend_nth)
    have "own_change env (TaskGet a i path) t' a h h'"
      using pend dats_out [OF out] out by (auto simp: own_change_def h' h1_def acked_def out_ok_def nth_append)
    moreover have "ftask_ok h' t'" "dats a h' = []"
      using ok pend [of a] dats_out [OF out, of a] by (simp_all add: h' h1_def nth_append)
    ultimately show ?thesis
      using own_inv [OF assms(1), of t' a h'] by (simp add: h'(1))
  qed
qed

lemma setCloser_inv:
  assumes "file_inv env (TaskSetCloser a i x m # T) h" "setCloser a i x m h = (t', h')"
  shows "file_inv env (t' # T) h'"
proof -
  let ?t = "TaskSetCloser a i x m"
  have ok: "ftask_ok h ?t"
    by (rule file_inv_parts(1) [OF assms(1)]) simp
  have pre: "prefix (dats a h) (fp_got (pend h a))"
    using file_inv_parts(4) [OF assms(1)] ok by simp
  show ?thesis
  proof (cases "fp_closed (pend h a)")
    case True
    then have h': "t' = TaskDefer a i (Some x)" "h' = close_file x h"
      using assms(2) by (simp_all add: setCloser_def)
    have "file_inv env (?t # T) h'"
      unfolding h' by (rule harmless_inv [OF assms(1) close_file_harmless])
    moreover have "own_change env ?t t' a h' h'"
      by (rule own_change_refl) (simp add: h')
    moreover have "ftask_ok h' t'"
      using ok by (simp add: h' close_file_nth)
    moreover have "prefix (dats a h') (fp_got (pend h' a))"
      using pre dats_out [of h' h a] by (simp add: h')
    ultimately show ?thesis
      using own_inv [of env ?t T h' t' a h'] by (simp add: h'(1))
  next
    case False
    then have h': "t' = TaskMeta a i x m" "h' = upd_pend a (\<lambda>p. p\<lparr>fp_closer := Some x\<rparr>) h"
      using assms(2) by (simp_all add: setCloser_def)
    have "own_change env ?t t' a h h'"
      unfolding h' using ok by (intro own_change_trans_pend own_change_refl) simp_all
    moreover have "ftask_ok h' t'" "prefix (dats a h') (fp_got (pend h' a))"
      using ok False pre dats_out [of h' h a] by (simp_all add: h' upd_pend_nth owns_def)
    ultimately show ?thesis
      using own_inv [OF assms(1), of t' a h'] by (simp add: h'(1))
  qed
qed

lemma meta_inv:
  assumes "file_inv env (TaskMeta a i x m # T) h"
  shows "file_inv env (TaskSend a i x # T) (fh_send ok (Some a) i FlagSYN p h)"
    and "file_inv env (TaskDefer a i (Some x) # T) h"
proof -
  let ?t = "TaskMeta a i x m"
  have tok: "ftask_ok h ?t"
    by (rule file_inv_parts(1) [OF assms]) simp
  have "own_change env ?t (TaskSend a i x) a h (fh_send ok (Some a) i FlagSYN p h)"
    using tok by (intro own_change_send own_change_refl) simp_all
  then show "file_inv env (TaskSend a i x # T) (fh_send ok (Some a) i FlagSYN p h)"
    using own_inv [OF assms, of "TaskSend a i x" a "fh_send ok (Some a) i FlagSYN p h"] tok
    by (simp add: dats_send owns_def)
  have "own_change env ?t (TaskDefer a i (Some x)) a h h"
    by (rule own_change_refl) simp
  then show "file_inv env (TaskDefer a i (Some x) # T) h"
    using own_inv [OF assms, of "TaskDefer a i (Some x)" a h] tok by simp
qed

lemma send_turn_inv:
  assumes "file_inv env (TaskSend a i x # T) h" "clear_acks env" "send_turn c a i x h = (t', h')"
  shows "file_inv env (t' # T) h'"
proof -
  let ?t = "TaskSend a i x"
  define f where "f = fh_files h ! x"
  define n where "n = (if of_open f then min (fc_n c) (min MaxChunkSize (length (of_data f))) else 0)"
  define h1 where "h1 = (if n > 0 then fh_send True (Some a) i FlagDAT (take n (of_data f)) (upd_file x (drop n) h) else h)"
  have tok: "ftask_ok h ?t"
    by (rule file_inv_parts(1) [OF assms(1)]) simp
  have change: "own_change env ?t t'' a h h1" if "task_file t'' = Some x" for t''
    using that tok unfolding h1_def
    by (cases "n > 0") (auto intro!: own_change_send own_change_trans_file own_change_refl)
  have len: "fh_pendings h1 = fh_pendings h" "length (fh_files h1) = length (fh_files h)"
    by (simp_all add: h1_def)
  have owns: "owns h1 a x"
    using tok by (simp add: h1_def owns_def upd_file_nth)
  have data: "dats a h1 @ of_data (fh_files h1 ! x) = fp_got (pend h1 a)"
    using tok dats_out [of "upd_file x (drop n) h" h a] by (simp add: h1_def dats_send upd_file_nth f_def)
  have keep: "ftask_ok h1 ?t"
    using tok owns data len by simp
  have ending: "file_inv env (TaskDefer a i (Some x) # T) (fh_send ok (Some a) i FlagFIN [] h1)" for ok
  proof -
    have "own_change env ?t (TaskDefer a i (Some x)) a h (fh_send ok (Some a) i FlagFIN [] h1)"
      using tok assms(2) [unfolded clear_acks_def, THEN conjunct1, THEN not_sym] change [of "TaskDefer a i (Some x)"]
      by (intro own_change_send) simp_all
    moreover have "prefix (dats a h1) (fp_got (pend h1 a))"
      using data by (metis prefixI)
    ultimately show ?thesis
      using own_inv [OF assms(1), of "TaskDefer a i (Some x)" a "fh_send ok (Some a) i FlagFIN [] h1"] tok owns len
      by (simp add: dats_send owns_def)
  qed
  have stop: "file_inv env (TaskDefer a i (Some x) # T) h"
  proof -
    have "own_change env ?t (TaskDefer a i (Some x)) a h h"
      by (rule own_change_refl) simp
    then show ?thesis
      using own_inv [OF assms(1), of "TaskDefer a i (Some x)" a h] tok file_inv_parts(4) [OF assms(1), of a] by simp
  qed
  have go: "file_inv env (?t # T) h1"
    using own_inv [OF assms(1) change [of ?t]] keep data by (simp add: prefixI [of _ _ "of_data (fh_files h1 ! x)"])
  show ?thesis
    using assms(3) ending stop go
    unfolding send_turn_def Let_def f_def [symmetric] n_def [symmetric] h1_def [symmetric]
    by (auto split: if_splits)
qed

lemma put_turn_inv:
  assumes "file_inv env (TaskPut a i x # T) h" "clear_acks env" "put_turn env c a i x h = (t', h')"
  shows "file_inv env (t' # T) h'"
proof -
  let ?t = "TaskPut a i x"
  have tok: "ftask_ok h ?t"
    by (rule file_inv_parts(1) [OF assms(1)]) simp
  then obtain p where p: "fp_pipe (pend h a) = Some p" "pi_err p \<or> of_data (fh_files h ! x) @ pi_buf p = fp_got (pend h a)"
    by auto
  have fail: "file_inv env (fst (put_failed env c e a i x h1) # T) (snd (put_failed env c e a i x h1))"
    if "own_change env ?t (TaskDefer a i (Some x)) a h h1" "owns h1 a x" "dats a h1 = []" for e h1
  proof -
    have "length (fh_pendings h1) = length (fh_pendings h)" "length (fh_files h) \<le> length (fh_files h1)"
      using that(1) by (simp_all add: own_change_def)
    moreover have "own_change env ?t (TaskDefer a i (Some x)) a h (snd (put_failed env c e a i x h1))"
      unfolding put_failed_def snd_conv using tok assms(2) that(1)
      by (intro own_change_send) (simp_all add: clear_acks_def)
    ultimately show ?thesis
      using own_inv [OF assms(1), of "TaskDefer a i (Some x)" a "snd (put_failed env c e a i x h1)"] tok that(2,3)
      by (simp add: put_failed_def dats_send owns_def)
  qed
  define n where "n = min (max 1 (fc_n c)) (min MaxChunkSize (length (pi_buf p)))"
  define h1 where "h1 = upd_pend a (\<lambda>q. q\<lparr>fp_pipe := Some (p\<lparr>pi_buf := drop n (pi_buf p)\<rparr>)\<rparr>) h"
  have change: "own_change env ?t t'' a h h1" if "task_file t'' = Some x" for t''
    unfolding h1_def using that tok by (intro own_change_trans_pend own_change_refl) simp_all
  have pend: "pend h1 a = (pend h a)\<lparr>fp_pipe := Some (p\<lparr>pi_buf := drop n (pi_buf p)\<rparr>)\<rparr>"
    using tok by (simp add: h1_def upd_pend_nth)
  have h1: "fh_files h1 = fh_files h" "fh_out h1 = fh_out h" "length (fh_pendings h1) = length (fh_pendings h)" "owns h1 a x" "dats a h1 = []"
    using tok pend dats_out [of h1 h a] by (simp_all add: h1_def owns_def)
  have grow: "own_change env ?t t'' a h (upd_file x g h1)" "owns (upd_file x g h1) a x" "dats a (upd_file x g h1) = []"
    if "task_file t'' = Some x" for g t''
    using change [OF that] h1 tok dats_out [of "upd_file x g h1" h1 a]
    by (simp_all add: own_change_trans_file owns_def upd_file_nth)
  show ?thesis
  proof (cases "pi_err p")
    case True
    then have "(t', h') = put_failed env c ''context canceled'' a i x h"
      using assms(3) p(1) by (simp add: put_turn_def)
    moreover have "own_change env ?t (TaskDefer a i (Some x)) a h h"
      by (rule own_change_refl) simp
    ultimately show ?thesis
      using fail [of h] tok by (metis fst_conv snd_conv ftask_ok.simps(5))
  next
    case False
    then have eq: "of_data (fh_files h ! x) @ pi_buf p = fp_got (pend h a)"
      using p(2) by simp
    consider (shut) "pi_buf p \<noteq> []" "\<not> of_open (fh_files h ! x)" | (fault) "pi_buf p \<noteq> []" "of_open (fh_files h ! x)" "fc_fault c"
      | (copy) "pi_buf p \<noteq> []" "of_open (fh_files h ! x)" "\<not> fc_fault c" | (finished) "pi_buf p = []" "pi_close p"
      | (wait) "pi_buf p = []" "\<not> pi_close p" by blast
    then show ?thesis
    proof cases
      case shut
      then have "(t', h') = put_failed env c (fc_err c) a i x h1"
        using assms(3) p(1) False unfolding put_turn_def by (simp add: Let_def n_def h1_def)
      then show ?thesis
        using fail [OF change [of "TaskDefer a i (Some x)"] h1(4,5)] by (metis fst_conv snd_conv task_file.simps(5))
    next
      case fault
      then have "(t', h') = put_failed env c (fc_err c) a i x (upd_file x (\<lambda>d. d @ take (n - 1) (pi_buf p)) h1)"
        using assms(3) p(1) False unfolding put_turn_def by (simp add: Let_def n_def h1_def)
      then show ?thesis
        using fail [OF grow [of "TaskDefer a i (Some x)"]] by (metis fst_conv snd_conv task_file.simps(5))
    next
      case copy
      then have h': "t' = ?t" "h' = upd_file x (\<lambda>d. d @ take n (pi_buf p)) h1"
        using assms(3) p(1) False unfolding put_turn_def by (simp_all add: Let_def n_def h1_def)
      have "ftask_ok h' ?t"
        using tok grow(2,3) [of ?t "\<lambda>d. d @ take n (pi_buf p)"] h1 pend eq by (simp add: h' upd_file_nth)
      then show ?thesis
        using own_inv [OF assms(1), of ?t a h'] grow [of ?t "\<lambda>d. d @ take n (pi_buf p)"] by (simp add: h')
    next
      case finished
      then have h': "t' = TaskDefer a i (Some x)" "h' = fh_send (fc_ok c 0) (Some a) i FlagFIN (js_print env ok_status) h"
        using assms(3) p(1) False by (simp_all add: put_turn_def)
      have "own_change env ?t t' a h h"
        by (rule own_change_refl) (simp add: h')
      then have inv: "file_inv env (t' # T) h"
        using own_inv [OF assms(1), of t' a h] tok by (simp add: h'(1))
      have "deferred s" if "s \<in> set (t' # T)" "task_addr s = Some a \<or> task_file s = Some x" for s
        using others_disjoint [OF inv, of s a] others_disjoint(2) [OF inv, of s x] that by (auto simp: h'(1))
      then have "stored (t' # T) h a"
        using tok p(1) finished eq by (auto simp: stored_def owns_def)
      then show ?thesis
        unfolding h'(2) by (rule ack_inv [OF inv])
    next
      case wait
      then have "t' = ?t" "h' = h"
        using assms(3) p(1) False by (simp_all add: put_turn_def)
      then show ?thesis
        using assms(1) by simp
    qed
  qed
qed

lemma run_inv:
  assumes "file_inv env (t # T) h" "clear_acks env" "run_task env fs c t h = (r, h')"
  shows "file_inv env (resume r T) h'"
proof (cases t)
  case (TaskGet a i path)
  then show ?thesis
    using assms run_get_inv by (auto simp: resume_def apfst_def map_prod_def split: prod.splits)
next
  case (TaskSetCloser a i x m)
  then show ?thesis
    using assms setCloser_inv by (auto simp: resume_def apfst_def map_prod_def split: prod.splits)
next
  case (TaskMeta a i x m)
  then show ?thesis
    using assms meta_inv [of env a i x m T h] by (auto simp: resume_def split: if_splits)
next
  case (TaskSend a i x)
  then show ?thesis
    using assms send_turn_inv by (auto simp: resume_def apfst_def map_prod_def split: prod.splits)
next
  case (TaskPut a i x)
  then show ?thesis
    using assms put_turn_inv by (auto simp: resume_def apfst_def map_prod_def split: prod.splits)
next
  case (TaskList i path)
  have inv: "file_inv env T h"
    using assms(1) unfolding TaskList file_inv_def stored_def by (auto simp: map_filter_simps)
  have "h' = handleList env fs c i path h" "r = None"
    using assms(3) TaskList by simp_all
  moreover have "file_inv env T (handleList env fs c i path h)"
    using inv assms(2) unfolding handleList_def Let_def
    by (auto intro!: send_inv error_inv split: sum.split)
  ultimately show ?thesis
    by (simp add: resume_def)
next
  case (TaskDefer a i xo)
  then show ?thesis
    using assms finish_inv by (auto simp: resume_def)
qed

lemma tasks_harmless: "harmless env h (h\<lparr>fh_tasks := ts\<rparr>)"
  by (auto simp: harmless_def same_pending_def same_pipe_def owns_def acked_def out_ok_def
      dats_out [of "h\<lparr>fh_tasks := ts\<rparr>" h] split: option.splits)

lemma tasks_inv: "file_inv env T h \<Longrightarrow> file_inv env T (h\<lparr>fh_tasks := ts\<rparr>)"
  by (rule harmless_inv [OF _ tasks_harmless])

lemma step_task_inv:
  assumes "file_inv env (fh_tasks h) h" "clear_acks env"
  shows "file_inv env (fh_tasks (step_task env fs c k h)) (step_task env fs c k h)"
proof (cases "k < length (fh_tasks h)")
  case True
  let ?T = "fh_tasks h" and ?R = "take k (fh_tasks h) @ drop (Suc k) (fh_tasks h)"
  obtain r h1 where run: "run_task env fs c (?T ! k) h = (r, h1)"
    by (cases "run_task env fs c (?T ! k) h")
  have "file_inv env (?T ! k # ?R) h"
    by (rule inv_tasks [OF assms(1) mset_nth_out [OF True]])
  then have inv: "file_inv env (resume r ?R) h1"
    by (rule run_inv [OF _ assms(2) run])
  show ?thesis
  proof (cases r)
    case None
    then have "step_task env fs c k h = h1\<lparr>fh_tasks := ?R\<rparr>"
      using True run by (simp add: step_task_def)
    then show ?thesis
      using inv None by (simp add: resume_def tasks_inv)
  next
    case (Some t)
    then have step: "step_task env fs c k h = h1\<lparr>fh_tasks := ?T[k := t]\<rparr>"
      using True run by (simp add: step_task_def)
    have "mset (t # ?R) = mset (?T[k := t])"
      using mset_nth_out [of k "?T[k := t]"] True by simp
    then have "file_inv env (?T[k := t]) h1"
      using inv_tasks [of env "t # ?R" h1] inv Some by (simp add: resume_def)
    then show ?thesis
      unfolding step by (simp add: tasks_inv)
  qed
qed (simp add: step_task_def assms(1))

section \<open>The callbacks\<close>

lemma dats_fresh: "out_ok h \<Longrightarrow> length (fh_pendings h) \<le> a \<Longrightarrow> dats a h = []"
  by (auto simp: dats_def out_ok_def concat_eq_Nil_conv)

text \<open>A new request, with its goroutine and perhaps a file of its own.\<close>

lemma new_request_inv:
  fixes h i p files
  defines "h1 \<equiv> h\<lparr>fh_files := fh_files h @ files, fh_pendings := fh_pendings h @ [p],
                 fh_streams := (fh_streams h)(i \<mapsto> length (fh_pendings h))\<rparr>"
  assumes "file_inv env T h" "task_addr t = Some (length (fh_pendings h))" "task_stream t = i" "ftask_ok h1 t"
    "(files = [] \<and> task_file t = None) \<or> (\<exists>f. files = [f] \<and> task_file t = Some (length (fh_files h)))"
  shows "file_inv env (t # T) h1"
proof -
  let ?a = "length (fh_pendings h)"
  note inv = file_inv_parts [OF assms(2)]
  have pend: "pend h1 b = pend h b" if "b < ?a" for b
    using that by (simp add: h1_def nth_append)
  have kept: "fh_files h1 ! x = fh_files h ! x" if "x < length (fh_files h)" for x
    using that by (simp add: h1_def nth_append)
  have out: "fh_out h1 = fh_out h" "dats b h1 = dats b h" for b
    by (simp_all add: h1_def dats_def)
  have len: "length (fh_pendings h1) = Suc ?a" "length (fh_files h) \<le> length (fh_files h1)"
    by (simp_all add: h1_def)
  have old: "ftask_ok h1 s" if "s \<in> set T" for s
    using inv(1) [OF that] pend kept out len by (cases s) (auto simp: owns_def)
  have addr: "b < ?a" if "s \<in> set T" "task_addr s = Some b" for s b
    using inv(1) [OF that(1)] that(2) by (cases s) auto
  have used: "x < length (fh_files h)" if "s \<in> set T" "task_file s = Some x" for s x
    using inv(1) [OF that(1)] that(2) by (cases s) auto
  have "distinct (List.map_filter task_addr (t # T))" "distinct (List.map_filter task_file (t # T))"
    using assms(2,3,6) addr used
    by (force simp: file_inv_def map_filter_simps map_filter_def image_iff split: option.splits)+
  moreover have "\<exists>s \<in> set (t # T). task_addr s = Some b \<and> task_stream s = j" if "fh_streams h1 j = Some b" for j b
    using that inv(2) [of j b] assms(3,4) by (auto simp: h1_def split: if_splits)
  moreover have "Some x \<in> task_file ` set (t # T)" if "x < length (fh_files h1)" "of_open (fh_files h1 ! x)" for x
  proof (cases "x < length (fh_files h)")
    case True
    then show ?thesis
      using inv(3) [OF True] kept that by simp
  next
    case False
    then have "task_file t = Some x"
      using that(1) assms(6) by (auto simp: h1_def)
    then show ?thesis by force
  qed
  moreover have "prefix (dats b h1) (fp_got (pend h1 b))" if "b < length (fh_pendings h1)" for b
    using that inv(4) [of b] pend out len(1) dats_fresh [OF inv(6), of b] by (cases "b = ?a") auto
  moreover have "stored (t # T) h1 b" if "acked env b h1" for b
  proof -
    have "stored T h b"
      using inv(5) [of b] that out by (simp add: acked_def)
    then obtain x q where x: "b < ?a" "fp_closer (pend h b) = Some x" "x < length (fh_files h)" "of_data (fh_files h ! x) = fp_got (pend h b)"
        "fp_pipe (pend h b) = Some q" "pi_close q" "\<forall>s \<in> set T. task_addr s = Some b \<or> task_file s = Some x \<longrightarrow> deferred s"
      unfolding stored_def by blast
    then have "task_file t \<noteq> Some x" "task_addr t \<noteq> Some b"
      using assms(3,6) by auto
    then show ?thesis
      using x pend kept len by (auto simp: stored_def)
  qed
  moreover have "out_ok h1"
    using inv(6) out len by (auto simp: out_ok_def intro: less_SucI)
  ultimately show ?thesis
    using old assms(5) unfolding file_inv_def by simp
qed

text \<open>A file made and closed at once.\<close>

lemma empty_file_inv:
  assumes "file_inv env T h" "of_open f = False"
  shows "file_inv env T (h\<lparr>fh_files := fh_files h @ [f]\<rparr>)"
proof -
  let ?h = "h\<lparr>fh_files := fh_files h @ [f]\<rparr>"
  note inv = file_inv_parts [OF assms(1)]
  have kept: "fh_files ?h ! x = fh_files h ! x" if "x < length (fh_files h)" for x
    using that by (simp add: nth_append)
  have dats: "dats b ?h = dats b h" for b
    by (simp add: dats_def)
  have "ftask_ok ?h s" if "s \<in> set T" for s
    using inv(1) [OF that] kept dats by (cases s) (auto simp: owns_def)
  moreover have "Some x \<in> task_file ` set T" if "x < length (fh_files ?h)" "of_open (fh_files ?h ! x)" for x
    using inv(3) [of x] that assms(2) by (cases "x < length (fh_files h)") (simp_all add: nth_append)
  moreover have "stored T ?h b" if "acked env b ?h" for b
    using inv(5) [of b] that kept by (fastforce simp: acked_def stored_def)
  ultimately show ?thesis
    using assms(1) dats by (auto simp: file_inv_def out_ok_def)
qed

lemma close_other_inv: "file_inv env T h \<Longrightarrow> file_inv env T (case r of None \<Rightarrow> h | Some b \<Rightarrow> close_pending b h)"
  by (simp add: close_pending_inv split: option.split)

lemma ftask_ok_closed:
  assumes "ftask_ok h t"
  shows "ftask_ok (case r of None \<Rightarrow> h | Some b \<Rightarrow> close_pending b h) t"
  using assms harmless_task [OF close_pending_harmless] by (cases r) auto

lemma close_other_fields [simp]:
  "fh_tasks (case r of None \<Rightarrow> h | Some b \<Rightarrow> close_pending b h) = fh_tasks h"
  "length (fh_pendings (case r of None \<Rightarrow> h | Some b \<Rightarrow> close_pending b h)) = length (fh_pendings h)"
  by (simp_all split: option.split)

lemma start_inv: "file_inv env (t # fh_tasks h) h \<Longrightarrow> file_inv env (fh_tasks (start t h)) (start t h)"
  using inv_tasks [of env "t # fh_tasks h" h "fh_tasks h @ [t]"] by (simp add: start_def tasks_inv)

lemma sendFileError_tasks [simp]: "fh_tasks (sendFileError env ok w i msg h) = fh_tasks h"
  by (simp add: sendFileError_def)

lemma new_get_inv:
  assumes "file_inv env (fh_tasks h) h"
  defines "p \<equiv> \<lparr>fp_op = ''get'', fp_pipe = None, fp_closer = None, fp_closed = False, fp_got = []\<rparr>"
  shows "file_inv env (fh_tasks (start (TaskGet (length (fh_pendings h)) i path) (trackStream i p h)))
           (start (TaskGet (length (fh_pendings h)) i path) (trackStream i p h))"
proof -
  let ?a = "length (fh_pendings h)" and ?t = "TaskGet (length (fh_pendings h)) i path"
  let ?h = "h\<lparr>fh_pendings := fh_pendings h @ [p], fh_streams := (fh_streams h)(i \<mapsto> ?a)\<rparr>"
  have "dats ?a ?h = []"
    using dats_fresh [OF file_inv_parts(6) [OF assms(1)], of ?a] dats_out [of ?h h ?a] by simp
  then have "file_inv env (?t # fh_tasks h) ?h"
    using new_request_inv [OF assms(1), of ?t i p "[]"] by (simp add: p_def)
  from close_other_inv [OF this, of "fh_streams h i"] show ?thesis
    by (intro start_inv) (simp add: trackStream_def Let_def)
qed

lemma new_put_inv:
  fixes i ok x
  assumes "file_inv env (fh_tasks h) h"
  defines "p \<equiv> \<lparr>fp_op = ''put'', fp_pipe = Some \<lparr>pi_buf = [], pi_close = False, pi_err = False\<rparr>,
                 fp_closer = Some (length (fh_files h)), fp_closed = False, fp_got = []\<rparr>"
  defines "h1 \<equiv> h\<lparr>fh_files := fh_files h @ [\<lparr>of_data = [], of_open = True\<rparr>]\<rparr>"
  defines "a \<equiv> length (fh_pendings h)"
  defines "t \<equiv> TaskPut a i (length (fh_files h))"
  defines "h2 \<equiv> start t (fh_send ok (Some a) i FlagSYN x (trackStream i p h1))"
  shows "file_inv env (fh_tasks h2) h2"
proof -
  let ?h = "h1\<lparr>fh_pendings := fh_pendings h @ [p], fh_streams := (fh_streams h)(i \<mapsto> a)\<rparr>"
  have "dats a ?h = []"
    using dats_fresh [OF file_inv_parts(6) [OF assms(1)], of a] dats_out [of ?h h a] by (simp add: h1_def a_def)
  then have "file_inv env (t # fh_tasks h) ?h"
    using new_request_inv [OF assms(1), of t i p "[\<lparr>of_data = [], of_open = True\<rparr>]"]
    by (simp add: p_def h1_def t_def a_def owns_def)
  from close_other_inv [OF this, of "fh_streams h i"]
  have "file_inv env (t # fh_tasks h) (trackStream i p h1)" and "fh_tasks (trackStream i p h1) = fh_tasks h"
      "a < length (fh_pendings (trackStream i p h1))"
    by (simp_all add: trackStream_def Let_def h1_def a_def cong: option.case_cong)
  then show ?thesis
    unfolding h2_def by (intro start_inv) (auto intro!: send_inv)
qed

lemma OnSYN_inv:
  assumes "file_inv env (fh_tasks h) h" "clear_acks env"
  shows "file_inv env (fh_tasks (file_OnSYN env fs ok i payload final h)) (file_OnSYN env fs ok i payload final h)"
proof -
  obtain op decoded where op: "Unmarshal put_fileop zero_op (js_parse env payload) = (op, decoded)"
    by fastforce
  have err: "file_inv env (fh_tasks (sendFileError env ok None i msg h)) (sendFileError env ok None i msg h)" for msg
    using error_inv [OF assms, of None] by simp
  show ?thesis
  proof (cases "decoded \<and> (fo_op op = ''get'' \<or> fo_op op = ''list'' \<or> (fo_op op = ''put'' \<and> fs_openWrite fs (fo_path op) (fo_overwrite op) = None))")
    case False
    then show ?thesis
      using err op by (auto simp: file_OnSYN_def split: option.split)
  next
    case True
    then consider (get) "fo_op op = ''get''" | (lst) "fo_op op = ''list''"
      | (put) "fo_op op = ''put''" "fs_openWrite fs (fo_path op) (fo_overwrite op) = None"
      by (elim conjE disjE)
    then show ?thesis
    proof cases
      case get
      then show ?thesis
        using new_get_inv [OF assms(1), of i "fo_path op"] True op by (simp add: file_OnSYN_def Let_def)
    next
      case lst
      have "file_inv env (TaskList i (fo_path op) # fh_tasks h) h"
        using assms(1) unfolding file_inv_def stored_def by (auto simp: map_filter_simps)
      then show ?thesis
        using lst True op start_inv by (simp add: file_OnSYN_def)
    next
      case put
      show ?thesis
      proof (cases final)
        case False
        then show ?thesis
          using put True op new_put_inv [OF assms(1), where ok = "ok 0" and i = i and x = "js_print env ok_status"]
          by (simp add: file_OnSYN_def openFile_def Let_def)
      next
        case fin: True
        let ?h = "h\<lparr>fh_files := fh_files h @ [\<lparr>of_data = [], of_open = False\<rparr>]\<rparr>"
        have "close_file (length (fh_files h)) (h\<lparr>fh_files := fh_files h @ [\<lparr>of_data = [], of_open = True\<rparr>]\<rparr>) = ?h"
          by (simp add: close_file_def nth_append)
        then have "file_OnSYN env fs ok i payload final h =
            fh_send (ok 1) None i FlagFIN [] (fh_send (ok 0) None i FlagSYN (js_print env ok_status) ?h)"
          using put True op fin by (simp add: file_OnSYN_def openFile_def)
        moreover have "file_inv env (fh_tasks h) ?h"
          by (rule empty_file_inv [OF assms(1)]) simp
        ultimately show ?thesis
          by (simp add: send_inv)
      qed
    qed
  qed
qed

text \<open>
  What a callback may do to the pipe of an upload: add the bytes it was given while the pipe is open,
  refuse them when it was cancelled, and close it.
\<close>

lemma pipe_inv:
  assumes "file_inv env T h" "a < length (fh_pendings h)" "fp_op (pend h a) = ''put''" "fp_pipe (pend h a) = Some q"
    "pi_buf q' = pi_buf q @ s \<or> pi_err q'" "pi_err q' = pi_err q" "pi_close q \<Longrightarrow> pi_close q'" "s \<noteq> [] \<Longrightarrow> \<not> pi_close q"
  shows "file_inv env T (upd_pend a (\<lambda>p. p\<lparr>fp_pipe := Some q', fp_got := fp_got p @ s\<rparr>) h)"
    (is "file_inv env T ?h")
proof -
  note inv = file_inv_parts [OF assms(1)]
  have pend: "pend ?h b = (if b = a then (pend h a)\<lparr>fp_pipe := Some q', fp_got := fp_got (pend h a) @ s\<rparr> else pend h b)"
    if "b < length (fh_pendings h)" for b
    using that by (simp add: upd_pend_nth)
  have dats: "dats b ?h = dats b h" for b
    by (rule dats_out) simp
  have "ftask_ok ?h t" if "t \<in> set T" for t
    using inv(1) [OF that] pend dats assms(2-6) by (cases t) (auto simp: owns_def)
  moreover have "stored T ?h b" if "acked env b ?h" for b
  proof -
    have "stored T h b"
      using inv(5) [of b] that by (simp add: acked_def)
    moreover have "s = []" if "pi_close q"
      using assms(8) that by blast
    ultimately show ?thesis
      using pend assms(2-4,7) by (cases "b = a") (auto simp: stored_def)
  qed
  moreover have "prefix (dats b ?h) (fp_got (pend ?h b))" if "b < length (fh_pendings ?h)" for b
    using inv(4) [of b] that pend dats by (auto simp: prefix_prefix)
  ultimately show ?thesis
    using assms(1) by (simp add: file_inv_def out_ok_def)
qed

lemma streams_bound: "file_inv env T h \<Longrightarrow> fh_streams h i = Some a \<Longrightarrow> a < length (fh_pendings h)"
proof -
  assume inv: "file_inv env T h" and "fh_streams h i = Some a"
  then obtain t where "t \<in> set T" "task_addr t = Some a"
    using file_inv_parts(2) by metis
  moreover have "ftask_ok h t"
    by (rule file_inv_parts(1) [OF inv \<open>t \<in> set T\<close>])
  ultimately show ?thesis
    by (cases t rule: file_task.exhaust) simp_all
qed

lemma put_of_bound: "file_inv env T h \<Longrightarrow> put_of i h = Some a \<Longrightarrow> a < length (fh_pendings h) \<and> fp_op (pend h a) = ''put''"
  using streams_bound [of env T h i] by (auto simp: put_of_def split: option.splits if_splits)

text \<open>A payload that is recorded and then written; an empty one is not written.\<close>

lemma note_given_nil [simp]: "note_given i [] h = h"
proof -
  have "upd_pend a (\<lambda>q. q\<lparr>fp_got := fp_got q\<rparr>) h = h" for a
    by (simp add: upd_pend_def)
  then show ?thesis
    by (simp add: note_given_def split: option.split)
qed

lemma note_given_frame [simp]:
  "fh_streams (note_given i s h) = fh_streams h" "fh_tasks (note_given i s h) = fh_tasks h" "fh_out (note_given i s h) = fh_out h"
  "fh_files (note_given i s h) = fh_files h" "length (fh_pendings (note_given i s h)) = length (fh_pendings h)"
  by (simp_all add: note_given_def split: option.split)

lemma note_given_pend:
  "a < length (fh_pendings h) \<Longrightarrow> fp_op (pend (note_given i s h) a) = fp_op (pend h a)"
  "a < length (fh_pendings h) \<Longrightarrow> fp_pipe (pend (note_given i s h) a) = fp_pipe (pend h a)"
  by (auto simp: note_given_def upd_pend_nth put_of_def split: option.split)

lemma note_given_put_of:
  assumes "file_inv env T h"
  shows "put_of i (note_given i s h) = put_of i h"
  using streams_bound [OF assms, of i] note_given_pend(1) by (auto simp: put_of_def split: option.split)

lemma given_write_inv:
  assumes "file_inv env T h" "put_of i h = Some a"
  shows "file_inv env T (fst (pipe_write a s (note_given i s h)))"
proof -
  note a = put_of_bound [OF assms]
  show ?thesis
  proof (cases "fp_pipe (pend h a)")
    case None
    then show ?thesis
      using assms by (simp add: note_given_def pipe_write_def)
  next
    case (Some q)
    have nth: "pend (upd_pend a f h) a = f (pend h a)" for f
      using a by (simp add: upd_pend_nth)
    have twice: "upd_pend a g (upd_pend a f h) = upd_pend a (\<lambda>p. g (f p)) h" for f g
      using a by (simp add: upd_pend_def)
    consider (closed) "pi_close q" | (err) "\<not> pi_close q" "pi_err q" | (opened) "\<not> pi_close q" "\<not> pi_err q" by blast
    then show ?thesis
    proof cases
      case closed
      then show ?thesis
        using assms Some by (simp add: note_given_def pipe_write_def)
    next
      case err
      have "(pend h a)\<lparr>fp_pipe := Some q\<rparr> = pend h a"
        using Some by (cases "pend h a") simp
      then have "upd_pend a (\<lambda>p. p\<lparr>fp_pipe := Some q, fp_got := fp_got p @ s\<rparr>) h = upd_pend a (\<lambda>p. p\<lparr>fp_got := fp_got p @ s\<rparr>) h"
        by (simp add: upd_pend_def)
      then show ?thesis
        using pipe_inv [OF assms(1) a [THEN conjunct1] a [THEN conjunct2] Some, of q s] err assms(2) Some
        by (simp add: note_given_def pipe_write_def nth)
    next
      case opened
      have swap: "p\<lparr>fp_got := g, fp_pipe := y\<rparr> = p\<lparr>fp_pipe := y, fp_got := g\<rparr>" for p :: file_pending and g y
        by (cases p) simp
      show ?thesis
        using pipe_inv [OF assms(1) a [THEN conjunct1] a [THEN conjunct2] Some, of "q\<lparr>pi_buf := pi_buf q @ s\<rparr>" s] opened assms(2) Some
        by (simp add: note_given_def pipe_write_def nth twice swap)
    qed
  qed
qed

lemma pipe_close_inv:
  assumes "file_inv env T h" "a < length (fh_pendings h)" "fp_op (pend h a) = ''put''"
  shows "file_inv env T (pipe_close a h)"
proof (cases "fp_pipe (pend h a)")
  case None
  have same: "p\<lparr>fp_pipe := None\<rparr> = p" if "fp_pipe p = None" for p :: file_pending
    using that by (cases p) simp
  have "pipe_close a h = h"
    unfolding pipe_close_def upd_pend_def None option.map same [OF None] list_update_id by simp
  then show ?thesis
    using assms(1) by simp
next
  case (Some q)
  have "pipe_close a h = upd_pend a (\<lambda>p. p\<lparr>fp_pipe := Some (if pi_err q then q else q\<lparr>pi_close := True\<rparr>), fp_got := fp_got p @ []\<rparr>) h"
    using Some by (simp add: pipe_close_def upd_pend_def)
  then show ?thesis
    using pipe_inv [OF assms Some, of "if pi_err q then q else q\<lparr>pi_close := True\<rparr>" "[]"] by simp
qed

lemma pipe_write_fields [simp]:
  "fh_tasks (fst (pipe_write a s h)) = fh_tasks h" "length (fh_pendings (fst (pipe_write a s h))) = length (fh_pendings h)"
  "a < length (fh_pendings h) \<Longrightarrow> fp_op (pend (fst (pipe_write a s h)) a) = fp_op (pend h a)"
  by (simp_all add: pipe_write_def upd_pend_nth split: option.split)

lemma pipe_close_tasks [simp]: "fh_tasks (pipe_close a h) = fh_tasks h"
  by (simp add: pipe_close_def)

lemma OnDAT_inv:
  fixes i s
  assumes "file_inv env (fh_tasks h) h"
  defines "h1 \<equiv> note_given i s h"
  shows "file_inv env (fh_tasks (fst (file_OnDAT i s h1))) (fst (file_OnDAT i s h1))"
proof (cases "put_of i h")
  case None
  then show ?thesis
    using assms(1) by (simp add: h1_def file_OnDAT_def note_given_def)
next
  case (Some a)
  then have put: "put_of i h1 = Some a"
    using note_given_put_of [OF assms(1)] by (simp add: h1_def)
  show ?thesis
  proof (cases "s = []")
    case True
    then show ?thesis
      using assms(1) put by (simp add: h1_def file_OnDAT_def)
  next
    case False
    then show ?thesis
      using given_write_inv [OF assms(1) Some, of s] put by (simp add: h1_def file_OnDAT_def)
  qed
qed

lemma OnFIN_inv:
  fixes i s
  assumes "file_inv env (fh_tasks h) h"
  defines "h0 \<equiv> note_given i s h"
  shows "file_inv env (fh_tasks (fst (file_OnFIN i s h0))) (fst (file_OnFIN i s h0))"
proof (cases "put_of i h")
  case None
  then show ?thesis
    using assms(1) by (simp add: h0_def file_OnFIN_def note_given_def)
next
  case (Some a)
  note a = put_of_bound [OF assms(1) Some]
  have put: "put_of i h0 = Some a"
    using Some note_given_put_of [OF assms(1)] by (simp add: h0_def)
  obtain h1 e where h1: "(if s \<noteq> [] then pipe_write a s h0 else (h0, False)) = (h1, e)"
    by fastforce
  have "file_inv env (fh_tasks h) h1"
  proof (cases "s = []")
    case True
    then show ?thesis
      using h1 assms(1) by (simp add: h0_def)
  next
    case False
    then show ?thesis
      using h1 given_write_inv [OF assms(1) Some, of s] by (simp add: h0_def)
  qed
  moreover have "h1 = h0 \<or> h1 = fst (pipe_write a s h0)"
    using h1 by (metis fst_conv)
  then have "fh_tasks h1 = fh_tasks h" "a < length (fh_pendings h1)" "fp_op (pend h1 a) = ''put''"
    using a note_given_pend(1) [of a h i s] pipe_write_fields(3) [of a h0 s] by (auto simp: h0_def)
  ultimately show ?thesis
    using pipe_close_inv [of env "fh_tasks h" h1 a] h1 put by (cases e) (simp_all add: file_OnFIN_def)
qed

lemma OnReset_inv:
  assumes "file_inv env (fh_tasks h) h"
  shows "file_inv env (fh_tasks (file_OnReset i h)) (file_OnReset i h)"
  using assms drop_stream_inv [OF assms] by (simp add: file_OnReset_def close_pending_inv split: option.split)

lemma file_step_inv:
  assumes "file_inv env (fh_tasks h) h" "clear_acks env"
  shows "file_inv env (fh_tasks (file_step env fs ev h)) (file_step env fs ev h)"
  using assms by (cases ev) (simp_all add: OnSYN_inv OnDAT_inv OnFIN_inv OnReset_inv step_task_inv)

theorem file_reachable_inv:
  assumes "file_reachable env fs h" "clear_acks env"
  shows "file_inv env (fh_tasks h) h"
  using assms(1)
proof induction
  case start
  show ?case
    by (simp add: file_inv_def NewFile_def map_filter_simps acked_def out_ok_def)
next
  case (step h ev)
  then show ?case
    using file_step_inv assms(2) by blast
qed

end
