(* ===== verification/FileClient.thy ===== *)
theory FileClient
  imports FileStream
begin

text \<open>
  \<^verbatim>\<open>internal/client/fileops.go\<close>: the connector's side of a file stream. \<open>Get\<close> and \<open>Put\<close> read the inbox
  of their stream, a list of the frames delivered until it closes; the local reader and writer, and
  which frames can be sent, are arguments. The result carries the bytes written by \<open>Get\<close> and the frames
  sent by \<open>Put\<close>.
\<close>

section \<open>Status messages\<close>

record file_status =
  fs_status :: string
  fs_error :: string
  fs_size :: int

definition zero_status :: file_status where
  "zero_status = \<lparr>fs_status = [], fs_error = [], fs_size = 0\<rparr>"

text \<open>Only an error of the modification time and the type matters.\<close>

definition put_status :: "string \<Rightarrow> json \<Rightarrow> file_status \<Rightarrow> file_status option" where
  "put_status k v s =
     (if k = ''status'' then map_option (\<lambda>x. s\<lparr>fs_status := x\<rparr>) (as_string v (fs_status s))
      else if k = ''error'' then map_option (\<lambda>x. s\<lparr>fs_error := x\<rparr>) (as_string v (fs_error s))
      else if k = ''size'' then map_option (\<lambda>x. s\<lparr>fs_size := x\<rparr>) (as_int v (fs_size s))
      else if k = ''modified'' then map_option (\<lambda>x. s) (as_int v 0)
      else if k = ''mime'' then map_option (\<lambda>x. s) (as_string v [])
      else Some s)"

definition statusErr :: "file_status \<Rightarrow> string" where
  "statusErr s = (if fs_error s \<noteq> [] then fs_error s else if fs_status s \<noteq> [] then fs_status s else ''unknown error'')"

datatype file_client_error =
    SendFailed
  | ClosedEarly
  | NotSYN u16
  | BadResponse
  | ServerError string
  | WriteLocal
  | ReadLocal string
  | WithoutFIN

section \<open>The requests\<close>

definition get_request :: "string \<Rightarrow> json" where
  "get_request path = JObj [(''type'', JStr ''file''), (''op'', JStr ''get''), (''path'', JStr path)]"

definition put_request :: "string \<Rightarrow> bool \<Rightarrow> json" where
  "put_request path overwrite =
     JObj ([(''type'', JStr ''file''), (''op'', JStr ''put''), (''path'', JStr path)] @
       (if overwrite then [(''overwrite'', JBool True)] else []))"

section \<open>Get\<close>

text \<open>\<open>wok k\<close> tells whether the write after \<open>k\<close> bytes succeeds.\<close>

fun get_drain :: "go_env \<Rightarrow> (nat \<Rightarrow> bool) \<Rightarrow> frame list \<Rightarrow> byte list \<Rightarrow> byte list \<times> file_client_error option" where
  "get_drain env wok [] out = (out, Some WithoutFIN)"
| "get_drain env wok (f # fs) out =
     (if IsFIN f then
        (out,
         if Payload f \<noteq> [] then
           (case Unmarshal put_status zero_status (js_parse env (Payload f)) of
              (s, decoded) \<Rightarrow> if decoded \<and> fs_error s \<noteq> [] then Some (ServerError (fs_error s)) else None)
         else None)
      else if Payload f = [] then get_drain env wok fs out
      else if wok (length out) then get_drain env wok fs (out @ Payload f)
      else (out, Some WriteLocal))"

definition GetFile :: "go_env \<Rightarrow> bool \<Rightarrow> (nat \<Rightarrow> bool) \<Rightarrow> frame list \<Rightarrow> int \<times> byte list \<times> file_client_error option" where
  "GetFile env sent wok inbox =
     (if \<not> sent then (0, [], Some SendFailed)
      else
        case inbox of
          [] \<Rightarrow> (0, [], Some ClosedEarly)
        | f # fs \<Rightarrow>
            if \<not> IsSYN f then (0, [], Some (NotSYN (Flags f)))
            else
              case Unmarshal put_status zero_status (js_parse env (Payload f)) of
                (s, decoded) \<Rightarrow>
                  if \<not> decoded then (0, [], Some BadResponse)
                  else if fs_status s \<noteq> ''ok'' then (0, [], Some (ServerError (statusErr s)))
                  else if IsFIN f then (fs_size s, [], None)
                  else (fs_size s, get_drain env wok fs []))"

section \<open>Put\<close>

text \<open>What the local reader gives: the chunks it returns, and the error that ends them, if any.\<close>

fun put_pump :: "(nat \<Rightarrow> bool) \<Rightarrow> nat \<Rightarrow> byte list list \<Rightarrow> string option \<Rightarrow> (u16 \<times> byte list) list \<times> file_client_error option" where
  "put_pump ok k [] rerr = ([], map_option ReadLocal rerr)"
| "put_pump ok k (c # cs) rerr =
     (if c = [] then put_pump ok k cs rerr
      else if ok k then apfst ((#) (FlagDAT, c)) (put_pump ok (Suc k) cs rerr)
      else ([], Some SendFailed))"

fun put_wait :: "go_env \<Rightarrow> frame list \<Rightarrow> file_client_error option" where
  "put_wait env [] = Some WithoutFIN"
| "put_wait env (f # fs) =
     (if \<not> IsFIN f then put_wait env fs
      else if Payload f = [] then None
      else
        case Unmarshal put_status zero_status (js_parse env (Payload f)) of
          (s, decoded) \<Rightarrow>
            if \<not> decoded then Some BadResponse else if fs_status s = ''ok'' then None else Some (ServerError (statusErr s)))"

text \<open>\<open>ok k\<close> tells whether the \<open>k\<close>-th frame can be sent.\<close>

definition PutFile ::
  "go_env \<Rightarrow> (nat \<Rightarrow> bool) \<Rightarrow> string \<Rightarrow> bool \<Rightarrow> byte list list \<Rightarrow> string option \<Rightarrow> frame list \<Rightarrow>
     (u16 \<times> byte list) list \<times> file_client_error option" where
  "PutFile env ok path overwrite chunks rerr inbox =
     (if \<not> ok 0 then ([], Some SendFailed)
      else
        let syn = (FlagSYN, js_print env (put_request path overwrite)) in
        case inbox of
          [] \<Rightarrow> ([syn], Some ClosedEarly)
        | f # fs \<Rightarrow>
            if \<not> IsSYN f then ([syn], Some (NotSYN (Flags f)))
            else
              case Unmarshal put_status zero_status (js_parse env (Payload f)) of
                (s, decoded) \<Rightarrow>
                  if \<not> decoded then ([syn], Some BadResponse)
                  else if fs_status s \<noteq> ''ok'' then ([syn], Some (ServerError (statusErr s)))
                  else
                    case put_pump ok 1 chunks rerr of
                      (dats, Some e) \<Rightarrow> (syn # dats, Some e)
                    | (dats, None) \<Rightarrow>
                        if \<not> ok (Suc (length dats)) then (syn # dats, Some SendFailed)
                        else (syn # dats @ [(FlagFIN, [])], put_wait env fs))"

end
