(* ===== verification/FileStream_Props.thy ===== *)
theory FileStream_Props
  imports FileStream_Laws FileClient
begin

text \<open>
  The properties of file streams: what the two ends promise each other. A shape lemma says which
  frames a request can have sent; with the invariant of the handler it gives what a client that reads
  them may conclude.
\<close>

section \<open>The frames of a request\<close>

definition frames :: "nat \<Rightarrow> file_handler \<Rightarrow> file_frame list" where
  "frames a h = filter (\<lambda>f. fst f = Some a) (fh_out h)"

definition flags_of :: "file_frame \<Rightarrow> u16" where
  "flags_of f = fst (snd (snd f))"

definition payload_of :: "file_frame \<Rightarrow> byte list" where
  "payload_of f = snd (snd (snd f))"

text \<open>A frame of an upload: the acknowledgement of the request or its result.\<close>

definition put_reply :: "go_env \<Rightarrow> file_frame \<Rightarrow> bool" where
  "put_reply env f \<longleftrightarrow>
     (flags_of f = FlagSYN \<and> payload_of f = js_print env ok_status) \<or>
     (flags_of f = FlagFIN \<and>
        (payload_of f = js_print env ok_status \<or> (\<exists>m. payload_of f = js_print env (error_status m))))"

definition calm :: "go_env \<Rightarrow> string \<Rightarrow> file_frame list \<Rightarrow> bool" where
  "calm env op fs \<longleftrightarrow>
     (op = ''get'' \<longrightarrow> (\<forall>f \<in> set (tl fs). flags_of f = FlagDAT \<or> flags_of f = FlagFIN) \<and>
        (\<forall>f \<in> set fs. flags_of f \<in> {FlagSYN, FlagDAT, FlagFIN})) \<and>
     (op = ''put'' \<longrightarrow> (\<forall>f \<in> set fs. put_reply env f))"

fun early :: "file_task \<Rightarrow> bool" where
  "early (TaskGet a i path) = True"
| "early (TaskSetCloser a i x m) = True"
| "early (TaskMeta a i x m) = True"
| "early _ = False"

fun sending :: "file_task \<Rightarrow> bool" where
  "sending (TaskSend a i x) = True"
| "sending _ = False"

definition shape_task :: "file_handler \<Rightarrow> file_task \<Rightarrow> bool" where
  "shape_task h t \<longleftrightarrow>
     (\<forall>a. task_addr t = Some a \<longrightarrow> (early t \<longrightarrow> frames a h = []) \<and> (sending t \<longrightarrow> frames a h \<noteq> []))"

definition shape :: "go_env \<Rightarrow> file_task list \<Rightarrow> file_handler \<Rightarrow> bool" where
  "shape env T h \<longleftrightarrow>
     (\<forall>a < length (fh_pendings h). calm env (fp_op (pend h a)) (frames a h)) \<and> (\<forall>t \<in> set T. shape_task h t)"

text \<open>The requests keep their kind, and what is sent belongs to one of them, or to none.\<close>

definition sends :: "nat option \<Rightarrow> file_frame list \<Rightarrow> file_handler \<Rightarrow> file_handler \<Rightarrow> bool" where
  "sends w fr h h' \<longleftrightarrow>
     fh_out h' = fh_out h @ fr \<and> (\<forall>f \<in> set fr. fst f = w) \<and>
     length (fh_pendings h) \<le> length (fh_pendings h') \<and> (\<forall>a < length (fh_pendings h). fp_op (pend h' a) = fp_op (pend h a))"

lemma sends_frames:
  assumes "sends w fr h h'"
  shows "w = Some a \<Longrightarrow> frames a h' = frames a h @ filter (\<lambda>f. fst f = Some a) fr"
    and "w \<noteq> Some a \<Longrightarrow> frames a h' = frames a h"
  using assms by (auto simp: sends_def frames_def filter_empty_conv)

lemma sends_refl: "sends w [] h h"
  by (simp add: sends_def)

lemma sends_send: "sends w fr h h' \<Longrightarrow> sends w (if ok then fr @ [(w, i, fl, p)] else fr) h (fh_send ok w i fl p h')"
  by (auto simp: sends_def fh_send_def)

lemma sends_trans: "sends w fr h h' \<Longrightarrow> sends w fr' h' h'' \<Longrightarrow> sends w (fr @ fr') h h''"
  by (auto simp: sends_def)

lemma sends_pend:
  assumes "sends w fr h h'" "\<And>p. fp_op (f p) = fp_op p"
  shows "sends w fr h (upd_pend a f h')"
  using assms by (auto simp: sends_def upd_pend_nth)

lemma sends_files: "sends w fr h h' \<Longrightarrow> sends w fr h (upd_file x f h')" "sends w fr h h' \<Longrightarrow> sends w fr h (close_file x h')"
  "sends w fr h h' \<Longrightarrow> sends w fr h (h'\<lparr>fh_files := xs\<rparr>)" "sends w fr h h' \<Longrightarrow> sends w fr h (h'\<lparr>fh_streams := ss\<rparr>)"
  "sends w fr h h' \<Longrightarrow> sends w fr h (h'\<lparr>fh_tasks := ts\<rparr>)"
  by (auto simp: sends_def)

lemma sends_close: "sends w fr h h' \<Longrightarrow> sends w fr h (close_pending a h')"
  by (auto simp: close_pending_def Let_def intro!: sends_files(2) sends_pend split: option.split)

text \<open>What one turn of a goroutine sends.\<close>

definition turn_shape :: "go_env \<Rightarrow> file_task \<Rightarrow> file_task option \<Rightarrow> file_frame list \<Rightarrow> bool" where
  "turn_shape env t r fr \<longleftrightarrow>
     (case t of
        TaskSend a i x \<Rightarrow> (\<forall>f \<in> set fr. flags_of f = FlagDAT \<or> flags_of f = FlagFIN)
      | TaskPut a i x \<Rightarrow> \<forall>f \<in> set fr. put_reply env f
      | TaskDefer a i xo \<Rightarrow> fr = []
      | TaskList i path \<Rightarrow> True
      | _ \<Rightarrow> calm env ''get'' fr) \<and>
     (\<forall>t'. r = Some t' \<longrightarrow> task_addr t' = task_addr t \<and> (early t' \<longrightarrow> early t \<and> fr = []) \<and> (sending t' \<longrightarrow> sending t \<or> (early t \<and> fr \<noteq> [])))"

lemma frame_parts [simp]: "flags_of (w, i, fl, p) = fl" "payload_of (w, i, fl, p) = p"
  by (simp_all add: flags_of_def payload_of_def)

lemma run_shape:
  assumes "run_task env fs c t h = (r, h')"
  shows "\<exists>fr. sends (task_addr t) fr h h' \<and> turn_shape env t r fr"
proof (cases t)
  case (TaskGet a i path)
  show ?thesis
  proof (cases "fs_openRead fs path")
    case (Inl e)
    then have r: "r = Some (TaskDefer a i None)"
      and h': "h' = fh_send (fc_ok c 1) (Some a) i FlagFIN []
         (fh_send (fc_ok c 0) (Some a) i FlagSYN (js_print env (error_status (fileErrMessage e path))) h)"
      using assms TaskGet by (simp_all add: run_get_def sendFileError_def)
    show ?thesis
      unfolding h' TaskGet task_addr.simps
      using sends_send [OF sends_send [OF sends_refl [of "Some a" h], of "fc_ok c 0" i FlagSYN
            "js_print env (error_status (fileErrMessage e path))"], of "fc_ok c 1" i FlagFIN "[]"]
      by - (rule exI, rule conjI, assumption, auto simp: r turn_shape_def calm_def)
  next
    case (Inr md)
    then have "fh_out h' = fh_out h" "sends (Some a) [] h h'" "\<exists>x m. r = Some (TaskSetCloser a i x m)"
      using assms TaskGet
      by (auto simp: run_get_def openFile_def intro!: sends_files(3) sends_pend sends_refl split: prod.splits)
    then show ?thesis
      by (auto simp: TaskGet turn_shape_def calm_def)
  qed
next
  case (TaskSetCloser a i x m)
  then have "sends (Some a) [] h h'" "r = Some (TaskDefer a i (Some x)) \<or> r = Some (TaskMeta a i x m)"
    using assms by (auto simp: setCloser_def intro!: sends_files(2) sends_pend sends_refl split: if_splits)
  then show ?thesis
    by (auto simp: TaskSetCloser turn_shape_def calm_def)
next
  case (TaskMeta a i x m)
  show ?thesis
  proof (cases "fc_ok c 0")
    case True
    then show ?thesis
      using assms TaskMeta sends_send [OF sends_refl [of "Some a" h], of True i FlagSYN "js_print env (meta_json m)"]
      by (auto simp: turn_shape_def calm_def)
  next
    case False
    then show ?thesis
      using assms TaskMeta sends_refl [of "Some a" h] by (auto simp: turn_shape_def calm_def)
  qed
next
  case (TaskSend a i x)
  define f where "f = fh_files h ! x"
  define n where "n = (if of_open f then min (fc_n c) (min MaxChunkSize (length (of_data f))) else 0)"
  define fr where "fr = (if n > 0 then [(Some a, i, FlagDAT, take n (of_data f))] else [])"
  define h1 where "h1 = (if n > 0 then fh_send True (Some a) i FlagDAT (take n (of_data f)) (upd_file x (drop n) h) else h)"
  have h1: "sends (Some a) fr h h1"
    using sends_send [OF sends_files(1) [OF sends_refl [of "Some a" h]], of True i FlagDAT "take n (of_data f)" x "drop n"]
    by (simp add: h1_def fr_def sends_refl)
  have fin: "sends (Some a) (if ok then fr @ [(Some a, i, FlagFIN, [])] else fr) h (fh_send ok (Some a) i FlagFIN [] h1)" for ok
    by (rule sends_send [OF h1])
  have "apfst Some (send_turn c a i x h) = (r, h')"
    using assms TaskSend by simp
  then have "(r, h') \<in> {(Some (TaskDefer a i (Some x)), h), (Some (TaskSend a i x), h1),
      (Some (TaskDefer a i (Some x)), fh_send (fc_ok c 1) (Some a) i FlagFIN [] h1)}"
    unfolding send_turn_def Let_def f_def [symmetric] n_def [symmetric] h1_def [symmetric]
    by (auto split: if_splits)
  then show ?thesis
  proof (elim insertE emptyE)
    assume "(r, h') = (Some (TaskDefer a i (Some x)), h)"
    then show ?thesis
      using sends_refl [of "Some a" h] by (auto simp: TaskSend turn_shape_def)
  next
    assume "(r, h') = (Some (TaskSend a i x), h1)"
    then show ?thesis
      using h1 by (auto simp: TaskSend turn_shape_def fr_def)
  next
    assume "(r, h') = (Some (TaskDefer a i (Some x)), fh_send (fc_ok c 1) (Some a) i FlagFIN [] h1)"
    then show ?thesis
      using fin [of "fc_ok c 1"]
      by (intro exI [of _ "if fc_ok c 1 then fr @ [(Some a, i, FlagFIN, [])] else fr"]) (auto simp: TaskSend turn_shape_def fr_def)
  qed
next
  case (TaskPut a i x)
  have quiet: "?thesis" if "sends (Some a) [] h h'" "r = Some (TaskPut a i x)"
    using that by (auto simp: TaskPut turn_shape_def)
  have reply: "?thesis" if "sends (Some a) [] h h1" "h' = fh_send ok (Some a) i FlagFIN p h1" "r = Some (TaskDefer a i (Some x))"
      "p = js_print env ok_status \<or> (\<exists>m. p = js_print env (error_status m))" for h1 ok p
    using sends_send [OF that(1), of ok i FlagFIN p] that(2-)
    by (intro exI [of _ "if ok then [(Some a, i, FlagFIN, p)] else []"]) (auto simp: TaskPut turn_shape_def put_reply_def)
  show ?thesis
  proof (cases "fp_pipe (pend h a)")
    case None
    then show ?thesis
      using assms TaskPut quiet by (simp add: put_turn_def sends_refl)
  next
    case (Some p)
    define n where "n = min (max 1 (fc_n c)) (min MaxChunkSize (length (pi_buf p)))"
    define h1 where "h1 = upd_pend a (\<lambda>q. q\<lparr>fp_pipe := Some (p\<lparr>pi_buf := drop n (pi_buf p)\<rparr>)\<rparr>) h"
    have h1: "sends (Some a) [] h h1" "sends (Some a) [] h (upd_file x g h1)" for g
      unfolding h1_def by (intro sends_files(1) sends_pend sends_refl; simp)+
    have turn: "apfst Some (put_turn env c a i x h) = (r, h')"
      using assms TaskPut by simp
    have failed: "?thesis" if "sends (Some a) [] h h2" "put_turn env c a i x h = put_failed env c e a i x h2" for e h2
      by (rule reply [OF that(1), of "fc_ok c 0" "js_print env (error_status (''write failed: '' @ e))"])
        (use turn that(2) in \<open>auto simp: put_failed_def\<close>)
    note unfold_turn = put_turn_def Some option.case Let_def h1_def n_def
    consider "pi_err p" | "\<not> pi_err p" "pi_buf p \<noteq> []" "\<not> of_open (fh_files h ! x)"
      | "\<not> pi_err p" "pi_buf p \<noteq> []" "of_open (fh_files h ! x)" "fc_fault c"
      | "\<not> pi_err p" "pi_buf p \<noteq> []" "of_open (fh_files h ! x)" "\<not> fc_fault c"
      | "\<not> pi_err p" "pi_buf p = []" "pi_close p" | "\<not> pi_err p" "pi_buf p = []" "\<not> pi_close p" by blast
    then show ?thesis
    proof cases
      case 1
      then show ?thesis
        by (intro failed [OF sends_refl]) (simp add: unfold_turn)
    next
      case 2
      then show ?thesis
        by (intro failed [OF h1(1)]) (simp add: unfold_turn)
    next
      case 3
      then show ?thesis
        by (intro failed [OF h1(2)]) (simp add: unfold_turn)
    next
      case 4
      then show ?thesis
        using turn quiet h1(2) by (auto simp: unfold_turn)
    next
      case 5
      then show ?thesis
        using turn by (intro reply [OF sends_refl, of "fc_ok c 0" "js_print env ok_status"]) (auto simp: unfold_turn)
    next
      case 6
      then show ?thesis
        using turn quiet sends_refl [of "Some a" h] by (auto simp: unfold_turn)
    qed
  qed
next
  case (TaskList i path)
  have "\<exists>fr. sends None fr h (sendFileError env ok None i m h)" for ok m
    unfolding sendFileError_def by (rule exI, rule sends_send, rule sends_send, rule sends_refl)
  moreover have "\<exists>fr. sends None fr h (fh_send ok None i FlagFIN [] (fh_send ok' None i FlagDAT b (fh_send ok'' None i FlagSYN p h)))"
    for ok ok' ok'' b p
    by (rule exI, rule sends_send, rule sends_send, rule sends_send, rule sends_refl)
  moreover have "\<exists>fr. sends None fr h h"
    by (rule exI, rule sends_refl)
  ultimately have "\<exists>fr. sends None fr h h'" "r = None"
    using assms by (auto simp: TaskList handleList_def Let_def split: sum.splits if_splits)
  then show ?thesis
    by (simp add: TaskList turn_shape_def)
next
  case (TaskDefer a i xo)
  then have "sends (Some a) [] h h'" "r = None"
    using assms by (auto simp: finishStream_def Let_def intro!: sends_close sends_files(4) sends_refl)
  then show ?thesis
    by (auto simp: TaskDefer turn_shape_def)
qed

section \<open>The shape is kept\<close>

lemma shape_mset: "shape env T h \<Longrightarrow> mset T = mset T' \<Longrightarrow> shape env T' h"
  unfolding shape_def by (metis set_mset_mset)

lemma shape_quiet:
  assumes "shape env T h" "sends None fr h h'" "length (fh_pendings h') = length (fh_pendings h)"
  shows "shape env T h'"
  using assms sends_frames(2) [OF assms(2)] by (auto simp: shape_def shape_task_def sends_def)

lemma shape_tasks: "shape env T h \<Longrightarrow> shape env T (h\<lparr>fh_tasks := ts\<rparr>)"
  by (rule shape_quiet [OF _ sends_files(5) [OF sends_refl]]) simp_all

lemma shape_run:
  assumes "file_inv env (t # T) h" "shape env (t # T) h" "run_task env fs c t h = (r, h')"
    "length (fh_pendings h') = length (fh_pendings h)"
  shows "shape env (resume r T) h'"
proof -
  obtain fr where fr: "sends (task_addr t) fr h h'" "turn_shape env t r fr"
    using run_shape [OF assms(3)] by blast
  have ok: "ftask_ok h t"
    by (rule file_inv_parts(1) [OF assms(1)]) simp
  have st: "shape_task h t"
    using assms(2) by (simp add: shape_def)
  have "calm env (fp_op (pend h' a)) (frames a h')" if "a < length (fh_pendings h')" for a
  proof -
    have a: "a < length (fh_pendings h)" "fp_op (pend h' a) = fp_op (pend h a)"
      using that assms(4) fr(1) by (auto simp: sends_def)
    have old: "calm env (fp_op (pend h a)) (frames a h)"
      using assms(2) a by (simp add: shape_def)
    show ?thesis
    proof (cases "task_addr t = Some a")
      case False
      then show ?thesis
        using old a sends_frames(2) [OF fr(1)] by simp
    next
      case True
      have "filter (\<lambda>f. fst f = Some a) fr = fr"
        using fr(1) True by (simp add: sends_def)
      then have new: "frames a h' = frames a h @ fr"
        using sends_frames(1) [OF fr(1) True] by simp
      have "calm env (fp_op (pend h a)) (frames a h @ fr)"
      proof (cases t)
        case (TaskSend a' i x)
        then have "fp_op (pend h a) = ''get''" "frames a h \<noteq> []"
          using ok st True by (auto simp: shape_task_def)
        then show ?thesis
          using old fr(2) TaskSend by (auto simp: calm_def turn_shape_def)
      next
        case (TaskPut a' i x)
        then have "fp_op (pend h a) = ''put''"
          using ok True by simp
        then show ?thesis
          using old fr(2) TaskPut by (auto simp: calm_def turn_shape_def)
      next
        case (TaskDefer a' i xo)
        then show ?thesis
          using old fr(2) by (simp add: turn_shape_def)
      qed (use ok st fr(2) True in \<open>auto simp: shape_task_def turn_shape_def\<close>)
      then show ?thesis
        using new a(2) by simp
    qed
  qed
  moreover have "shape_task h' s" if "s \<in> set T" for s
  proof -
    have "task_addr s \<noteq> task_addr t \<or> task_addr s = None"
      using others_disjoint(1) [OF assms(1) that] by (cases "task_addr t") auto
    then have "frames a h' = frames a h" if "task_addr s = Some a" for a
      using that sends_frames(2) [OF fr(1), of a] by auto
    then show ?thesis
      using assms(2) \<open>s \<in> set T\<close> by (simp add: shape_def shape_task_def)
  qed
  moreover have "shape_task h' t'" if "r = Some t'" for t'
  proof -
    have t': "task_addr t' = task_addr t" "early t' \<Longrightarrow> early t \<and> fr = []" "sending t' \<Longrightarrow> sending t \<or> (early t \<and> fr \<noteq> [])"
      using fr(2) that by (auto simp: turn_shape_def)
    have "frames a h' = frames a h @ fr" if "task_addr t' = Some a" for a
      using that t'(1) sends_frames(1) [OF fr(1), of a] fr(1) by (simp add: sends_def)
    then show ?thesis
      using st t' by (auto simp: shape_task_def)
  qed
  ultimately show ?thesis
    by (auto simp: shape_def resume_def split: option.split)
qed

lemma run_pendings: "length (fh_pendings (snd (run_task env fs c t h))) = length (fh_pendings h)"
  by (cases t) (auto simp: run_get_def openFile_def setCloser_def send_turn_def put_turn_def put_failed_def Let_def handleList_def
      sendFileError_def finishStream_def split: sum.split prod.split option.split)

lemma step_task_shape:
  assumes "file_inv env (fh_tasks h) h" "shape env (fh_tasks h) h"
  shows "shape env (fh_tasks (step_task env fs c k h)) (step_task env fs c k h)"
proof (cases "k < length (fh_tasks h)")
  case True
  let ?T = "fh_tasks h" and ?R = "take k (fh_tasks h) @ drop (Suc k) (fh_tasks h)"
  obtain r h1 where run: "run_task env fs c (?T ! k) h = (r, h1)"
    by (cases "run_task env fs c (?T ! k) h")
  have "shape env (resume r ?R) h1"
    by (rule shape_run [OF inv_tasks [OF assms(1) mset_nth_out [OF True]] shape_mset [OF assms(2) mset_nth_out [OF True]] run])
      (use run_pendings [of env fs c "?T ! k" h] run in simp)
  then have *: "shape env (resume r ?R) (h1\<lparr>fh_tasks := ts\<rparr>)" for ts
    by (rule shape_tasks)
  show ?thesis
  proof (cases r)
    case None
    then show ?thesis
      using True run * by (simp add: step_task_def resume_def)
  next
    case (Some t)
    then have step: "step_task env fs c k h = h1\<lparr>fh_tasks := ?T[k := t]\<rparr>"
      using True run by (simp add: step_task_def)
    have "mset (t # ?R) = mset (?T[k := t])"
      using mset_nth_out [of k "?T[k := t]"] True by simp
    then show ?thesis
      using shape_mset [OF *] Some step by (simp add: resume_def)
  qed
qed (simp add: step_task_def assms(2))

lemma shape_new:
  assumes "shape env T h" "out_ok h" "sends (Some (length (fh_pendings h))) fr h h'"
    "length (fh_pendings h') = Suc (length (fh_pendings h))" "calm env (fp_op (pend h' (length (fh_pendings h)))) fr"
    "\<forall>s \<in> set T. \<forall>a. task_addr s = Some a \<longrightarrow> a < length (fh_pendings h)"
    "task_addr t = Some (length (fh_pendings h))" "early t \<Longrightarrow> fr = []" "\<not> sending t"
  shows "shape env (t # T) h'"
proof -
  let ?a = "length (fh_pendings h)"
  have "frames ?a h = []"
    using assms(2) by (auto simp: out_ok_def frames_def filter_empty_conv)
  moreover have "filter (\<lambda>f. fst f = Some ?a) fr = fr"
    using assms(3) by (simp add: sends_def)
  ultimately have new: "frames ?a h' = fr"
    using sends_frames(1) [OF assms(3)] by simp
  have old: "frames b h' = frames b h" if "b < ?a" for b
    using sends_frames(2) [OF assms(3), of b] that by simp
  have "calm env (fp_op (pend h' b)) (frames b h')" if "b < length (fh_pendings h')" for b
    using that assms(1,3-5) new old by (cases "b = ?a") (auto simp: shape_def sends_def less_Suc_eq)
  moreover have "shape_task h' s" if "s \<in> set T" for s
    using that assms(1,6) old by (auto simp: shape_def shape_task_def)
  moreover have "shape_task h' t"
    using assms(7-9) new by (auto simp: shape_task_def)
  ultimately show ?thesis
    by (simp add: shape_def)
qed

lemma task_addr_bound: "file_inv env T h \<Longrightarrow> s \<in> set T \<Longrightarrow> task_addr s = Some a \<Longrightarrow> a < length (fh_pendings h)"
  by (drule (1) file_inv_parts(1), cases s) auto

lemma shape_start: "shape env (t # fh_tasks h) h \<Longrightarrow> shape env (fh_tasks (start t h)) (start t h)"
  using shape_mset [of env "t # fh_tasks h" h "fh_tasks h @ [t]"] by (simp add: start_def shape_tasks)

lemma sends_other:
  "sends w fr h h1 \<Longrightarrow> sends w fr h (case r of None \<Rightarrow> h1 | Some b \<Rightarrow> close_pending b h1)"
  by (simp add: sends_close split: option.split)

lemma trackStream_sends: "sends w [] h (trackStream i p h)"
  unfolding trackStream_def Let_def by (rule sends_other) (auto simp: sends_def nth_append)

lemma trackStream_new:
  "length (fh_pendings (trackStream i p h)) = Suc (length (fh_pendings h))"
  "fp_op (pend (trackStream i p h) (length (fh_pendings h))) = fp_op p" "fh_tasks (trackStream i p h) = fh_tasks h"
proof -
  let ?h = "h\<lparr>fh_pendings := fh_pendings h @ [p], fh_streams := (fh_streams h)(i \<mapsto> length (fh_pendings h))\<rparr>"
  have "sends None [] ?h (trackStream i p h)"
    unfolding trackStream_def Let_def by (rule sends_other) (rule sends_refl)
  moreover show len: "length (fh_pendings (trackStream i p h)) = Suc (length (fh_pendings h))"
    by (simp add: trackStream_def Let_def split: option.split)
  ultimately show "fp_op (pend (trackStream i p h) (length (fh_pendings h))) = fp_op p"
    by (simp add: sends_def nth_append)
  show "fh_tasks (trackStream i p h) = fh_tasks h"
    by (simp add: trackStream_def Let_def split: option.split)
qed

lemma error_quiet: "shape env T h \<Longrightarrow> shape env T (sendFileError env ok None i m h)"
proof -
  assume "shape env T h"
  moreover have "\<exists>fr. sends None fr h (sendFileError env ok None i m h)"
    unfolding sendFileError_def by (rule exI, rule sends_send, rule sends_send, rule sends_refl)
  ultimately show ?thesis
    using shape_quiet by (fastforce simp: sendFileError_def)
qed

lemma OnSYN_shape:
  assumes "file_inv env (fh_tasks h) h" "shape env (fh_tasks h) h"
  shows "shape env (fh_tasks (file_OnSYN env fs ok i payload final h)) (file_OnSYN env fs ok i payload final h)"
proof -
  let ?a = "length (fh_pendings h)"
  obtain op decoded where op: "Unmarshal put_fileop zero_op (js_parse env payload) = (op, decoded)"
    by fastforce
  have old: "\<forall>s \<in> set (fh_tasks h). \<forall>a. task_addr s = Some a \<longrightarrow> a < ?a"
    using task_addr_bound [OF assms(1)] by blast
  note new = shape_new [OF assms(2) file_inv_parts(6) [OF assms(1)] _ _ _ old]
  have err: "shape env (fh_tasks (sendFileError env ok None i m h)) (sendFileError env ok None i m h)" for m
    using error_quiet [OF assms(2)] by simp
  show ?thesis
  proof (cases "decoded \<and> (fo_op op = ''get'' \<or> fo_op op = ''list'' \<or> (fo_op op = ''put'' \<and> fs_openWrite fs (fo_path op) (fo_overwrite op) = None))")
    case False
    then show ?thesis
      using err op by (auto simp: file_OnSYN_def split: option.split)
  next
    case True
    then consider (get) "fo_op op = ''get''" | (lst) "fo_op op = ''list''"
      | (put) "fo_op op = ''put''" "fs_openWrite fs (fo_path op) (fo_overwrite op) = None"
      by (elim conjE disjE)
    then show ?thesis
    proof cases
      case get
      let ?p = "\<lparr>fp_op = ''get'', fp_pipe = None, fp_closer = None, fp_closed = False, fp_got = []\<rparr>"
      have "shape env (TaskGet ?a i (fo_path op) # fh_tasks h) (trackStream i ?p h)"
        by (rule new [OF trackStream_sends]) (simp_all add: trackStream_new calm_def)
      then show ?thesis
        using get True op shape_start [of env "TaskGet ?a i (fo_path op)" "trackStream i ?p h"]
        by (simp add: file_OnSYN_def Let_def trackStream_new)
    next
      case lst
      have "shape env (TaskList i (fo_path op) # fh_tasks h) h"
        using assms(2) by (simp add: shape_def shape_task_def)
      then show ?thesis
        using lst True op shape_start by (simp add: file_OnSYN_def)
    next
      case put
      let ?h = "h\<lparr>fh_files := fh_files h @ [\<lparr>of_data = [], of_open = True\<rparr>]\<rparr>"
      show ?thesis
      proof (cases final)
        case False
        let ?p = "\<lparr>fp_op = ''put'', fp_pipe = Some \<lparr>pi_buf = [], pi_close = False, pi_err = False\<rparr>,
                   fp_closer = Some (length (fh_files h)), fp_closed = False, fp_got = []\<rparr>"
        let ?t = "TaskPut ?a i (length (fh_files h))" and ?h2 = "fh_send (ok 0) (Some ?a) i FlagSYN (js_print env ok_status) (trackStream i ?p ?h)"
        have "sends (Some ?a) [] h (trackStream i ?p ?h)"
          using sends_trans [OF sends_files(3) [OF sends_refl] trackStream_sends, of "Some ?a" h] by simp
        from sends_send [OF this] have "shape env (?t # fh_tasks h) ?h2"
          by (rule new) (use trackStream_new [of i ?p ?h] in \<open>simp_all add: calm_def put_reply_def\<close>)
        then show ?thesis
          using put True op False shape_start [of env ?t ?h2]
          by (simp add: file_OnSYN_def openFile_def Let_def trackStream_new)
      next
        case fin: True
        have "\<exists>fr. sends None fr h (fh_send (ok 1) None i FlagFIN []
            (fh_send (ok 0) None i FlagSYN (js_print env ok_status) (close_file (length (fh_files h)) ?h)))"
          by (rule exI, rule sends_send, rule sends_send, rule sends_files(2), rule sends_files(3), rule sends_refl)
        then show ?thesis
          using put True op fin shape_quiet [OF assms(2)] by (auto simp: file_OnSYN_def openFile_def)
      qed
    qed
  qed
qed

lemma quiet_callback:
  assumes "shape env (fh_tasks h) h" "sends None [] h h'" "length (fh_pendings h') = length (fh_pendings h)" "fh_tasks h' = fh_tasks h"
  shows "shape env (fh_tasks h') h'"
  using shape_quiet [OF assms(1-3)] assms(4) by simp

lemma pipe_write_sends: "sends None [] h (fst (pipe_write a s h))"
  by (auto simp: pipe_write_def intro!: sends_pend sends_refl split: option.split)

lemma pipe_close_sends: "sends None [] h (pipe_close a h)"
  unfolding pipe_close_def by (intro sends_pend sends_refl) simp

lemma note_given_sends: "sends None [] h (note_given i s h)"
  by (auto simp: note_given_def intro!: sends_pend sends_refl split: option.split)

lemma OnFIN_sends: "sends None [] h (fst (file_OnFIN i s h)) \<and> length (fh_pendings (fst (file_OnFIN i s h))) = length (fh_pendings h) \<and>
   fh_tasks (fst (file_OnFIN i s h)) = fh_tasks h"
proof (cases "put_of i h")
  case (Some a)
  obtain h1 e where h1: "(if s \<noteq> [] then pipe_write a s h else (h, False)) = (h1, e)"
    by fastforce
  then have "h1 = h \<or> h1 = fst (pipe_write a s h)"
    by (metis fst_conv)
  then have "sends None [] h h1" "length (fh_pendings h1) = length (fh_pendings h)" "fh_tasks h1 = fh_tasks h"
    using pipe_write_sends [of h a s] sends_refl [of None h] by auto
  then show ?thesis
    using Some h1 sends_trans [OF \<open>sends None [] h h1\<close> pipe_close_sends [of h1 a]]
    by (cases e) (auto simp: file_OnFIN_def pipe_close_def)
qed (simp add: file_OnFIN_def sends_refl)

lemma file_step_shape:
  assumes "file_inv env (fh_tasks h) h" "shape env (fh_tasks h) h"
  shows "shape env (fh_tasks (file_step env fs ev h)) (file_step env fs ev h)"
proof (cases ev)
  case (FileSYN i payload final ok)
  then show ?thesis
    using OnSYN_shape [OF assms] by simp
next
  case (FileDAT i payload)
  then show ?thesis
    using assms(2) quiet_callback [OF assms(2) note_given_sends]
      quiet_callback [OF assms(2) sends_trans [OF note_given_sends pipe_write_sends, simplified]]
    by (auto simp: file_OnDAT_def split: option.split)
next
  case (FileFIN i payload)
  then show ?thesis
    using quiet_callback [OF assms(2) sends_trans [OF note_given_sends [of h i payload] OnFIN_sends [THEN conjunct1], simplified]]
      OnFIN_sends [of "note_given i payload h"] by simp
next
  case (FileReset i)
  have "sends None [] h (close_pending a (h\<lparr>fh_streams := (fh_streams h)(i := None)\<rparr>))" for a
    by (intro sends_close sends_files(4) sends_refl)
  then show ?thesis
    using FileReset assms(2) quiet_callback [OF assms(2)] by (auto simp: file_OnReset_def split: option.split)
next
  case (FileTask k c)
  then show ?thesis
    using step_task_shape [OF assms] by simp
qed

lemma file_reachable_shape:
  assumes "file_reachable env fs h" "clear_acks env"
  shows "shape env (fh_tasks h) h"
  using assms(1)
proof induction
  case start
  show ?case
    by (simp add: shape_def NewFile_def)
next
  case (step h ev)
  then show ?case
    using file_step_shape file_reachable_inv [OF _ assms(2)] by blast
qed

section \<open>What a client may conclude\<close>

definition client_frames :: "nat \<Rightarrow> file_handler \<Rightarrow> frame list" where
  "client_frames a h = map (\<lambda>(w, i, fl, p). \<lparr>StreamID = i, Flags = fl, Payload = p\<rparr>) (frames a h)"

text \<open>
  The acknowledgement of an upload can be read back, an error is read back as an error, though its text
  may have been replaced (\<^verbatim>\<open>encoding/json\<close> does so with bytes that are no UTF-8), and nothing is not
  a message.
\<close>

definition clear_statuses :: "go_env \<Rightarrow> bool" where
  "clear_statuses env \<longleftrightarrow> js_parse env [] = None \<and> readable env ok_status \<and>
     (\<forall>m. \<exists>m'. js_parse env (js_print env (error_status m)) = Some (error_status m'))"

lemma status_names [simp]: "ToLower ''status'' = ''status''" "ToLower ''error'' = ''error''" "ToLower ''size'' = ''size''"
  "ToLower ''modified'' = ''modified''" "ToLower ''mime'' = ''mime''"
  by code_simp+

lemma clear_statuses_acks: "clear_statuses env \<Longrightarrow> clear_acks env"
proof -
  assume env: "clear_statuses env"
  have differ: "error_status m \<noteq> ok_status" for m
    by (simp add: error_status_def ok_status_def)
  have "js_print env (error_status m) \<noteq> js_print env ok_status" for m
  proof -
    obtain m' where "js_parse env (js_print env (error_status m)) = Some (error_status m')"
      using env unfolding clear_statuses_def by blast
    then show ?thesis
      using env differ [of m'] unfolding clear_statuses_def readable_def by auto
  qed
  then show ?thesis
    using env unfolding clear_statuses_def clear_acks_def readable_def by (metis option.distinct(1))
qed

lemma status_of_ok: "readable env ok_status \<Longrightarrow> Unmarshal put_status zero_status (js_parse env (js_print env ok_status)) =
    (\<lparr>fs_status = ''ok'', fs_error = [], fs_size = 0\<rparr>, True)"
  by (simp add: readable_def ok_status_def Unmarshal_def put_status_def as_string_def zero_status_def)

lemma status_of_error: "js_parse env (js_print env (error_status m)) = Some (error_status m') \<Longrightarrow>
    Unmarshal put_status zero_status (js_parse env (js_print env (error_status m))) =
    (\<lparr>fs_status = ''error'', fs_error = m', fs_size = 0\<rparr>, True)"
  by (simp add: error_status_def Unmarshal_def put_status_def as_string_def zero_status_def)

lemma put_wait_success:
  "put_wait env fs = None \<Longrightarrow> \<exists>f \<in> set fs. IsFIN f \<and>
     (Payload f = [] \<or> fs_status (fst (Unmarshal put_status zero_status (js_parse env (Payload f)))) = ''ok'')"
  by (induction fs) (auto split: if_splits prod.splits)

lemma PutFile_success: "snd (PutFile env ok path overwrite chunks rerr inbox) = None \<Longrightarrow> \<exists>f fs. inbox = f # fs \<and> put_wait env fs = None"
  by (auto simp: PutFile_def Let_def split: if_splits list.splits prod.splits option.splits)

lemma IsFIN_flags [simp]: "\<not> IsFIN \<lparr>StreamID = i, Flags = FlagSYN, Payload = p\<rparr>" "\<not> IsFIN \<lparr>StreamID = i, Flags = FlagDAT, Payload = p\<rparr>"
  "IsFIN \<lparr>StreamID = i, Flags = FlagFIN, Payload = p\<rparr>"
  by (simp_all add: IsFIN_def FlagSYN_def FlagDAT_def FlagFIN_def)

lemma IsSYN_flag: "IsSYN \<lparr>StreamID = i, Flags = FlagSYN, Payload = p\<rparr>"
  by (simp add: IsSYN_def FlagSYN_def)

lemma reachable_calm:
  "file_reachable env fs h \<Longrightarrow> clear_acks env \<Longrightarrow> a < length (fh_pendings h) \<Longrightarrow> calm env (fp_op (pend h a)) (frames a h)"
  using file_reachable_shape by (simp add: shape_def)

text \<open>
  C30. A \<open>PutFile\<close> that succeeds on what the listener sent for an upload has its bytes stored: the file
  holds every payload the stream's \<^verbatim>\<open>OnDAT\<close> and \<^verbatim>\<open>OnFIN\<close> were given up to the FIN, in order and nothing
  else, under any interleaving with other requests, cancellations, write and send failures.
\<close>

theorem put_success_stored:
  assumes "file_reachable env fs h" "clear_statuses env" "a < length (fh_pendings h)" "fp_op (pend h a) = ''put''"
    "prefix inbox (client_frames a h)" "snd (PutFile env ok path overwrite chunks rerr inbox) = None"
  shows "\<exists>x. fp_closer (pend h a) = Some x \<and> of_data (fh_files h ! x) = fp_got (pend h a)"
proof -
  note acks = clear_statuses_acks [OF assms(2)]
  obtain f where f: "f \<in> set inbox" "IsFIN f"
      "Payload f = [] \<or> fs_status (fst (Unmarshal put_status zero_status (js_parse env (Payload f)))) = ''ok''"
    using PutFile_success [OF assms(6)] put_wait_success by (metis list.set_intros(2))
  then obtain g where g: "g \<in> set (frames a h)" "f = \<lparr>StreamID = fst (snd g), Flags = flags_of g, Payload = payload_of g\<rparr>"
    using set_mono_prefix [OF assms(5)] by (auto simp: client_frames_def flags_of_def payload_of_def split: prod.splits)
  then have reply: "put_reply env g"
    using reachable_calm [OF assms(1) acks assms(3)] assms(4) by (simp add: calm_def)
  have "payload_of g \<noteq> js_print env (error_status m)" for m
  proof -
    obtain m' where m': "js_parse env (js_print env (error_status m)) = Some (error_status m')"
      using assms(2) unfolding clear_statuses_def by blast
    then have "js_print env (error_status m) \<noteq> []"
      using assms(2) unfolding clear_statuses_def by auto
    then show ?thesis
      using f(3) g(2) status_of_error [OF m'] by auto
  qed
  then have "flags_of g = FlagFIN" "payload_of g = js_print env ok_status"
    using reply f(2) g(2) by (auto simp: put_reply_def)
  then have "acked env a h"
    using g(1) by (cases g) (auto simp: acked_def frames_def)
  then have "stored (fh_tasks h) h a"
    by (rule file_inv_parts(5) [OF file_reachable_inv [OF assms(1) acks]])
  then show ?thesis
    by (auto simp: stored_def)
qed

lemma dats_frames: "dats a h = concat (map payload_of (filter (\<lambda>f. flags_of f = FlagDAT) (frames a h)))"
  by (simp add: dats_def frames_def flags_of_def payload_of_def [abs_def] split_def filter_filter conj_commute)

lemma get_drain_prefix:
  assumes "\<forall>f \<in> set fs. Flags f = FlagDAT \<or> Flags f = FlagFIN"
  shows "\<exists>s. fst (get_drain env wok fs out) = out @ s \<and> prefix s (concat (map Payload (filter (\<lambda>f. Flags f = FlagDAT) fs)))"
  using assms
proof (induction fs arbitrary: out)
  case (Cons f fs)
  show ?case
  proof (cases "Flags f = FlagDAT \<and> (Payload f = [] \<or> wok (length out))")
    case True
    then have "\<not> IsFIN f"
      by (simp add: IsFIN_def FlagDAT_def)
    then show ?thesis
      using True Cons.IH [of "out @ Payload f"] Cons.prems by (cases "Payload f = []") force+
  next
    case False
    then have "fst (get_drain env wok (f # fs) out) = out"
      using Cons.prems by (auto simp: IsFIN_def FlagDAT_def FlagFIN_def split: prod.splits)
    then show ?thesis
      by simp
  qed
qed simp

text \<open>C31. What \<open>GetFile\<close> writes to the local file is the beginning of the file that was opened for it.\<close>

theorem get_writes_prefix:
  assumes "file_reachable env fs h" "clear_acks env" "a < length (fh_pendings h)" "fp_op (pend h a) = ''get''"
    "prefix inbox (client_frames a h)"
  shows "prefix (fst (snd (GetFile env sent wok inbox))) (fp_got (pend h a))"
proof -
  have calm: "calm env ''get'' (frames a h)"
    using reachable_calm [OF assms(1-3)] assms(4) by simp
  have "prefix (dats a h) (fp_got (pend h a))"
    by (rule file_inv_parts(4) [OF file_reachable_inv [OF assms(1,2)] assms(3)])
  moreover have "prefix (fst (snd (GetFile env sent wok inbox))) (dats a h)"
  proof (cases inbox)
    case Nil
    then show ?thesis by (simp add: GetFile_def)
  next
    case (Cons f fs)
    then obtain g gs where g: "frames a h = g # gs" "prefix fs (map (\<lambda>(w, i, fl, p). \<lparr>StreamID = i, Flags = fl, Payload = p\<rparr>) gs)"
      using assms(5) by (cases "frames a h") (auto simp: client_frames_def)
    define F where "F = map (\<lambda>(w, i, fl, p). \<lparr>StreamID = i, Flags = fl, Payload = p\<rparr>) gs"
    have tl: "\<forall>f \<in> set F. Flags f = FlagDAT \<or> Flags f = FlagFIN"
      using calm g(1) by (auto simp: calm_def F_def)
    then obtain s where "fst (get_drain env wok fs []) = s" "prefix s (concat (map Payload (filter (\<lambda>f. Flags f = FlagDAT) fs)))"
      using get_drain_prefix [of fs env wok "[]"] set_mono_prefix [OF g(2)] unfolding F_def by auto
    moreover have "prefix (concat (map Payload (filter (\<lambda>f. Flags f = FlagDAT) fs))) (concat (map Payload (filter (\<lambda>f. Flags f = FlagDAT) F)))"
      using g(2) unfolding F_def [symmetric] by (auto simp: prefix_def)
    moreover have "concat (map Payload (filter (\<lambda>f. Flags f = FlagDAT) F)) = dats a h" if "IsSYN f"
    proof -
      have "F = map (\<lambda>g. \<lparr>StreamID = fst (snd g), Flags = flags_of g, Payload = payload_of g\<rparr>) gs"
        by (auto simp: F_def flags_of_def payload_of_def)
      moreover have "Flags f = flags_of g"
        using assms(5) Cons g(1) by (auto simp: client_frames_def flags_of_def split: prod.splits)
      then have "flags_of g \<noteq> FlagDAT"
        using that by (auto simp: IsSYN_def FlagDAT_def)
      ultimately show ?thesis
        using g(1) by (simp add: dats_frames filter_map comp_def)
    qed
    ultimately show ?thesis
      using prefix_order.trans [of s] by (auto simp: GetFile_def Cons split: prod.splits)
  qed
  ultimately show ?thesis
    using prefix_order.trans by blast
qed

text \<open>When no goroutine is left, no stream leads to a request and every file is closed.\<close>

theorem files_released:
  assumes "file_reachable env fs h" "clear_acks env" "fh_tasks h = []"
  shows "fh_streams h = Map.empty \<and> True \<notin> of_open ` set (fh_files h)"
proof -
  note inv = file_reachable_inv [OF assms(1,2)]
  have "fh_streams h i = None" for i
    using file_inv_parts(2) [OF inv, of i] assms(3) by (cases "fh_streams h i") auto
  moreover have "\<not> of_open f" if "f \<in> set (fh_files h)" for f
    using file_inv_parts(3) [OF inv] assms(3) that by (auto simp: in_set_conv_nth)
  ultimately show ?thesis
    by (auto simp: fun_eq_iff)
qed

section \<open>A download from end to end\<close>

text \<open>A turn in which nothing fails.\<close>

definition smooth :: "file_choice \<Rightarrow> bool" where
  "smooth c \<longleftrightarrow> fc_ok c = (\<lambda>k. True) \<and> \<not> fc_fault c \<and> \<not> fc_cancel c \<and> 0 < fc_n c"

definition turns :: "go_env \<Rightarrow> file_system_ops \<Rightarrow> file_choice list \<Rightarrow> file_handler \<Rightarrow> file_handler" where
  "turns env fs cs = fold (\<lambda>c. step_task env fs c 0) cs"

lemma turns_simps [simp]: "turns env fs [] h = h" "turns env fs (c # cs) h = turns env fs cs (step_task env fs c 0 h)"
  by (simp_all add: turns_def)

lemma turns_idle: "fh_tasks h = [] \<Longrightarrow> turns env fs cs h = h"
  by (induction cs) (simp_all add: step_task_def)

lemma turns_last:
  assumes "fh_tasks h = [TaskDefer a i xo]" "cs \<noteq> []"
  shows "fh_tasks (turns env fs cs h) = [] \<and> fh_out (turns env fs cs h) = fh_out h"
proof -
  obtain c cs' where cs: "cs = c # cs'"
    using assms(2) by (cases cs) auto
  let ?h = "step_task env fs c 0 h"
  have "fh_tasks ?h = []" "fh_out ?h = fh_out h"
    using assms(1) by (simp_all add: step_task_def finishStream_def Let_def)
  then show ?thesis
    using turns_idle [of ?h] cs by simp
qed

lemma send_all:
  assumes "fh_tasks h = [TaskSend a i x]" "x < length (fh_files h)" "of_open (fh_files h ! x)" "of_data (fh_files h ! x) = d"
    "length d + 2 \<le> length cs" "list_all smooth cs"
  shows "\<exists>ds. concat ds = d \<and> [] \<notin> set ds \<and> fh_tasks (turns env fs cs h) = [] \<and>
    fh_out (turns env fs cs h) = fh_out h @ map (\<lambda>p. (Some a, i, FlagDAT, p)) ds @ [(Some a, i, FlagFIN, [])]"
  using assms
proof (induction cs arbitrary: h d)
  case (Cons c cs)
  have c: "fc_ok c = (\<lambda>k. True)" "\<not> fc_fault c" "\<not> fc_cancel c" "0 < fc_n c"
    using Cons.prems(6) by (simp_all add: smooth_def)
  show ?case
  proof (cases "d = []")
    case True
    let ?h = "step_task env fs c 0 h"
    have "fh_tasks ?h = [TaskDefer a i (Some x)]" "fh_out ?h = fh_out h @ [(Some a, i, FlagFIN, [])]"
      using Cons.prems True c by (simp_all add: step_task_def send_turn_def fh_send_def)
    moreover have "cs \<noteq> []"
      using Cons.prems(5) by auto
    ultimately show ?thesis
      using turns_last [of ?h a i "Some x" cs env fs] True by (intro exI [of _ "[]"]) auto
  next
    case False
    define n where "n = min (fc_n c) (min MaxChunkSize (length d))"
    have n: "0 < n"
      using False c(4) by (simp add: n_def MaxChunkSize_def)
    let ?h = "step_task env fs c 0 h"
    have h: "?h = (fh_send True (Some a) i FlagDAT (take n d) (upd_file x (drop n) h))\<lparr>fh_tasks := [TaskSend a i x]\<rparr>"
      using Cons.prems(1-4) False c n by (simp add: step_task_def send_turn_def Let_def n_def)
    have "length (drop n d) + 2 \<le> length cs"
      using Cons.prems(5) n False by (cases d) auto
    then obtain ds where ds: "concat ds = drop n d" "[] \<notin> set ds" "fh_tasks (turns env fs cs ?h) = []"
        "fh_out (turns env fs cs ?h) = fh_out ?h @ map (\<lambda>p. (Some a, i, FlagDAT, p)) ds @ [(Some a, i, FlagFIN, [])]"
      using Cons.IH [of ?h "drop n d"] Cons.prems(2-4,6) by (auto simp: h upd_file_nth)
    have "fh_out ?h = fh_out h @ [(Some a, i, FlagDAT, take n d)]"
      by (simp add: h fh_send_def upd_file_def)
    then show ?thesis
      using ds False n by (intro exI [of _ "take n d # ds"]) simp
  qed
qed simp

lemma get_drain_all:
  assumes "[] \<notin> set ds"
  shows "get_drain env (\<lambda>k. True) (map (\<lambda>p. \<lparr>StreamID = i, Flags = FlagDAT, Payload = p\<rparr>) ds @
    [\<lparr>StreamID = i, Flags = FlagFIN, Payload = []\<rparr>]) out = (out @ concat ds, None)"
  using assms by (induction ds arbitrary: out) auto

lemma request_names [simp]: "ToLower ''op'' = ''op''" "ToLower ''overwrite'' = ''overwrite''"
  by code_simp+

lemma get_request_decoded: "readable env (get_request path) \<Longrightarrow>
    Unmarshal put_fileop zero_op (js_parse env (js_print env (get_request path))) =
    (\<lparr>fo_op = ''get'', fo_path = path, fo_size = 0, fo_overwrite = False\<rparr>, True)"
  by (simp add: readable_def get_request_def Unmarshal_def put_fileop_def as_string_def zero_op_def)

definition meta_fits :: "file_meta \<Rightarrow> bool" where
  "meta_fits m \<longleftrightarrow> fm_size m \<in> {- (2 ^ 63)..< 2 ^ 63} \<and> fm_modified m \<in> {- (2 ^ 63)..< 2 ^ 63}"

lemma status_of_meta: "readable env (meta_json m) \<Longrightarrow> meta_fits m \<Longrightarrow>
    Unmarshal put_status zero_status (js_parse env (js_print env (meta_json m))) =
    (\<lparr>fs_status = ''ok'', fs_error = [], fs_size = fm_size m\<rparr>, True)"
  by (simp add: readable_def meta_json_def meta_fits_def Unmarshal_def put_status_def as_string_def as_int_def zero_status_def)

text \<open>The three turns before the loop.\<close>

lemma get_begins:
  fixes ok final
  assumes "fh_tasks h = []" "fh_streams h i = None" "readable env (get_request path)" "fs_openRead fs path = Inr (m, data)"
    "list_all smooth [c1, c2, c3]"
  defines "h3 \<equiv> turns env fs [c1, c2, c3] (file_OnSYN env fs ok i (js_print env (get_request path)) final h)"
  shows "fh_tasks h3 = [TaskSend (length (fh_pendings h)) i (length (fh_files h))] \<and>
    fh_files h3 = fh_files h @ [\<lparr>of_data = data, of_open = True\<rparr>] \<and>
    fh_out h3 = fh_out h @ [(Some (length (fh_pendings h)), i, FlagSYN, js_print env (meta_json m))]"
  using assms(1,2,4,5) get_request_decoded [OF assms(3)] unfolding h3_def
  by (simp add: file_OnSYN_def trackStream_def start_def step_task_def run_get_def openFile_def upd_pend_def setCloser_def
      smooth_def fh_send_def)

text \<open>
  C32. A download in which nothing fails: after as many turns as the file has bytes, and five more, the
  client has the whole file.
\<close>

theorem get_end_to_end:
  assumes "file_reachable env fs h" "clear_acks env" "fh_tasks h = []"
    "readable env (get_request path)" "readable env (meta_json m)" "meta_fits m" "fs_openRead fs path = Inr (m, data)"
    "length data + 5 \<le> length cs" "list_all smooth cs"
  shows "GetFile env True (\<lambda>k. True) (client_frames (length (fh_pendings h))
      (turns env fs cs (file_OnSYN env fs ok i (js_print env (get_request path)) final h))) = (fm_size m, data, None)"
proof -
  let ?a = "length (fh_pendings h)" and ?h = "file_OnSYN env fs ok i (js_print env (get_request path)) final h"
  obtain c1 c2 c3 cs' where cs: "cs = [c1, c2, c3] @ cs'"
    using assms(8) by (cases cs; cases "tl cs"; cases "tl (tl cs)") auto
  have "fh_streams h i = None"
    using files_released [OF assms(1-3)] by simp
  note begun = get_begins [OF assms(3) this assms(4,7), of c1 c2 c3 ok final]
  let ?h3 = "turns env fs [c1, c2, c3] ?h"
  have "turns env fs cs ?h = turns env fs cs' ?h3"
    by (simp add: cs)
  moreover obtain ds where ds: "concat ds = data" "[] \<notin> set ds"
      "fh_out (turns env fs cs' ?h3) = fh_out ?h3 @ map (\<lambda>p. (Some ?a, i, FlagDAT, p)) ds @ [(Some ?a, i, FlagFIN, [])]"
    using send_all [of ?h3 ?a i "length (fh_files h)" data cs' env fs] begun assms(8,9) cs by auto
  moreover have "frames ?a h = []"
    using file_inv_parts(6) [OF file_reachable_inv [OF assms(1,2)]] by (auto simp: frames_def out_ok_def filter_empty_conv)
  ultimately have "frames ?a (turns env fs cs ?h) =
      (Some ?a, i, FlagSYN, js_print env (meta_json m)) # map (\<lambda>p. (Some ?a, i, FlagDAT, p)) ds @ [(Some ?a, i, FlagFIN, [])]"
    using begun assms(9) cs by (simp add: frames_def filter_map comp_def)
  then have "client_frames ?a (turns env fs cs ?h) = \<lparr>StreamID = i, Flags = FlagSYN, Payload = js_print env (meta_json m)\<rparr> #
      map (\<lambda>p. \<lparr>StreamID = i, Flags = FlagDAT, Payload = p\<rparr>) ds @ [\<lparr>StreamID = i, Flags = FlagFIN, Payload = []\<rparr>]"
    by (simp add: client_frames_def comp_def)
  then show ?thesis
    using status_of_meta [OF assms(5,6)] get_drain_all [OF ds(2), of env i "[]"] ds(1)
    by (simp add: GetFile_def IsSYN_flag)
qed

section \<open>A download that is cut short\<close>

text \<open>Smooth turns that do not reach the end of the file send part of it and go on.\<close>

lemma send_some:
  assumes "fh_tasks h = [TaskSend a i x]" "x < length (fh_files h)" "of_open (fh_files h ! x)" "of_data (fh_files h ! x) = d"
    "length cs * MaxChunkSize < length d" "list_all smooth cs"
  shows "\<exists>ds. concat ds @ of_data (fh_files (turns env fs cs h) ! x) = d \<and> [] \<notin> set ds \<and>
    length (concat ds) \<le> length cs * MaxChunkSize \<and> fh_tasks (turns env fs cs h) = [TaskSend a i x] \<and>
    x < length (fh_files (turns env fs cs h)) \<and> of_open (fh_files (turns env fs cs h) ! x) \<and>
    fh_out (turns env fs cs h) = fh_out h @ map (\<lambda>p. (Some a, i, FlagDAT, p)) ds"
  using assms
proof (induction cs arbitrary: h d)
  case Nil
  then show ?case by (intro exI [of _ "[]"]) simp
next
  case (Cons c cs)
  have c: "fc_ok c = (\<lambda>k. True)" "\<not> fc_fault c" "\<not> fc_cancel c" "0 < fc_n c" "d \<noteq> []"
    using Cons.prems(5,6) by (auto simp: smooth_def)
  define n where "n = min (fc_n c) (min MaxChunkSize (length d))"
  have n: "0 < n" "n \<le> MaxChunkSize" "n \<le> length d"
    using c by (auto simp: n_def MaxChunkSize_def)
  let ?h = "step_task env fs c 0 h"
  have h: "?h = (fh_send True (Some a) i FlagDAT (take n d) (upd_file x (drop n) h))\<lparr>fh_tasks := [TaskSend a i x]\<rparr>"
    using Cons.prems(1-4) c n(1) by (simp add: step_task_def send_turn_def Let_def n_def)
  have "length cs * MaxChunkSize < length (drop n d)"
    using Cons.prems(5) n by simp
  then obtain ds where ds: "concat ds @ of_data (fh_files (turns env fs cs ?h) ! x) = drop n d" "[] \<notin> set ds"
      "length (concat ds) \<le> length cs * MaxChunkSize" "fh_tasks (turns env fs cs ?h) = [TaskSend a i x]"
      "x < length (fh_files (turns env fs cs ?h))" "of_open (fh_files (turns env fs cs ?h) ! x)"
      "fh_out (turns env fs cs ?h) = fh_out ?h @ map (\<lambda>p. (Some a, i, FlagDAT, p)) ds"
    using Cons.IH [of ?h "drop n d"] Cons.prems(2-4,6) by (auto simp: h upd_file_nth)
  moreover have "fh_out ?h = fh_out h @ [(Some a, i, FlagDAT, take n d)]"
    by (simp add: h fh_send_def upd_file_def)
  ultimately show ?case
    using n c(5) by (intro exI [of _ "take n d # ds"]) (simp add: append_assoc)
qed

text \<open>A turn whose read fails, though what it sends can be sent.\<close>

definition faulty :: "file_choice \<Rightarrow> bool" where
  "faulty c \<longleftrightarrow> fc_ok c = (\<lambda>k. True) \<and> fc_fault c \<and> \<not> fc_cancel c"

lemma fault_ends:
  assumes "fh_tasks h = [TaskSend a i x]" "x < length (fh_files h)" "of_open (fh_files h ! x)" "of_data (fh_files h ! x) = d" "faulty c"
  shows "\<exists>ds. prefix (concat ds) d \<and> [] \<notin> set ds \<and> length (concat ds) \<le> MaxChunkSize \<and>
    fh_out (step_task env fs c 0 h) = fh_out h @ map (\<lambda>p. (Some a, i, FlagDAT, p)) ds @ [(Some a, i, FlagFIN, [])]"
proof -
  define n where "n = min (fc_n c) (min MaxChunkSize (length d))"
  have n: "n \<le> MaxChunkSize" "n \<le> length d"
    by (auto simp: n_def)
  show ?thesis
  proof (cases "n = 0")
    case True
    then have "fh_out (step_task env fs c 0 h) = fh_out h @ [(Some a, i, FlagFIN, [])]"
      using assms by (simp add: step_task_def send_turn_def Let_def fh_send_def faulty_def flip: n_def)
    then show ?thesis by (intro exI [of _ "[]"]) simp
  next
    case False
    then have "fh_out (step_task env fs c 0 h) = fh_out h @ [(Some a, i, FlagDAT, take n d), (Some a, i, FlagFIN, [])]"
      using assms by (simp add: step_task_def send_turn_def Let_def fh_send_def faulty_def upd_file_def flip: n_def)
    then show ?thesis
      using False n by (intro exI [of _ "[take n d]"]) (auto simp: take_is_prefix)
  qed
qed


section \<open>Concrete runs\<close>

text \<open>
  A library that can print what a file stream needs: an acknowledgement, an error with any text, and the
  messages of a table.
\<close>

definition string_of :: "byte list \<Rightarrow> string" where
  "string_of b = map (\<lambda>x. char_of (unat x)) b"

lemma string_of_bytes: "string_of (bytes_of m) = m"
proof -
  have "char_of (unat (word_of_nat (of_char c) :: byte)) = c" for c :: char
    by (simp add: unat_of_nat)
  then show ?thesis
    by (simp add: string_of_def bytes_of_def comp_def)
qed

fun err_text :: "json \<Rightarrow> string option" where
  "err_text (JObj [(k, JStr m), (k', JStr s)]) = (if k = ''error'' \<and> k' = ''status'' \<and> s = ''error'' then Some m else None)"
| "err_text j = None"

definition status_env :: "json list \<Rightarrow> go_env" where
  "status_env t =
     \<lparr>js_parse = (\<lambda>bs. case bs of [] \<Rightarrow> None
        | b # s \<Rightarrow> if b = 0 then Some ok_status else if b = 1 then Some (error_status (string_of s))
            else if unat b - 2 < length t then Some (t ! (unat b - 2)) else None),
      js_print = (\<lambda>j. if j = ok_status then [0] else
        (case err_text j of Some m \<Rightarrow> 1 # bytes_of m | None \<Rightarrow> [word_of_nat (2 + index_of j t)])),
      js_error = (\<lambda>bs. []), sha256 = (\<lambda>bs. bs)\<rparr>"

lemma status_env_clear: "clear_statuses (status_env t)"
proof -
  have "err_text (error_status m) = Some m" "error_status m \<noteq> ok_status" for m
    by (simp_all add: error_status_def ok_status_def)
  then show ?thesis
    by (auto simp: clear_statuses_def readable_def status_env_def string_of_bytes)
qed

lemma status_env_table:
  assumes "j \<in> set t" "length t < 100" "j \<noteq> ok_status" "err_text j = None"
  shows "readable (status_env t) j"
proof -
  have idx: "index_of j t < length t" "t ! index_of j t = j"
    using index_of_nth [OF assms(1)] by simp_all
  define b :: byte where "b = word_of_nat (2 + index_of j t)"
  have "unat b = (2 + index_of j t) mod 256"
    unfolding b_def by (simp only: unat_of_nat) simp
  then have u: "unat b = 2 + index_of j t"
    using idx(1) assms(2) by simp
  then have "b \<noteq> 0" "b \<noteq> 1"
    by auto
  then have "js_parse (status_env t) [b] = Some j"
    using idx u by (simp add: status_env_def)
  moreover have "js_print (status_env t) j = [b]"
    using assms(3,4) by (simp add: status_env_def b_def)
  ultimately show ?thesis
    by (simp add: readable_def)
qed

text \<open>A file system with one file of three bytes, and a download and an upload of it.\<close>

definition demo_meta :: file_meta where
  "demo_meta = \<lparr>fm_size = 3, fm_modified = 0, fm_mime = []\<rparr>"

definition demo_file_ops :: file_system_ops where
  "demo_file_ops = \<lparr>fs_openRead = (\<lambda>path. Inr (demo_meta, [7, 8, 9])), fs_openWrite = (\<lambda>path ov. None), fs_list = (\<lambda>path. Inr [])\<rparr>"

definition demo_files_env :: go_env where
  "demo_files_env = status_env [get_request ''f'', put_request ''f'' False, meta_json demo_meta]"

definition good_turn :: file_choice where
  "good_turn = \<lparr>fc_n = 2, fc_fault = False, fc_cancel = False, fc_err = [], fc_ok = (\<lambda>k. True)\<rparr>"

lemma demo_readable:
  "clear_statuses demo_files_env" "readable demo_files_env (get_request ''f'')" "readable demo_files_env (put_request ''f'' False)"
  "readable demo_files_env (meta_json demo_meta)"
  unfolding demo_files_env_def
  by (rule status_env_clear | rule status_env_table;
      simp add: get_request_def put_request_def meta_json_def ok_status_def)+

definition demo_put :: file_handler where
  "demo_put = fold (file_step demo_files_env demo_file_ops)
     [FileSYN 1 (js_print demo_files_env (put_request ''f'' False)) False (\<lambda>k. True), FileDAT 1 [7, 8], FileTask 0 good_turn,
      FileFIN 1 [9], FileTask 0 good_turn, FileTask 0 good_turn] NewFile"

definition demo_get :: file_handler where
  "demo_get = fold (file_step demo_files_env demo_file_ops)
     [FileSYN 1 (js_print demo_files_env (get_request ''f'')) True (\<lambda>k. True), FileTask 0 good_turn, FileTask 0 good_turn,
      FileTask 0 good_turn, FileTask 0 good_turn] NewFile"

lemma put_request_decoded: "readable env (put_request path ov) \<Longrightarrow>
    Unmarshal put_fileop zero_op (js_parse env (js_print env (put_request path ov))) =
    (\<lparr>fo_op = ''put'', fo_path = path, fo_size = 0, fo_overwrite = ov\<rparr>, True)"
  by (simp add: readable_def put_request_def Unmarshal_def put_fileop_def as_string_def as_bool_def zero_op_def)

lemmas run_defs = file_OnSYN_def file_OnDAT_def file_OnFIN_def note_given_def put_of_def pipe_write_def pipe_close_def trackStream_def start_def step_task_def
  openFile_def upd_pend_def upd_file_def put_turn_def fh_send_def NewFile_def good_turn_def demo_file_ops_def MaxChunkSize_def

lemma demo_put_run: "fh_pendings demo_put =
    [\<lparr>fp_op = ''put'', fp_pipe = Some \<lparr>pi_buf = [], pi_close = True, pi_err = False\<rparr>, fp_closer = Some 0, fp_closed = False, fp_got = [7, 8, 9]\<rparr>] \<and>
    fh_out demo_put = [(Some 0, 1, FlagSYN, js_print demo_files_env ok_status), (Some 0, 1, FlagFIN, js_print demo_files_env ok_status)]"
  by (simp add: demo_put_def put_request_decoded demo_readable run_defs)

lemma demo_get_run: "fh_pendings demo_get =
    [\<lparr>fp_op = ''get'', fp_pipe = None, fp_closer = Some 0, fp_closed = False, fp_got = [7, 8, 9]\<rparr>] \<and>
    fh_out demo_get = [(Some 0, 1, FlagSYN, js_print demo_files_env (meta_json demo_meta)), (Some 0, 1, FlagDAT, [7, 8])]"
  by (simp add: demo_get_def get_request_decoded demo_readable run_defs run_get_def setCloser_def send_turn_def)

lemma demo_reachable: "file_reachable demo_files_env demo_file_ops demo_put" "file_reachable demo_files_env demo_file_ops demo_get"
  unfolding demo_put_def demo_get_def by (rule file_reachable_run [OF file_reachable.start])+

theorem put_success_stored_witness: "of_data (fh_files demo_put ! 0) = [7, 8, 9]"
proof -
  have "snd (PutFile demo_files_env (\<lambda>k. True) ''f'' False [[7, 8], [9]] None (client_frames 0 demo_put)) = None"
    using demo_readable(1) status_of_ok [of demo_files_env]
    by (simp add: client_frames_def frames_def demo_put_run PutFile_def IsSYN_flag clear_statuses_def)
  then show ?thesis
    using put_success_stored [OF demo_reachable(1) demo_readable(1), of 0 "client_frames 0 demo_put"] by (simp add: demo_put_run)
qed

theorem get_writes_prefix_witness: "prefix (fst (snd (GetFile demo_files_env True (\<lambda>k. True) (client_frames 0 demo_get)))) [7, 8, 9]"
  using get_writes_prefix [OF demo_reachable(2) clear_statuses_acks [OF demo_readable(1)], of 0 "client_frames 0 demo_get" True "\<lambda>k. True"]
  by (simp add: demo_get_run)

text \<open>The handler after a whole download.\<close>

definition demo_done :: file_handler where
  "demo_done = fold (file_step demo_files_env demo_file_ops)
     [FileSYN 1 (js_print demo_files_env (get_request ''f'')) True (\<lambda>k. True), FileTask 0 good_turn, FileTask 0 good_turn,
      FileTask 0 good_turn, FileTask 0 good_turn, FileTask 0 good_turn, FileTask 0 good_turn, FileTask 0 good_turn] NewFile"

theorem files_released_witness: "fh_files demo_done \<noteq> [] \<and> True \<notin> of_open ` set (fh_files demo_done)"
proof -
  have "fh_tasks demo_done = []" "fh_files demo_done \<noteq> []"
    by (simp_all add: demo_done_def get_request_decoded demo_readable run_defs run_get_def setCloser_def send_turn_def
        finishStream_def close_pending_def close_file_def)
  then show ?thesis
    using files_released [of demo_files_env demo_file_ops demo_done] clear_statuses_acks [OF demo_readable(1)]
      file_reachable_run [OF file_reachable.start] unfolding demo_done_def by blast
qed

theorem get_end_to_end_witness:
  "GetFile demo_files_env True (\<lambda>k. True) (client_frames 0 (turns demo_files_env demo_file_ops (replicate 8 good_turn)
     (file_OnSYN demo_files_env demo_file_ops (\<lambda>k. True) 1 (js_print demo_files_env (get_request ''f'')) True NewFile))) = (3, [7, 8, 9], None)"
  using get_end_to_end [OF file_reachable.start clear_statuses_acks [OF demo_readable(1)] _ demo_readable(2,4),
      of demo_file_ops "[7, 8, 9]" "replicate 8 good_turn" "\<lambda>k. True" 1 True]
  by (simp add: NewFile_def demo_meta_def meta_fits_def demo_file_ops_def smooth_def good_turn_def list_all_iff)

text \<open>A file of one chunk and one byte, whose first read fails.\<close>

definition bad_turn :: file_choice where
  "bad_turn = good_turn\<lparr>fc_fault := True\<rparr>"

definition big_ops :: file_system_ops where
  "big_ops = demo_file_ops\<lparr>fs_openRead := (\<lambda>path. Inr (demo_meta, replicate (Suc MaxChunkSize) 0))\<rparr>"


end
