(* ===== verification/TcpStream.thy ===== *)
theory TcpStream
  imports GoCrypto Allowlist
begin

unbundle bit_operations_syntax

text \<open>
  \<^verbatim>\<open>internal/streamtype/tcp.go\<close>, with \<^verbatim>\<open>internal/bytestream/bytestream.go\<close> and
  \<^verbatim>\<open>internal/tcpforward/tcpforward.go\<close>: the handler of forwarded TCP connections. The callbacks of the
  session and the goroutine of each stream interleave one step at a time; streams and connections live
  in heaps and are named by address. Whether a dial, a read, a write or the sending of a frame succeeds,
  and the bytes a target sends, come in with the steps. Recognising an IP address and quoting a string
  for an error message are arguments. Control characters and blanks are the ASCII ones.

  A stream's context is cancelled with the handler's, so \<open>cancelled\<close> looks at both. A callback that
  waits for the dial returns nothing yet, and its event changes nothing: it is taken again later.
\<close>

section \<open>Targets\<close>

datatype target_problem = PortRange int | EmptyHost | InvalidHost string

record net_lib =
  nl_is_ip :: "string \<Rightarrow> bool"
  nl_quote :: "string \<Rightarrow> string"

definition go_control :: "char \<Rightarrow> bool" where
  "go_control c \<longleftrightarrow> of_char c < (32 :: nat) \<or> of_char c = (127 :: nat)"

definition ValidateTarget :: "net_lib \<Rightarrow> string \<Rightarrow> int \<Rightarrow> target_problem option" where
  "ValidateTarget lib host port =
     (if port < 1 \<or> port > 65535 then Some (PortRange port)
      else if host = [] then Some EmptyHost
      else if nl_is_ip lib host then None
      else if TrimSpace host \<noteq> host \<or> (\<exists>c \<in> set host. c \<in> set '':/[]'' \<or> c = CHR 0x5C \<or> c = CHR 0x00) then Some (InvalidHost host)
      else if (\<exists>c \<in> set host. go_space c \<or> go_control c) then Some (InvalidHost host)
      else None)"

section \<open>State\<close>

record tcp_open =
  to_host :: string
  to_port :: int

definition put_tcpopen :: "string \<Rightarrow> json \<Rightarrow> tcp_open \<Rightarrow> tcp_open option" where
  "put_tcpopen k v m =
     (if k = ''type'' then map_option (\<lambda>x. m) (as_string v [])
      else if k = ''host'' then map_option (\<lambda>x. m\<lparr>to_host := x\<rparr>) (as_string v (to_host m))
      else if k = ''port'' then map_option (\<lambda>x. m\<lparr>to_port := x\<rparr>) (as_int v (to_port m))
      else Some m)"

text \<open>
  A connection to a target: \<open>tn_in\<close> is what was written to it and \<open>tn_got\<close> what was read from it. In a
  stream, the ghost \<open>ts_given\<close> records the payloads of the callbacks that returned, whatever became of
  them: \<open>tcp_step\<close> records them, and no operation reads them.
\<close>

record tcp_conn =
  tn_host :: string
  tn_port :: int
  tn_open :: bool
  tn_in :: "byte list"
  tn_got :: "byte list"

record tcp_stream =
  ts_id :: u32
  ts_cancelled :: bool
  ts_ready :: bool
  ts_conn :: "nat option"
  ts_writeDone :: bool
  ts_given :: "byte list"

datatype tcp_task =
    TcpDial nat u32 string int bool
  | TcpDialed nat u32 nat bool
  | TcpAck nat u32 nat bool
  | TcpFinal nat u32 nat
  | TcpPump nat u32 nat
  | TcpDrained nat u32 nat
  | TcpClose nat u32 nat
  | TcpRemove nat u32

type_synonym tcp_frame = "nat option \<times> u32 \<times> u16 \<times> byte list"

record tcp_handler =
  th_allow :: allow_list
  th_max :: nat
  th_ctx :: bool
  th_streams :: "u32 \<Rightarrow> nat option"
  th_active :: int
  th_heap :: "tcp_stream list"
  th_conns :: "tcp_conn list"
  th_tasks :: "tcp_task list"
  th_out :: "tcp_frame list"

definition DefaultTCPMaxConcurrent :: nat where
  "DefaultTCPMaxConcurrent = 64"

definition NewTCP :: "allow_list \<Rightarrow> tcp_handler" where
  "NewTCP allow = \<lparr>th_allow = allow, th_max = DefaultTCPMaxConcurrent, th_ctx = False, th_streams = Map.empty, th_active = 0,
     th_heap = [], th_conns = [], th_tasks = [], th_out = []\<rparr>"

abbreviation tstrm :: "tcp_handler \<Rightarrow> nat \<Rightarrow> tcp_stream" where
  "tstrm h p \<equiv> th_heap h ! p"

definition cancelled :: "tcp_handler \<Rightarrow> nat \<Rightarrow> bool" where
  "cancelled h p \<longleftrightarrow> th_ctx h \<or> ts_cancelled (tstrm h p)"

definition upd_strm :: "nat \<Rightarrow> (tcp_stream \<Rightarrow> tcp_stream) \<Rightarrow> tcp_handler \<Rightarrow> tcp_handler" where
  "upd_strm p f h = h\<lparr>th_heap := (th_heap h)[p := f (tstrm h p)]\<rparr>"

definition upd_conn :: "nat \<Rightarrow> (tcp_conn \<Rightarrow> tcp_conn) \<Rightarrow> tcp_handler \<Rightarrow> tcp_handler" where
  "upd_conn x f h = h\<lparr>th_conns := (th_conns h)[x := f (th_conns h ! x)]\<rparr>"

definition close_conn :: "nat \<Rightarrow> tcp_handler \<Rightarrow> tcp_handler" where
  "close_conn x h = upd_conn x (\<lambda>c. c\<lparr>tn_open := False\<rparr>) h"

definition th_send :: "bool \<Rightarrow> nat option \<Rightarrow> u32 \<Rightarrow> u16 \<Rightarrow> byte list \<Rightarrow> tcp_handler \<Rightarrow> tcp_handler" where
  "th_send ok who i flags payload h = (if ok then h\<lparr>th_out := th_out h @ [(who, i, flags, payload)]\<rparr> else h)"

definition tcp_error :: "string \<Rightarrow> json" where
  "tcp_error msg = JObj [(''error'', JStr msg), (''status'', JStr ''error'')]"

definition tcp_ok :: json where
  "tcp_ok = JObj [(''status'', JStr ''ok'')]"

definition tcp_sendError :: "go_env \<Rightarrow> bool \<Rightarrow> nat option \<Rightarrow> u32 \<Rightarrow> string \<Rightarrow> tcp_handler \<Rightarrow> tcp_handler" where
  "tcp_sendError env ok who i msg h = th_send ok who i (FlagSYN OR FlagFIN) (js_print env (tcp_error msg)) h"

section \<open>Operations of a stream\<close>

definition ts_close :: "nat \<Rightarrow> tcp_handler \<Rightarrow> tcp_handler" where
  "ts_close p h =
     (let h1 = upd_strm p (\<lambda>s. s\<lparr>ts_cancelled := True\<rparr>) h
      in case ts_conn (tstrm h1 p) of None \<Rightarrow> h1 | Some x \<Rightarrow> close_conn x h1)"

definition finishDial :: "nat option \<Rightarrow> nat \<Rightarrow> tcp_handler \<Rightarrow> tcp_handler \<times> bool" where
  "finishDial conn p h =
     (if cancelled h p then (upd_strm p (\<lambda>s. s\<lparr>ts_ready := True\<rparr>) h, False)
      else (upd_strm p (\<lambda>s. s\<lparr>ts_conn := conn, ts_ready := True\<rparr>) h, True))"

text \<open>
  The end of a wait for the dial: the connection, or nothing when it failed or the context is done. When
  both are so, either may be seen, as \<open>late\<close> says.
\<close>

definition waitConn :: "bool \<Rightarrow> nat \<Rightarrow> tcp_handler \<Rightarrow> nat option" where
  "waitConn late p h = (if cancelled h p \<and> (late \<or> \<not> ts_ready (tstrm h p)) then None else ts_conn (tstrm h p))"

definition waiting :: "nat \<Rightarrow> tcp_handler \<Rightarrow> bool" where
  "waiting p h \<longleftrightarrow> \<not> cancelled h p \<and> \<not> ts_ready (tstrm h p)"

text \<open>
  \<^verbatim>\<open>WriteFull\<close>: the bytes the writer accepted and whether all were. The first argument is what the successive
  calls of \<^verbatim>\<open>Write\<close> return, a count and whether there was an error; a call beyond the list accepts all it is given.
\<close>

fun WriteFull :: "(int \<times> bool) list \<Rightarrow> byte list \<Rightarrow> byte list \<times> bool" where
  "WriteFull rs [] = ([], True)"
| "WriteFull [] (b # bs) = (b # bs, True)"
| "WriteFull ((n, err) # rs) (b # bs) =
     (if n < 0 \<or> n > int (length (b # bs)) then ([], False)
      else if err then (take (nat n) (b # bs), False)
      else if n = 0 then ([], False)
      else apfst ((@) (take (nat n) (b # bs))) (WriteFull rs (drop (nat n) (b # bs))))"

definition conn_write :: "(int \<times> bool) list \<Rightarrow> nat \<Rightarrow> byte list \<Rightarrow> tcp_handler \<Rightarrow> tcp_handler \<times> bool" where
  "conn_write rs x payload h =
     (if \<not> tn_open (th_conns h ! x) then (h, payload = [])
      else case WriteFull rs payload of (sent, full) \<Rightarrow> (upd_conn x (\<lambda>c. c\<lparr>tn_in := tn_in c @ sent\<rparr>) h, full))"

definition ts_write :: "bool \<Rightarrow> (int \<times> bool) list \<Rightarrow> nat \<Rightarrow> byte list \<Rightarrow> tcp_handler \<Rightarrow> tcp_handler \<times> bool" where
  "ts_write late rs p payload h =
     (case waitConn late p h of
        None \<Rightarrow> (h, False)
      | Some x \<Rightarrow> conn_write rs x payload h)"

definition ts_closeWrite :: "bool \<Rightarrow> bool \<Rightarrow> nat \<Rightarrow> tcp_handler \<Rightarrow> tcp_handler \<times> bool" where
  "ts_closeWrite late ok p h =
     (case waitConn late p h of
        None \<Rightarrow> (h, False)
      | Some x \<Rightarrow> (upd_strm p (\<lambda>s. s\<lparr>ts_writeDone := True\<rparr>) h, ok))"

section \<open>The callbacks\<close>

definition tcp_refused :: "string \<Rightarrow> int \<Rightarrow> allow_list \<Rightarrow> string" where
  "tcp_refused host port allow =
     host @ '':'' @ Itoa port @ '' is not one of the allowed forwards for your link ('' @ ListString allow @ '')''"

definition problem_text :: "net_lib \<Rightarrow> target_problem \<Rightarrow> string" where
  "problem_text lib e =
     (case e of
        PortRange port \<Rightarrow> ''port '' @ Itoa port @ '' is outside 1-65535''
      | EmptyHost \<Rightarrow> ''remote host is empty''
      | InvalidHost host \<Rightarrow> ''invalid remote host '' @ nl_quote lib host)"

definition close_old :: "nat option \<Rightarrow> tcp_handler \<Rightarrow> tcp_handler" where
  "close_old r h = (case r of None \<Rightarrow> h | Some p \<Rightarrow> ts_close p h)"

definition new_tcp_stream :: "u32 \<Rightarrow> tcp_stream" where
  "new_tcp_stream i = \<lparr>ts_id = i, ts_cancelled = False, ts_ready = False, ts_conn = None, ts_writeDone = False, ts_given = []\<rparr>"

definition tcp_OnSYN :: "go_env \<Rightarrow> net_lib \<Rightarrow> bool \<Rightarrow> u32 \<Rightarrow> byte list \<Rightarrow> bool \<Rightarrow> tcp_handler \<Rightarrow> tcp_handler" where
  "tcp_OnSYN env lib ok i payload final h =
     (case Unmarshal put_tcpopen \<lparr>to_host = [], to_port = 0\<rparr> (js_parse env payload) of
        (m, decoded) \<Rightarrow>
          if \<not> decoded then tcp_sendError env ok None i (''bad tcp request: '' @ js_error env payload) h
          else case ValidateTarget lib (to_host m) (to_port m) of
            Some e \<Rightarrow> tcp_sendError env ok None i (problem_text lib e) h
          | None \<Rightarrow>
              if \<not> Permits (th_allow h) (to_host m) (to_port m)
              then tcp_sendError env ok None i (tcp_refused (to_host m) (to_port m) (th_allow h)) h
              else if th_max h > 0 \<and> th_active h \<ge> int (th_max h)
              then tcp_sendError env ok None i
                     (''listener is busy (max '' @ Itoa (int (th_max h)) @ '' concurrent TCP connections)'') h
              else
                let old = th_streams h i; p = length (th_heap h) in
                close_old old
                  (h\<lparr>th_heap := th_heap h @ [new_tcp_stream i], th_streams := (th_streams h)(i \<mapsto> p), th_active := th_active h + 1,
                     th_tasks := th_tasks h @ [TcpDial p i (to_host m) (to_port m) final]\<rparr>))"

text \<open>
  A callback that has to wait for the dial has no result yet; otherwise the second component of the result
  tells that it returned no error.
\<close>

definition tcp_OnDAT :: "bool \<Rightarrow> (int \<times> bool) list \<Rightarrow> u32 \<Rightarrow> byte list \<Rightarrow> tcp_handler \<Rightarrow> (tcp_handler \<times> bool) option" where
  "tcp_OnDAT late rs i payload h =
     (case th_streams h i of
        None \<Rightarrow> Some (h, True)
      | Some p \<Rightarrow>
          if waiting p h then None
          else (case ts_write late rs p payload h of
             (h1, True) \<Rightarrow> Some (h1, True)
           | (h1, False) \<Rightarrow> Some (ts_close p h1, False)))"

definition tcp_OnFIN :: "bool \<Rightarrow> (int \<times> bool) list \<Rightarrow> bool \<Rightarrow> u32 \<Rightarrow> byte list \<Rightarrow> tcp_handler \<Rightarrow> (tcp_handler \<times> bool) option" where
  "tcp_OnFIN late rs ok i payload h =
     (case th_streams h i of
        None \<Rightarrow> Some (h, True)
      | Some p \<Rightarrow>
          (case (if payload \<noteq> [] then tcp_OnDAT late rs i payload h else Some (h, True)) of
             None \<Rightarrow> None
           | Some (h1, False) \<Rightarrow> Some (h1, False)
           | Some (h1, True) \<Rightarrow>
               if waiting p h1 then None
               else (case ts_closeWrite late ok p h1 of
                  (h2, True) \<Rightarrow> Some (h2, True)
                | (h2, False) \<Rightarrow> Some (ts_close p h2, False))))"

definition tcp_OnReset :: "u32 \<Rightarrow> tcp_handler \<Rightarrow> tcp_handler" where
  "tcp_OnReset i h = close_old (th_streams h i) h"

text \<open>The streams in the table when \<open>CloseAll\<close> looks at it.\<close>

definition tabled :: "tcp_handler \<Rightarrow> nat list" where
  "tabled h = filter (\<lambda>p. th_streams h (ts_id (tstrm h p)) = Some p) [0..<length (th_heap h)]"

definition tcp_CloseAll :: "tcp_handler \<Rightarrow> tcp_handler" where
  "tcp_CloseAll h = fold ts_close (tabled h) (h\<lparr>th_ctx := True\<rparr>)"

section \<open>The goroutine of a stream\<close>

definition FrameSize :: nat where
  "FrameSize = 32 * 1024"

text \<open>
  What the outside contributes to a step: whether a dial, a frame, the FIN frame and closing a direction succeed,
  what a read returns and whether it ends the direction, in the ordinary way or not.
\<close>

record tcp_choice =
  tc_dial :: bool
  tc_err :: string
  tc_ok :: bool
  tc_fin :: bool
  tc_late :: bool
  tc_cw :: bool
  tc_data :: "byte list"
  tc_eof :: bool
  tc_fault :: bool

definition remove_stream :: "u32 \<Rightarrow> nat \<Rightarrow> tcp_handler \<Rightarrow> tcp_handler" where
  "remove_stream i want h =
     (let h1 = (if th_streams h i = Some want then h\<lparr>th_streams := (th_streams h)(i := None)\<rparr> else h)
      in h1\<lparr>th_active := th_active h1 - 1\<rparr>)"

definition cancel_strm :: "nat \<Rightarrow> tcp_handler \<Rightarrow> tcp_handler" where
  "cancel_strm p h = upd_strm p (\<lambda>s. s\<lparr>ts_cancelled := True\<rparr>) h"

definition tcp_dial ::
  "go_env \<Rightarrow> tcp_choice \<Rightarrow> nat \<Rightarrow> u32 \<Rightarrow> string \<Rightarrow> int \<Rightarrow> bool \<Rightarrow> tcp_handler \<Rightarrow> tcp_task \<times> tcp_handler" where
  "tcp_dial env c p i host port final h =
     (if tc_dial c then
        (TcpDialed p i (length (th_conns h)) final,
         h\<lparr>th_conns := th_conns h @ [\<lparr>tn_host = host, tn_port = port, tn_open = True, tn_in = [], tn_got = []\<rparr>]\<rparr>)
      else
        let msg = ''dial '' @ JoinHostPort host (Itoa port) @ '': '' @ tc_err c;
            h1 = (if \<not> cancelled h p then tcp_sendError env (tc_ok c) (Some p) i msg h else h)
        in (TcpRemove p i, cancel_strm p (fst (finishDial None p h1))))"

definition tcp_dialed :: "nat \<Rightarrow> u32 \<Rightarrow> nat \<Rightarrow> bool \<Rightarrow> tcp_handler \<Rightarrow> tcp_task \<times> tcp_handler" where
  "tcp_dialed p i x final h =
     (case finishDial (Some x) p h of
        (h1, False) \<Rightarrow> (TcpRemove p i, close_conn x h1)
      | (h1, True) \<Rightarrow> (TcpAck p i x final, h1))"

definition tcp_ack :: "go_env \<Rightarrow> tcp_choice \<Rightarrow> nat \<Rightarrow> u32 \<Rightarrow> nat \<Rightarrow> bool \<Rightarrow> tcp_handler \<Rightarrow> tcp_task \<times> tcp_handler" where
  "tcp_ack env c p i x final h =
     (if \<not> tc_ok c then (TcpRemove p i, close_conn x (cancel_strm p h))
      else (if final then TcpFinal p i x else TcpPump p i x, th_send True (Some p) i FlagSYN (js_print env tcp_ok) h))"

definition tcp_final :: "tcp_choice \<Rightarrow> nat \<Rightarrow> u32 \<Rightarrow> nat \<Rightarrow> tcp_handler \<Rightarrow> tcp_task \<times> tcp_handler" where
  "tcp_final c p i x h =
     (case ts_closeWrite (tc_late c) (tc_cw c) p h of
        (h1, True) \<Rightarrow> (TcpPump p i x, h1)
      | (h1, False) \<Rightarrow> (TcpRemove p i, ts_close p h1))"

text \<open>One turn of \<^verbatim>\<open>bytestream.Pump\<close>. A read of a connection that was closed under it fails.\<close>

definition Pump :: "tcp_choice \<Rightarrow> nat \<Rightarrow> u32 \<Rightarrow> nat \<Rightarrow> tcp_handler \<Rightarrow> tcp_task \<times> tcp_handler" where
  "Pump c p i x h =
     (let data = (if tn_open (th_conns h ! x) then take FrameSize (tc_data c) else []);
          ended = (\<not> tn_open (th_conns h ! x) \<or> tc_eof c \<or> tc_fault c);
          h1 = upd_conn x (\<lambda>n. n\<lparr>tn_got := tn_got n @ data\<rparr>) h
      in if data \<noteq> [] \<and> (cancelled h1 p \<or> \<not> tc_ok c) then (TcpClose p i x, h1)
         else
           let h2 = (if data \<noteq> [] then th_send True (Some p) i FlagDAT data h1 else h1)
           in if \<not> ended then (TcpPump p i x, h2)
              else if cancelled h2 p then (TcpClose p i x, h2)
              else (if tc_fin c \<and> tn_open (th_conns h ! x) \<and> \<not> tc_fault c then TcpDrained p i x else TcpClose p i x,
                    th_send (tc_fin c) (Some p) i FlagFIN [] h2))"

fun run_tcp :: "go_env \<Rightarrow> tcp_choice \<Rightarrow> tcp_task \<Rightarrow> tcp_handler \<Rightarrow> tcp_task option \<times> tcp_handler" where
  "run_tcp env c (TcpDial p i host port final) h = apfst Some (tcp_dial env c p i host port final h)"
| "run_tcp env c (TcpDialed p i x final) h = apfst Some (tcp_dialed p i x final h)"
| "run_tcp env c (TcpAck p i x final) h = apfst Some (tcp_ack env c p i x final h)"
| "run_tcp env c (TcpFinal p i x) h = apfst Some (tcp_final c p i x h)"
| "run_tcp env c (TcpPump p i x) h = apfst Some (Pump c p i x h)"
| "run_tcp env c (TcpDrained p i x) h =
     (Some (if ts_writeDone (tstrm h p) \<or> cancelled h p then TcpClose p i x else TcpDrained p i x), h)"
| "run_tcp env c (TcpClose p i x) h = (Some (TcpRemove p i), ts_close p h)"
| "run_tcp env c (TcpRemove p i) h = (None, remove_stream i p h)"

definition step_tcp :: "go_env \<Rightarrow> tcp_choice \<Rightarrow> nat \<Rightarrow> tcp_handler \<Rightarrow> tcp_handler" where
  "step_tcp env c k h =
     (if k < length (th_tasks h) then
        (case run_tcp env c (th_tasks h ! k) h of
           (Some t, h1) \<Rightarrow> h1\<lparr>th_tasks := (th_tasks h)[k := t]\<rparr>
         | (None, h1) \<Rightarrow> h1\<lparr>th_tasks := take k (th_tasks h) @ drop (Suc k) (th_tasks h)\<rparr>)
      else h)"

datatype tcp_event =
    TcpSYN u32 "byte list" bool bool
  | TcpDAT u32 "byte list" bool "(int \<times> bool) list"
  | TcpFIN u32 "byte list" bool "(int \<times> bool) list" bool
  | TcpReset u32
  | TcpCloseAll
  | TcpTask nat tcp_choice

text \<open>
  The payload of a callback is recorded as given to the stream, and a callback that returned takes effect. The
  stream is the one the table names when the callback is called, as the callback's own look-up finds it.
\<close>

definition note_tcp :: "u32 \<Rightarrow> byte list \<Rightarrow> tcp_handler \<Rightarrow> tcp_handler" where
  "note_tcp i payload h =
     (case th_streams h i of None \<Rightarrow> h | Some p \<Rightarrow> upd_strm p (\<lambda>s. s\<lparr>ts_given := ts_given s @ payload\<rparr>) h)"

definition returned :: "tcp_handler \<Rightarrow> (tcp_handler \<times> bool) option \<Rightarrow> tcp_handler" where
  "returned h r = (case r of None \<Rightarrow> h | Some (h1, ok) \<Rightarrow> h1)"

primrec tcp_step :: "go_env \<Rightarrow> net_lib \<Rightarrow> tcp_event \<Rightarrow> tcp_handler \<Rightarrow> tcp_handler" where
  "tcp_step env lib (TcpSYN i payload final ok) h = tcp_OnSYN env lib ok i payload final h"
| "tcp_step env lib (TcpDAT i payload late rs) h = returned h (tcp_OnDAT late rs i payload (note_tcp i payload h))"
| "tcp_step env lib (TcpFIN i payload late rs ok) h = returned h (tcp_OnFIN late rs ok i payload (note_tcp i payload h))"
| "tcp_step env lib (TcpReset i) h = tcp_OnReset i h"
| "tcp_step env lib TcpCloseAll h = tcp_CloseAll h"
| "tcp_step env lib (TcpTask k c) h = step_tcp env c k h"

inductive tcp_reachable :: "go_env \<Rightarrow> net_lib \<Rightarrow> allow_list \<Rightarrow> tcp_handler \<Rightarrow> bool" for env lib allow where
  start: "tcp_reachable env lib allow (NewTCP allow)"
| step: "tcp_reachable env lib allow h \<Longrightarrow> tcp_reachable env lib allow (tcp_step env lib ev h)"

lemma tcp_reachable_run: "tcp_reachable env lib allow h \<Longrightarrow> tcp_reachable env lib allow (fold (tcp_step env lib) evs h)"
  by (induction evs arbitrary: h) (auto intro: tcp_reachable.step)

end
