(* ===== verification/TcpStream_Laws.thy ===== *)
theory TcpStream_Laws
  imports TcpStream Goroutines
begin

text \<open>
  What forwarded connections promise: only permitted targets are dialled, the number of connections is
  bounded, every open connection belongs to a running goroutine, what a target receives is what the
  stream carried and what the stream carries back is what the target sent. The invariant is over the
  goroutines and the handler's state, with one lemma for changes that do not matter to it and one for each
  that does.
\<close>

section \<open>The invariant\<close>

fun task_strm :: "tcp_task \<Rightarrow> nat" where
  "task_strm (TcpDial p i host port final) = p"
| "task_strm (TcpDialed p i x final) = p"
| "task_strm (TcpAck p i x final) = p"
| "task_strm (TcpFinal p i x) = p"
| "task_strm (TcpPump p i x) = p"
| "task_strm (TcpDrained p i x) = p"
| "task_strm (TcpClose p i x) = p"
| "task_strm (TcpRemove p i) = p"

fun task_conn :: "tcp_task \<Rightarrow> nat option" where
  "task_conn (TcpDial p i host port final) = None"
| "task_conn (TcpDialed p i x final) = Some x"
| "task_conn (TcpAck p i x final) = Some x"
| "task_conn (TcpFinal p i x) = Some x"
| "task_conn (TcpPump p i x) = Some x"
| "task_conn (TcpDrained p i x) = Some x"
| "task_conn (TcpClose p i x) = Some x"
| "task_conn (TcpRemove p i) = None"

fun task_id :: "tcp_task \<Rightarrow> u32" where
  "task_id (TcpDial p i host port final) = i"
| "task_id (TcpDialed p i x final) = i"
| "task_id (TcpAck p i x final) = i"
| "task_id (TcpFinal p i x) = i"
| "task_id (TcpPump p i x) = i"
| "task_id (TcpDrained p i x) = i"
| "task_id (TcpClose p i x) = i"
| "task_id (TcpRemove p i) = i"

text \<open>The bytes sent back on a stream.\<close>

definition tcp_dats :: "nat \<Rightarrow> tcp_handler \<Rightarrow> byte list" where
  "tcp_dats p h = concat (map (\<lambda>(w, i, fl, b). b) (filter (\<lambda>(w, i, fl, b). w = Some p \<and> fl = FlagDAT) (th_out h)))"

definition target_ok :: "net_lib \<Rightarrow> allow_list \<Rightarrow> string \<Rightarrow> int \<Rightarrow> bool" where
  "target_ok lib allow host port \<longleftrightarrow> ValidateTarget lib host port = None \<and> Permits allow host port"

fun tcp_task_ok :: "net_lib \<Rightarrow> tcp_handler \<Rightarrow> tcp_task \<Rightarrow> bool" where
  "tcp_task_ok lib h (TcpDial p i host port final) \<longleftrightarrow> ts_conn (tstrm h p) = None \<and> target_ok lib (th_allow h) host port"
| "tcp_task_ok lib h (TcpDialed p i x final) \<longleftrightarrow>
     ts_conn (tstrm h p) = None \<and> x < length (th_conns h) \<and> tn_in (th_conns h ! x) = [] \<and> tn_got (th_conns h ! x) = [] \<and>
     (\<forall>q < length (th_heap h). ts_conn (tstrm h q) \<noteq> Some x)"
| "tcp_task_ok lib h (TcpAck p i x final) \<longleftrightarrow> ts_conn (tstrm h p) = Some x \<and> tcp_dats p h = tn_got (th_conns h ! x)"
| "tcp_task_ok lib h (TcpFinal p i x) \<longleftrightarrow> ts_conn (tstrm h p) = Some x \<and> tcp_dats p h = tn_got (th_conns h ! x)"
| "tcp_task_ok lib h (TcpPump p i x) \<longleftrightarrow> ts_conn (tstrm h p) = Some x \<and> tcp_dats p h = tn_got (th_conns h ! x)"
| "tcp_task_ok lib h (TcpDrained p i x) \<longleftrightarrow> ts_conn (tstrm h p) = Some x"
| "tcp_task_ok lib h (TcpClose p i x) \<longleftrightarrow> ts_conn (tstrm h p) = Some x"
| "tcp_task_ok lib h (TcpRemove p i) \<longleftrightarrow> True"

text \<open>
  A stream and its connection: what was written is what was given, or the connection is closed; a stream
  without a connection was given nothing, or is cancelled.
\<close>

definition strm_ok :: "tcp_handler \<Rightarrow> nat \<Rightarrow> bool" where
  "strm_ok h p \<longleftrightarrow>
     (case ts_conn (tstrm h p) of
        None \<Rightarrow> (ts_given (tstrm h p) = [] \<or> ts_cancelled (tstrm h p)) \<and> tcp_dats p h = []
      | Some x \<Rightarrow>
          x < length (th_conns h) \<and>
          (tn_in (th_conns h ! x) = ts_given (tstrm h p) \<or>
             (\<not> tn_open (th_conns h ! x) \<and> prefix (tn_in (th_conns h ! x)) (ts_given (tstrm h p)))) \<and>
          prefix (tcp_dats p h) (tn_got (th_conns h ! x)))"

definition tcp_inv :: "net_lib \<Rightarrow> tcp_task list \<Rightarrow> tcp_handler \<Rightarrow> bool" where
  "tcp_inv lib T h \<longleftrightarrow>
     (\<forall>t \<in> set T. tcp_task_ok lib h t \<and> task_strm t < length (th_heap h) \<and> ts_id (tstrm h (task_strm t)) = task_id t \<and>
        (\<forall>x. task_conn t = Some x \<longrightarrow> x < length (th_conns h))) \<and>
     distinct (map task_strm T) \<and> distinct (List.map_filter task_conn T) \<and>
     (\<forall>i p. th_streams h i = Some p \<longrightarrow> p \<in> task_strm ` set T \<and> ts_id (tstrm h p) = i) \<and>
     (\<forall>x < length (th_conns h). tn_open (th_conns h ! x) \<longrightarrow> Some x \<in> task_conn ` set T) \<and>
     (\<forall>c \<in> set (th_conns h). target_ok lib (th_allow h) (tn_host c) (tn_port c)) \<and>
     (\<forall>p < length (th_heap h). strm_ok h p) \<and>
     (\<forall>p < length (th_heap h). \<forall>q < length (th_heap h). ts_conn (tstrm h p) = ts_conn (tstrm h q) \<longrightarrow> p = q \<or> ts_conn (tstrm h p) = None) \<and>
     th_active h = int (length T) \<and> (th_max h > 0 \<longrightarrow> length T \<le> th_max h) \<and>
     (\<forall>f \<in> set (th_out h). \<forall>p. fst f = Some p \<longrightarrow> p < length (th_heap h))"

section \<open>Changes that do not matter\<close>

text \<open>
  Streams may be cancelled, connections closed and routes dropped; frames without data may be sent, and what
  a stream without a connection is given is of no matter when it ends cancelled.
\<close>

definition quiet_strm :: "tcp_stream \<Rightarrow> tcp_stream \<Rightarrow> bool" where
  "quiet_strm s s' \<longleftrightarrow> ts_id s' = ts_id s \<and> ts_conn s' = ts_conn s \<and> (ts_cancelled s \<longrightarrow> ts_cancelled s') \<and>
     (ts_given s' = ts_given s \<or> (ts_conn s = None \<and> ts_cancelled s'))"

definition quiet_conn :: "tcp_conn \<Rightarrow> tcp_conn \<Rightarrow> bool" where
  "quiet_conn c c' \<longleftrightarrow> tn_host c' = tn_host c \<and> tn_port c' = tn_port c \<and> tn_in c' = tn_in c \<and> tn_got c' = tn_got c \<and> (tn_open c' \<longrightarrow> tn_open c)"

definition quiet :: "tcp_handler \<Rightarrow> tcp_handler \<Rightarrow> bool" where
  "quiet h h' \<longleftrightarrow>
     list_all2 quiet_strm (th_heap h) (th_heap h') \<and> list_all2 quiet_conn (th_conns h) (th_conns h') \<and>
     th_allow h' = th_allow h \<and> th_max h' = th_max h \<and> th_active h' = th_active h \<and> th_streams h' \<subseteq>\<^sub>m th_streams h \<and>
     (\<forall>p. tcp_dats p h' = tcp_dats p h) \<and>
     (\<forall>f \<in> set (th_out h'). f \<in> set (th_out h) \<or> (\<forall>p. fst f = Some p \<longrightarrow> p < length (th_heap h)))"

lemma tcp_quiet_refl: "quiet h h"
  by (auto simp: quiet_def quiet_strm_def quiet_conn_def intro: list_all2_refl)

lemma quiet_strm_trans: "quiet_strm r s \<Longrightarrow> quiet_strm s t \<Longrightarrow> quiet_strm r t"
  by (auto simp: quiet_strm_def)

lemma tcp_quiet_trans: "quiet h h' \<Longrightarrow> quiet h' h'' \<Longrightarrow> quiet h h''"
proof -
  assume a: "quiet h h'" and b: "quiet h' h''"
  have "list_all2 quiet_strm (th_heap h) (th_heap h'')"
  proof (rule list_all2_trans [OF quiet_strm_trans])
    show "list_all2 quiet_strm (th_heap h) (th_heap h')" "list_all2 quiet_strm (th_heap h') (th_heap h'')"
      using a b by (simp_all add: quiet_def)
  qed
  moreover have "list_all2 quiet_conn (th_conns h) (th_conns h'')"
    using a b by (auto simp: quiet_def intro: list_all2_trans [of quiet_conn quiet_conn quiet_conn] simp: quiet_conn_def)
  moreover have "th_streams h'' \<subseteq>\<^sub>m th_streams h"
    using a b map_le_trans unfolding quiet_def by blast
  moreover have "f \<in> set (th_out h) \<or> (\<forall>p. fst f = Some p \<longrightarrow> p < length (th_heap h))" if "f \<in> set (th_out h'')" for f
    using a b that list_all2_lengthD [of quiet_strm "th_heap h" "th_heap h'"] unfolding quiet_def by metis
  ultimately show ?thesis
    using a b by (simp add: quiet_def)
qed

lemma quiet_nth:
  assumes "quiet h h'"
  shows "length (th_heap h') = length (th_heap h)" "length (th_conns h') = length (th_conns h)"
    and "p < length (th_heap h) \<Longrightarrow> quiet_strm (tstrm h p) (tstrm h' p)"
    and "x < length (th_conns h) \<Longrightarrow> quiet_conn (th_conns h ! x) (th_conns h' ! x)"
  using assms by (auto simp: quiet_def list_all2_conv_all_nth)

lemma quiet_task:
  assumes "quiet h h'" "tcp_task_ok lib h t" "task_strm t < length (th_heap h)" "\<forall>x. task_conn t = Some x \<longrightarrow> x < length (th_conns h)"
  shows "tcp_task_ok lib h' t"
proof -
  have "quiet_strm (tstrm h (task_strm t)) (tstrm h' (task_strm t))"
    by (rule quiet_nth(3) [OF assms(1,3)])
  moreover have "quiet_conn (th_conns h ! x) (th_conns h' ! x)" if "task_conn t = Some x" for x
    using quiet_nth(4) [OF assms(1)] assms(4) that by blast
  moreover have "ts_conn (tstrm h' q) = ts_conn (tstrm h q)" if "q < length (th_heap h)" for q
    using quiet_nth(3) [OF assms(1) that] by (simp add: quiet_strm_def)
  ultimately show ?thesis
    using assms(1,2) quiet_nth(1,2) [OF assms(1)] by (cases t) (auto simp: quiet_def quiet_strm_def quiet_conn_def)
qed

lemma quiet_strm_ok:
  assumes "quiet h h'" "strm_ok h p" "p < length (th_heap h)"
  shows "strm_ok h' p"
proof -
  have "quiet_strm (tstrm h p) (tstrm h' p)"
    by (rule quiet_nth(3) [OF assms(1,3)])
  moreover have "quiet_conn (th_conns h ! x) (th_conns h' ! x)" if "ts_conn (tstrm h p) = Some x" for x
    using quiet_nth(4) [OF assms(1)] assms(2) that by (auto simp: strm_ok_def)
  moreover have "tcp_dats p h' = tcp_dats p h"
    using assms(1) by (simp add: quiet_def)
  ultimately show ?thesis
    using assms(2) quiet_nth(2) [OF assms(1)] by (auto simp: strm_ok_def quiet_strm_def quiet_conn_def split: option.splits)
qed

lemma quiet_inv:
  assumes "tcp_inv lib T h" "quiet h h'"
  shows "tcp_inv lib T h'"
proof -
  note len = quiet_nth(1,2) [OF assms(2)]
  have same: "ts_id (tstrm h' p) = ts_id (tstrm h p)" "ts_conn (tstrm h' p) = ts_conn (tstrm h p)" if "p < length (th_heap h)" for p
    using quiet_nth(3) [OF assms(2) that] by (simp_all add: quiet_strm_def)
  have "tcp_task_ok lib h' t" if "t \<in> set T" for t
    using assms(1) that by (intro quiet_task [OF assms(2)]) (auto simp: tcp_inv_def)
  moreover have "p \<in> task_strm ` set T \<and> ts_id (tstrm h' p) = i" if "th_streams h' i = Some p" for i p
  proof -
    have "th_streams h i = Some p"
      using that assms(2) by (auto simp: quiet_def map_le_def dom_def)
    then have "p \<in> task_strm ` set T" "ts_id (tstrm h p) = i"
      using assms(1) by (auto simp: tcp_inv_def)
    moreover from this have "p < length (th_heap h)"
      using assms(1) by (auto simp: tcp_inv_def)
    ultimately show ?thesis
      using same by simp
  qed
  moreover have "Some x \<in> task_conn ` set T" if "x < length (th_conns h')" "tn_open (th_conns h' ! x)" for x
    using that quiet_nth(4) [OF assms(2), of x] len assms(1) by (auto simp: tcp_inv_def quiet_conn_def)
  moreover have "target_ok lib (th_allow h') (tn_host c) (tn_port c)" if c: "c \<in> set (th_conns h')" for c
  proof -
    obtain x where "x < length (th_conns h)" "c = th_conns h' ! x"
      using c len by (auto simp: in_set_conv_nth)
    then show ?thesis
      using quiet_nth(4) [OF assms(2), of x] assms by (auto simp: tcp_inv_def quiet_conn_def quiet_def)
  qed
  moreover have "strm_ok h' p" if "p < length (th_heap h')" for p
    using that len assms(1) by (intro quiet_strm_ok [OF assms(2)]) (auto simp: tcp_inv_def)
  moreover have "p < length (th_heap h')" if "f \<in> set (th_out h')" "fst f = Some p" for f p
    using that len assms unfolding tcp_inv_def quiet_def by metis
  ultimately show ?thesis
    using assms same len unfolding tcp_inv_def quiet_def by simp
qed

lemma dats_th_out: "th_out h' = th_out h \<Longrightarrow> tcp_dats p h' = tcp_dats p h"
  by (simp add: tcp_dats_def)

lemma quiet_ctx: "quiet h (h\<lparr>th_ctx := b\<rparr>)" "quiet h (h\<lparr>th_tasks := ts\<rparr>)" "quiet h (h\<lparr>th_streams := (th_streams h)(i := None)\<rparr>)"
  by (auto simp: quiet_def quiet_strm_def quiet_conn_def tcp_dats_def map_le_def intro: list_all2_refl)

lemma nth_upd: "j < length xs \<Longrightarrow> xs[i := x] ! j = (if j = i then x else xs ! j)"
  by (simp add: nth_list_update)

lemma quiet_upd_strm: "quiet_strm (tstrm h p) (f (tstrm h p)) \<Longrightarrow> quiet h (upd_strm p f h)"
  by (auto simp: quiet_def quiet_strm_def quiet_conn_def tcp_dats_def upd_strm_def list_all2_conv_all_nth nth_upd)

lemma quiet_close_conn: "quiet h (close_conn x h)"
  by (auto simp: quiet_def quiet_strm_def quiet_conn_def tcp_dats_def close_conn_def upd_conn_def list_all2_conv_all_nth nth_upd)

lemma quiet_cancel: "quiet h (cancel_strm p h)"
  unfolding cancel_strm_def by (rule quiet_upd_strm) (simp add: quiet_strm_def)

lemma quiet_close: "quiet h (ts_close p h)"
  unfolding ts_close_def Let_def
  using quiet_cancel [of h p] tcp_quiet_trans [OF quiet_cancel quiet_close_conn]
  by (simp add: cancel_strm_def split: option.split)

lemma quiet_close_old: "quiet h (close_old r h)"
  by (simp add: close_old_def quiet_close tcp_quiet_refl split: option.split)

lemma quiet_send: "w = None \<or> fl \<noteq> FlagDAT \<Longrightarrow> (\<forall>p. w = Some p \<longrightarrow> p < length (th_heap h)) \<Longrightarrow> quiet h (th_send ok w i fl b h)"
  by (auto simp: quiet_def quiet_strm_def quiet_conn_def tcp_dats_def th_send_def intro: list_all2_refl)

lemma quiet_finishDial: "quiet h (fst (finishDial None p h))" if "ts_conn (tstrm h p) = None"
  using that by (auto simp: finishDial_def quiet_strm_def intro!: quiet_upd_strm)

lemma quiet_closeWrite: "quiet h (fst (ts_closeWrite late ok p h))"
  by (auto simp: ts_closeWrite_def quiet_strm_def intro!: quiet_upd_strm tcp_quiet_refl split: option.split)

lemma quiet_CloseAll: "quiet h (tcp_CloseAll h)"
proof -
  have "quiet h (fold ts_close ps h)" for ps h
    by (induction ps arbitrary: h) (auto intro: tcp_quiet_refl tcp_quiet_trans [OF quiet_close])
  then show ?thesis
    unfolding tcp_CloseAll_def by (rule tcp_quiet_trans [OF quiet_ctx(1)])
qed

lemma tcp_inv_mset: "tcp_inv lib T h \<Longrightarrow> mset T = mset T' \<Longrightarrow> tcp_inv lib T' h"
proof -
  assume inv: "tcp_inv lib T h" and m: "mset T = mset T'"
  have "set T = set T'" "length T = length T'"
    using m by (metis set_mset_mset, metis size_mset)
  moreover have "distinct (map task_strm T) = distinct (map task_strm T')"
    using m by (metis distinct_count_atmost_1 mset_map set_mset_mset)
  moreover have "mset (List.map_filter task_conn T) = mset (List.map_filter task_conn T')"
    using m by (simp add: List.map_filter_def)
  then have "distinct (List.map_filter task_conn T) = distinct (List.map_filter task_conn T')"
    by (metis distinct_count_atmost_1 set_mset_mset)
  ultimately show ?thesis
    using inv by (simp add: tcp_inv_def)
qed

section \<open>A goroutine goes on\<close>

lemma tcp_inv_task:
  assumes "tcp_inv lib T h" "t \<in> set T"
  shows "tcp_task_ok lib h t" "task_strm t < length (th_heap h)" "ts_id (tstrm h (task_strm t)) = task_id t"
    "task_conn t = Some x \<Longrightarrow> x < length (th_conns h)"
  using assms by (auto simp: tcp_inv_def)

text \<open>The goroutine takes another state; the connection it drops is closed.\<close>

lemma swap_task:
  assumes "tcp_inv lib (t # T) h" "task_strm t' = task_strm t" "task_id t' = task_id t" "tcp_task_ok lib h t'"
    "task_conn t' = task_conn t \<or> (task_conn t' = None \<and> (\<forall>x. task_conn t = Some x \<longrightarrow> \<not> tn_open (th_conns h ! x)))"
  shows "tcp_inv lib (t' # T) h"
proof -
  have "Some x \<in> task_conn ` set (t' # T)" if "x < length (th_conns h)" "tn_open (th_conns h ! x)" for x
  proof -
    have "Some x \<in> task_conn ` set (t # T)"
      using assms(1) that by (auto simp: tcp_inv_def)
    then show ?thesis
      using assms(5) that(2) by auto
  qed
  moreover have "distinct (List.map_filter task_conn (t' # T))"
    using assms(1,5) by (auto simp: tcp_inv_def map_filter_simps split: option.splits)
  ultimately show ?thesis
    using assms by (auto simp: tcp_inv_def)
qed

lemma others_strm: "tcp_inv lib (t # T) h \<Longrightarrow> s \<in> set T \<Longrightarrow> task_strm s \<noteq> task_strm t"
proof -
  assume "tcp_inv lib (t # T) h" "s \<in> set T"
  then have "task_strm t \<notin> task_strm ` set T" "task_strm s \<in> task_strm ` set T"
    by (simp_all add: tcp_inv_def)
  then show "task_strm s \<noteq> task_strm t"
    by metis
qed

lemma active_irrelevant [simp]: "tcp_task_ok lib (h\<lparr>th_active := n\<rparr>) t = tcp_task_ok lib h t" "strm_ok (h\<lparr>th_active := n\<rparr>) p = strm_ok h p"
  by (cases t; simp add: tcp_dats_def) (simp add: strm_ok_def tcp_dats_def split: option.split)

lemma drop_task:
  assumes "tcp_inv lib (TcpRemove p i # T) h"
  shows "tcp_inv lib T (remove_stream i p h)"
proof -
  define k where "k = (if th_streams h i = Some p then h\<lparr>th_streams := (th_streams h)(i := None)\<rparr> else h)"
  have inv: "tcp_inv lib (TcpRemove p i # T) k"
    using assms quiet_inv [OF assms quiet_ctx(3)] by (simp add: k_def)
  have gone: "q \<in> task_strm ` set T" if q: "th_streams k j = Some q" for j q
  proof -
    have "q \<in> insert p (task_strm ` set T)" "ts_id (tstrm k q) = j" "ts_id (tstrm k p) = i"
      using inv q by (auto simp: tcp_inv_def)
    moreover have "th_streams k i \<noteq> Some p"
      by (simp add: k_def)
    ultimately show ?thesis
      using q by (cases "q = p") auto
  qed
  have h': "remove_stream i p h = k\<lparr>th_active := th_active k - 1\<rparr>"
    by (simp add: remove_stream_def k_def)
  show ?thesis
    unfolding h' using inv gone by (auto simp: tcp_inv_def map_filter_simps)
qed

lemma others_conn: "tcp_inv lib (t # T) h \<Longrightarrow> s \<in> set T \<Longrightarrow> task_conn t = Some x \<Longrightarrow> task_conn s \<noteq> Some x"
  by (auto simp: tcp_inv_def map_filter_simps map_filter_def image_iff)

text \<open>No other stream has the goroutine's connection.\<close>

lemma own_conn:
  assumes "tcp_inv lib (t # T) h" "task_conn t = Some x" "q < length (th_heap h)" "q \<noteq> task_strm t"
  shows "ts_conn (tstrm h q) \<noteq> Some x"
proof -
  have ok: "tcp_task_ok lib h t" "task_strm t < length (th_heap h)"
    using assms(1) by (simp_all add: tcp_inv_def)
  show ?thesis
  proof (cases "ts_conn (tstrm h (task_strm t)) = Some x")
    case True
    have "ts_conn (tstrm h q) = ts_conn (tstrm h (task_strm t)) \<longrightarrow> q = task_strm t \<or> ts_conn (tstrm h q) = None"
      using assms(1,3) ok(2) by (simp add: tcp_inv_def)
    then show ?thesis
      using True assms(4) by auto
  next
    case False
    then show ?thesis
      using assms(2,3) ok by (cases t) auto
  qed
qed

text \<open>A step of a goroutine: its stream, its connection or a new one, and frames of its own.\<close>

definition own_step :: "net_lib \<Rightarrow> tcp_task \<Rightarrow> tcp_task \<Rightarrow> tcp_handler \<Rightarrow> tcp_handler \<Rightarrow> bool" where
  "own_step lib t t' h h' \<longleftrightarrow>
     th_allow h' = th_allow h \<and> th_max h' = th_max h \<and> th_active h' = th_active h \<and> th_streams h' = th_streams h \<and>
     length (th_heap h') = length (th_heap h) \<and> (\<forall>q < length (th_heap h). q \<noteq> task_strm t \<longrightarrow> tstrm h' q = tstrm h q) \<and>
     ts_id (tstrm h' (task_strm t)) = ts_id (tstrm h (task_strm t)) \<and>
     length (th_conns h) \<le> length (th_conns h') \<and>
     (\<forall>y < length (th_conns h). task_conn t \<noteq> Some y \<longrightarrow> th_conns h' ! y = th_conns h ! y) \<and>
     (\<forall>y < length (th_conns h'). length (th_conns h) \<le> y \<longrightarrow> task_conn t' = Some y) \<and>
     (\<forall>y < length (th_conns h'). target_ok lib (th_allow h) (tn_host (th_conns h' ! y)) (tn_port (th_conns h' ! y))) \<and>
     (\<forall>q. q \<noteq> task_strm t \<longrightarrow> tcp_dats q h' = tcp_dats q h) \<and>
     (\<forall>f \<in> set (th_out h'). f \<in> set (th_out h) \<or> fst f = Some (task_strm t)) \<and>
     task_strm t' = task_strm t \<and> task_id t' = task_id t \<and>
     (task_conn t' = task_conn t \<or> (task_conn t = None \<and> (\<exists>y. task_conn t' = Some y \<and> length (th_conns h) \<le> y \<and> y < length (th_conns h')))) \<and>
     (ts_conn (tstrm h' (task_strm t)) = ts_conn (tstrm h (task_strm t)) \<or>
        (\<exists>x. ts_conn (tstrm h' (task_strm t)) = Some x \<and> task_conn t = Some x))"

lemma own_others:
  assumes "tcp_inv lib (t # T) h" "own_step lib t t' h h'" "s \<in> set T"
  shows "tcp_task_ok lib h' s"
proof -
  have s: "tcp_task_ok lib h s" "task_strm s < length (th_heap h)" "\<And>x. task_conn s = Some x \<Longrightarrow> x < length (th_conns h)"
    using assms(1,3) by (auto simp: tcp_inv_def)
  have "task_strm s \<noteq> task_strm t"
    by (rule others_strm [OF assms(1,3)])
  then have same: "tstrm h' (task_strm s) = tstrm h (task_strm s)" "tcp_dats (task_strm s) h' = tcp_dats (task_strm s) h"
    using assms(2) s(2) by (auto simp: own_step_def)
  have conn: "th_conns h' ! x = th_conns h ! x" "x < length (th_conns h')" if "task_conn s = Some x" for x
  proof -
    have "task_conn t \<noteq> Some x"
      using others_conn [OF assms(1,3)] that by blast
    then show "th_conns h' ! x = th_conns h ! x" "x < length (th_conns h')"
      using assms(2) s(3) [OF that] by (auto simp: own_step_def)
  qed
  have "ts_conn (tstrm h' q) \<noteq> Some x"
    if "task_conn s = Some x" "q < length (th_heap h)" "\<forall>q < length (th_heap h). ts_conn (tstrm h q) \<noteq> Some x" for x q
  proof (cases "q = task_strm t")
    case True
    have "ts_conn (tstrm h' q) = ts_conn (tstrm h q) \<or> (\<exists>x. ts_conn (tstrm h' q) = Some x \<and> task_conn t = Some x)"
      using assms(2) unfolding own_step_def True by blast
    moreover have "task_conn t \<noteq> Some x"
      using others_conn [OF assms(1,3)] that(1) by blast
    ultimately show ?thesis
      using that(2,3) by auto
  next
    case False
    then have "tstrm h' q = tstrm h q"
      using assms(2) that(2) unfolding own_step_def by blast
    then show ?thesis
      using that(2,3) by simp
  qed
  moreover have "length (th_heap h') = length (th_heap h)" "th_allow h' = th_allow h"
    using assms(2) by (simp_all add: own_step_def)
  ultimately show ?thesis
    using s(1) same conn by (cases s) simp_all
qed

lemma own_strm:
  assumes "tcp_inv lib (t # T) h" "own_step lib t t' h h'" "q < length (th_heap h)" "q \<noteq> task_strm t"
  shows "strm_ok h' q"
proof -
  have ok: "strm_ok h q"
    using assms(1,3) by (simp add: tcp_inv_def)
  have same: "tstrm h' q = tstrm h q" "tcp_dats q h' = tcp_dats q h" "length (th_conns h) \<le> length (th_conns h')"
    using assms(2-4) by (simp_all add: own_step_def)
  have "th_conns h' ! x = th_conns h ! x" if "ts_conn (tstrm h q) = Some x" for x
  proof -
    have "x < length (th_conns h)"
      using ok that by (simp add: strm_ok_def)
    moreover have "task_conn t \<noteq> Some x"
      using own_conn [OF assms(1) _ assms(3,4)] that by blast
    ultimately show ?thesis
      using assms(2) unfolding own_step_def by blast
  qed
  then show ?thesis
    using ok same by (auto simp: strm_ok_def split: option.splits)
qed

lemma tcp_own_inv:
  assumes "tcp_inv lib (t # T) h" "own_step lib t t' h h'" "tcp_task_ok lib h' t'" "strm_ok h' (task_strm t)"
  shows "tcp_inv lib (t' # T) h'"
proof -
  let ?p = "task_strm t"
  note step = assms(2) [unfolded own_step_def]
  have t: "?p < length (th_heap h)" "ts_id (tstrm h ?p) = task_id t" "\<And>x. task_conn t = Some x \<Longrightarrow> x < length (th_conns h)"
    using assms(1) by (auto simp: tcp_inv_def)
  have len: "length (th_heap h') = length (th_heap h)" "length (th_conns h) \<le> length (th_conns h')"
    and p: "task_strm t' = ?p" "task_id t' = task_id t" and same: "\<And>q. q < length (th_heap h) \<Longrightarrow> q \<noteq> ?p \<Longrightarrow> tstrm h' q = tstrm h q"
    and id_p: "ts_id (tstrm h' ?p) = ts_id (tstrm h ?p)"
    using step by auto
  have bound: "s \<in> set T \<Longrightarrow> task_strm s < length (th_heap h)" "s \<in> set T \<Longrightarrow> ts_id (tstrm h (task_strm s)) = task_id s"
      "s \<in> set T \<Longrightarrow> task_conn s = Some x \<Longrightarrow> x < length (th_conns h)" for s x
    using assms(1) by (auto simp: tcp_inv_def)
  have ids: "ts_id (tstrm h' q) = ts_id (tstrm h q)" if "q < length (th_heap h)" for q
    using same [OF that] id_p by (cases "q = ?p") auto
  have tasks: "tcp_task_ok lib h' s \<and> task_strm s < length (th_heap h') \<and> ts_id (tstrm h' (task_strm s)) = task_id s \<and>
      (\<forall>x. task_conn s = Some x \<longrightarrow> x < length (th_conns h'))" if "s \<in> set (t' # T)" for s
  proof (cases "s = t'")
    case True
    have "x < length (th_conns h')" if "task_conn t' = Some x" for x
      using step t(3) that len(2) by (metis option.inject option.distinct(1) order.strict_trans2)
    then show ?thesis
      using True assms(3) p t ids len by simp
  next
    case False
    then have s: "s \<in> set T"
      using that by simp
    show ?thesis
      using own_others [OF assms(1,2) s] bound [OF s] ids len order.strict_trans2 by auto
  qed
  have dist: "distinct (List.map_filter task_conn (t' # T))"
  proof -
    have d: "distinct (List.map_filter task_conn (t # T))"
      using assms(1) by (simp add: tcp_inv_def)
    have "y \<notin> set (List.map_filter task_conn T)" if "length (th_conns h) \<le> y" for y
      using bound(3) that by (force simp: map_filter_def)
    then show ?thesis
      using d step by (auto simp: map_filter_simps split: option.splits)
  qed
  have opens: "Some y \<in> task_conn ` set (t' # T)" if "y < length (th_conns h')" "tn_open (th_conns h' ! y)" for y
  proof (cases "y < length (th_conns h) \<and> task_conn t \<noteq> Some y")
    case True
    then have "th_conns h' ! y = th_conns h ! y"
      using step by blast
    then have "Some y \<in> task_conn ` set (t # T)"
      using assms(1) that True by (simp add: tcp_inv_def)
    then show ?thesis
      using True by auto
  next
    case False
    then have "task_conn t' = Some y"
      using step that(1) by (metis not_less option.distinct(1))
    then show ?thesis by force
  qed
  have uniq: "q = r \<or> ts_conn (tstrm h' q) = None"
    if "q < length (th_heap h')" "r < length (th_heap h')" "ts_conn (tstrm h' q) = ts_conn (tstrm h' r)" for q r
  proof (rule ccontr)
    assume neg: "\<not> (q = r \<or> ts_conn (tstrm h' q) = None)"
    have old: "ts_conn (tstrm h a) = ts_conn (tstrm h b) \<longrightarrow> a = b \<or> ts_conn (tstrm h a) = None"
      if "a < length (th_heap h)" "b < length (th_heap h)" for a b
      using assms(1) that by (simp add: tcp_inv_def)
    have fresh: "ts_conn (tstrm h b) \<noteq> ts_conn (tstrm h' ?p) \<or> ts_conn (tstrm h b) = None" if "b < length (th_heap h)" "b \<noteq> ?p" for b
      using step own_conn [OF assms(1) _ that] old [OF that(1) t(1)] that(2) by (metis)
    show False
      using neg that fresh old [of q r] same len by (metis)
  qed
  have routes: "q \<in> task_strm ` set (t' # T) \<and> ts_id (tstrm h' q) = i" if "th_streams h' i = Some q" for i q
  proof -
    have q: "q \<in> task_strm ` set (t # T)" "ts_id (tstrm h q) = i"
      using assms(1) step that by (auto simp: tcp_inv_def)
    moreover have "q < length (th_heap h)"
      using q(1) bound(1) t(1) by auto
    ultimately show ?thesis
      using ids p(1) by auto
  qed
  have targets: "target_ok lib (th_allow h') (tn_host c) (tn_port c)" if "c \<in> set (th_conns h')" for c
    using step that by (auto simp: in_set_conv_nth)
  have strms: "strm_ok h' q" if "q < length (th_heap h')" for q
    using own_strm [OF assms(1,2)] assms(4) that len by (cases "q = ?p") auto
  have outs: "q < length (th_heap h')" if f: "f \<in> set (th_out h')" "fst f = Some q" for f q
  proof (cases "f \<in> set (th_out h)")
    case True
    then show ?thesis
      using assms(1) f(2) len(1) by (auto simp: tcp_inv_def)
  next
    case False
    then have "fst f = Some ?p"
      using step f(1) by blast
    then show ?thesis
      using f(2) t(1) len(1) by simp
  qed
  have nums: "distinct (map task_strm (t' # T))" "th_active h' = int (length (t' # T))" "0 < th_max h' \<longrightarrow> length (t' # T) \<le> th_max h'"
    using assms(1) step p(1) by (simp_all add: tcp_inv_def)
  show ?thesis
    unfolding tcp_inv_def
    apply (intro conjI nums dist)
    subgoal using tasks by blast
    subgoal by (intro allI impI) (rule routes)
    subgoal by (intro allI impI) (rule opens)
    subgoal using targets by blast
    subgoal using strms by blast
    subgoal by (intro allI impI) (rule uniq)
    subgoal by (intro ballI allI impI) (rule outs)
    done
qed

section \<open>The steps of a goroutine\<close>

lemma close_conn_closed: "x < length (th_conns h) \<Longrightarrow> \<not> tn_open (th_conns (close_conn x h) ! x)"
  by (simp add: close_conn_def upd_conn_def)

lemma ts_close_closed:
  assumes "p < length (th_heap h)" "ts_conn (tstrm h p) = Some x" "x < length (th_conns h)"
  shows "\<not> tn_open (th_conns (ts_close p h) ! x)"
  using assms close_conn_closed [of x "cancel_strm p h"] by (simp add: ts_close_def Let_def upd_strm_def cancel_strm_def)

lemma end_task:
  assumes "tcp_inv lib (t # T) h" "quiet h h'" "task_strm t = p" "task_id t = i"
    "\<forall>x. task_conn t = Some x \<longrightarrow> \<not> tn_open (th_conns h' ! x)"
  shows "tcp_inv lib (TcpRemove p i # T) h'"
  using swap_task [OF quiet_inv [OF assms(1,2)], of "TcpRemove p i"] assms(3-5) by simp

lemma th_send_fields [simp]:
  "th_heap (th_send ok w i fl b h) = th_heap h" "th_conns (th_send ok w i fl b h) = th_conns h" "th_streams (th_send ok w i fl b h) = th_streams h"
  "th_allow (th_send ok w i fl b h) = th_allow h" "th_max (th_send ok w i fl b h) = th_max h" "th_active (th_send ok w i fl b h) = th_active h"
  "th_tasks (th_send ok w i fl b h) = th_tasks h" "th_ctx (th_send ok w i fl b h) = th_ctx h"
  by (simp_all add: th_send_def)

lemma dats_th_send: "tcp_dats q (th_send ok w i fl b h) = (if ok \<and> w = Some q \<and> fl = FlagDAT then tcp_dats q h @ b else tcp_dats q h)"
  by (simp add: tcp_dats_def th_send_def)

lemma both_flags [simp]: "(FlagSYN OR FlagFIN) \<noteq> FlagDAT" "FlagSYN \<noteq> FlagDAT" "FlagFIN \<noteq> FlagDAT"
  by (simp_all add: FlagSYN_def FlagFIN_def FlagDAT_def)

lemma dial_inv:
  assumes "tcp_inv lib (TcpDial p i host port final # T) h" "tcp_dial env c p i host port final h = (t', h')"
  shows "tcp_inv lib (t' # T) h'"
proof -
  let ?t = "TcpDial p i host port final"
  have ok: "ts_conn (tstrm h p) = None" "target_ok lib (th_allow h) host port" and p: "p < length (th_heap h)" "strm_ok h p"
    using assms(1) by (auto simp: tcp_inv_def)
  have old: "ts_conn (tstrm h q) \<noteq> Some (length (th_conns h))" if "q < length (th_heap h)" for q
    using assms(1) that by (auto simp: tcp_inv_def strm_ok_def split: option.splits)
  show ?thesis
  proof (cases "tc_dial c")
    case True
    then have h': "t' = TcpDialed p i (length (th_conns h)) final"
        "h' = h\<lparr>th_conns := th_conns h @ [\<lparr>tn_host = host, tn_port = port, tn_open = True, tn_in = [], tn_got = []\<rparr>]\<rparr>"
      using assms(2) by (simp_all add: tcp_dial_def)
    have dats: "tcp_dats q h' = tcp_dats q h" for q
      by (rule dats_th_out) (simp add: h')
    have "target_ok lib (th_allow h) (tn_host (th_conns h' ! y)) (tn_port (th_conns h' ! y))" if "y < length (th_conns h')" for y
      using that assms(1) ok(2) by (cases "y < length (th_conns h)") (auto simp: h' nth_append tcp_inv_def)
    then have "own_step lib ?t t' h h'"
      using dats by (auto simp: own_step_def h' nth_append)
    moreover have "tcp_task_ok lib h' t'" "strm_ok h' p"
      using ok(1) old p dats by (auto simp: h' strm_ok_def)
    ultimately show ?thesis
      using tcp_own_inv [OF assms(1)] by simp
  next
    case False
    define h1 where "h1 = (if \<not> cancelled h p then tcp_sendError env (tc_ok c) (Some p) i (''dial '' @ JoinHostPort host (Itoa port) @ '': '' @ tc_err c) h else h)"
    have h': "t' = TcpRemove p i" "h' = cancel_strm p (fst (finishDial None p h1))"
      using assms(2) False unfolding h1_def by (auto simp: tcp_dial_def Let_def)
    have "quiet h h1"
      using p(1) by (auto simp: h1_def tcp_sendError_def intro!: quiet_send tcp_quiet_refl)
    moreover have "quiet h1 (fst (finishDial None p h1))"
      using ok(1) by (intro quiet_finishDial) (simp add: h1_def tcp_sendError_def)
    ultimately have "quiet h h'"
      unfolding h' by (blast intro: tcp_quiet_trans quiet_cancel)
    then show ?thesis
      using end_task [OF assms(1)] h'(1) by simp
  qed
qed

lemma dialed_inv:
  assumes "tcp_inv lib (TcpDialed p i x final # T) h" "tcp_dialed p i x final h = (t', h')"
  shows "tcp_inv lib (t' # T) h'"
proof -
  let ?t = "TcpDialed p i x final"
  have ok: "tcp_task_ok lib h ?t" and p: "p < length (th_heap h)" "strm_ok h p" "x < length (th_conns h)"
    using assms(1) by (auto simp: tcp_inv_def)
  show ?thesis
  proof (cases "cancelled h p")
    case True
    then have h': "t' = TcpRemove p i" "h' = close_conn x (upd_strm p (\<lambda>s. s\<lparr>ts_ready := True\<rparr>) h)"
      using assms(2) by (simp_all add: tcp_dialed_def finishDial_def)
    have "quiet h (upd_strm p (\<lambda>s. s\<lparr>ts_ready := True\<rparr>) h)"
      by (rule quiet_upd_strm) (simp add: quiet_strm_def)
    then have "quiet h h'"
      unfolding h' using tcp_quiet_trans quiet_close_conn by blast
    then show ?thesis
      using end_task [OF assms(1), of h' p i] close_conn_closed p(3) by (simp add: h' upd_strm_def)
  next
    case False
    then have h': "t' = TcpAck p i x final" "h' = upd_strm p (\<lambda>s. s\<lparr>ts_conn := Some x, ts_ready := True\<rparr>) h"
      using assms(2) by (simp_all add: tcp_dialed_def finishDial_def)
    have dats: "tcp_dats q h' = tcp_dats q h" for q
      by (rule dats_th_out) (simp add: h' upd_strm_def)
    have "target_ok lib (th_allow h) (tn_host (th_conns h ! y)) (tn_port (th_conns h ! y))" if "y < length (th_conns h)" for y
      using assms(1) that by (simp add: tcp_inv_def)
    then have "own_step lib ?t t' h h'"
      using dats p by (auto simp: own_step_def h' upd_strm_def nth_upd)
    moreover have "tcp_task_ok lib h' t'" "strm_ok h' p"
      using ok p dats False by (auto simp: h' strm_ok_def upd_strm_def cancelled_def)
    ultimately show ?thesis
      using tcp_own_inv [OF assms(1)] by simp
  qed
qed

lemma tcp_ack_inv:
  assumes "tcp_inv lib (TcpAck p i x final # T) h" "tcp_ack env c p i x final h = (t', h')"
  shows "tcp_inv lib (t' # T) h'"
proof -
  have ok: "tcp_task_ok lib h (TcpAck p i x final)" and p: "p < length (th_heap h)" "x < length (th_conns h)"
    using assms(1) by (auto simp: tcp_inv_def)
  show ?thesis
  proof (cases "tc_ok c")
    case False
    then have h': "t' = TcpRemove p i" "h' = close_conn x (cancel_strm p h)"
      using assms(2) by (simp_all add: tcp_ack_def)
    then show ?thesis
      using end_task [OF assms(1) tcp_quiet_trans [OF quiet_cancel quiet_close_conn], of p i x p] close_conn_closed p(2)
      by (simp add: cancel_strm_def upd_strm_def)
  next
    case True
    then have h': "t' = (if final then TcpFinal p i x else TcpPump p i x)" "h' = th_send True (Some p) i FlagSYN (js_print env tcp_ok) h"
      using assms(2) by (simp_all add: tcp_ack_def)
    have "tcp_inv lib (TcpAck p i x final # T) h'"
      unfolding h' using p(1) by (intro quiet_inv [OF assms(1)] quiet_send) simp_all
    then show ?thesis
      by (rule swap_task) (use ok in \<open>auto simp: h' dats_th_send\<close>)
  qed
qed

lemma final_inv:
  assumes "tcp_inv lib (TcpFinal p i x # T) h" "tcp_final c p i x h = (t', h')"
  shows "tcp_inv lib (t' # T) h'"
proof -
  obtain h1 b where h1: "ts_closeWrite (tc_late c) (tc_cw c) p h = (h1, b)"
    by fastforce
  have q: "quiet h h1"
    using quiet_closeWrite [of h "tc_late c" "tc_cw c" p] h1 by simp
  have inv: "tcp_inv lib (TcpFinal p i x # T) h1"
    by (rule quiet_inv [OF assms(1) q])
  then have ok: "tcp_task_ok lib h1 (TcpFinal p i x)" and p: "p < length (th_heap h1)" "x < length (th_conns h1)"
    by (auto simp: tcp_inv_def)
  show ?thesis
  proof (cases b)
    case True
    then show ?thesis
      using assms(2) h1 ok swap_task [OF inv, of "TcpPump p i x"] by (auto simp: tcp_final_def)
  next
    case False
    then show ?thesis
      using assms(2) h1 end_task [OF inv quiet_close [of h1 p]] ok p ts_close_closed [of p h1 x]
      by (auto simp: tcp_final_def)
  qed
qed

lemma Pump_inv:
  assumes "tcp_inv lib (TcpPump p i x # T) h" "Pump c p i x h = (t', h')"
  shows "tcp_inv lib (t' # T) h'"
proof -
  let ?t = "TcpPump p i x"
  define data where "data = (if tn_open (th_conns h ! x) then take FrameSize (tc_data c) else [])"
  define h1 where "h1 = upd_conn x (\<lambda>n. n\<lparr>tn_got := tn_got n @ data\<rparr>) h"
  define h2 where "h2 = (if data \<noteq> [] then th_send True (Some p) i FlagDAT data h1 else h1)"
  have ok: "ts_conn (tstrm h p) = Some x" "tcp_dats p h = tn_got (th_conns h ! x)" and p: "p < length (th_heap h)" "x < length (th_conns h)" "strm_ok h p"
    using assms(1) by (auto simp: tcp_inv_def)
  have targets: "target_ok lib (th_allow h) (tn_host (th_conns h ! y)) (tn_port (th_conns h ! y))" if "y < length (th_conns h)" for y
    using assms(1) that by (simp add: tcp_inv_def)
  have d1: "tcp_dats q h1 = tcp_dats q h" for q
    by (rule dats_th_out) (simp add: h1_def upd_conn_def)
  have step1: "own_step lib ?t s h h1" if "task_strm s = p" "task_id s = i" "task_conn s = Some x" for s
    using that d1 targets by (auto simp: own_step_def h1_def upd_conn_def nth_upd)
  have step2: "own_step lib ?t s h h2" if "task_strm s = p" "task_id s = i" "task_conn s = Some x" for s
    using step1 [OF that] by (auto simp: h2_def own_step_def dats_th_send th_send_def tcp_dats_def)
  have strm1: "strm_ok h1 p"
    using ok p d1 by (auto simp: strm_ok_def h1_def upd_conn_def)
  have conns2: "th_conns h2 = th_conns h1" "th_heap h2 = th_heap h" "ts_conn (tstrm h1 p) = Some x"
    using ok(1) by (simp_all add: h2_def h1_def upd_conn_def)
  have dats2: "tcp_dats p h2 = tn_got (th_conns h2 ! x)"
    using ok(2) p d1 by (simp add: h2_def dats_th_send h1_def upd_conn_def)
  have strm2: "strm_ok h2 p"
    using strm1 dats2 conns2 by (auto simp: strm_ok_def h1_def upd_conn_def)
  have closed1: "tcp_inv lib (TcpClose p i x # T) h1"
    using tcp_own_inv [OF assms(1) step1, of "TcpClose p i x"] strm1 conns2 by simp
  have all2: "tcp_inv lib (s # T) h2" if "s \<in> {TcpClose p i x, TcpPump p i x, TcpDrained p i x}" for s
    using tcp_own_inv [OF assms(1) step2, of s] strm2 dats2 conns2 that ok(1) by auto
  have fin: "tcp_inv lib (s # T) (th_send ok (Some p) i FlagFIN [] h2)" if "s \<in> {TcpClose p i x, TcpDrained p i x}" for s ok
    using that p(1) conns2 by (intro quiet_inv [OF all2] quiet_send) auto
  show ?thesis
    using assms(2) closed1 all2 fin unfolding Pump_def Let_def data_def [symmetric] h1_def [symmetric] h2_def [symmetric]
    by (auto split: if_splits)
qed

lemma tcp_run_inv:
  assumes "tcp_inv lib (t # T) h" "run_tcp env c t h = (r, h')"
  shows "tcp_inv lib (resume r T) h'"
proof (cases t)
  case (TcpDial p i host port final)
  then show ?thesis
    using assms dial_inv by (cases "tcp_dial env c p i host port final h") (auto simp: resume_def)
next
  case (TcpDialed p i x final)
  then show ?thesis
    using assms dialed_inv by (cases "tcp_dialed p i x final h") (auto simp: resume_def)
next
  case (TcpAck p i x final)
  then show ?thesis
    using assms tcp_ack_inv by (cases "tcp_ack env c p i x final h") (auto simp: resume_def)
next
  case (TcpFinal p i x)
  then show ?thesis
    using assms final_inv by (cases "tcp_final c p i x h") (auto simp: resume_def)
next
  case (TcpPump p i x)
  then show ?thesis
    using assms Pump_inv by (cases "Pump c p i x h") (auto simp: resume_def)
next
  case (TcpDrained p i x)
  have "tcp_task_ok lib h (TcpClose p i x)"
    using assms(1) TcpDrained by (simp add: tcp_inv_def)
  then have "tcp_inv lib (TcpClose p i x # T) h"
    using swap_task [OF assms(1), of "TcpClose p i x"] TcpDrained by simp
  then show ?thesis
    using assms TcpDrained by (auto simp: resume_def split: if_splits)
next
  case (TcpClose p i x)
  have "ts_conn (tstrm h p) = Some x" "p < length (th_heap h)" "x < length (th_conns h)"
    using assms(1) TcpClose by (auto simp: tcp_inv_def)
  then have "tcp_inv lib (TcpRemove p i # T) (ts_close p h)"
    by (intro end_task [OF assms(1) quiet_close]) (simp_all add: TcpClose ts_close_closed)
  then show ?thesis
    using assms(2) TcpClose by (auto simp: resume_def)
next
  case (TcpRemove p i)
  then show ?thesis
    using assms drop_task by (auto simp: resume_def)
qed

lemma tasks_field: "tcp_inv lib T h \<Longrightarrow> tcp_inv lib T (h\<lparr>th_tasks := ts\<rparr>)"
  using quiet_inv quiet_ctx(2) by blast

lemma step_tcp_inv:
  assumes "tcp_inv lib (th_tasks h) h"
  shows "tcp_inv lib (th_tasks (step_tcp env c k h)) (step_tcp env c k h)"
proof (cases "k < length (th_tasks h)")
  case True
  let ?T = "th_tasks h" and ?R = "take k (th_tasks h) @ drop (Suc k) (th_tasks h)"
  obtain r h1 where run: "run_tcp env c (?T ! k) h = (r, h1)"
    by (cases "run_tcp env c (?T ! k) h")
  have "tcp_inv lib (?T ! k # ?R) h"
    by (rule tcp_inv_mset [OF assms mset_nth_out [OF True]])
  then have inv: "tcp_inv lib (resume r ?R) h1"
    by (rule tcp_run_inv [OF _ run])
  show ?thesis
  proof (cases r)
    case None
    then have "step_tcp env c k h = h1\<lparr>th_tasks := ?R\<rparr>"
      using True run by (simp add: step_tcp_def)
    then show ?thesis
      using inv None by (simp add: resume_def tasks_field)
  next
    case (Some t)
    then have step: "step_tcp env c k h = h1\<lparr>th_tasks := ?T[k := t]\<rparr>"
      using True run by (simp add: step_tcp_def)
    have "mset (t # ?R) = mset (?T[k := t])"
      using mset_nth_out [of k "?T[k := t]"] True by simp
    then have "tcp_inv lib (?T[k := t]) h1"
      using tcp_inv_mset [of lib "t # ?R" h1] inv Some by (simp add: resume_def)
    then show ?thesis
      unfolding step by (simp add: tasks_field)
  qed
qed (simp add: step_tcp_def assms)

section \<open>The callbacks\<close>

text \<open>A new stream with its goroutine.\<close>

lemma tcp_new_stream_inv:
  fixes h i
  defines "p \<equiv> length (th_heap h)"
  defines "h1 \<equiv> h\<lparr>th_heap := th_heap h @ [new_tcp_stream i], th_streams := (th_streams h)(i \<mapsto> p), th_active := th_active h + 1\<rparr>"
  assumes "tcp_inv lib T h" "target_ok lib (th_allow h) host port" "th_max h > 0 \<longrightarrow> length T < th_max h"
  shows "tcp_inv lib (TcpDial p i host port final # T) h1"
proof -
  have old: "tstrm h1 q = tstrm h q" if "q < p" for q
    using that by (simp add: h1_def p_def nth_append)
  have new: "tstrm h1 p = new_tcp_stream i" "length (th_heap h1) = Suc p" "th_conns h1 = th_conns h" "th_allow h1 = th_allow h" "th_out h1 = th_out h"
    by (simp_all add: h1_def p_def)
  have task: "tcp_task_ok lib h s" "task_strm s < p" "ts_id (tstrm h (task_strm s)) = task_id s" "task_conn s = Some x \<Longrightarrow> x < length (th_conns h)"
    if "s \<in> set T" for s x
    using assms(3) that by (auto simp: tcp_inv_def p_def)
  have strm: "strm_ok h q" if "q < p" for q
    using assms(3) that by (simp add: tcp_inv_def p_def)
  have dats: "tcp_dats q h1 = tcp_dats q h" for q
    by (rule dats_th_out) (rule new(5))
  have "\<forall>f \<in> set (th_out h). \<forall>q. fst f = Some q \<longrightarrow> q < p"
    using assms(3) by (simp add: tcp_inv_def p_def)
  then have none: "tcp_dats p h = []"
    by (auto simp: tcp_dats_def concat_eq_Nil_conv)
  have tasks: "tcp_task_ok lib h1 s \<and> task_strm s < length (th_heap h1) \<and> ts_id (tstrm h1 (task_strm s)) = task_id s \<and>
      (\<forall>x. task_conn s = Some x \<longrightarrow> x < length (th_conns h1))" if "s \<in> set (TcpDial p i host port final # T)" for s
  proof (cases "s = TcpDial p i host port final")
    case True
    then show ?thesis
      using assms(4) new by (simp add: new_tcp_stream_def)
  next
    case False
    then have s: "s \<in> set T"
      using that by simp
    have "ts_conn (tstrm h1 q) \<noteq> Some x" if "q < Suc p" "\<forall>q < p. ts_conn (tstrm h q) \<noteq> Some x" for q x
      using that old [of q] new(1) by (cases "q = p") (auto simp: new_tcp_stream_def)
    then have "tcp_task_ok lib h1 s"
      using task(1,2) [OF s] old new(2-4) dats by (cases s) (simp_all flip: p_def)
    then show ?thesis
      using task(2-4) [OF s] old new(2,3) by simp
  qed
  have "task_strm ` set T \<subseteq> {..<p}"
    using task(2) by auto
  then have dist: "distinct (map task_strm (TcpDial p i host port final # T))"
    using assms(3) by (auto simp: tcp_inv_def)
  have dist2: "distinct (List.map_filter task_conn (TcpDial p i host port final # T))"
    using assms(3) by (simp add: tcp_inv_def map_filter_simps)
  have routes: "q \<in> task_strm ` set (TcpDial p i host port final # T) \<and> ts_id (tstrm h1 q) = j" if "th_streams h1 j = Some q" for j q
  proof (cases "j = i")
    case True
    then show ?thesis
      using that new(1) by (simp add: h1_def new_tcp_stream_def)
  next
    case False
    then have "q \<in> task_strm ` set T" "ts_id (tstrm h q) = j"
      using that assms(3) by (auto simp: h1_def tcp_inv_def)
    then show ?thesis
      using old task(2) by auto
  qed
  have opens: "Some y \<in> task_conn ` set (TcpDial p i host port final # T)" if "y < length (th_conns h1)" "tn_open (th_conns h1 ! y)" for y
    using assms(3) that new(3) by (auto simp: tcp_inv_def)
  have strms: "strm_ok h1 q" if "q < length (th_heap h1)" for q
    using that strm [of q] old [of q] new none dats
    by (cases "q = p") (simp_all add: strm_ok_def new_tcp_stream_def cong: option.case_cong)
  have uniq: "q = r \<or> ts_conn (tstrm h1 q) = None"
    if "q < length (th_heap h1)" "r < length (th_heap h1)" "ts_conn (tstrm h1 q) = ts_conn (tstrm h1 r)" for q r
  proof (cases "q = p \<or> r = p")
    case True
    then show ?thesis
      using that(3) new(1) by (auto simp: new_tcp_stream_def)
  next
    case False
    then have "q < p" "r < p"
      using that new(2) by simp_all
    moreover from this have "ts_conn (tstrm h q) = ts_conn (tstrm h r) \<longrightarrow> q = r \<or> ts_conn (tstrm h q) = None"
      using assms(3) by (simp add: tcp_inv_def p_def)
    ultimately show ?thesis
      using that(3) old by simp
  qed
  have nums: "th_active h1 = int (length (TcpDial p i host port final # T))"
      "0 < th_max h1 \<longrightarrow> length (TcpDial p i host port final # T) \<le> th_max h1"
    using assms(3,5) by (auto simp: tcp_inv_def h1_def)
  have outs: "q < length (th_heap h1)" if "f \<in> set (th_out h1)" "fst f = Some q" for f q
    using assms(3) that new(2,5) unfolding tcp_inv_def p_def by (metis less_SucI)
  have targets: "target_ok lib (th_allow h1) (tn_host c) (tn_port c)" if "c \<in> set (th_conns h1)" for c
    using assms(3) that new(3,4) by (simp add: tcp_inv_def)
  show ?thesis
    unfolding tcp_inv_def
    apply (intro conjI nums dist dist2)
    subgoal using tasks by blast
    subgoal by (intro allI impI) (rule routes)
    subgoal by (intro allI impI) (rule opens)
    subgoal using targets by blast
    subgoal using strms by blast
    subgoal by (intro allI impI) (rule uniq)
    subgoal by (intro ballI allI impI) (rule outs)
    done
qed

lemma upd_tasks [simp]: "th_tasks (upd_strm p f h) = th_tasks h" "th_tasks (upd_conn x g h) = th_tasks h" "th_tasks (ts_close p h) = th_tasks h"
  "th_tasks (close_old r h) = th_tasks h"
  by (simp_all add: close_old_def upd_strm_def upd_conn_def ts_close_def close_conn_def Let_def split: option.split)

lemma close_old_tasks: "close_old r (h\<lparr>th_tasks := ts\<rparr>) = (close_old r h)\<lparr>th_tasks := ts\<rparr>"
  by (simp add: close_old_def ts_close_def upd_strm_def close_conn_def upd_conn_def Let_def split: option.split)

text \<open>A request is served, or refused with a message.\<close>

lemma OnSYN_refused:
  assumes "Unmarshal put_tcpopen \<lparr>to_host = [], to_port = 0\<rparr> (js_parse env payload) = (m, d)"
    and "\<not> (d \<and> target_ok lib (th_allow h) (to_host m) (to_port m) \<and> \<not> (th_max h > 0 \<and> th_active h \<ge> int (th_max h)))"
  shows "\<exists>msg. tcp_OnSYN env lib ok i payload final h = tcp_sendError env ok None i msg h"
  using assms by (auto simp: tcp_OnSYN_def target_ok_def split: option.split)

lemma OnSYN_new:
  fixes h i m final
  defines "t \<equiv> TcpDial (length (th_heap h)) i (to_host m) (to_port m) final"
  assumes "Unmarshal put_tcpopen \<lparr>to_host = [], to_port = 0\<rparr> (js_parse env payload) = (m, d)"
    and "d \<and> target_ok lib (th_allow h) (to_host m) (to_port m) \<and> \<not> (th_max h > 0 \<and> th_active h \<ge> int (th_max h))"
  shows "tcp_OnSYN env lib ok i payload final h =
      (close_old (th_streams h i) (h\<lparr>th_heap := th_heap h @ [new_tcp_stream i], th_streams := (th_streams h)(i \<mapsto> length (th_heap h)), th_active := th_active h + 1\<rparr>))
        \<lparr>th_tasks := th_tasks h @ [t]\<rparr>"
    and "th_tasks (tcp_OnSYN env lib ok i payload final h) = th_tasks h @ [t]"
proof -
  have "(th_max h > 0 \<and> th_active h \<ge> int (th_max h)) = False"
    using assms(3) by blast
  then show new: "tcp_OnSYN env lib ok i payload final h =
      (close_old (th_streams h i) (h\<lparr>th_heap := th_heap h @ [new_tcp_stream i], th_streams := (th_streams h)(i \<mapsto> length (th_heap h)), th_active := th_active h + 1\<rparr>))
        \<lparr>th_tasks := th_tasks h @ [t]\<rparr>"
    unfolding tcp_OnSYN_def assms(2) prod.case Let_def t_def close_old_tasks [symmetric]
    using assms(3) by (simp only: target_ok_def if_False if_True not_True_eq_False option.case)
  show "th_tasks (tcp_OnSYN env lib ok i payload final h) = th_tasks h @ [t]"
    unfolding new by simp
qed

lemma OnSYN_room:
  assumes "tcp_inv lib (th_tasks h) h"
    and "d \<and> target_ok lib (th_allow h) host port \<and> \<not> (th_max h > 0 \<and> th_active h \<ge> int (th_max h))"
  shows "th_max h > 0 \<longrightarrow> length (th_tasks h) < th_max h"
  using assms by (auto simp: tcp_inv_def)

lemma tcp_OnSYN_inv:
  assumes "tcp_inv lib (th_tasks h) h"
  shows "tcp_inv lib (th_tasks (tcp_OnSYN env lib ok i payload final h)) (tcp_OnSYN env lib ok i payload final h)"
proof -
  obtain m d where m: "Unmarshal put_tcpopen \<lparr>to_host = [], to_port = 0\<rparr> (js_parse env payload) = (m, d)"
    by fastforce
  show ?thesis
  proof (cases "d \<and> target_ok lib (th_allow h) (to_host m) (to_port m) \<and> \<not> (th_max h > 0 \<and> th_active h \<ge> int (th_max h))")
    case True
    let ?t = "TcpDial (length (th_heap h)) i (to_host m) (to_port m) final"
    let ?h = "h\<lparr>th_heap := th_heap h @ [new_tcp_stream i], th_streams := (th_streams h)(i \<mapsto> length (th_heap h)), th_active := th_active h + 1\<rparr>"
    have "tcp_inv lib (?t # th_tasks h) ?h"
      using True by (intro tcp_new_stream_inv [OF assms _ OnSYN_room [OF assms True]]) simp
    then have "tcp_inv lib (th_tasks h @ [?t]) ?h"
      by (rule tcp_inv_mset) simp
    then show ?thesis
      unfolding OnSYN_new(2) [OF m True] unfolding OnSYN_new(1) [OF m True]
      by (intro tasks_field quiet_inv [OF _ quiet_close_old])
  next
    case False
    then obtain msg where "tcp_OnSYN env lib ok i payload final h = tcp_sendError env ok None i msg h"
      using OnSYN_refused [OF m False] by blast
    then show ?thesis
      using quiet_inv [OF assms quiet_send] by (simp add: tcp_sendError_def)
  qed
qed

lemma own_at:
  assumes "tcp_inv lib T h" "t \<in> set T" "own_step lib t t h h'" "tcp_task_ok lib h' t" "strm_ok h' (task_strm t)"
  shows "tcp_inv lib T h'"
proof -
  obtain xs ys where T: "T = xs @ t # ys"
    using assms(2) split_list by metis
  have "tcp_inv lib (t # xs @ ys) h"
    by (rule tcp_inv_mset [OF assms(1)]) (simp add: T)
  then have "tcp_inv lib (t # xs @ ys) h'"
    by (rule tcp_own_inv [OF _ assms(3-5)])
  then show ?thesis
    by (rule tcp_inv_mset) (simp add: T)
qed

text \<open>Bytes given to a stream reach its connection, or the first of them do and the connection is closed.\<close>

lemma write_inv:
  assumes "tcp_inv lib T h" "p \<in> task_strm ` set T" "ts_conn (tstrm h p) = Some x"
    and h': "h' = upd_conn x (\<lambda>c. c\<lparr>tn_in := tn_in c @ a, tn_open := tn_open c \<and> b\<rparr>) (upd_strm p (\<lambda>s. s\<lparr>ts_given := ts_given s @ payload\<rparr>) h)"
    and a: "if tn_open (th_conns h ! x) then a = payload \<or> (prefix a payload \<and> \<not> b) else a = []"
  shows "tcp_inv lib T h'"
proof -
  obtain t where t: "t \<in> set T" "task_strm t = p"
    using assms(2) by auto
  have p: "p < length (th_heap h)" "strm_ok h p" "tcp_task_ok lib h t"
    using assms(1) t by (auto simp: tcp_inv_def)
  have x: "x < length (th_conns h)"
    using p(2) assms(3) by (simp add: strm_ok_def)
  have mine: "task_conn t = Some x" if "tn_open (th_conns h ! x)"
  proof -
    have "Some x \<in> task_conn ` set T"
      using assms(1) x that by (simp add: tcp_inv_def)
    then obtain s where s: "s \<in> set T" "task_conn s = Some x"
      by (metis imageE)
    obtain xs ys where T: "T = xs @ s # ys"
      using s(1) split_list by metis
    have "tcp_inv lib (s # xs @ ys) h"
      by (rule tcp_inv_mset [OF assms(1)]) (simp add: T)
    then have "p = task_strm s"
      using own_conn [OF _ s(2) p(1)] assms(3) by blast
    moreover have "t = s \<or> t \<in> set (xs @ ys)"
      using t(1) T by simp
    ultimately show ?thesis
      using others_strm [OF \<open>tcp_inv lib (s # xs @ ys) h\<close>] t(2) s(2) by metis
  qed
  have heap: "th_heap h' = (th_heap h)[p := (tstrm h p)\<lparr>ts_given := ts_given (tstrm h p) @ payload\<rparr>]"
    and conns: "th_conns h' = (th_conns h)[x := (th_conns h ! x)\<lparr>tn_in := tn_in (th_conns h ! x) @ a, tn_open := tn_open (th_conns h ! x) \<and> b\<rparr>]"
    and rest: "th_allow h' = th_allow h" "th_max h' = th_max h" "th_active h' = th_active h" "th_streams h' = th_streams h" "th_out h' = th_out h"
    by (simp_all add: h' upd_strm_def upd_conn_def)
  have dats: "tcp_dats q h' = tcp_dats q h" for q
    by (rule dats_th_out) (rule rest(5))
  have same: "tstrm h' q = tstrm h q" if "q < length (th_heap h)" "q \<noteq> p" for q
    using that by (simp add: heap)
  have at_p: "tstrm h' p = (tstrm h p)\<lparr>ts_given := ts_given (tstrm h p) @ payload\<rparr>"
    and at_x: "th_conns h' ! x = (th_conns h ! x)\<lparr>tn_in := tn_in (th_conns h ! x) @ a, tn_open := tn_open (th_conns h ! x) \<and> b\<rparr>"
    using p(1) x by (simp_all add: heap conns)
  have other: "th_conns h' ! y = th_conns h ! y" if "task_conn t \<noteq> Some y" "y < length (th_conns h)" for y
  proof (cases "y = x")
    case True
    then have "\<not> tn_open (th_conns h ! x)"
      using mine that(1) by auto
    then show ?thesis
      using True at_x a by simp
  qed (use that(2) in \<open>simp add: conns\<close>)
  have targets: "target_ok lib (th_allow h) (tn_host (th_conns h' ! y)) (tn_port (th_conns h' ! y))" if "y < length (th_conns h')" for y
    using assms(1) that by (cases "y = x") (auto simp: tcp_inv_def conns)
  have "own_step lib t t h h'"
    unfolding own_step_def t(2) using rest same at_p other targets dats by (auto simp: heap conns)
  moreover have "tcp_task_ok lib h' t"
    using p(3) t(2) assms(3) at_p at_x dats
    by (cases t) (auto simp: rest)
  moreover have "strm_ok h' p"
    using p(2) assms(3) at_p at_x dats a x by (auto simp: strm_ok_def conns split: if_splits)
  ultimately show ?thesis
    using own_at [OF assms(1) t(1)] t(2) by simp
qed

lemma routed: "tcp_inv lib T h \<Longrightarrow> th_streams h i = Some p \<Longrightarrow> p \<in> task_strm ` set T"
  by (simp add: tcp_inv_def)

lemma WriteFull_prefix: "WriteFull rs bs = (sent, full) \<Longrightarrow> prefix sent bs \<and> (full \<longrightarrow> sent = bs)"
proof (induction rs bs arbitrary: sent full rule: WriteFull.induct)
  case (3 n err rs b bs)
  show ?case
  proof (cases "n < 0 \<or> n > int (length (b # bs)) \<or> err \<or> n = 0")
    case True
    then show ?thesis
      using 3(2) by (auto split: if_splits simp: take_is_prefix)
  next
    case False
    obtain more ok where rest: "WriteFull rs (drop (nat n) (b # bs)) = (more, ok)"
      by fastforce
    have "prefix more (drop (nat n) (b # bs)) \<and> (ok \<longrightarrow> more = drop (nat n) (b # bs))"
      using False by (intro 3(1) rest) simp_all
    moreover have "sent = take (nat n) (b # bs) @ more" "full = ok"
      using 3(2) False rest by simp_all
    ultimately show ?thesis
      by (metis append_take_drop_id same_prefix_prefix)
  qed
qed simp_all

lemma noted: "th_streams h i = Some p \<Longrightarrow> note_tcp i payload h = upd_strm p (\<lambda>s. s\<lparr>ts_given := ts_given s @ payload\<rparr>) h"
  by (simp add: note_tcp_def)

lemma note_fields [simp]:
  "th_streams (note_tcp i payload h) = th_streams h" "th_conns (note_tcp i payload h) = th_conns h" "th_tasks (note_tcp i payload h) = th_tasks h"
  "th_allow (note_tcp i payload h) = th_allow h" "th_max (note_tcp i payload h) = th_max h"
  by (simp_all add: note_tcp_def upd_strm_def split: option.split)

text \<open>A payload that is not written in full ends with the stream's connection closed, or with the stream cancelled.\<close>

lemma unwritten_inv:
  assumes "tcp_inv lib T h" "th_streams h i = Some p"
  shows "tcp_inv lib T (ts_close p (note_tcp i payload h))"
proof -
  note task = routed [OF assms]
  then have p: "p < length (th_heap h)" "strm_ok h p"
    using assms(1) by (auto simp: tcp_inv_def)
  define h0 where "h0 = upd_strm p (\<lambda>s. s\<lparr>ts_given := ts_given s @ payload\<rparr>) h"
  show ?thesis
  proof (cases "ts_conn (tstrm h p)")
    case None
    then have "ts_close p h0 = upd_strm p (\<lambda>s. s\<lparr>ts_given := ts_given s @ payload, ts_cancelled := True\<rparr>) h"
      using p(1) by (simp add: h0_def ts_close_def upd_strm_def Let_def)
    moreover have "quiet h (upd_strm p (\<lambda>s. s\<lparr>ts_given := ts_given s @ payload, ts_cancelled := True\<rparr>) h)"
      using None by (intro quiet_upd_strm) (simp add: quiet_strm_def)
    ultimately show ?thesis
      using quiet_inv [OF assms(1)] noted [OF assms(2)] by (simp add: h0_def)
  next
    case (Some x)
    then have "x < length (th_conns h)"
      using p(2) by (simp add: strm_ok_def)
    then have "ts_close p h0 = cancel_strm p (upd_conn x (\<lambda>c. c\<lparr>tn_in := tn_in c @ [], tn_open := tn_open c \<and> False\<rparr>) h0)"
      using Some p(1) by (simp add: h0_def ts_close_def cancel_strm_def close_conn_def upd_conn_def upd_strm_def Let_def)
    then show ?thesis
      using quiet_inv [OF write_inv [OF assms(1) task Some refl, where a = "[]" and b = False and payload = payload] quiet_cancel, of p] noted [OF assms(2)]
      by (simp add: h0_def)
  qed
qed

lemma tcp_OnDAT_inv:
  assumes "tcp_inv lib T h" "tcp_OnDAT late rs i payload (note_tcp i payload h) = Some (h', ok)"
  shows "tcp_inv lib T h'"
proof (cases "th_streams h i")
  case None
  then show ?thesis
    using assms by (simp add: tcp_OnDAT_def note_tcp_def)
next
  case (Some p)
  note task = routed [OF assms(1) Some]
  then have p: "p < length (th_heap h)" "strm_ok h p"
    using assms(1) by (auto simp: tcp_inv_def)
  define h0 where "h0 = note_tcp i payload h"
  have h0: "h0 = upd_strm p (\<lambda>s. s\<lparr>ts_given := ts_given s @ payload\<rparr>) h"
    by (simp add: h0_def noted [OF Some])
  obtain h1 b where written: "ts_write late rs p payload h0 = (h1, b)"
    by fastforce
  then have h': "h' = (if b then h1 else ts_close p h1)"
    using assms(2) Some by (simp add: tcp_OnDAT_def h0_def split: if_splits bool.splits)
  show ?thesis
  proof (cases "waitConn late p h0")
    case None
    then have "h' = ts_close p h0"
      using written h' by (simp add: ts_write_def)
    then show ?thesis
      using unwritten_inv [OF assms(1) Some] by (simp add: h0_def)
  next
    case conn: (Some x)
    have x: "ts_conn (tstrm h p) = Some x" "x < length (th_conns h)"
      using conn p by (auto simp: waitConn_def strm_ok_def h0 upd_strm_def split: if_splits)
    define wr where "wr a b = upd_conn x (\<lambda>c. c\<lparr>tn_in := tn_in c @ a, tn_open := tn_open c \<and> b\<rparr>) h0" for a b
    have inv: "tcp_inv lib T (wr a b)"
      if "if tn_open (th_conns h ! x) then a = payload \<or> (prefix a payload \<and> \<not> b) else a = []" for a b
      using write_inv [OF assms(1) task x(1) _ that] by (simp add: wr_def h0)
    have wr_close: "ts_close p (wr a True) = cancel_strm p (wr a False)" for a
      using x p(1) by (simp add: h0 wr_def ts_close_def cancel_strm_def close_conn_def upd_conn_def upd_strm_def Let_def)
    obtain sent full where sent: "WriteFull rs payload = (sent, full)"
      by fastforce
    have "conn_write rs x payload h0 = (wr sent True, full)" if "tn_open (th_conns h ! x)"
      using that sent by (simp add: conn_write_def wr_def h0_def)
    moreover have "conn_write rs x payload h0 = (wr [] True, payload = [])" if "\<not> tn_open (th_conns h ! x)"
      using that by (simp add: conn_write_def wr_def h0_def upd_conn_def)
    ultimately have "(h1, b) = (if tn_open (th_conns h ! x) then (wr sent True, full) else (wr [] True, payload = []))"
      using written conn by (simp add: ts_write_def)
    then have "h' \<in> (if tn_open (th_conns h ! x) then if full then {wr sent True} else {cancel_strm p (wr sent False)}
        else {wr [] True, cancel_strm p (wr [] False)})"
      using h' wr_close by (auto split: if_splits)
    then show ?thesis
      using inv [of "[]" True] inv [of sent True] quiet_inv [OF inv quiet_cancel, of "[]" False p] quiet_inv [OF inv quiet_cancel, of sent False p]
        WriteFull_prefix [OF sent] by (auto split: if_splits)
  qed
qed

lemma tcp_OnFIN_inv:
  assumes "tcp_inv lib T h" "tcp_OnFIN late rs ok i payload (note_tcp i payload h) = Some (h', b)"
  shows "tcp_inv lib T h'"
proof (cases "th_streams h i")
  case None
  then show ?thesis
    using assms by (simp add: tcp_OnFIN_def note_tcp_def)
next
  case (Some p)
  define h0 where "h0 = note_tcp i payload h"
  have route: "th_streams h0 i = Some p"
    by (simp add: h0_def Some)
  have "h0 = h" if "payload = []"
    using that by (simp add: h0_def noted [OF Some] upd_strm_def)
  then have inv: "tcp_inv lib T h1" if "(if payload \<noteq> [] then tcp_OnDAT late rs i payload h0 else Some (h0, True)) = Some (h1, b1)" for h1 b1
    using that assms(1) tcp_OnDAT_inv [OF assms(1), of late rs i payload h1 b1] by (auto simp: h0_def split: if_splits)
  obtain h1 b1 where h1: "(if payload \<noteq> [] then tcp_OnDAT late rs i payload h0 else Some (h0, True)) = Some (h1, b1)"
    using assms(2) route by (cases "if payload \<noteq> [] then tcp_OnDAT late rs i payload h0 else Some (h0, True)")
      (auto simp: tcp_OnFIN_def h0_def [symmetric] split: if_splits)
  obtain h2 b2 where h2: "ts_closeWrite late ok p h1 = (h2, b2)"
    by fastforce
  have "tcp_inv lib T h2"
    using quiet_inv [OF inv [OF h1] quiet_closeWrite, of late ok p] h2 by simp
  moreover have "h' \<in> {h1, h2, ts_close p h2}"
    using assms(2) route h1 h2
    by (cases b1; cases b2) (auto simp: tcp_OnFIN_def h0_def [symmetric] split: if_splits)
  ultimately show ?thesis
    using inv [OF h1] quiet_inv [OF _ quiet_close] by auto
qed

lemma returned_inv:
  assumes "\<And>h1 b. r = Some (h1, b) \<Longrightarrow> P h1" "P h"
  shows "P (returned h r)"
  using assms by (auto simp: returned_def split: option.split prod.split)

lemma write_tasks: "th_tasks (fst (ts_write late rs p payload h)) = th_tasks h"
  by (simp add: ts_write_def conn_write_def split: option.split prod.split)

lemma closeWrite_tasks: "th_tasks (fst (ts_closeWrite late ok p h)) = th_tasks h"
  by (simp add: ts_closeWrite_def split: option.split)

lemma OnDAT_cases:
  assumes "tcp_OnDAT late rs i payload h = Some (h', b)"
  shows "h' = h \<or> (\<exists>p. h' = fst (ts_write late rs p payload h) \<or> h' = ts_close p (fst (ts_write late rs p payload h)))"
  using assms by (auto simp: tcp_OnDAT_def split: option.splits if_splits prod.splits bool.splits) (metis fst_conv)+

lemma OnFIN_cases:
  assumes "tcp_OnFIN late rs ok i payload h = Some (h', b)"
  shows "\<exists>h1 b1. (h1 = h \<or> tcp_OnDAT late rs i payload h = Some (h1, b1)) \<and>
    (h' = h1 \<or> (\<exists>p. h' = fst (ts_closeWrite late ok p h1) \<or> h' = ts_close p (fst (ts_closeWrite late ok p h1))))"
  using assms by (auto simp: tcp_OnFIN_def split: option.splits if_splits prod.splits bool.splits) (metis fst_conv)+

lemma OnDAT_tasks: "tcp_OnDAT late rs i payload h = Some (h', b) \<Longrightarrow> th_tasks h' = th_tasks h"
  using OnDAT_cases [of late rs i payload h h' b] write_tasks [of late rs _ payload h] by auto

lemma OnFIN_tasks: "tcp_OnFIN late rs ok i payload h = Some (h', b) \<Longrightarrow> th_tasks h' = th_tasks h"
  using OnFIN_cases [of late rs ok i payload h h' b] OnDAT_tasks closeWrite_tasks by fastforce

lemma callback_tasks [simp]:
  "th_tasks (returned h (tcp_OnDAT late rs i payload (note_tcp i payload h))) = th_tasks h"
  "th_tasks (returned h (tcp_OnFIN late rs ok i payload (note_tcp i payload h))) = th_tasks h"
  "th_tasks (tcp_OnReset i h) = th_tasks h" "th_tasks (tcp_CloseAll h) = th_tasks h"
proof -
  show "th_tasks (returned h (tcp_OnDAT late rs i payload (note_tcp i payload h))) = th_tasks h"
    by (rule returned_inv) (simp_all add: OnDAT_tasks)
  show "th_tasks (returned h (tcp_OnFIN late rs ok i payload (note_tcp i payload h))) = th_tasks h"
    by (rule returned_inv) (simp_all add: OnFIN_tasks)
  show "th_tasks (tcp_OnReset i h) = th_tasks h"
    by (simp add: tcp_OnReset_def close_old_def split: option.split)
  have "th_tasks (fold ts_close ps k) = th_tasks k" for ps k
    by (induction ps arbitrary: k) simp_all
  then show "th_tasks (tcp_CloseAll h) = th_tasks h"
    by (simp add: tcp_CloseAll_def)
qed

lemma step_inv:
  assumes "tcp_inv lib (th_tasks h) h"
  shows "tcp_inv lib (th_tasks (tcp_step env lib ev h)) (tcp_step env lib ev h)"
proof (cases ev)
  case (TcpSYN i payload final ok)
  then show ?thesis
    using tcp_OnSYN_inv [OF assms] by simp
next
  case (TcpTask k c)
  then show ?thesis
    using step_tcp_inv [OF assms] by simp
next
  case (TcpReset i)
  have "quiet h (tcp_OnReset i h)"
    by (simp add: tcp_OnReset_def quiet_close_old)
  then show ?thesis
    using TcpReset quiet_inv [OF assms] by simp
next
  case (TcpDAT i payload late rs)
  then show ?thesis
    using returned_inv [of _ "tcp_inv lib (th_tasks h)", OF tcp_OnDAT_inv [OF assms] assms] by simp
next
  case (TcpFIN i payload late rs ok)
  then show ?thesis
    using returned_inv [of _ "tcp_inv lib (th_tasks h)", OF tcp_OnFIN_inv [OF assms] assms] by simp
qed (use assms quiet_inv [OF _ quiet_CloseAll] in simp_all)

lemma reachable_inv: "tcp_reachable env lib allow h \<Longrightarrow> tcp_inv lib (th_tasks h) h"
proof (induction rule: tcp_reachable.induct)
  case start
  show ?case
    by (simp add: NewTCP_def tcp_inv_def map_filter_simps)
next
  case (step h ev)
  show ?case
    by (rule step_inv [OF step.IH])
qed

end
