(* ===== verification/TcpStream_Props.thy ===== *)
theory TcpStream_Props
  imports TcpStream_Laws
begin

text \<open>
  The properties of forwarded connections, over every interleaving of the callbacks and the goroutines,
  and the end of a handler that was closed: a stream that left the table is cancelled and its connection
  closed, so that every goroutine of a closed handler has only a few steps left.
\<close>

section \<open>Streams that left the table\<close>

definition left_ok :: "tcp_handler \<Rightarrow> nat \<Rightarrow> bool" where
  "left_ok h p \<longleftrightarrow> cancelled h p \<and> (\<forall>x. ts_conn (tstrm h p) = Some x \<longrightarrow> \<not> tn_open (th_conns h ! x))"

definition left_inv :: "tcp_task list \<Rightarrow> tcp_handler \<Rightarrow> bool" where
  "left_inv T h \<longleftrightarrow>
     (\<forall>p < length (th_heap h). th_streams h (ts_id (tstrm h p)) = Some p \<or> left_ok h p) \<and>
     (\<forall>p i. TcpRemove p i \<in> set T \<longrightarrow> cancelled h p)"

text \<open>Streams are cancelled and connections closed, never the other way.\<close>

definition shuts :: "tcp_handler \<Rightarrow> tcp_handler \<Rightarrow> bool" where
  "shuts h h' \<longleftrightarrow>
     th_streams h' = th_streams h \<and> length (th_heap h') = length (th_heap h) \<and> length (th_conns h) \<le> length (th_conns h') \<and>
     (th_ctx h \<longrightarrow> th_ctx h') \<and>
     (\<forall>p < length (th_heap h). ts_id (tstrm h' p) = ts_id (tstrm h p) \<and> ts_conn (tstrm h' p) = ts_conn (tstrm h p) \<and>
        (ts_cancelled (tstrm h p) \<longrightarrow> ts_cancelled (tstrm h' p))) \<and>
     (\<forall>x < length (th_conns h). tn_open (th_conns h' ! x) \<longrightarrow> tn_open (th_conns h ! x))"

lemma shuts_refl [simp]: "shuts h h"
  by (simp add: shuts_def)

lemma shuts_trans: "shuts h h' \<Longrightarrow> shuts h' h'' \<Longrightarrow> shuts h h''"
  by (simp add: shuts_def)

lemma shuts_upd_strm:
  "ts_id (f (tstrm h p)) = ts_id (tstrm h p) \<Longrightarrow> ts_conn (f (tstrm h p)) = ts_conn (tstrm h p) \<Longrightarrow>
   (ts_cancelled (tstrm h p) \<longrightarrow> ts_cancelled (f (tstrm h p))) \<Longrightarrow> shuts h (upd_strm p f h)"
  by (simp add: shuts_def upd_strm_def nth_upd)

lemma shuts_upd_conn: "(tn_open (f (th_conns h ! x)) \<longrightarrow> tn_open (th_conns h ! x)) \<Longrightarrow> shuts h (upd_conn x f h)"
  by (simp add: shuts_def upd_conn_def nth_upd)

lemma shuts_close_conn: "shuts h (close_conn x h)"
  unfolding close_conn_def by (rule shuts_upd_conn) simp

lemma shuts_cancel: "shuts h (cancel_strm p h)"
  unfolding cancel_strm_def by (rule shuts_upd_strm) simp_all

lemma shuts_close: "shuts h (ts_close p h)"
  unfolding ts_close_def Let_def
  using shuts_cancel [of h p] shuts_trans [OF shuts_cancel shuts_close_conn]
  by (simp add: cancel_strm_def split: option.split)

lemma shuts_close_old: "shuts h (close_old r h)"
  by (simp add: close_old_def shuts_close split: option.split)

lemma shuts_send: "shuts h (th_send ok w i fl b h)"
  by (simp add: shuts_def)

lemma shuts_CloseAll: "shuts h (tcp_CloseAll h)"
proof -
  have "shuts h (fold ts_close ps h)" for ps h
    by (induction ps arbitrary: h) (auto intro: shuts_trans [OF shuts_close])
  moreover have "shuts h (h\<lparr>th_ctx := True\<rparr>)"
    by (simp add: shuts_def)
  ultimately show ?thesis
    unfolding tcp_CloseAll_def by (blast intro: shuts_trans)
qed

lemma shuts_write: "shuts h (fst (ts_write late rs p payload h))"
  by (simp add: ts_write_def conn_write_def shuts_upd_conn split: option.split prod.split)

lemma shuts_note: "shuts h (note_tcp i payload h)"
  by (simp add: note_tcp_def shuts_upd_strm split: option.split)

lemma shuts_closeWrite: "shuts h (fst (ts_closeWrite late ok p h))"
  by (auto simp: ts_closeWrite_def intro!: shuts_upd_strm split: option.split)

lemma shuts_OnDAT: "tcp_OnDAT late rs i payload h = Some (h', b) \<Longrightarrow> shuts h h'"
  using OnDAT_cases [of late rs i payload h h' b] shuts_write [of h late rs] shuts_trans [OF shuts_write shuts_close] by auto

lemma shuts_OnFIN: "tcp_OnFIN late rs ok i payload h = Some (h', b) \<Longrightarrow> shuts h h'"
proof -
  assume "tcp_OnFIN late rs ok i payload h = Some (h', b)"
  then obtain h1 b1 where h1: "h1 = h \<or> tcp_OnDAT late rs i payload h = Some (h1, b1)"
    and h': "h' = h1 \<or> (\<exists>p. h' = fst (ts_closeWrite late ok p h1) \<or> h' = ts_close p (fst (ts_closeWrite late ok p h1)))"
    using OnFIN_cases by metis
  have "shuts h h1"
    using h1 shuts_OnDAT by auto
  moreover have "shuts h1 h'"
    using h' shuts_closeWrite shuts_trans [OF shuts_closeWrite shuts_close] by auto
  ultimately show ?thesis
    by (rule shuts_trans)
qed

lemma shuts_callback:
  "shuts h (returned h (tcp_OnDAT late rs i payload (note_tcp i payload h)))"
  "shuts h (returned h (tcp_OnFIN late rs ok i payload (note_tcp i payload h)))"
  using shuts_trans [OF shuts_note shuts_OnDAT] shuts_trans [OF shuts_note shuts_OnFIN]
  by (auto intro: returned_inv [where P = "shuts h"])

lemma shuts_cancelled: "shuts h h' \<Longrightarrow> p < length (th_heap h) \<Longrightarrow> cancelled h p \<Longrightarrow> cancelled h' p"
  by (auto simp: shuts_def cancelled_def)

lemma shuts_left_ok:
  assumes "tcp_inv lib T h" "shuts h h'" "p < length (th_heap h)" "left_ok h p"
  shows "left_ok h' p"
proof -
  have "x < length (th_conns h)" if "ts_conn (tstrm h p) = Some x" for x
    using assms(1,3) that by (auto simp: tcp_inv_def strm_ok_def split: option.splits)
  then show ?thesis
    using assms(2,3,4) shuts_cancelled [OF assms(2,3)] by (auto simp: left_ok_def shuts_def)
qed

lemma shuts_left:
  assumes "tcp_inv lib T h" "left_inv T h" "shuts h h'" "\<forall>p i. TcpRemove p i \<in> set T' \<longrightarrow> TcpRemove p i \<in> set T \<or> cancelled h' p"
  shows "left_inv T' h'"
proof -
  have "p < length (th_heap h)" if "TcpRemove p i \<in> set T" for p i
    using assms(1) that by (force simp: tcp_inv_def)
  then have "cancelled h' p" if "TcpRemove p i \<in> set T'" for p i
    using that assms(2,4) shuts_cancelled [OF assms(3)] unfolding left_inv_def by blast
  moreover have "th_streams h' (ts_id (tstrm h' p)) = Some p \<or> left_ok h' p" if "p < length (th_heap h')" for p
  proof -
    have p: "p < length (th_heap h)" "ts_id (tstrm h' p) = ts_id (tstrm h p)" "th_streams h' = th_streams h"
      using that assms(3) by (simp_all add: shuts_def)
    then show ?thesis
      using assms(2) shuts_left_ok [OF assms(1,3) p(1)] by (auto simp: left_inv_def)
  qed
  ultimately show ?thesis
    by (auto simp: left_inv_def)
qed

section \<open>Routes\<close>

text \<open>A goroutine that ends leaves a stream that was cancelled and whose connection is closed.\<close>

lemma last_left_ok:
  assumes "tcp_inv lib (TcpRemove p i # T) h" "cancelled h p"
  shows "left_ok h p"
proof -
  have p: "p < length (th_heap h)" "strm_ok h p"
    using assms(1) by (auto simp: tcp_inv_def)
  have "\<not> tn_open (th_conns h ! x)" if x: "ts_conn (tstrm h p) = Some x" for x
  proof
    assume "tn_open (th_conns h ! x)"
    moreover have "x < length (th_conns h)"
      using p(2) x by (simp add: strm_ok_def)
    ultimately have "Some x \<in> task_conn ` set (TcpRemove p i # T)"
      using assms(1) by (simp add: tcp_inv_def)
    then obtain s where s: "s \<in> set T" "task_conn s = Some x"
      by auto
    obtain xs ys where T: "T = xs @ s # ys"
      using s(1) split_list by metis
    have "tcp_inv lib (s # TcpRemove p i # xs @ ys) h"
      by (rule tcp_inv_mset [OF assms(1)]) (simp add: T)
    then show False
      using own_conn [OF _ s(2) p(1)] others_strm [OF assms(1) s(1)] x by simp
  qed
  then show ?thesis
    using assms(2) by (simp add: left_ok_def)
qed

lemma same_left_ok: "th_ctx h' = th_ctx h \<Longrightarrow> tstrm h' p = tstrm h p \<Longrightarrow> th_conns h' = th_conns h \<Longrightarrow> left_ok h' p = left_ok h p"
  by (simp add: left_ok_def cancelled_def)

lemma remove_left:
  assumes "tcp_inv lib (TcpRemove p i # T) h" "left_inv (TcpRemove p i # T) h"
  shows "left_inv T (remove_stream i p h)"
proof -
  let ?h = "remove_stream i p h"
  have id: "ts_id (tstrm h p) = i"
    using assms(1) by (simp add: tcp_inv_def)
  have same: "th_heap ?h = th_heap h" "th_ctx ?h = th_ctx h" "th_conns ?h = th_conns h"
      "th_streams ?h = (if th_streams h i = Some p then (th_streams h)(i := None) else th_streams h)"
    by (simp_all add: remove_stream_def Let_def)
  have "cancelled h p"
    using assms(2) by (auto simp: left_inv_def)
  then have "left_ok ?h p"
    using last_left_ok [OF assms(1)] same_left_ok [of ?h h p] same by simp
  moreover have "th_streams ?h (ts_id (tstrm ?h q)) = Some q \<or> left_ok ?h q" if "q < length (th_heap h)" "q \<noteq> p" for q
    using assms(2) that same same_left_ok [of ?h h q] by (auto simp: left_inv_def)
  moreover have "cancelled ?h q" if "TcpRemove q j \<in> set T" for q j
    using assms(2) that same by (auto simp: left_inv_def cancelled_def)
  ultimately show ?thesis
    using same(1) unfolding left_inv_def by metis
qed

lemma dialed_left:
  assumes "tcp_inv lib (TcpDialed p i x final # T) h" "left_inv (TcpDialed p i x final # T) h" "tcp_dialed p i x final h = (t', h')"
  shows "left_inv (t' # T) h'"
proof (cases "cancelled h p")
  case True
  then have h': "t' = TcpRemove p i" "h' = close_conn x (upd_strm p (\<lambda>s. s\<lparr>ts_ready := True\<rparr>) h)"
    using assms(3) by (simp_all add: tcp_dialed_def finishDial_def)
  have sh: "shuts h h'"
    unfolding h' by (rule shuts_trans [OF shuts_upd_strm shuts_close_conn]) simp_all
  moreover have "p < length (th_heap h)"
    using assms(1) by (simp add: tcp_inv_def)
  ultimately have "cancelled h' p"
    using True by (blast intro: shuts_cancelled)
  then show ?thesis
    by (intro shuts_left [OF assms(1,2) sh]) (auto simp: h'(1))
next
  case False
  then have h': "t' = TcpAck p i x final" "h' = upd_strm p (\<lambda>s. s\<lparr>ts_conn := Some x, ts_ready := True\<rparr>) h"
    using assms(3) by (simp_all add: tcp_dialed_def finishDial_def)
  have p: "p < length (th_heap h)"
    using assms(1) by (simp add: tcp_inv_def)
  have canc: "cancelled h' q = cancelled h q" if "q < length (th_heap h)" for q
    using that by (auto simp: h'(2) upd_strm_def cancelled_def nth_upd)
  have "th_streams h (ts_id (tstrm h p)) = Some p"
    using assms(2) p False by (auto simp: left_inv_def left_ok_def)
  then have "th_streams h' (ts_id (tstrm h' q)) = Some q \<or> left_ok h' q" if "q < length (th_heap h)" for q
    using assms(2) that canc by (cases "q = p") (auto simp: h'(2) upd_strm_def left_inv_def left_ok_def)
  moreover have "q < length (th_heap h)" if "TcpRemove q j \<in> set T" for q j
    using assms(1) that by (force simp: tcp_inv_def)
  then have "cancelled h' q" if "TcpRemove q j \<in> set T" for q j
    using assms(2) that canc unfolding left_inv_def by (metis list.set_intros(2))
  moreover have "length (th_heap h') = length (th_heap h)"
    by (simp add: h'(2) upd_strm_def)
  ultimately show ?thesis
    unfolding left_inv_def h'(1) by auto
qed

lemma cancel_cancelled: "p < length (th_heap h) \<Longrightarrow> cancelled (cancel_strm p h) p"
  by (simp add: cancelled_def cancel_strm_def upd_strm_def)

lemma close_cancelled: "p < length (th_heap h) \<Longrightarrow> cancelled (ts_close p h) p"
  by (simp add: cancelled_def ts_close_def upd_strm_def close_conn_def upd_conn_def Let_def split: option.split)

lemma close_left_ok:
  assumes "tcp_inv lib T h" "p < length (th_heap h)"
  shows "left_ok (ts_close p h) p"
proof -
  have "x < length (th_conns h)" if "ts_conn (tstrm h p) = Some x" for x
    using assms that by (auto simp: tcp_inv_def strm_ok_def split: option.splits)
  then have "\<not> tn_open (th_conns (ts_close p h) ! x)" if "ts_conn (tstrm h p) = Some x" for x
    using ts_close_closed [OF assms(2) that] that by blast
  moreover have "ts_conn (tstrm (ts_close p h) p) = ts_conn (tstrm h p)"
    using shuts_close [of h p] assms(2) by (simp add: shuts_def)
  ultimately show ?thesis
    using close_cancelled [OF assms(2)] by (simp add: left_ok_def)
qed

lemma Pump_shuts:
  assumes "Pump c p i x h = (t', h')"
  shows "shuts h h'" "t' \<in> {TcpPump p i x, TcpDrained p i x, TcpClose p i x}"
proof -
  define data where "data = (if tn_open (th_conns h ! x) then take FrameSize (tc_data c) else [])"
  define h1 where "h1 = upd_conn x (\<lambda>n. n\<lparr>tn_got := tn_got n @ data\<rparr>) h"
  define h2 where "h2 = (if data \<noteq> [] then th_send True (Some p) i FlagDAT data h1 else h1)"
  have one: "shuts h h1"
    unfolding h1_def by (rule shuts_upd_conn) simp
  then have two: "shuts h h2"
    using shuts_trans [OF one shuts_send] by (simp add: h2_def)
  have "h' \<in> {h1, h2, th_send (tc_fin c) (Some p) i FlagFIN [] h2} \<and> t' \<in> {TcpPump p i x, TcpDrained p i x, TcpClose p i x}"
    using assms unfolding Pump_def Let_def data_def [symmetric] h1_def [symmetric] h2_def [symmetric]
    by (simp split: if_splits)
  then show "shuts h h'" "t' \<in> {TcpPump p i x, TcpDrained p i x, TcpClose p i x}"
    using one two shuts_trans [OF two shuts_send] by auto
qed

text \<open>What every step but the end of a dial does.\<close>

lemma run_shuts:
  assumes "tcp_inv lib (t # T) h" "run_tcp env c t h = (Some t', h')" "\<nexists>p i x final. t = TcpDialed p i x final \<and> \<not> cancelled h p"
  shows "shuts h h'" "t' = TcpRemove p i \<Longrightarrow> cancelled h' p"
proof -
  have p: "task_strm t < length (th_heap h)"
    using assms(1) by (simp add: tcp_inv_def)
  have "shuts h h' \<and> (\<forall>p i. t' = TcpRemove p i \<longrightarrow> cancelled h' p)"
  proof (cases t)
    case t: (TcpDial p i host port final)
    have conn: "ts_conn (tstrm h p) = None"
      using assms(1) t by (simp add: tcp_inv_def)
    show ?thesis
    proof (cases "tc_dial c")
      case True
      then show ?thesis
        using assms(2) t by (auto simp: tcp_dial_def shuts_def nth_append)
    next
      case False
      define h1 where "h1 = (if \<not> cancelled h p then tcp_sendError env (tc_ok c) (Some p) i (''dial '' @ JoinHostPort host (Itoa port) @ '': '' @ tc_err c) h else h)"
      have "t' = TcpRemove p i" "h' = cancel_strm p (fst (finishDial None p h1))"
        using assms(2) False t unfolding h1_def by (auto simp: tcp_dial_def Let_def)
      moreover have "shuts h h1"
        by (simp add: h1_def tcp_sendError_def shuts_send)
      moreover have "shuts h1 (fst (finishDial None p h1))"
        using conn by (auto simp: finishDial_def h1_def tcp_sendError_def intro!: shuts_upd_strm)
      moreover have "length (th_heap (fst (finishDial None p h1))) = length (th_heap h)"
        by (simp add: finishDial_def upd_strm_def h1_def tcp_sendError_def)
      ultimately show ?thesis
        using p t cancel_cancelled [of p "fst (finishDial None p h1)"] shuts_trans [OF shuts_trans shuts_cancel] by auto
    qed
  next
    case t: (TcpDialed p i x final)
    then have h': "t' = TcpRemove p i" "h' = close_conn x (upd_strm p (\<lambda>s. s\<lparr>ts_ready := True\<rparr>) h)"
      using assms(2,3) by (auto simp: tcp_dialed_def finishDial_def)
    have sh: "shuts h h'"
      unfolding h' by (rule shuts_trans [OF shuts_upd_strm shuts_close_conn]) simp_all
    then show ?thesis
      using shuts_cancelled [OF sh, of p] p t assms(3) h'(1) by auto
  next
    case t: (TcpAck p i x final)
    then show ?thesis
      using assms(2) p cancel_cancelled [of p h] shuts_trans [OF shuts_cancel shuts_close_conn] shuts_send
      by (auto simp: tcp_ack_def cancelled_def close_conn_def upd_conn_def split: if_splits)
  next
    case t: (TcpFinal p i x)
    obtain h1 b where h1: "ts_closeWrite (tc_late c) (tc_cw c) p h = (h1, b)"
      by fastforce
    have sh: "shuts h h1"
      using shuts_closeWrite [of h "tc_late c" "tc_cw c" p] h1 by simp
    then have "p < length (th_heap h1)"
      using p t by (simp add: shuts_def)
    then show ?thesis
      using assms(2) t h1 sh close_cancelled shuts_trans [OF sh shuts_close] by (auto simp: tcp_final_def split: bool.splits)
  next
    case t: (TcpPump p i x)
    then have "Pump c p i x h = (t', h')"
      using assms(2) by (cases "Pump c p i x h") simp
    then show ?thesis
      using Pump_shuts by blast
  next
    case t: (TcpDrained p i x)
    then show ?thesis
      using assms(2) by (auto split: if_splits)
  next
    case t: (TcpClose p i x)
    then show ?thesis
      using assms(2) p close_cancelled shuts_close by auto
  qed (use assms(2) in simp)
  then show "shuts h h'" "t' = TcpRemove p i \<Longrightarrow> cancelled h' p"
    by blast+
qed

lemma run_left:
  assumes "tcp_inv lib (t # T) h" "left_inv (t # T) h" "run_tcp env c t h = (r, h')"
  shows "left_inv (resume r T) h'"
proof (cases r)
  case None
  then obtain p i where "t = TcpRemove p i"
    using assms(3) by (cases t) (auto simp: apfst_def map_prod_def split: prod.splits)
  then show ?thesis
    using assms None remove_left by (auto simp: resume_def)
next
  case (Some t')
  show ?thesis
  proof (cases "\<exists>p i x final. t = TcpDialed p i x final \<and> \<not> cancelled h p")
    case True
    then obtain p i x final where "t = TcpDialed p i x final"
      by blast
    then show ?thesis
      using assms Some dialed_left by (cases "tcp_dialed p i x final h") (auto simp: resume_def)
  next
    case False
    note run = run_shuts [OF assms(1) assms(3) [unfolded Some] False]
    show ?thesis
      unfolding resume_def Some using run(2)
      by (auto intro!: shuts_left [OF assms(1,2) run(1)])
  qed
qed

lemma left_mset: "left_inv T h \<Longrightarrow> mset T = mset T' \<Longrightarrow> left_inv T' h"
  unfolding left_inv_def by (metis set_mset_mset)

lemma left_tasks [simp]: "left_inv T (h\<lparr>th_tasks := ts\<rparr>) = left_inv T h"
  by (simp add: left_inv_def left_ok_def cancelled_def)

lemma step_tcp_left:
  assumes "tcp_inv lib (th_tasks h) h" "left_inv (th_tasks h) h"
  shows "left_inv (th_tasks (step_tcp env c k h)) (step_tcp env c k h)"
proof (cases "k < length (th_tasks h)")
  case True
  let ?T = "th_tasks h" and ?R = "take k (th_tasks h) @ drop (Suc k) (th_tasks h)"
  obtain r h1 where run: "run_tcp env c (?T ! k) h = (r, h1)"
    by (cases "run_tcp env c (?T ! k) h")
  note pick = mset_nth_out [OF True]
  have left: "left_inv (resume r ?R) h1"
    by (rule run_left [OF tcp_inv_mset [OF assms(1) pick] left_mset [OF assms(2) pick] run])
  show ?thesis
  proof (cases r)
    case None
    then show ?thesis
      using left True run by (simp add: step_tcp_def resume_def)
  next
    case (Some t)
    have "mset (t # ?R) = mset (?T[k := t])"
      using mset_nth_out [of k "?T[k := t]"] True by simp
    then show ?thesis
      using left_mset [of "t # ?R" h1] left True run Some by (simp add: step_tcp_def resume_def)
  qed
qed (simp add: step_tcp_def assms)

lemma new_stream_left:
  fixes h i
  defines "p \<equiv> length (th_heap h)"
  defines "h1 \<equiv> h\<lparr>th_heap := th_heap h @ [new_tcp_stream i], th_streams := (th_streams h)(i \<mapsto> p), th_active := th_active h + 1\<rparr>"
  assumes "tcp_inv lib T h" "left_inv T h" and inv: "tcp_inv lib (TcpDial p i host port final # T) h1"
  shows "left_inv (TcpDial p i host port final # T) (close_old (th_streams h i) h1)"
proof -
  let ?h = "close_old (th_streams h i) h1"
  have sh: "shuts h1 ?h"
    by (rule shuts_close_old)
  have h1: "length (th_heap h1) = Suc p" "th_streams h1 = (th_streams h)(i \<mapsto> p)" "ts_id (tstrm h1 p) = i" "th_conns h1 = th_conns h" "th_ctx h1 = th_ctx h"
    and old: "\<And>q. q < p \<Longrightarrow> tstrm h1 q = tstrm h q"
    by (simp_all add: h1_def p_def new_tcp_stream_def nth_append)
  have same: "length (th_heap ?h) = Suc p" "th_streams ?h = (th_streams h)(i \<mapsto> p)" "q < Suc p \<Longrightarrow> ts_id (tstrm ?h q) = ts_id (tstrm h1 q)" for q
    using sh h1(1,2) by (simp_all add: shuts_def)
  have "th_streams ?h (ts_id (tstrm ?h q)) = Some q \<or> left_ok ?h q" if q: "q < Suc p" for q
  proof (cases "q = p")
    case True
    then show ?thesis
      using same h1(3) by simp
  next
    case False
    then have qp: "q < p"
      using q by simp
    consider (route) "th_streams h (ts_id (tstrm h q)) = Some q" | (gone) "left_ok h q"
      using assms(4) qp by (auto simp: left_inv_def p_def)
    then show ?thesis
    proof cases
      case route
      then show ?thesis
      proof (cases "ts_id (tstrm h q) = i")
        case True
        then have "?h = ts_close q h1"
          using route by (simp add: close_old_def)
        then show ?thesis
          using close_left_ok [OF inv] q h1(1) by simp
      next
        case False
        then show ?thesis
          using route same q old [OF qp] by simp
      qed
    next
      case gone
      then have "left_ok h1 q"
        using old [OF qp] h1(4,5) by (simp add: left_ok_def cancelled_def)
      then show ?thesis
        using shuts_left_ok [OF inv sh] q h1(1) by simp
    qed
  qed
  moreover have "cancelled ?h q" if "TcpRemove q j \<in> set T" for q j
  proof -
    have "q < p" "cancelled h q"
      using assms(3,4) that by (force simp: tcp_inv_def left_inv_def p_def)+
    then show ?thesis
      using shuts_cancelled [OF sh] old h1(1,5) by (simp add: cancelled_def)
  qed
  ultimately show ?thesis
    using same(1) by (simp add: left_inv_def)
qed

lemma OnSYN_left:
  assumes "tcp_inv lib (th_tasks h) h" "left_inv (th_tasks h) h"
  shows "left_inv (th_tasks (tcp_OnSYN env lib ok i payload final h)) (tcp_OnSYN env lib ok i payload final h)"
proof -
  obtain m d where m: "Unmarshal put_tcpopen \<lparr>to_host = [], to_port = 0\<rparr> (js_parse env payload) = (m, d)"
    by fastforce
  show ?thesis
  proof (cases "d \<and> target_ok lib (th_allow h) (to_host m) (to_port m) \<and> \<not> (th_max h > 0 \<and> th_active h \<ge> int (th_max h))")
    case True
    let ?t = "TcpDial (length (th_heap h)) i (to_host m) (to_port m) final"
    note new = OnSYN_new [OF m True] OnSYN_room [OF assms(1) True]
    have "left_inv (?t # th_tasks h) (close_old (th_streams h i)
        (h\<lparr>th_heap := th_heap h @ [new_tcp_stream i], th_streams := (th_streams h)(i \<mapsto> length (th_heap h)), th_active := th_active h + 1\<rparr>))"
      using True by (intro new_stream_left [OF assms] tcp_new_stream_inv [OF assms(1) _ new(3)]) simp
    then have "left_inv (th_tasks h @ [?t]) (close_old (th_streams h i)
        (h\<lparr>th_heap := th_heap h @ [new_tcp_stream i], th_streams := (th_streams h)(i \<mapsto> length (th_heap h)), th_active := th_active h + 1\<rparr>))"
      by (rule left_mset) simp
    then show ?thesis
      unfolding new(1,2) by simp
  next
    case False
    then obtain msg where "tcp_OnSYN env lib ok i payload final h = tcp_sendError env ok None i msg h"
      using OnSYN_refused [OF m False] by blast
    then show ?thesis
      using shuts_left [OF assms shuts_send] by (simp add: tcp_sendError_def)
  qed
qed

lemma step_left:
  assumes "tcp_inv lib (th_tasks h) h" "left_inv (th_tasks h) h"
  shows "left_inv (th_tasks (tcp_step env lib ev h)) (tcp_step env lib ev h)"
proof (cases ev)
  case (TcpSYN i payload final ok)
  then show ?thesis
    using OnSYN_left [OF assms] by simp
next
  case (TcpTask k c)
  then show ?thesis
    using step_tcp_left [OF assms] by simp
qed (use assms shuts_left [OF assms shuts_callback(1)] shuts_left [OF assms shuts_callback(2)] shuts_left [OF assms shuts_CloseAll]
      shuts_left [OF assms shuts_close_old] in \<open>auto simp: tcp_OnReset_def\<close>)

lemma reachable_left: "tcp_reachable env lib allow h \<Longrightarrow> left_inv (th_tasks h) h"
proof (induction rule: tcp_reachable.induct)
  case start
  show ?case
    by (simp add: NewTCP_def left_inv_def)
next
  case (step h ev)
  show ?case
    by (rule step_left [OF reachable_inv [OF step.hyps] step.IH])
qed

section \<open>A closed handler\<close>

definition shut_down :: "tcp_handler \<Rightarrow> bool" where
  "shut_down h \<longleftrightarrow> th_ctx h \<and> (\<forall>p < length (th_heap h). left_ok h p)"

lemma shuts_shut_down: "tcp_inv lib T h \<Longrightarrow> shut_down h \<Longrightarrow> shuts h h' \<Longrightarrow> shut_down h'"
  using shuts_left_ok [of lib T h h'] by (auto simp: shut_down_def shuts_def)

lemma fold_close_left_ok:
  assumes "tcp_inv lib T h" "\<forall>p \<in> set ps. p < length (th_heap h)" "q < length (th_heap h)" "q \<in> set ps \<or> left_ok h q"
  shows "left_ok (fold ts_close ps h) q"
  using assms
proof (induction ps arbitrary: h)
  case (Cons p ps)
  have "q \<in> set ps \<or> left_ok (ts_close p h) q"
    using Cons.prems(4) close_left_ok [OF Cons.prems(1,3)] shuts_left_ok [OF Cons.prems(1) shuts_close Cons.prems(3)] by auto
  moreover have "length (th_heap (ts_close p h)) = length (th_heap h)"
    using shuts_close [of h p] by (simp add: shuts_def)
  ultimately show ?case
    using Cons.IH [of "ts_close p h"] quiet_inv [OF Cons.prems(1) quiet_close] Cons.prems(2,3) by simp
qed simp

lemma CloseAll_shut_down:
  assumes "tcp_inv lib T h" "left_inv T h"
  shows "shut_down (tcp_CloseAll h)"
proof -
  let ?k = "h\<lparr>th_ctx := True\<rparr>"
  have sh: "shuts h (tcp_CloseAll h)"
    by (rule shuts_CloseAll)
  have ctx: "th_ctx (fold ts_close ps k) = th_ctx k" for ps k
    by (induction ps arbitrary: k)
      (simp_all add: ts_close_def upd_strm_def close_conn_def upd_conn_def Let_def split: option.split)
  have inv: "tcp_inv lib T ?k"
    by (rule quiet_inv [OF assms(1) quiet_ctx(1)])
  have "left_ok (tcp_CloseAll h) q" if "q < length (th_heap h)" for q
  proof -
    have "q \<in> set (tabled h) \<or> left_ok ?k q"
      using assms(2) that by (auto simp: left_inv_def tabled_def left_ok_def cancelled_def)
    then show ?thesis
      unfolding tcp_CloseAll_def using that by (intro fold_close_left_ok [OF inv]) (auto simp: tabled_def)
  qed
  then show ?thesis
    using sh ctx by (simp add: shut_down_def shuts_def tcp_CloseAll_def)
qed

text \<open>How many steps a goroutine of a closed handler has left at most.\<close>

fun steps_left :: "tcp_task \<Rightarrow> nat" where
  "steps_left (TcpDial p i host port final) = 8"
| "steps_left (TcpDialed p i x final) = 7"
| "steps_left (TcpAck p i x final) = 6"
| "steps_left (TcpFinal p i x) = 5"
| "steps_left (TcpPump p i x) = 4"
| "steps_left (TcpDrained p i x) = 3"
| "steps_left (TcpClose p i x) = 2"
| "steps_left (TcpRemove p i) = 1"

abbreviation all_left :: "tcp_task list \<Rightarrow> nat" where
  "all_left T \<equiv> sum_list (map steps_left T)"

lemma remove_shut_down: "shut_down h \<Longrightarrow> shut_down (remove_stream i p h)"
  by (auto simp: shut_down_def left_ok_def cancelled_def remove_stream_def Let_def)

lemma run_shut_down:
  assumes "tcp_inv lib (t # T) h" "shut_down h" "run_tcp env c t h = (r, h')"
  shows "shut_down h'" "all_left (resume r T) < all_left (t # T)"
proof -
  have "shut_down h' \<and> (\<forall>t'. r = Some t' \<longrightarrow> steps_left t' < steps_left t)"
  proof (cases r)
    case None
    then obtain p i where "t = TcpRemove p i"
      using assms(3) by (cases t) (auto simp: apfst_def map_prod_def split: prod.splits)
    then show ?thesis
      using assms(3) None remove_shut_down [OF assms(2)] by auto
  next
    case (Some t')
    have all: "cancelled k p" if "th_ctx k" for k p
      using that by (simp add: cancelled_def)
    have ctx: "th_ctx h"
      using assms(2) by (simp add: shut_down_def)
    then have "\<nexists>p i x final. t = TcpDialed p i x final \<and> \<not> cancelled h p"
      using all by blast
    then have "shuts h h'"
      using run_shuts(1) assms(1,3) Some by blast
    moreover have "steps_left t' < steps_left t"
    proof (cases t)
      case t: (TcpPump p i x)
      then have p: "ts_conn (tstrm h p) = Some x" "p < length (th_heap h)"
        using assms(1) by (auto simp: tcp_inv_def)
      then have "\<not> tn_open (th_conns h ! x)"
        using assms(2) by (auto simp: shut_down_def left_ok_def)
      then show ?thesis
        using assms(3) Some t all ctx by (auto simp: Pump_def upd_conn_def cancelled_def)
    qed (use assms(3) Some all ctx in \<open>auto simp: tcp_dial_def tcp_dialed_def finishDial_def tcp_ack_def tcp_final_def Let_def
           split: if_splits prod.splits bool.splits\<close>)
    ultimately show ?thesis
      using shuts_shut_down [OF assms(1,2)] Some by auto
  qed
  then show "shut_down h'" "all_left (resume r T) < all_left (t # T)"
    by (auto simp: resume_def split: option.split)
       (cases t; simp)
qed

text \<open>The goroutines alone, in the order of a schedule.\<close>

fun drain :: "go_env \<Rightarrow> (nat \<times> tcp_choice) list \<Rightarrow> tcp_handler \<Rightarrow> tcp_handler" where
  "drain env [] h = h"
| "drain env ((k, c) # sched) h = drain env sched (if th_tasks h = [] then h else step_tcp env c (k mod length (th_tasks h)) h)"

lemma step_shut_down:
  assumes "tcp_inv lib (th_tasks h) h" "shut_down h" "k < length (th_tasks h)"
  shows "shut_down (step_tcp env c k h)" "all_left (th_tasks (step_tcp env c k h)) < all_left (th_tasks h)"
proof -
  let ?T = "th_tasks h" and ?R = "take k (th_tasks h) @ drop (Suc k) (th_tasks h)"
  obtain r h1 where run: "run_tcp env c (?T ! k) h = (r, h1)"
    by (cases "run_tcp env c (?T ! k) h")
  note next_step = run_shut_down [OF tcp_inv_mset [OF assms(1) mset_nth_out [OF assms(3)]] assms(2) run]
  have sum: "all_left T = all_left U" if "mset T = mset U" for T U
    by (simp flip: sum_mset_sum_list add: mset_map that)
  have field: "shut_down (h1\<lparr>th_tasks := ts\<rparr>) = shut_down h1" for ts
    by (simp add: shut_down_def left_ok_def cancelled_def)
  have "mset (th_tasks (step_tcp env c k h)) = mset (resume r ?R)"
    using mset_nth_out [of k "?T[k := the r]"] assms(3) run by (cases r) (simp_all add: step_tcp_def resume_def)
  then show "all_left (th_tasks (step_tcp env c k h)) < all_left (th_tasks h)"
    using next_step(2) sum mset_nth_out [OF assms(3)] by metis
  show "shut_down (step_tcp env c k h)"
    using next_step(1) field assms(3) run by (cases r) (simp_all add: step_tcp_def)
qed

lemma drain_empties:
  assumes "tcp_inv lib (th_tasks h) h" "shut_down h" "all_left (th_tasks h) \<le> length sched"
  shows "tcp_inv lib [] (drain env sched h) \<and> th_tasks (drain env sched h) = []"
  using assms
proof (induction env sched h rule: drain.induct)
  case (1 env h)
  have pos: "steps_left t \<noteq> 0" for t
    by (cases t) simp_all
  have "th_tasks h = []"
  proof (cases "th_tasks h")
    case (Cons t T)
    then show ?thesis
      using 1(3) pos [of t] by simp
  qed simp
  then show ?case
    using 1(1) by simp
next
  case (2 env k c sched h)
  show ?case
  proof (cases "th_tasks h = []")
    case True
    then show ?thesis
      using 2 by simp
  next
    case False
    then have "k mod length (th_tasks h) < length (th_tasks h)"
      by simp
    then show ?thesis
      using 2 False step_tcp_inv [OF 2(2)] step_shut_down [OF 2(2,3), of "k mod length (th_tasks h)" env c] by simp
  qed
qed

lemma few_steps: "all_left T \<le> 8 * length T"
proof (induction T)
  case (Cons t T)
  have "steps_left t \<le> 8"
    by (cases t) simp_all
  then show ?case
    using Cons by simp
qed simp

lemma empty_inv:
  assumes "tcp_inv lib [] h"
  shows "\<forall>c \<in> set (th_conns h). \<not> tn_open c" "th_active h = 0" "th_streams h = Map.empty"
  using assms by (auto simp: tcp_inv_def in_set_conv_nth)

section \<open>What never changes\<close>

definition keeps :: "tcp_handler \<Rightarrow> tcp_handler \<Rightarrow> bool" where
  "keeps h h' \<longleftrightarrow> th_allow h' = th_allow h \<and> th_max h' = th_max h"

lemma keeps_upd [simp]:
  "th_allow (upd_strm p f h) = th_allow h" "th_max (upd_strm p f h) = th_max h"
  "th_allow (upd_conn x g h) = th_allow h" "th_max (upd_conn x g h) = th_max h"
  by (simp_all add: upd_strm_def upd_conn_def)

lemma quiet_keeps: "quiet h h' \<Longrightarrow> keeps h h'"
  by (simp add: quiet_def keeps_def)

lemma run_keeps: "run_tcp env c t h = (r, h') \<Longrightarrow> keeps h h'"
  by (cases t)
    (auto simp: keeps_def tcp_dial_def tcp_dialed_def tcp_ack_def tcp_final_def Pump_def finishDial_def cancel_strm_def close_conn_def
      ts_close_def ts_closeWrite_def tcp_sendError_def remove_stream_def Let_def split: if_splits option.splits prod.splits bool.splits)

lemma keeps_trans: "keeps a b \<Longrightarrow> keeps b c \<Longrightarrow> keeps a c"
  by (simp add: keeps_def)

lemma write_keeps: "keeps h (fst (ts_write late rs p payload h))"
  by (simp add: keeps_def ts_write_def conn_write_def split: option.split prod.split)

lemma close_keeps: "keeps h (ts_close p h)"
  by (rule quiet_keeps [OF quiet_close])

lemma OnDAT_keeps: "tcp_OnDAT late rs i payload h = Some (h', b) \<Longrightarrow> keeps h h'"
  using OnDAT_cases [of late rs i payload h h' b] write_keeps [of h late rs] keeps_trans [OF write_keeps close_keeps]
  by (auto simp: keeps_def)

lemma OnFIN_keeps: "tcp_OnFIN late rs ok i payload h = Some (h', b) \<Longrightarrow> keeps h h'"
proof -
  assume "tcp_OnFIN late rs ok i payload h = Some (h', b)"
  then obtain h1 b1 where h1: "h1 = h \<or> tcp_OnDAT late rs i payload h = Some (h1, b1)"
    and h': "h' = h1 \<or> (\<exists>p. h' = fst (ts_closeWrite late ok p h1) \<or> h' = ts_close p (fst (ts_closeWrite late ok p h1)))"
    using OnFIN_cases by metis
  have "keeps h h1"
    using h1 OnDAT_keeps by (auto simp: keeps_def)
  moreover have "keeps h1 h'"
    using h' quiet_keeps [OF quiet_closeWrite] keeps_trans [OF quiet_keeps [OF quiet_closeWrite] close_keeps] by (auto simp: keeps_def)
  ultimately show ?thesis
    by (rule keeps_trans)
qed

lemma callback_keeps:
  "keeps h (returned h (tcp_OnDAT late rs i payload (note_tcp i payload h)))"
  "keeps h (returned h (tcp_OnFIN late rs ok i payload (note_tcp i payload h)))"
proof -
  have noting: "keeps h (note_tcp i payload h)" and same: "keeps h h"
    by (simp_all add: keeps_def)
  show "keeps h (returned h (tcp_OnDAT late rs i payload (note_tcp i payload h)))"
    by (rule returned_inv [where P = "keeps h", OF keeps_trans [OF noting OnDAT_keeps] same])
  show "keeps h (returned h (tcp_OnFIN late rs ok i payload (note_tcp i payload h)))"
    by (rule returned_inv [where P = "keeps h", OF keeps_trans [OF noting OnFIN_keeps] same])
qed

lemma step_keeps:
  assumes "tcp_inv lib (th_tasks h) h"
  shows "keeps h (tcp_step env lib ev h)"
proof (cases ev)
  case (TcpSYN i payload final ok)
  obtain m d where m: "Unmarshal put_tcpopen \<lparr>to_host = [], to_port = 0\<rparr> (js_parse env payload) = (m, d)"
    by fastforce
  show ?thesis
  proof (cases "d \<and> target_ok lib (th_allow h) (to_host m) (to_port m) \<and> \<not> (th_max h > 0 \<and> th_active h \<ge> int (th_max h))")
    case True
    show ?thesis
      using TcpSYN OnSYN_new(1) [OF m True] quiet_keeps [OF quiet_close_old] by (simp add: keeps_def)
  next
    case False
    then show ?thesis
      using TcpSYN OnSYN_refused [OF m False, of ok i final] by (auto simp: keeps_def tcp_sendError_def)
  qed
next
  case (TcpTask k c)
  obtain r h1 where run: "run_tcp env c (th_tasks h ! k) h = (r, h1)"
    by (cases "run_tcp env c (th_tasks h ! k) h")
  then show ?thesis
    using TcpTask run_keeps [OF run] by (auto simp: step_tcp_def keeps_def split: option.split)
next
  case (TcpReset i)
  then show ?thesis
    using quiet_keeps [OF quiet_close_old] by (simp add: tcp_OnReset_def)
qed (use callback_keeps quiet_keeps [OF quiet_CloseAll] in simp_all)

lemma reachable_limits: "tcp_reachable env lib allow h \<Longrightarrow> th_allow h = allow \<and> th_max h = 64"
proof (induction rule: tcp_reachable.induct)
  case start
  show ?case
    by (simp add: NewTCP_def DefaultTCPMaxConcurrent_def)
next
  case (step h ev)
  then show ?case
    using step_keeps [OF reachable_inv [OF step.hyps], of env ev] by (simp add: keeps_def)
qed

text \<open>A host the code forwards to: an IP address, or text in which a host cannot be misread.\<close>

definition sound_host :: "net_lib \<Rightarrow> string \<Rightarrow> bool" where
  "sound_host lib host \<longleftrightarrow> host \<noteq> [] \<and>
     (nl_is_ip lib host \<or> list_all (\<lambda>c. \<not> go_space c \<and> \<not> go_control c \<and> c \<notin> {CHR '':'', CHR ''/'', CHR ''['', CHR '']'', CHR 0x5C}) host)"

lemma target_ok_range:
  "target_ok lib allow host port \<Longrightarrow>
     1 \<le> port \<and> port \<le> 65535 \<and> sound_host lib host \<and> (allow = [] \<or> (\<exists>e \<in> set allow. covers e host port))"
  by (auto simp: target_ok_def ValidateTarget_def Permits_iff sound_host_def list_all_iff split: if_splits)

lemma open_count:
  assumes "tcp_inv lib T h"
  shows "card {x. x < length (th_conns h) \<and> tn_open (th_conns h ! x)} \<le> length T"
proof -
  have "Some ` {x. x < length (th_conns h) \<and> tn_open (th_conns h ! x)} \<subseteq> task_conn ` set T"
    using assms by (auto simp: tcp_inv_def)
  then have "card (Some ` {x. x < length (th_conns h) \<and> tn_open (th_conns h ! x)}) \<le> card (task_conn ` set T)"
    by (intro card_mono) simp_all
  also have "\<dots> \<le> length T"
    by (meson card_image_le card_length finite_set le_trans)
  finally show ?thesis
    by (simp add: card_image)
qed

section \<open>Properties\<close>

text \<open>
  C34. Forwarding stays within what the link permits. Whatever the requester sends and however callbacks
  and goroutines interleave, every connection the handler ever opened went to a port of 1 to 65535 on a host
  that is an IP address or a non-empty text without blanks, control characters, colons, slashes, backslashes
  or brackets, and the allow list covers that host and port unless it is empty. The count of active streams
  is exactly the number of running goroutines, and neither it nor the number of open connections exceeds 64.
\<close>

theorem forwards_within_limits:
  assumes "tcp_reachable env lib allow h"
  shows "list_all (\<lambda>c. 1 \<le> tn_port c \<and> tn_port c \<le> 65535 \<and> sound_host lib (tn_host c) \<and>
      (allow = [] \<or> (\<exists>e \<in> set allow. covers e (tn_host c) (tn_port c)))) (th_conns h) \<and>
    th_active h = int (length (th_tasks h)) \<and> th_active h \<le> 64 \<and>
    card {x. x < length (th_conns h) \<and> tn_open (th_conns h ! x)} \<le> 64"
proof -
  note inv = reachable_inv [OF assms] and lim = reachable_limits [OF assms]
  have "list_all (\<lambda>c. target_ok lib allow (tn_host c) (tn_port c)) (th_conns h)"
    using inv lim by (simp add: tcp_inv_def list_all_iff)
  moreover have "length (th_tasks h) \<le> 64" "th_active h = int (length (th_tasks h))"
    using inv lim by (simp_all add: tcp_inv_def)
  ultimately show ?thesis
    using open_count [OF inv] by (auto simp: list_all_iff dest!: target_ok_range)
qed


text \<open>
  C36. A closed handler winds down. After \<open>CloseAll\<close>, in any reachable state and under any schedule of the
  goroutines, whatever dials and reads return, eight turns for each goroutine are enough for all of them to
  end, and then no connection is open, no stream is left in the table and none is counted as active.
\<close>

theorem closed_handler_winds_down:
  assumes "tcp_reachable env lib allow h" "8 * length (th_tasks h) \<le> length sched"
  shows "th_tasks (drain env sched (tcp_CloseAll h)) = [] \<and>
    (True \<notin> tn_open ` set (th_conns (drain env sched (tcp_CloseAll h)))) \<and>
    th_streams (drain env sched (tcp_CloseAll h)) = Map.empty \<and> th_active (drain env sched (tcp_CloseAll h)) = 0"
proof -
  note inv = reachable_inv [OF assms(1)]
  have "tcp_inv lib (th_tasks (tcp_CloseAll h)) (tcp_CloseAll h)"
    using quiet_inv [OF inv quiet_CloseAll] by simp
  moreover have "shut_down (tcp_CloseAll h)"
    by (rule CloseAll_shut_down [OF inv reachable_left [OF assms(1)]])
  moreover have "all_left (th_tasks (tcp_CloseAll h)) \<le> length sched"
    using few_steps [of "th_tasks h"] assms(2) by simp
  ultimately have "tcp_inv lib [] (drain env sched (tcp_CloseAll h)) \<and> th_tasks (drain env sched (tcp_CloseAll h)) = []"
    by (rule drain_empties)
  then show ?thesis
    using empty_inv by auto
qed

section \<open>A conversation\<close>

definition tcp_request :: json where
  "tcp_request = JObj [(''host'', JStr ''h''), (''port'', JNum 80)]"

definition demo_net :: net_lib where
  "demo_net = \<lparr>nl_is_ip = (\<lambda>s. False), nl_quote = (\<lambda>s. s)\<rparr>"

definition demo_allow :: allow_list where
  "demo_allow = [\<lparr>e_host = ''h'', e_port = 80\<rparr>]"

definition tcp_turn :: "byte list \<Rightarrow> tcp_choice" where
  "tcp_turn bs = \<lparr>tc_dial = True, tc_err = [], tc_ok = True, tc_fin = True, tc_late = False, tc_cw = True, tc_data = bs, tc_eof = False, tc_fault = False\<rparr>"

definition tcp_env :: go_env where
  "tcp_env = indexed_env [tcp_request, tcp_ok]"

definition demo_forward :: tcp_handler where
  "demo_forward = fold (tcp_step tcp_env demo_net)
     [TcpSYN 1 (js_print tcp_env tcp_request) False True, TcpDAT 1 [5, 6] False [], TcpTask 0 (tcp_turn []), TcpTask 0 (tcp_turn []), TcpTask 0 (tcp_turn []),
      TcpDAT 1 [5, 6] False [(1, False)], TcpTask 0 (tcp_turn [7]), TcpFIN 1 [8] False [] True] (NewTCP demo_allow)"

lemma demo_forward_reachable: "tcp_reachable tcp_env demo_net demo_allow demo_forward"
  unfolding demo_forward_def by (rule tcp_reachable_run [OF tcp_reachable.start])

lemma tcp_request_decoded:
  "Unmarshal put_tcpopen \<lparr>to_host = [], to_port = 0\<rparr> (js_parse tcp_env (js_print tcp_env tcp_request)) = (\<lparr>to_host = ''h'', to_port = 80\<rparr>, True)"
proof -
  have "readable tcp_env tcp_request"
    unfolding tcp_env_def by (rule indexed_readable) simp_all
  moreover have "ToLower ''host'' = ''host''" "ToLower ''port'' = ''port''"
    by code_simp+
  ultimately show ?thesis
    by (simp add: readable_def tcp_request_def Unmarshal_def put_tcpopen_def as_string_def as_int_def)
qed

lemma demo_permitted: "ValidateTarget demo_net ''h'' 80 = None" "Permits demo_allow ''h'' 80"
  by code_simp+

lemma demo_forward_run:
  "th_heap demo_forward = [\<lparr>ts_id = 1, ts_cancelled = False, ts_ready = True, ts_conn = Some 0, ts_writeDone = True, ts_given = [5, 6, 8]\<rparr>]"
  "th_conns demo_forward = [\<lparr>tn_host = ''h'', tn_port = 80, tn_open = True, tn_in = [5, 6, 8], tn_got = [7]\<rparr>]"
  "th_tasks demo_forward = [TcpPump 0 1 0]"
  "th_out demo_forward = [(Some 0, 1, FlagSYN, js_print tcp_env tcp_ok), (Some 0, 1, FlagDAT, [7])]"
  by (simp_all add: demo_forward_def tcp_request_decoded demo_permitted tcp_OnSYN_def NewTCP_def DefaultTCPMaxConcurrent_def close_old_def
      new_tcp_stream_def step_tcp_def tcp_dial_def tcp_turn_def tcp_dialed_def finishDial_def cancelled_def upd_strm_def upd_conn_def tcp_ack_def th_send_def
      note_tcp_def returned_def waiting_def tcp_OnDAT_def ts_write_def waitConn_def conn_write_def Pump_def FrameSize_def tcp_OnFIN_def ts_closeWrite_def Let_def)

theorem forwards_within_limits_witness: "th_active demo_forward = 1 \<and> sound_host demo_net ''h''"
  using forwards_within_limits [OF demo_forward_reachable] demo_forward_run(2,3) by simp


theorem closed_handler_winds_down_witness:
  "th_tasks (drain tcp_env (replicate 8 (3, tcp_turn [9])) (tcp_CloseAll demo_forward)) = []"
  using closed_handler_winds_down [OF demo_forward_reachable, of "replicate 8 (3, tcp_turn [9])"] demo_forward_run(3) by simp

end
