(* ===== verification/Shell.thy ===== *)
theory Shell
  imports GoCrypto Goroutines
begin

text \<open>
  \<^verbatim>\<open>internal/streamtype/shell.go\<close>: shells over streams, with the limit on shells across all sessions. The
  handlers of all sessions share one list of live shells, so a state holds them all; sessions, admissions
  and processes live in heaps and are named by address. The callbacks and goroutines of the sessions
  interleave one critical section at a time; what a process does, whether it starts and which sends succeed
  come in with the steps. The mirror on the operator's console is left out. An admission policy of the
  share command, \<open>AcquireSlot\<close> in the code, is one of the two it installs: everything refused, or one terminal
  for the connection.
\<close>

section \<open>State\<close>

record shell_lib =
  sl_environ :: "string list"
  sl_shell :: string

record shell_open =
  so_argv :: "string list"
  so_pty :: bool
  so_cols :: int
  so_rows :: int
  so_env :: "(string \<times> string) list"
  so_cwd :: string

text \<open>A slice decodes element by element over what it held, a map over its entries. Go ranges over a map in any
  order; here it is the order in which the keys first came.\<close>

fun decode_strings :: "json list \<Rightarrow> string list \<Rightarrow> string list option" where
  "decode_strings [] old = Some []"
| "decode_strings (j # js) old =
     (case as_string j (case old of [] \<Rightarrow> [] | s # _ \<Rightarrow> s) of
        None \<Rightarrow> None
      | Some s \<Rightarrow> map_option ((#) s) (decode_strings js (drop 1 old)))"

fun map_put :: "string \<Rightarrow> string \<Rightarrow> (string \<times> string) list \<Rightarrow> (string \<times> string) list" where
  "map_put k v [] = [(k, v)]"
| "map_put k v ((k', v') # m) = (if k = k' then (k, v) # m else (k', v') # map_put k v m)"

fun decode_map :: "(string \<times> json) list \<Rightarrow> (string \<times> string) list \<Rightarrow> (string \<times> string) list option" where
  "decode_map [] m = Some m"
| "decode_map ((k, j) # kvs) m = (case as_string j [] of None \<Rightarrow> None | Some v \<Rightarrow> decode_map kvs (map_put k v m))"

definition put_shellopen :: "string \<Rightarrow> json \<Rightarrow> shell_open \<Rightarrow> shell_open option" where
  "put_shellopen k v m =
     (if k = ''type'' then map_option (\<lambda>x. m) (as_string v [])
      else if k = ''argv'' then
        (case v of
           JNull \<Rightarrow> Some (m\<lparr>so_argv := []\<rparr>)
         | JArr js \<Rightarrow> map_option (\<lambda>x. m\<lparr>so_argv := x\<rparr>) (decode_strings js (so_argv m))
         | _ \<Rightarrow> None)
      else if k = ''pty'' then map_option (\<lambda>x. m\<lparr>so_pty := x\<rparr>) (as_bool v (so_pty m))
      else if k = ''cols'' then map_option (\<lambda>x. m\<lparr>so_cols := x\<rparr>) (as_int v (so_cols m))
      else if k = ''rows'' then map_option (\<lambda>x. m\<lparr>so_rows := x\<rparr>) (as_int v (so_rows m))
      else if k = ''env'' then
        (case v of
           JNull \<Rightarrow> Some (m\<lparr>so_env := []\<rparr>)
         | JObj kvs \<Rightarrow> map_option (\<lambda>x. m\<lparr>so_env := x\<rparr>) (decode_map kvs (so_env m))
         | _ \<Rightarrow> None)
      else if k = ''cwd'' then map_option (\<lambda>x. m\<lparr>so_cwd := x\<rparr>) (as_string v (so_cwd m))
      else Some m)"

definition zero_open :: shell_open where
  "zero_open = \<lparr>so_argv = [], so_pty = False, so_cols = 0, so_rows = 0, so_env = [], so_cwd = []\<rparr>"

datatype slot_policy = MaxConcurrent nat | RefuseAll string | OneTerminal

record shell_handler =
  sh_forced :: "string list"
  sh_env :: "string list option"
  sh_owner :: bool
  sh_view :: bool
  sh_policy :: slot_policy
  sh_taken :: bool
  sh_gone :: bool
  sh_streams :: "u32 \<Rightarrow> nat option"
  sh_closed :: bool

definition NewShell :: "string list \<Rightarrow> shell_handler" where
  "NewShell argv = \<lparr>sh_forced = argv, sh_env = None, sh_owner = False, sh_view = False, sh_policy = MaxConcurrent 0,
     sh_taken = False, sh_gone = False, sh_streams = Map.empty, sh_closed = False\<rparr>"

datatype shell_slot = NoSlot | LiveSlot nat | TerminalSlot

text \<open>
  A session with its process: \<open>ss_input\<close> and \<open>ss_signals\<close> are what the connector sent to it, \<open>ss_read\<close> what the
  pumps read from each of its outputs, \<open>ss_slot\<close> the slot it was admitted with. \<open>ss_tty\<close> and \<open>ss_stdin\<close> tell that the terminal or the pipe for input is open.
\<close>

record shell_session =
  ss_handler :: nat
  ss_stream :: u32
  ss_argv :: "string list"
  ss_environ :: "string list"
  ss_dir :: string
  ss_tty :: bool
  ss_stdin :: bool
  ss_size :: "int \<times> int"
  ss_input :: "byte list"
  ss_signals :: "string list"
  ss_hup :: bool
  ss_killed :: bool
  ss_running :: bool
  ss_cancelled :: bool
  ss_done :: bool
  ss_read :: "byte \<Rightarrow> byte list"
  ss_slot :: shell_slot

record admission =
  ad_protected :: bool
  ad_evict :: "nat option"

datatype shell_task =
    TEvictFunc nat u32 shell_open bool nat nat
  | TSpawn nat u32 shell_open bool shell_slot
  | TFree nat shell_slot
  | TSetEvict nat u32 nat bool nat bool
  | TLaunch nat u32 nat bool shell_slot bool
  | TLastInput nat u32
  | TEvict nat
  | TPump nat byte
  | TPumpSend nat byte "byte list" bool
  | TWait nat nat shell_slot
  | TDetach nat nat shell_slot
  | TRelease nat nat shell_slot
  | TDrain nat
  | TDrainGrace nat
  | TFin nat
  | TKill "nat list"

type_synonym shell_frame = "nat \<times> u32 \<times> nat option \<times> u16 \<times> byte list"

text \<open>\<open>w_displaced\<close> records who displaced whom.\<close>

record shell_world =
  w_handlers :: "shell_handler list"
  w_sessions :: "shell_session list"
  w_admissions :: "admission list"
  w_live :: "nat list"
  w_tasks :: "shell_task list"
  w_out :: "shell_frame list"
  w_displaced :: "(nat \<times> nat) list"

abbreviation hdl :: "shell_world \<Rightarrow> nat \<Rightarrow> shell_handler" where "hdl w h \<equiv> w_handlers w ! h"
abbreviation ses :: "shell_world \<Rightarrow> nat \<Rightarrow> shell_session" where "ses w x \<equiv> w_sessions w ! x"
abbreviation adm :: "shell_world \<Rightarrow> nat \<Rightarrow> admission" where "adm w a \<equiv> w_admissions w ! a"

definition upd_hdl :: "nat \<Rightarrow> (shell_handler \<Rightarrow> shell_handler) \<Rightarrow> shell_world \<Rightarrow> shell_world" where
  "upd_hdl h f w = w\<lparr>w_handlers := (w_handlers w)[h := f (hdl w h)]\<rparr>"

definition upd_ses :: "nat \<Rightarrow> (shell_session \<Rightarrow> shell_session) \<Rightarrow> shell_world \<Rightarrow> shell_world" where
  "upd_ses x f w = w\<lparr>w_sessions := (w_sessions w)[x := f (ses w x)]\<rparr>"

definition w_send :: "bool \<Rightarrow> nat \<Rightarrow> u32 \<Rightarrow> nat option \<Rightarrow> u16 \<Rightarrow> byte list \<Rightarrow> shell_world \<Rightarrow> shell_world" where
  "w_send ok h i who flags payload w = (if ok then w\<lparr>w_out := w_out w @ [(h, i, who, flags, payload)]\<rparr> else w)"

section \<open>Admissions\<close>

fun oldestDisplaceable :: "shell_world \<Rightarrow> bool \<Rightarrow> nat list \<Rightarrow> nat option" where
  "oldestDisplaceable w protected [] = None"
| "oldestDisplaceable w protected (a # live) =
     (if protected \<or> \<not> ad_protected (adm w a) then Some 0 else map_option Suc (oldestDisplaceable w protected live))"

definition shell_admit :: "nat \<Rightarrow> bool \<Rightarrow> shell_world \<Rightarrow> (nat \<times> nat option) option \<times> shell_world" where
  "shell_admit limit protected w =
     (let a = length (w_admissions w);
          add = (\<lambda>live w. w\<lparr>w_admissions := w_admissions w @ [\<lparr>ad_protected = protected, ad_evict = None\<rparr>], w_live := live @ [a]\<rparr>)
      in if limit > 0 \<and> length (w_live w) \<ge> limit then
           (case oldestDisplaceable w protected (w_live w) of
              None \<Rightarrow> (None, w)
            | Some k \<Rightarrow>
                let d = w_live w ! k in
                (Some (a, Some d), add (take k (w_live w) @ drop (Suc k) (w_live w)) (w\<lparr>w_displaced := w_displaced w @ [(d, a)]\<rparr>)))
         else (Some (a, None), add (w_live w) w))"

definition release :: "nat \<Rightarrow> shell_slot \<Rightarrow> shell_world \<Rightarrow> shell_world" where
  "release h slot w =
     (case slot of
        NoSlot \<Rightarrow> w
      | LiveSlot a \<Rightarrow> w\<lparr>w_live := remove1 a (w_live w)\<rparr>
      | TerminalSlot \<Rightarrow> upd_hdl h (\<lambda>k. k\<lparr>sh_taken := False\<rparr>) w)"

section \<open>Sessions\<close>

definition writeInput :: "nat \<Rightarrow> byte list \<Rightarrow> shell_world \<Rightarrow> shell_world" where
  "writeInput x body w = upd_ses x (\<lambda>s. if ss_tty s \<or> ss_stdin s then s\<lparr>ss_input := ss_input s @ body\<rparr> else s) w"

definition resize_pty :: "nat \<Rightarrow> int \<Rightarrow> int \<Rightarrow> shell_world \<Rightarrow> shell_world" where
  "resize_pty x cols rows w = upd_ses x (\<lambda>s. if ss_tty s then s\<lparr>ss_size := (cols, rows)\<rparr> else s) w"

definition closeInput :: "nat \<Rightarrow> shell_world \<Rightarrow> shell_world" where
  "closeInput x w = upd_ses x (\<lambda>s. s\<lparr>ss_stdin := False\<rparr>) w"

definition terminate :: "nat \<Rightarrow> shell_world \<Rightarrow> shell_world" where
  "terminate x w = upd_ses x (\<lambda>s. s\<lparr>ss_hup := True\<rparr>) w"

definition shell_error :: "string \<Rightarrow> json" where
  "shell_error msg = JObj [(''error'', JStr msg)]"

definition sendShellError :: "go_env \<Rightarrow> bool \<times> bool \<Rightarrow> nat \<Rightarrow> u32 \<Rightarrow> string \<Rightarrow> shell_world \<Rightarrow> shell_world" where
  "sendShellError env ok h i msg w =
     w_send (snd ok) h i None FlagFIN [] (w_send (fst ok) h i None FlagSYN (js_print env (shell_error msg)) w)"

definition closeStdin :: "nat \<Rightarrow> u32 \<Rightarrow> shell_world \<Rightarrow> shell_world" where
  "closeStdin h i w = (case sh_streams (hdl w h) i of None \<Rightarrow> w | Some x \<Rightarrow> closeInput x w)"

section \<open>The callbacks\<close>

text \<open>\<open>OnSYN\<close> up to the end of the admission; the rest of it is a task.\<close>

definition shell_OnSYN :: "go_env \<Rightarrow> bool \<times> bool \<Rightarrow> nat \<Rightarrow> u32 \<Rightarrow> byte list \<Rightarrow> bool \<Rightarrow> shell_world \<Rightarrow> shell_world" where
  "shell_OnSYN env ok h i payload final w =
     (case Unmarshal put_shellopen zero_open (js_parse env payload) of
        (req, decoded) \<Rightarrow>
          if \<not> decoded then sendShellError env ok h i (''bad shell request: '' @ js_error env payload) w
          else
            let go = (\<lambda>t w. w\<lparr>w_tasks := w_tasks w @ [t]\<rparr>) in
            case sh_policy (hdl w h) of
              RefuseAll msg \<Rightarrow> sendShellError env ok h i msg w
            | OneTerminal \<Rightarrow>
                if sh_gone (hdl w h) then sendShellError env ok h i ''this connection is closing'' w
                else if sh_taken (hdl w h) then sendShellError env ok h i ''this connection already has a terminal open'' w
                else go (TSpawn h i req final TerminalSlot) (upd_hdl h (\<lambda>k. k\<lparr>sh_taken := True\<rparr>) w)
            | MaxConcurrent limit \<Rightarrow>
                if limit = 0 then go (TSpawn h i req final NoSlot) w
                else case shell_admit limit (sh_owner (hdl w h)) w of
                  (None, w1) \<Rightarrow> sendShellError env ok h i ''the device owner is using the shell; try again later'' w1
                | (Some (a, None), w1) \<Rightarrow> go (TSpawn h i req final (LiveSlot a)) w1
                | (Some (a, Some d), w1) \<Rightarrow> go (TEvictFunc h i req final a d) w1)"

abbreviation tag_stdin :: byte where "tag_stdin \<equiv> 0"
abbreviation tag_stdout :: byte where "tag_stdout \<equiv> 1"
abbreviation tag_stderr :: byte where "tag_stderr \<equiv> 2"
abbreviation tag_signal :: byte where "tag_signal \<equiv> 3"
abbreviation tag_resize :: byte where "tag_resize \<equiv> 4"

definition signalFromName :: "string \<Rightarrow> string option" where
  "signalFromName name =
     (if name = ''INT'' \<or> name = ''SIGINT'' then Some ''SIGINT''
      else if name = ''TERM'' \<or> name = ''SIGTERM'' then Some ''SIGTERM''
      else if name = ''QUIT'' \<or> name = ''SIGQUIT'' then Some ''SIGQUIT''
      else if name = ''HUP'' \<or> name = ''SIGHUP'' then Some ''SIGHUP''
      else if name = ''USR1'' \<or> name = ''SIGUSR1'' then Some ''SIGUSR1''
      else if name = ''USR2'' \<or> name = ''SIGUSR2'' then Some ''SIGUSR2''
      else if name = ''KILL'' \<or> name = ''SIGKILL'' then Some ''SIGKILL''
      else None)"

definition u16_at :: "nat \<Rightarrow> byte list \<Rightarrow> int" where
  "u16_at k bs = uint (bs ! k) + 256 * uint (bs ! Suc k)"

definition shell_OnDAT :: "nat \<Rightarrow> u32 \<Rightarrow> byte list \<Rightarrow> shell_world \<Rightarrow> shell_world" where
  "shell_OnDAT h i payload w =
     (case payload of
        [] \<Rightarrow> w
      | tag # body \<Rightarrow>
          (case sh_streams (hdl w h) i of
             None \<Rightarrow> w
           | Some x \<Rightarrow>
               if tag = tag_stdin then (if sh_view (hdl w h) then w else writeInput x body w)
               else if tag = tag_signal then
                 (if sh_view (hdl w h) then w
                  else case signalFromName (map (\<lambda>b. char_of (unat b)) body) of
                    None \<Rightarrow> w
                  | Some sig \<Rightarrow> upd_ses x (\<lambda>s. s\<lparr>ss_signals := ss_signals s @ [sig]\<rparr>) w)
               else if tag = tag_resize then (if length body < 4 then w else resize_pty x (u16_at 0 body) (u16_at 2 body) w)
               else w))"

definition shell_OnFIN :: "nat \<Rightarrow> u32 \<Rightarrow> shell_world \<Rightarrow> shell_world" where
  "shell_OnFIN h i w = (if sh_view (hdl w h) then w else closeStdin h i w)"

definition shell_OnReset :: "nat \<Rightarrow> u32 \<Rightarrow> shell_world \<Rightarrow> shell_world" where
  "shell_OnReset h i w =
     (case sh_streams (hdl w h) i of
        None \<Rightarrow> w
      | Some x \<Rightarrow> closeInput x (terminate x (upd_ses x (\<lambda>s. s\<lparr>ss_cancelled := True\<rparr>) w)))"

text \<open>The sessions in the table of a handler when \<open>Close\<close> looks at it.\<close>

definition shell_tabled :: "nat \<Rightarrow> shell_world \<Rightarrow> nat list" where
  "shell_tabled h w = filter (\<lambda>x. sh_streams (hdl w h) (ss_stream (ses w x)) = Some x) [0..<length (w_sessions w)]"

definition CloseShell :: "nat \<Rightarrow> shell_world \<Rightarrow> shell_world" where
  "CloseShell h w =
     (if sh_closed (hdl w h) then w
      else
        let w1 = fold terminate (shell_tabled h w) (upd_hdl h (\<lambda>k. k\<lparr>sh_closed := True\<rparr>) w)
        in if shell_tabled h w = [] then w1 else w1\<lparr>w_tasks := w_tasks w1 @ [TKill (shell_tabled h w)]\<rparr>)"

section \<open>The goroutines\<close>

datatype spawn_error = PtyFailed string | ResizeFailed string | PipeFailed string | SpawnFailed string

record shell_choice =
  sc_fail :: "spawn_error option"
  sc_ok :: "bool \<times> bool"
  sc_sent :: bool
  sc_data :: "byte list"
  sc_eof :: bool
  sc_exit :: bool
  sc_timeout :: bool
  sc_code :: int
  sc_signal :: string

definition spawn_message :: "spawn_error \<Rightarrow> string" where
  "spawn_message e =
     (case e of
        PtyFailed m \<Rightarrow> ''pty failed: '' @ m
      | ResizeFailed m \<Rightarrow> ''pty resize failed: '' @ m
      | PipeFailed m \<Rightarrow> m
      | SpawnFailed m \<Rightarrow> ''spawn failed: '' @ m)"

definition defaultShellArgv :: "shell_lib \<Rightarrow> string list" where
  "defaultShellArgv lib = (if sl_shell lib \<noteq> [] then [sl_shell lib] else [''/bin/sh''])"

definition pinned_message :: "string list \<Rightarrow> string" where
  "pinned_message argv = ''this listener runs a fixed command and does not accept one (it runs: '' @ Join argv '' '' @ '')''"

definition shell_argv :: "shell_lib \<Rightarrow> shell_handler \<Rightarrow> shell_open \<Rightarrow> string list" where
  "shell_argv lib k req =
     (if sh_forced k \<noteq> [] then sh_forced k else if so_argv req \<noteq> [] then so_argv req else defaultShellArgv lib)"

definition shell_env :: "shell_lib \<Rightarrow> shell_handler \<Rightarrow> shell_open \<Rightarrow> string list" where
  "shell_env lib k req =
     (if sh_forced k \<noteq> [] then (case sh_env k of Some e \<Rightarrow> e | None \<Rightarrow> sl_environ lib)
      else sl_environ lib @ map (\<lambda>(n, v). n @ ''='' @ v) (so_env req))"

definition new_shell_session :: "shell_lib \<Rightarrow> nat \<Rightarrow> u32 \<Rightarrow> shell_handler \<Rightarrow> shell_open \<Rightarrow> shell_slot \<Rightarrow> shell_session" where
  "new_shell_session lib h i k req slot =
     \<lparr>ss_handler = h, ss_stream = i, ss_argv = shell_argv lib k req, ss_environ = shell_env lib k req,
      ss_dir = (if sh_forced k \<noteq> [] then [] else so_cwd req), ss_tty = so_pty req, ss_stdin = \<not> so_pty req,
      ss_size = (if so_pty req then (if so_cols req = 0 then 80 else so_cols req, if so_rows req = 0 then 24 else so_rows req) else (0, 0)),
      ss_input = [], ss_signals = [], ss_hup = False, ss_killed = False, ss_running = True, ss_cancelled = False, ss_done = False,
      ss_read = (\<lambda>tag. []), ss_slot = slot\<rparr>"

text \<open>From the resolution of the command to the registration of the process; a failure leaves the slot to be freed.\<close>

definition shell_spawn ::
  "go_env \<Rightarrow> shell_lib \<Rightarrow> shell_choice \<Rightarrow> nat \<Rightarrow> u32 \<Rightarrow> shell_open \<Rightarrow> bool \<Rightarrow> shell_slot \<Rightarrow> shell_world \<Rightarrow> shell_task \<times> shell_world" where
  "shell_spawn env lib c h i req final slot w =
     (let k = hdl w h; x = length (w_sessions w); fail = (\<lambda>msg. (TFree h slot, sendShellError env (sc_ok c) h i msg w)) in
      if sh_forced k \<noteq> [] \<and> so_argv req \<noteq> [] then fail (pinned_message (sh_forced k))
      else if sh_closed k then fail ''connection is closed''
      else if sh_streams k i \<noteq> None then fail ''a shell is already open on this stream''
      else case sc_fail c of
        Some e \<Rightarrow> fail (spawn_message e)
      | None \<Rightarrow>
          (case slot of LiveSlot a \<Rightarrow> TSetEvict h i x final a (so_pty req) | _ \<Rightarrow> TLaunch h i x final slot (so_pty req),
           (upd_hdl h (\<lambda>k. k\<lparr>sh_streams := (sh_streams k)(i \<mapsto> x)\<rparr>) w)
             \<lparr>w_sessions := w_sessions w @ [new_shell_session lib h i k req slot]\<rparr>))"

definition pumping :: "nat \<Rightarrow> shell_world \<Rightarrow> bool" where
  "pumping x w \<longleftrightarrow> list_ex (\<lambda>t. case t of TPump y tag \<Rightarrow> y = x | TPumpSend y tag bs eof \<Rightarrow> y = x | _ \<Rightarrow> False) (w_tasks w)"

definition exit_json :: "shell_choice \<Rightarrow> json" where
  "exit_json c =
     JObj ((''exit_code'', JNum (sc_code c)) # (if sc_signal c \<noteq> [] then [(''signal'', JStr (sc_signal c))] else []))"

text \<open>A step of a goroutine: what takes its place in the list, and the state.\<close>

fun run_shell :: "go_env \<Rightarrow> shell_lib \<Rightarrow> shell_choice \<Rightarrow> shell_task \<Rightarrow> shell_world \<Rightarrow> shell_task list \<times> shell_world" where
  "run_shell env lib c (TEvictFunc h i req final a d) w =
     (TSpawn h i req final (LiveSlot a) # (case ad_evict (adm w d) of None \<Rightarrow> [] | Some x \<Rightarrow> [TEvict x]), w)"
| "run_shell env lib c (TSpawn h i req final slot) w = apfst (\<lambda>t. [t]) (shell_spawn env lib c h i req final slot w)"
| "run_shell env lib c (TFree h slot) w = ([], release h slot w)"
| "run_shell env lib c (TSetEvict h i x final a pty) w =
     ([TLaunch h i x final (LiveSlot a) pty], w\<lparr>w_admissions := (w_admissions w)[a := (adm w a)\<lparr>ad_evict := Some x\<rparr>]\<rparr>)"
| "run_shell env lib c (TLaunch h i x final slot pty) w =
     ([TPump x tag_stdout] @ (if pty then [] else [TPump x tag_stderr]) @ [TWait h x slot] @
        (if final \<and> \<not> sh_view (hdl w h) then [TLastInput h i] else []), w)"
| "run_shell env lib c (TLastInput h i) w = ([], closeStdin h i w)"
| "run_shell env lib c (TEvict x) w =
     ([], terminate x (sendShellError env (sc_ok c) (ss_handler (ses w x)) (ss_stream (ses w x)) ''another connection took the shell'' w))"
| "run_shell env lib c (TPump x tag) w =
     (let bs = take (MaxChunkSize - 1) (sc_data c); w1 = upd_ses x (\<lambda>s. s\<lparr>ss_read := (ss_read s)(tag := ss_read s tag @ bs)\<rparr>) w in
      if bs \<noteq> [] then ([TPumpSend x tag bs (sc_eof c)], w1) else (if sc_eof c then [] else [TPump x tag], w1))"
| "run_shell env lib c (TPumpSend x tag bs eof) w =
     (if ss_cancelled (ses w x) \<or> \<not> sc_sent c then ([], w)
      else (if eof then [] else [TPump x tag],
            w_send True (ss_handler (ses w x)) (ss_stream (ses w x)) (Some x) FlagDAT (tag # bs) w))"
| "run_shell env lib c (TWait h x slot) w =
     (if sc_exit c then ([TDetach h x slot], upd_ses x (\<lambda>s. s\<lparr>ss_running := False\<rparr>) w) else ([TWait h x slot], w))"
| "run_shell env lib c (TDetach h x slot) w =
     ([TRelease h x slot],
      upd_ses x (\<lambda>s. s\<lparr>ss_tty := False\<rparr>) (upd_hdl h (\<lambda>k. k\<lparr>sh_streams := (sh_streams k)(ss_stream (ses w x) := None)\<rparr>) w))"
| "run_shell env lib c (TRelease h x slot) w = ([TDrain x], upd_ses x (\<lambda>s. s\<lparr>ss_done := True\<rparr>) (release h slot w))"
| "run_shell env lib c (TDrain x) w =
     (if \<not> pumping x w then ([TFin x], w)
      else if sc_timeout c then ([TDrainGrace x], upd_ses x (\<lambda>s. s\<lparr>ss_cancelled := True\<rparr>) w)
      else ([TDrain x], w))"
| "run_shell env lib c (TDrainGrace x) w = (if \<not> pumping x w \<or> sc_timeout c then [TFin x] else [TDrainGrace x], w)"
| "run_shell env lib c (TFin x) w =
     ([], w_send (sc_sent c) (ss_handler (ses w x)) (ss_stream (ses w x)) (Some x) FlagFIN (js_print env (exit_json c)) w)"
| "run_shell env lib c (TKill xs) w =
     (if list_all (\<lambda>x. ss_done (ses w x)) xs then ([], w)
      else if sc_timeout c then ([], fold (\<lambda>x. upd_ses x (\<lambda>s. if ss_done s then s else s\<lparr>ss_killed := True\<rparr>)) xs w)
      else ([TKill xs], w))"

definition step_shell :: "go_env \<Rightarrow> shell_lib \<Rightarrow> shell_choice \<Rightarrow> nat \<Rightarrow> shell_world \<Rightarrow> shell_world" where
  "step_shell env lib c k w =
     (if k < length (w_tasks w) then
        (case run_shell env lib c (w_tasks w ! k) w of
           (ts, w1) \<Rightarrow> w1\<lparr>w_tasks := take k (w_tasks w) @ ts @ drop (Suc k) (w_tasks w)\<rparr>)
      else w)"

datatype shell_event =
    ShellSYN nat u32 "byte list" bool "bool \<times> bool"
  | ShellDAT nat u32 "byte list"
  | ShellFIN nat u32
  | ShellReset nat u32
  | ShellClose nat
  | ShellPeerGone nat
  | ShellTask nat shell_choice

text \<open>An event of a handler that does not exist does not happen.\<close>

definition on_handler :: "nat \<Rightarrow> (shell_world \<Rightarrow> shell_world) \<Rightarrow> shell_world \<Rightarrow> shell_world" where
  "on_handler h f w = (if h < length (w_handlers w) then f w else w)"

primrec shell_step :: "go_env \<Rightarrow> shell_lib \<Rightarrow> shell_event \<Rightarrow> shell_world \<Rightarrow> shell_world" where
  "shell_step env lib (ShellSYN h i payload final ok) w = on_handler h (shell_OnSYN env ok h i payload final) w"
| "shell_step env lib (ShellDAT h i payload) w = on_handler h (shell_OnDAT h i payload) w"
| "shell_step env lib (ShellFIN h i) w = on_handler h (shell_OnFIN h i) w"
| "shell_step env lib (ShellReset h i) w = on_handler h (shell_OnReset h i) w"
| "shell_step env lib (ShellClose h) w = on_handler h (CloseShell h) w"
| "shell_step env lib (ShellPeerGone h) w = on_handler h (upd_hdl h (\<lambda>k. k\<lparr>sh_gone := True\<rparr>)) w"
| "shell_step env lib (ShellTask k c) w = step_shell env lib c k w"

definition fresh_handler :: "shell_handler \<Rightarrow> bool" where
  "fresh_handler k \<longleftrightarrow> sh_streams k = Map.empty \<and> \<not> sh_taken k \<and> \<not> sh_closed k"

definition shell_start :: "shell_handler list \<Rightarrow> shell_world" where
  "shell_start hs = \<lparr>w_handlers = hs, w_sessions = [], w_admissions = [], w_live = [], w_tasks = [], w_out = [], w_displaced = []\<rparr>"

inductive shell_reachable :: "go_env \<Rightarrow> shell_lib \<Rightarrow> shell_handler list \<Rightarrow> shell_world \<Rightarrow> bool" for env lib hs where
  start: "list_all fresh_handler hs \<Longrightarrow> shell_reachable env lib hs (shell_start hs)"
| step: "shell_reachable env lib hs w \<Longrightarrow> shell_reachable env lib hs (shell_step env lib ev w)"

lemma shell_reachable_run: "shell_reachable env lib hs w \<Longrightarrow> shell_reachable env lib hs (fold (shell_step env lib) evs w)"
  by (induction evs arbitrary: w) (auto intro: shell_reachable.step)

end
