(* ===== verification/Shell_Laws.thy ===== *)
theory Shell_Laws
  imports Shell
begin

text \<open>
  What the shells of a listener promise: a restricted handler runs its own command and a viewer types nothing,
  the list of live shells keeps its limit, the owner's shell is displaced by nobody else, and every slot comes
  back. The invariant says who holds which slot and which goroutine stands for which session.
\<close>

section \<open>The invariant\<close>

definition sh_static :: "shell_handler \<Rightarrow> string list \<times> string list option \<times> bool \<times> bool \<times> slot_policy" where
  "sh_static k = (sh_forced k, sh_env k, sh_owner k, sh_view k, sh_policy k)"

definition handlers_ok :: "shell_handler list \<Rightarrow> shell_world \<Rightarrow> bool" where
  "handlers_ok hs w \<longleftrightarrow> map sh_static (w_handlers w) = map sh_static hs"

definition ses_ok :: "shell_lib \<Rightarrow> shell_handler list \<Rightarrow> shell_session \<Rightarrow> bool" where
  "ses_ok lib hs s \<longleftrightarrow>
     (let k = hs ! ss_handler s in
      ss_handler s < length hs \<and>
      (sh_forced k \<noteq> [] \<longrightarrow> ss_argv s = sh_forced k \<and> ss_environ s = (case sh_env k of Some e \<Rightarrow> e | None \<Rightarrow> sl_environ lib) \<and> ss_dir s = []) \<and>
      (sh_view k \<longrightarrow> ss_input s = [] \<and> ss_signals s = []))"

fun task_slot :: "shell_task \<Rightarrow> (nat \<times> shell_slot) option" where
  "task_slot (TEvictFunc h i req final a d) = Some (h, LiveSlot a)"
| "task_slot (TSpawn h i req final slot) = Some (h, slot)"
| "task_slot (TFree h slot) = Some (h, slot)"
| "task_slot (TSetEvict h i x final a pty) = Some (h, LiveSlot a)"
| "task_slot (TLaunch h i x final slot pty) = Some (h, slot)"
| "task_slot (TWait h x slot) = Some (h, slot)"
| "task_slot (TDetach h x slot) = Some (h, slot)"
| "task_slot (TRelease h x slot) = Some (h, slot)"
| "task_slot _ = None"

definition slot_key :: "nat \<times> shell_slot \<Rightarrow> (nat + nat) option" where
  "slot_key hs = (case snd hs of NoSlot \<Rightarrow> None | LiveSlot a \<Rightarrow> Some (Inl a) | TerminalSlot \<Rightarrow> Some (Inr (fst hs)))"

definition task_key :: "shell_task \<Rightarrow> (nat + nat) option" where
  "task_key t = Option.bind (task_slot t) slot_key"

fun task_ses :: "shell_task \<Rightarrow> nat option" where
  "task_ses (TSetEvict h i x final a pty) = Some x"
| "task_ses (TLaunch h i x final slot pty) = Some x"
| "task_ses (TWait h x slot) = Some x"
| "task_ses (TDetach h x slot) = Some x"
| "task_ses _ = None"

definition slot_ok :: "shell_handler list \<Rightarrow> shell_world \<Rightarrow> nat \<times> shell_slot \<Rightarrow> bool" where
  "slot_ok hs w p \<longleftrightarrow>
     fst p < length hs \<and>
     (\<forall>a. snd p = LiveSlot a \<longrightarrow> a < length (w_admissions w) \<and> ad_protected (adm w a) = sh_owner (hs ! fst p)) \<and>
     (snd p = TerminalSlot \<longrightarrow> sh_policy (hs ! fst p) = OneTerminal)"

definition shell_task_ok :: "shell_handler list \<Rightarrow> shell_world \<Rightarrow> shell_task \<Rightarrow> bool" where
  "shell_task_ok hs w t \<longleftrightarrow>
     (\<forall>p. task_slot t = Some p \<longrightarrow> slot_ok hs w p) \<and>
     (\<forall>x. task_ses t = Some x \<longrightarrow> x < length (w_sessions w) \<and> task_slot t = Some (ss_handler (ses w x), ss_slot (ses w x))) \<and>
     (case t of TDetach h x slot \<Rightarrow> \<not> ss_running (ses w x) | _ \<Rightarrow> True)"

definition routes_ok :: "shell_handler list \<Rightarrow> shell_task list \<Rightarrow> shell_world \<Rightarrow> bool" where
  "routes_ok hs T w \<longleftrightarrow>
     (\<forall>h < length hs. \<forall>i x. sh_streams (hdl w h) i = Some x \<longrightarrow>
        x < length (w_sessions w) \<and> ss_handler (ses w x) = h \<and> ss_stream (ses w x) = i \<and> x \<in> set (List.map_filter task_ses T))"

definition slots_ok :: "shell_handler list \<Rightarrow> shell_task list \<Rightarrow> shell_world \<Rightarrow> bool" where
  "slots_ok hs T w \<longleftrightarrow>
     distinct (List.map_filter task_key T) \<and> distinct (w_live w) \<and>
     (\<forall>a. a \<in> set (w_live w) \<longrightarrow> Inl a \<in> set (List.map_filter task_key T)) \<and>
     (\<forall>a. Inl a \<in> set (List.map_filter task_key T) \<longrightarrow> a \<in> set (w_live w) \<or> a \<in> fst ` set (w_displaced w)) \<and>
     (\<forall>h < length hs. sh_taken (hdl w h) = (Inr h \<in> set (List.map_filter task_key T))) \<and>
     (\<forall>(d, a) \<in> set (w_displaced w). d < length (w_admissions w) \<and> a < length (w_admissions w) \<and>
        (ad_protected (adm w d) \<longrightarrow> ad_protected (adm w a)))"

definition shell_inv :: "shell_lib \<Rightarrow> shell_handler list \<Rightarrow> shell_task list \<Rightarrow> shell_world \<Rightarrow> bool" where
  "shell_inv lib hs T w \<longleftrightarrow>
     handlers_ok hs w \<and> (\<forall>s \<in> set (w_sessions w). ses_ok lib hs s) \<and> (\<forall>t \<in> set T. shell_task_ok hs w t) \<and>
     routes_ok hs T w \<and> slots_ok hs T w \<and> distinct (List.map_filter task_ses T) \<and>
     (\<forall>x < length (w_sessions w). ss_running (ses w x) \<longrightarrow> x \<in> set (List.map_filter task_ses T))"

lemma shell_inv_parts:
  assumes "shell_inv lib hs T w"
  shows "handlers_ok hs w" "\<And>s. s \<in> set (w_sessions w) \<Longrightarrow> ses_ok lib hs s" "\<And>t. t \<in> set T \<Longrightarrow> shell_task_ok hs w t"
    "routes_ok hs T w" "slots_ok hs T w" "distinct (List.map_filter task_ses T)"
    "\<And>x. x < length (w_sessions w) \<Longrightarrow> ss_running (ses w x) \<Longrightarrow> x \<in> set (List.map_filter task_ses T)"
  using assms by (auto simp: shell_inv_def)

lemma mset_filtered:
  assumes "mset T = mset T'"
  shows "set (List.map_filter f T) = set (List.map_filter f T')" "distinct (List.map_filter f T) = distinct (List.map_filter f T')"
proof -
  have "mset (List.map_filter f T) = mset (List.map_filter f T')"
    using assms by (simp add: List.map_filter_def)
  then show "set (List.map_filter f T) = set (List.map_filter f T')" "distinct (List.map_filter f T) = distinct (List.map_filter f T')"
    by (metis set_mset_mset, metis distinct_count_atmost_1 set_mset_mset)
qed

lemma shell_inv_mset:
  assumes "shell_inv lib hs T w" "mset T = mset T'"
  shows "shell_inv lib hs T' w"
proof -
  have "set T = set T'"
    using assms(2) by (metis set_mset_mset)
  then show ?thesis
    using assms(1) mset_filtered [OF assms(2), of task_key] mset_filtered [OF assms(2), of task_ses]
    by (simp add: shell_inv_def routes_ok_def slots_ok_def)
qed

section \<open>Changes that do not matter\<close>

definition quiet_ses :: "shell_handler list \<Rightarrow> shell_session \<Rightarrow> shell_session \<Rightarrow> bool" where
  "quiet_ses hs s s' \<longleftrightarrow>
     ss_handler s' = ss_handler s \<and> ss_stream s' = ss_stream s \<and> ss_argv s' = ss_argv s \<and> ss_environ s' = ss_environ s \<and>
     ss_dir s' = ss_dir s \<and> ss_slot s' = ss_slot s \<and> (ss_running s' \<longrightarrow> ss_running s) \<and>
     (sh_view (hs ! ss_handler s) \<longrightarrow> ss_input s' = ss_input s \<and> ss_signals s' = ss_signals s)"

definition same_shells :: "shell_handler list \<Rightarrow> shell_world \<Rightarrow> shell_world \<Rightarrow> bool" where
  "same_shells hs w w' \<longleftrightarrow>
     list_all2 (\<lambda>k k'. sh_static k' = sh_static k \<and> sh_streams k' = sh_streams k \<and> sh_taken k' = sh_taken k) (w_handlers w) (w_handlers w') \<and>
     list_all2 (quiet_ses hs) (w_sessions w) (w_sessions w') \<and>
     map ad_protected (w_admissions w') = map ad_protected (w_admissions w) \<and> w_live w' = w_live w \<and> w_displaced w' = w_displaced w"

lemma same_refl [simp]: "same_shells hs w w"
  by (auto simp: same_shells_def quiet_ses_def intro: list_all2_refl)

lemma same_trans: "same_shells hs w w' \<Longrightarrow> same_shells hs w' w'' \<Longrightarrow> same_shells hs w w''"
  unfolding same_shells_def
  by (intro conjI; (elim conjE)?)
    (auto simp: list_all2_conv_all_nth quiet_ses_def)

lemma same_nth:
  assumes "same_shells hs w w'"
  shows "length (w_handlers w') = length (w_handlers w)" "length (w_sessions w') = length (w_sessions w)"
    "length (w_admissions w') = length (w_admissions w)"
    and "h < length (w_handlers w) \<Longrightarrow> sh_static (hdl w' h) = sh_static (hdl w h) \<and> sh_streams (hdl w' h) = sh_streams (hdl w h) \<and> sh_taken (hdl w' h) = sh_taken (hdl w h)"
    and "x < length (w_sessions w) \<Longrightarrow> quiet_ses hs (ses w x) (ses w' x)"
    and "a < length (w_admissions w) \<Longrightarrow> ad_protected (adm w' a) = ad_protected (adm w a)"
proof -
  show "length (w_handlers w') = length (w_handlers w)" "length (w_sessions w') = length (w_sessions w)"
    "h < length (w_handlers w) \<Longrightarrow> sh_static (hdl w' h) = sh_static (hdl w h) \<and> sh_streams (hdl w' h) = sh_streams (hdl w h) \<and> sh_taken (hdl w' h) = sh_taken (hdl w h)"
    "x < length (w_sessions w) \<Longrightarrow> quiet_ses hs (ses w x) (ses w' x)"
    using assms by (auto simp: same_shells_def list_all2_conv_all_nth)
  have "map ad_protected (w_admissions w') = map ad_protected (w_admissions w)"
    using assms by (simp add: same_shells_def)
  then show "length (w_admissions w') = length (w_admissions w)" "a < length (w_admissions w) \<Longrightarrow> ad_protected (adm w' a) = ad_protected (adm w a)"
    by (metis length_map, metis length_map nth_map)
qed

lemma quiet_ses_ok: "ses_ok lib hs s \<Longrightarrow> quiet_ses hs s s' \<Longrightarrow> ses_ok lib hs s'"
  by (auto simp: ses_ok_def quiet_ses_def Let_def)

lemma handlers_length: "handlers_ok hs w \<Longrightarrow> length (w_handlers w) = length hs"
  unfolding handlers_ok_def by (metis length_map)

lemma handlers_static: "handlers_ok hs w \<Longrightarrow> h < length hs \<Longrightarrow> sh_static (hdl w h) = sh_static (hs ! h)"
  unfolding handlers_ok_def by (metis length_map nth_map)

lemma handlers_upd:
  assumes "handlers_ok hs w" "sh_static (f (hdl w h)) = sh_static (hdl w h)"
  shows "handlers_ok hs (upd_hdl h f w)"
proof -
  have "map sh_static ((w_handlers w)[h := f (hdl w h)]) = map sh_static (w_handlers w)"
    using assms(2) by (cases "h < length (w_handlers w)") (simp_all add: list_eq_iff_nth_eq nth_list_update)
  then show ?thesis
    using assms(1) by (simp add: handlers_ok_def upd_hdl_def)
qed

lemma same_task_ok:
  assumes "same_shells hs w w'" "shell_task_ok hs w t"
  shows "shell_task_ok hs w' t"
proof -
  have "slot_ok hs w' p" if "slot_ok hs w p" for p
    using that same_nth(3,6) [OF assms(1)] by (auto simp: slot_ok_def)
  then show ?thesis
    using assms(2) same_nth(2,5) [OF assms(1)] by (cases t) (auto simp: shell_task_ok_def quiet_ses_def)
qed

lemma same_inv:
  assumes "shell_inv lib hs T w" "same_shells hs w w'"
  shows "shell_inv lib hs T w'"
proof -
  note inv = shell_inv_parts [OF assms(1)] and same = same_nth [OF assms(2)]
  have len: "length (w_handlers w) = length hs"
    by (rule handlers_length [OF inv(1)])
  have "handlers_ok hs w'"
    using inv(1) same(1,4) by (simp add: handlers_ok_def list_eq_iff_nth_eq)
  moreover have "ses_ok lib hs s" if s: "s \<in> set (w_sessions w')" for s
  proof -
    obtain x where "x < length (w_sessions w')" "ses w' x = s"
      using s unfolding in_set_conv_nth by blast
    then have x: "x < length (w_sessions w)" "s = ses w' x"
      using same(2) by simp_all
    have "ses_ok lib hs (ses w x)"
      by (rule inv(2)) (simp add: x(1))
    then show ?thesis
      unfolding x(2) by (rule quiet_ses_ok) (rule same(5) [OF x(1)])
  qed
  moreover have "routes_ok hs T w'"
    using inv(4) same(2,4,5) len by (fastforce simp: routes_ok_def quiet_ses_def)
  moreover have "slots_ok hs T w'"
  proof -
    have "w_live w' = w_live w" "w_displaced w' = w_displaced w"
      using assms(2) by (simp_all add: same_shells_def)
    then show ?thesis
      using inv(5) same(3,4,6) len by (auto simp: slots_ok_def)
  qed
  moreover have "x \<in> set (List.map_filter task_ses T)" if "x < length (w_sessions w')" "ss_running (ses w' x)" for x
    using that same(2,5) inv(7) by (auto simp: quiet_ses_def)
  ultimately show ?thesis
    using inv(3,6) same_task_ok [OF assms(2)] by (simp add: shell_inv_def)
qed

lemma nth_set: "j < length xs \<Longrightarrow> xs[i := x] ! j = (if j = i then x else xs ! j)"
  by (simp add: nth_list_update)

lemma same_upd_ses: "(x < length (w_sessions w) \<Longrightarrow> quiet_ses hs (ses w x) (f (ses w x))) \<Longrightarrow> same_shells hs w (upd_ses x f w)"
  by (auto simp: same_shells_def upd_ses_def list_all2_conv_all_nth nth_set quiet_ses_def)

lemma same_send [simp]: "same_shells hs w (w_send ok h i who fl b w)"
  by (auto simp: same_shells_def w_send_def quiet_ses_def intro: list_all2_refl)

lemma same_error: "same_shells hs w (sendShellError env ok h i msg w)"
  unfolding sendShellError_def by (rule same_trans [OF same_send same_send])

lemma same_tasks [simp]: "same_shells hs w (w\<lparr>w_tasks := ts\<rparr>)"
  by (auto simp: same_shells_def quiet_ses_def intro: list_all2_refl)

lemma same_upd_hdl: "sh_static (f (hdl w h)) = sh_static (hdl w h) \<and> sh_streams (f (hdl w h)) = sh_streams (hdl w h) \<and>
    sh_taken (f (hdl w h)) = sh_taken (hdl w h) \<Longrightarrow> same_shells hs w (upd_hdl h f w)"
  by (auto simp: same_shells_def upd_hdl_def list_all2_conv_all_nth nth_set quiet_ses_def)

lemma same_closeInput: "same_shells hs w (closeInput x w)"
  unfolding closeInput_def by (rule same_upd_ses) (simp add: quiet_ses_def)

lemma same_terminate: "same_shells hs w (terminate x w)"
  unfolding terminate_def by (rule same_upd_ses) (simp add: quiet_ses_def)

lemma same_closeStdin: "same_shells hs w (closeStdin h i w)"
  by (simp add: closeStdin_def same_closeInput split: option.split)

lemma same_evict: "same_shells hs w (w\<lparr>w_admissions := (w_admissions w)[a := (adm w a)\<lparr>ad_evict := e\<rparr>]\<rparr>)"
  by (auto simp: same_shells_def quiet_ses_def list_eq_iff_nth_eq nth_set intro: list_all2_refl)

lemma task_ok_extend:
  assumes "shell_task_ok hs w t"
    and adms: "\<And>a. a < length (w_admissions w) \<Longrightarrow> a < length (w_admissions w') \<and> ad_protected (adm w' a) = ad_protected (adm w a)"
    and sess: "\<And>x. x < length (w_sessions w) \<Longrightarrow> x < length (w_sessions w') \<and> ses w' x = ses w x"
  shows "shell_task_ok hs w' t"
proof -
  have x: "x < length (w_sessions w) \<and> task_slot t = Some (ss_handler (ses w x), ss_slot (ses w x))" if "task_ses t = Some x" for x
    using assms(1) that by (simp add: shell_task_ok_def)
  have slot: "slot_ok hs w' p" if "task_slot t = Some p" for p
  proof -
    have "slot_ok hs w p"
      using assms(1) that by (simp add: shell_task_ok_def)
    then show ?thesis
      using adms by (simp add: slot_ok_def)
  qed
  have "case t of TDetach h x slot \<Rightarrow> \<not> ss_running (ses w' x) | _ \<Rightarrow> True"
    using assms(1) x sess by (cases t) (simp_all add: shell_task_ok_def)
  then show ?thesis
    using x slot sess unfolding shell_task_ok_def by metis
qed

section \<open>The steps of a goroutine\<close>

lemma filter_Cons: "List.map_filter f (t # T) = (case f t of None \<Rightarrow> List.map_filter f T | Some y \<Rightarrow> y # List.map_filter f T)"
  by (simp add: map_filter_simps)

text \<open>The goroutine goes on with its slot and its session.\<close>

lemma replace_task:
  assumes "shell_inv lib hs (t # T) w" "task_slot t' = task_slot t" "task_ses t' = task_ses t"
    "case t' of TDetach h x slot \<Rightarrow> \<not> ss_running (ses w x) | _ \<Rightarrow> True"
  shows "shell_inv lib hs (t' # T) w"
proof -
  have "task_key t' = task_key t"
    using assms(2) by (simp add: task_key_def)
  then have "List.map_filter task_key (t' # T) = List.map_filter task_key (t # T)" "List.map_filter task_ses (t' # T) = List.map_filter task_ses (t # T)"
    using assms(3) by (simp_all add: filter_Cons)
  moreover have "shell_task_ok hs w t'"
    using assms by (simp add: shell_inv_def shell_task_ok_def)
  ultimately show ?thesis
    using assms(1) by (simp add: shell_inv_def routes_ok_def slots_ok_def)
qed

lemma idle_task:
  assumes "task_slot t = None" "task_ses t = None"
  shows "shell_inv lib hs (t # T) w = shell_inv lib hs T w"
proof -
  have "task_key t = None"
    using assms(1) by (simp add: task_key_def)
  then have "List.map_filter task_key (t # T) = List.map_filter task_key T" "List.map_filter task_ses (t # T) = List.map_filter task_ses T"
    using assms(2) by (simp_all add: filter_Cons)
  moreover have "shell_task_ok hs w t"
    using assms by (cases t) (simp_all add: shell_task_ok_def)
  ultimately show ?thesis
    by (simp add: shell_inv_def routes_ok_def slots_ok_def)
qed

lemma release_inv:
  assumes "shell_inv lib hs (t # T) w" "task_slot t = Some (h, slot)" "task_ses t = None"
  shows "shell_inv lib hs T (release h slot w)"
proof -
  note inv = shell_inv_parts [OF assms(1)]
  have len: "length (w_handlers w) = length hs"
    by (rule handlers_length [OF inv(1)])
  have h: "h < length hs" "slot_ok hs w (h, slot)"
    using inv(3) [of t] assms(2) by (auto simp: shell_task_ok_def slot_ok_def)
  have ses: "List.map_filter task_ses (t # T) = List.map_filter task_ses T"
    using assms(3) by (simp add: filter_Cons)
  have tasks: "\<And>s. s \<in> set T \<Longrightarrow> shell_task_ok hs w s"
    using inv(3) by simp
  show ?thesis
  proof (cases slot)
    case NoSlot
    then have "task_key t = None"
      using assms(2) by (simp add: task_key_def slot_key_def)
    then show ?thesis
      using assms(1) ses NoSlot by (simp add: release_def shell_inv_def routes_ok_def slots_ok_def filter_Cons)
  next
    case (LiveSlot a)
    let ?w = "w\<lparr>w_live := remove1 a (w_live w)\<rparr>"
    have keys: "List.map_filter task_key (t # T) = Inl a # List.map_filter task_key T"
      using assms(2) LiveSlot by (simp add: filter_Cons task_key_def slot_key_def)
    have "slots_ok hs T ?w"
      using inv(5) unfolding slots_ok_def keys by auto
    moreover have "shell_task_ok hs ?w s" if "s \<in> set T" for s
      using tasks [OF that] by (simp add: shell_task_ok_def slot_ok_def cong: shell_task.case_cong)
    ultimately show ?thesis
      using inv ses LiveSlot by (simp add: shell_inv_def release_def handlers_ok_def routes_ok_def)
  next
    case TerminalSlot
    let ?w = "upd_hdl h (\<lambda>k. k\<lparr>sh_taken := False\<rparr>) w"
    have keys: "List.map_filter task_key (t # T) = Inr h # List.map_filter task_key T"
      using assms(2) TerminalSlot by (simp add: filter_Cons task_key_def slot_key_def)
    have same: "w_sessions ?w = w_sessions w" "w_admissions ?w = w_admissions w" "w_live ?w = w_live w" "w_displaced ?w = w_displaced w"
      and hdls: "\<And>g. g < length hs \<Longrightarrow> hdl ?w g = (if g = h then (hdl w h)\<lparr>sh_taken := False\<rparr> else hdl w g)"
      using len by (simp_all add: upd_hdl_def nth_set)
    have "slots_ok hs T ?w"
      using inv(5) hdls unfolding slots_ok_def keys same by auto
    moreover have "shell_task_ok hs ?w s" if "s \<in> set T" for s
      using tasks [OF that] same by (simp add: shell_task_ok_def slot_ok_def cong: shell_task.case_cong)
    moreover have "handlers_ok hs ?w"
      by (rule handlers_upd [OF inv(1)]) (simp add: sh_static_def)
    moreover have "routes_ok hs T ?w"
      using inv(4) ses same hdls by (auto simp: routes_ok_def)
    ultimately show ?thesis
      using inv ses same TerminalSlot by (simp add: shell_inv_def release_def)
  qed
qed

lemma detach_inv:
  assumes "shell_inv lib hs (TDetach h x slot # T) w"
  shows "shell_inv lib hs (TRelease h x slot # T) (upd_hdl h (\<lambda>k. k\<lparr>sh_streams := (sh_streams k)(ss_stream (ses w x) := None)\<rparr>) w)"
proof -
  let ?w = "upd_hdl h (\<lambda>k. k\<lparr>sh_streams := (sh_streams k)(ss_stream (ses w x) := None)\<rparr>) w"
  note inv = shell_inv_parts [OF assms]
  have len: "length (w_handlers w) = length hs"
    by (rule handlers_length [OF inv(1)])
  have x: "x < length (w_sessions w)" "ss_handler (ses w x) = h" "\<not> ss_running (ses w x)" "h < length hs"
    using inv(3) [of "TDetach h x slot"] by (auto simp: shell_task_ok_def slot_ok_def)
  have same: "w_sessions ?w = w_sessions w" "w_admissions ?w = w_admissions w" "w_live ?w = w_live w" "w_displaced ?w = w_displaced w"
    and hdls: "\<And>g. g < length hs \<Longrightarrow> hdl ?w g = (if g = h then (hdl w h)\<lparr>sh_streams := (sh_streams (hdl w h))(ss_stream (ses w x) := None)\<rparr> else hdl w g)"
    using len by (simp_all add: upd_hdl_def nth_set)
  have ses: "List.map_filter task_ses (TDetach h x slot # T) = x # List.map_filter task_ses T"
    "List.map_filter task_ses (TRelease h x slot # T) = List.map_filter task_ses T"
    by (simp_all add: filter_Cons)
  have keys: "List.map_filter task_key (TRelease h x slot # T) = List.map_filter task_key (TDetach h x slot # T)"
    by (simp add: filter_Cons task_key_def)
  have ok: "shell_task_ok hs ?w s" if "s \<in> set (TDetach h x slot # T)" for s
    using inv(3) [OF that] same by (simp add: shell_task_ok_def slot_ok_def cong: shell_task.case_cong)
  then have "shell_task_ok hs ?w s" if "s \<in> set (TRelease h x slot # T)" for s
    using that ok [of "TDetach h x slot"] by (auto simp: shell_task_ok_def)
  moreover have "handlers_ok hs ?w"
    by (rule handlers_upd [OF inv(1)]) (simp add: sh_static_def)
  moreover have "routes_ok hs (TRelease h x slot # T) ?w"
  proof -
    have "y \<in> set (List.map_filter task_ses T)" if "g < length hs" "sh_streams (hdl ?w g) i = Some y" for g i y
    proof -
      have old: "sh_streams (hdl w g) i = Some y"
        using that hdls by (auto split: if_splits)
      then have y: "ss_handler (ses w y) = g" "ss_stream (ses w y) = i" "y = x \<or> y \<in> set (List.map_filter task_ses T)"
        using inv(4) that(1) unfolding routes_ok_def ses by auto
      then show ?thesis
        using that hdls x(2) by auto
    qed
    then show ?thesis
      using inv(4) hdls same unfolding routes_ok_def ses by (auto split: if_splits)
  qed
  moreover have "slots_ok hs (TRelease h x slot # T) ?w"
    using inv(5) hdls unfolding slots_ok_def keys same by auto
  moreover have "y \<in> set (List.map_filter task_ses T)" if "y < length (w_sessions w)" "ss_running (ses w y)" for y
    using inv(7) [OF that] x(3) that(2) unfolding ses by auto
  ultimately show ?thesis
    using inv(2,6) unfolding shell_inv_def ses same by auto
qed

text \<open>A process starts and its session is registered.\<close>

lemma shell_spawn_inv:
  fixes lib hs w h i req slot
  defines "x \<equiv> length (w_sessions w)" and "k \<equiv> hdl w h"
  defines "w1 \<equiv> (upd_hdl h (\<lambda>k. k\<lparr>sh_streams := (sh_streams k)(i \<mapsto> x)\<rparr>) w)\<lparr>w_sessions := w_sessions w @ [new_shell_session lib h i k req slot]\<rparr>"
  assumes "shell_inv lib hs (TSpawn h i req final slot # T) w" "sh_streams k i = None"
    and t': "task_slot t' = Some (h, slot)" "task_ses t' = Some x" "case t' of TDetach h x slot \<Rightarrow> False | _ \<Rightarrow> True"
  shows "shell_inv lib hs (t' # T) w1"
proof -
  let ?t = "TSpawn h i req final slot"
  note inv = shell_inv_parts [OF assms(4)]
  have len: "length (w_handlers w) = length hs"
    by (rule handlers_length [OF inv(1)])
  have h: "h < length hs" "slot_ok hs w (h, slot)"
    using inv(3) [of ?t] by (auto simp: shell_task_ok_def slot_ok_def)
  have same: "w_admissions w1 = w_admissions w" "w_live w1 = w_live w" "w_displaced w1 = w_displaced w" "length (w_sessions w1) = Suc x"
    and hdls: "\<And>g. g < length hs \<Longrightarrow> hdl w1 g = (if g = h then k\<lparr>sh_streams := (sh_streams k)(i \<mapsto> x)\<rparr> else hdl w g)"
    and old: "\<And>y. y < x \<Longrightarrow> ses w1 y = ses w y" and new: "ses w1 x = new_shell_session lib h i k req slot"
    using len by (simp_all add: w1_def upd_hdl_def nth_set k_def x_def nth_append)
  have ses: "List.map_filter task_ses (t' # T) = x # List.map_filter task_ses T" "List.map_filter task_ses (?t # T) = List.map_filter task_ses T"
    using t'(2) by (simp_all add: filter_Cons)
  have keys: "List.map_filter task_key (t' # T) = List.map_filter task_key (?t # T)"
    using t'(1) by (simp add: filter_Cons task_key_def)
  have ok: "shell_task_ok hs w1 s" if "s \<in> set T" for s
  proof -
    have "shell_task_ok hs w s"
      using inv(3) that by simp
    then show ?thesis
      by (rule task_ok_extend) (use same old in \<open>simp_all add: x_def\<close>)
  qed
  have stat: "sh_static k = sh_static (hs ! h)"
    unfolding k_def by (rule handlers_static [OF inv(1) h(1)])
  have "ses_ok lib hs (new_shell_session lib h i k req slot)"
    using h(1) stat by (auto simp: ses_ok_def new_shell_session_def shell_argv_def shell_env_def sh_static_def Let_def)
  then have all_ses: "ses_ok lib hs s" if "s \<in> set (w_sessions w1)" for s
    using that inv(2) by (auto simp: w1_def)
  have "shell_task_ok hs w1 t'"
    using h same new t' by (cases t') (simp_all add: shell_task_ok_def slot_ok_def new_shell_session_def)
  then have tasks: "shell_task_ok hs w1 s" if "s \<in> set (t' # T)" for s
    using that ok by auto
  have "handlers_ok hs (upd_hdl h (\<lambda>k. k\<lparr>sh_streams := (sh_streams k)(i \<mapsto> x)\<rparr>) w)"
    by (rule handlers_upd [OF inv(1)]) (simp add: sh_static_def)
  then have hok: "handlers_ok hs w1"
    by (simp add: w1_def handlers_ok_def)
  have routes: "routes_ok hs (t' # T) w1"
  proof -
    have "y < Suc x \<and> ss_handler (ses w1 y) = g \<and> ss_stream (ses w1 y) = j \<and> y \<in> set (x # List.map_filter task_ses T)"
      if "g < length hs" "sh_streams (hdl w1 g) j = Some y" for g j y
    proof (cases "g = h \<and> j = i")
      case True
      then show ?thesis
        using that hdls new by (simp add: new_shell_session_def)
    next
      case False
      then have "sh_streams (hdl w g) j = Some y"
        using that hdls by (auto simp: k_def split: if_splits)
      then have "y < x" "ss_handler (ses w y) = g" "ss_stream (ses w y) = j" "y \<in> set (List.map_filter task_ses T)"
        using inv(4) that(1) unfolding routes_ok_def ses x_def by auto
      then show ?thesis
        using old by simp
    qed
    then show ?thesis
      unfolding routes_ok_def ses same(4) by blast
  qed
  have slots: "slots_ok hs (t' # T) w1"
    using inv(5) hdls unfolding slots_ok_def keys same k_def by auto
  have "x \<notin> set (List.map_filter task_ses T)"
    using inv(3) by (force simp: shell_task_ok_def x_def map_filter_def)
  then have dist: "distinct (List.map_filter task_ses (t' # T))"
    using inv(6) unfolding ses by simp
  have run: "y \<in> set (List.map_filter task_ses (t' # T))" if "y < length (w_sessions w1)" "ss_running (ses w1 y)" for y
  proof (cases "y = x")
    case False
    then have "y < x"
      using that(1) same(4) by simp
    then show ?thesis
      using inv(7) [of y] that(2) old unfolding ses x_def by simp
  qed (use ses(1) in simp)
  show ?thesis
    unfolding shell_inv_def using hok all_ses tasks routes slots dist run by blast
qed

text \<open>A new admission, and the goroutine that holds it.\<close>

lemma oldestDisplaceable_Some:
  "oldestDisplaceable w protected live = Some k \<Longrightarrow> k < length live \<and> (protected \<or> \<not> ad_protected (adm w (live ! k)))"
  by (induction live arbitrary: k) (auto split: if_splits)

lemma task_key_live: "task_key t = Some (Inl a) \<Longrightarrow> shell_task_ok hs w t \<Longrightarrow> a < length (w_admissions w)"
proof -
  assume key: "task_key t = Some (Inl a)" and ok: "shell_task_ok hs w t"
  then obtain h slot where slot: "task_slot t = Some (h, slot)" "slot_key (h, slot) = Some (Inl a)"
    by (auto simp: task_key_def bind_eq_Some_conv)
  then have "slot = LiveSlot a"
    by (simp add: slot_key_def split: shell_slot.splits)
  then show ?thesis
    using ok slot(1) by (simp add: shell_task_ok_def slot_ok_def)
qed

lemma slot_ok_extend:
  assumes "slot_ok hs w p" "\<And>a. a < length (w_admissions w) \<Longrightarrow> a < length (w_admissions w') \<and> ad_protected (adm w' a) = ad_protected (adm w a)"
  shows "slot_ok hs w' p"
  using assms by (simp add: slot_ok_def)

lemma admit_inv:
  assumes "shell_inv lib hs T w" "h < length hs" "shell_admit limit (sh_owner (hdl w h)) w = (Some (a, d), w1)"
    and t: "task_slot t = Some (h, LiveSlot a)" "task_ses t = None"
  shows "shell_inv lib hs (t # T) w1"
proof -
  note inv = shell_inv_parts [OF assms(1)]
  let ?prot = "sh_owner (hdl w h)"
  let ?live = "\<lambda>k. take k (w_live w) @ drop (Suc k) (w_live w)"
  have a: "a = length (w_admissions w)"
    and adms: "w_admissions w1 = w_admissions w @ [\<lparr>ad_protected = ?prot, ad_evict = None\<rparr>]"
    and rest: "w_handlers w1 = w_handlers w" "w_sessions w1 = w_sessions w"
    using assms(3) by (auto simp: shell_admit_def Let_def split: if_splits option.splits)
  have live: "(w_live w1 = w_live w @ [a] \<and> w_displaced w1 = w_displaced w) \<or>
      (\<exists>k < length (w_live w). w_live w1 = ?live k @ [a] \<and> w_displaced w1 = w_displaced w @ [(w_live w ! k, a)] \<and>
         (?prot \<or> \<not> ad_protected (adm w (w_live w ! k))))"
    using assms(3) a by (fastforce simp: shell_admit_def Let_def split: if_splits option.splits dest: oldestDisplaceable_Some)
  have key: "task_key t = Some (Inl a)"
    using t(1) by (simp add: task_key_def slot_key_def)
  have keys: "List.map_filter task_key (t # T) = Inl a # List.map_filter task_key T" "List.map_filter task_ses (t # T) = List.map_filter task_ses T"
    using key t(2) by (simp_all add: filter_Cons)
  have fresh: "Inl a \<notin> set (List.map_filter task_key T)"
  proof
    assume "Inl a \<in> set (List.map_filter task_key T)"
    then obtain s where "s \<in> set T" "task_key s = Some (Inl a)"
      by (auto simp: map_filter_def)
    then show False
      using task_key_live [OF _ inv(3), of s a] a by simp
  qed
  have ext: "b < length (w_admissions w) \<Longrightarrow> b < length (w_admissions w1) \<and> ad_protected (adm w1 b) = ad_protected (adm w b)" for b
    by (simp add: adms nth_append)
  have owner: "?prot = sh_owner (hs ! h)"
    using handlers_static [OF inv(1) assms(2)] by (simp add: sh_static_def)
  have "shell_task_ok hs w1 t"
    using t assms(2) owner by (cases t) (auto simp: shell_task_ok_def slot_ok_def adms a)
  moreover have "shell_task_ok hs w1 s" if "s \<in> set T" for s
    by (rule task_ok_extend [OF inv(3) [OF that] ext]) (simp_all add: rest)
  ultimately have tasks: "\<And>s. s \<in> set (t # T) \<Longrightarrow> shell_task_ok hs w1 s"
    by auto
  have in_live: "b < length (w_admissions w)" if live_b: "b \<in> set (w_live w)" for b
  proof -
    have "Inl b \<in> set (List.map_filter task_key T)"
      using inv(5) live_b by (simp add: slots_ok_def)
    then obtain s where "s \<in> set T" "task_key s = Some (Inl b)"
      by (auto simp: map_filter_def)
    then show ?thesis
      using task_key_live [OF _ inv(3), of s b] by simp
  qed
  have slots: "slots_ok hs (t # T) w1"
  proof -
    have old: "distinct (List.map_filter task_key T)" "distinct (w_live w)"
      "\<And>b. b \<in> set (w_live w) \<Longrightarrow> Inl b \<in> set (List.map_filter task_key T)"
      "\<And>b. Inl b \<in> set (List.map_filter task_key T) \<Longrightarrow> b \<in> set (w_live w) \<or> b \<in> fst ` set (w_displaced w)"
      "\<And>g. g < length hs \<Longrightarrow> sh_taken (hdl w g) = (Inr g \<in> set (List.map_filter task_key T))"
      "\<And>e b. (e, b) \<in> set (w_displaced w) \<Longrightarrow> e < length (w_admissions w) \<and> b < length (w_admissions w) \<and> (ad_protected (adm w e) \<longrightarrow> ad_protected (adm w b))"
      using inv(5) unfolding slots_ok_def by blast+
    have a_new: "a \<notin> set (w_live w)"
      using in_live a by blast
    have taken: "sh_taken (hdl w1 g) = (Inr g \<in> set (Inl a # List.map_filter task_key T))" if "g < length hs" for g
      using old(5) [OF that] by (simp add: rest)
    have prot_a: "ad_protected (adm w1 a) = ?prot" "a < length (w_admissions w1)"
      by (simp_all add: adms a)
    have lift: "e < length (w_admissions w1) \<and> b < length (w_admissions w1) \<and> (ad_protected (adm w1 e) \<longrightarrow> ad_protected (adm w1 b))"
      if "(e, b) \<in> set (w_displaced w)" for e b
      using old(6) [OF that] ext by simp
    have dist: "distinct (Inl a # List.map_filter task_key T)"
      using old(1) fresh by simp
    from live consider (keep) "w_live w1 = w_live w @ [a]" "w_displaced w1 = w_displaced w"
      | (swap) k where "k < length (w_live w)" "w_live w1 = ?live k @ [a]" "w_displaced w1 = w_displaced w @ [(w_live w ! k, a)]"
        "?prot \<or> \<not> ad_protected (adm w (w_live w ! k))"
      by blast
    then show ?thesis
    proof cases
      case keep
      then show ?thesis
        using old(2-4) a_new taken lift dist unfolding slots_ok_def keys by auto
    next
      case k: (swap k)
      define d where "d = w_live w ! k"
      have out: "mset (w_live w) = mset (d # ?live k)"
        unfolding d_def by (rule mset_nth_out [OF k(1)])
      have live_set: "set (w_live w) = insert d (set (?live k))"
        using arg_cong [OF out, of set_mset] by simp
      have live_dist: "distinct (?live k)"
        using old(2) k(1) by (simp add: set_take_disj_set_drop_if_distinct)
      have d: "d \<in> set (w_live w)"
        using live_set by simp
      then have pair: "d < length (w_admissions w1) \<and> (ad_protected (adm w1 d) \<longrightarrow> ad_protected (adm w1 a))"
        using in_live ext k(4) prot_a unfolding d_def by metis
      have "distinct (w_live w1)"
        unfolding k(2) using live_dist a_new live_set by simp
      moreover have "Inl b \<in> set (Inl a # List.map_filter task_key T)" if "b \<in> set (w_live w1)" for b
        using that old(3) live_set unfolding k(2) by auto
      moreover have "b \<in> set (w_live w1) \<or> b \<in> fst ` set (w_displaced w1)" if "Inl b \<in> set (Inl a # List.map_filter task_key T)" for b
        using that old(4) live_set unfolding k(2,3) d_def [symmetric] by auto
      moreover have "e < length (w_admissions w1) \<and> b < length (w_admissions w1) \<and> (ad_protected (adm w1 e) \<longrightarrow> ad_protected (adm w1 b))"
        if "(e, b) \<in> set (w_displaced w1)" for e b
        using that lift pair prot_a(2) unfolding k(3) d_def [symmetric] by auto
      ultimately show ?thesis
        using taken dist unfolding slots_ok_def keys by blast
    qed
  qed
  have "routes_ok hs (t # T) w1"
    using inv(4) unfolding routes_ok_def keys rest by blast
  moreover have "handlers_ok hs w1"
    using inv(1) by (simp add: handlers_ok_def rest)
  ultimately show ?thesis
    using inv(2,6,7) tasks slots unfolding shell_inv_def keys rest by blast
qed

text \<open>The terminal of a connection is taken, and the goroutine that holds it.\<close>

lemma take_terminal_inv:
  assumes "shell_inv lib hs T w" "h < length hs" "sh_policy (hdl w h) = OneTerminal" "\<not> sh_taken (hdl w h)"
  shows "shell_inv lib hs (TSpawn h i req final TerminalSlot # T) (upd_hdl h (\<lambda>k. k\<lparr>sh_taken := True\<rparr>) w)"
proof -
  let ?t = "TSpawn h i req final TerminalSlot"
  let ?w = "upd_hdl h (\<lambda>k. k\<lparr>sh_taken := True\<rparr>) w"
  note inv = shell_inv_parts [OF assms(1)]
  have len: "length (w_handlers w) = length hs"
    by (rule handlers_length [OF inv(1)])
  have same: "w_sessions ?w = w_sessions w" "w_admissions ?w = w_admissions w" "w_live ?w = w_live w" "w_displaced ?w = w_displaced w"
    and hdls: "\<And>g. g < length hs \<Longrightarrow> hdl ?w g = (if g = h then (hdl w h)\<lparr>sh_taken := True\<rparr> else hdl w g)"
    using len by (simp_all add: upd_hdl_def nth_set)
  have keys: "List.map_filter task_key (?t # T) = Inr h # List.map_filter task_key T" "List.map_filter task_ses (?t # T) = List.map_filter task_ses T"
    by (simp_all add: filter_Cons task_key_def slot_key_def)
  have "Inr h \<notin> set (List.map_filter task_key T)"
    using inv(5) assms(2,4) by (simp add: slots_ok_def)
  then have "slots_ok hs (?t # T) ?w"
    using inv(5) hdls unfolding slots_ok_def keys same by auto
  moreover have "handlers_ok hs ?w"
    by (rule handlers_upd [OF inv(1)]) (simp add: sh_static_def)
  moreover have "routes_ok hs (?t # T) ?w"
    using inv(4) hdls unfolding routes_ok_def keys same by auto
  moreover have "shell_task_ok hs ?w s" if "s \<in> set T" for s
    by (rule task_ok_extend [OF inv(3) [OF that]]) (simp_all add: same)
  moreover have "shell_task_ok hs ?w ?t"
    using assms(2,3) handlers_static [OF inv(1) assms(2)] by (simp add: shell_task_ok_def slot_ok_def sh_static_def)
  ultimately show ?thesis
    using inv(2,6,7) unfolding shell_inv_def keys same by auto
qed

lemma unslotted_spawn: "shell_inv lib hs T w \<Longrightarrow> h < length hs \<Longrightarrow> shell_inv lib hs (TSpawn h i req final NoSlot # T) w"
proof -
  assume inv: "shell_inv lib hs T w" and h: "h < length hs"
  have "List.map_filter task_key (TSpawn h i req final NoSlot # T) = List.map_filter task_key T"
    "List.map_filter task_ses (TSpawn h i req final NoSlot # T) = List.map_filter task_ses T"
    by (simp_all add: filter_Cons task_key_def slot_key_def)
  moreover have "shell_task_ok hs w (TSpawn h i req final NoSlot)"
    using h by (simp add: shell_task_ok_def slot_ok_def)
  ultimately show ?thesis
    using inv by (simp add: shell_inv_def routes_ok_def slots_ok_def)
qed

definition idle :: "shell_task \<Rightarrow> bool" where
  "idle t \<longleftrightarrow> task_slot t = None \<and> task_ses t = None"

lemma idle_list: "list_all idle ts \<Longrightarrow> shell_inv lib hs (ts @ T) w = shell_inv lib hs T w"
  by (induction ts) (simp_all add: idle_def idle_task)

lemma spawn_step_inv:
  assumes "shell_inv lib hs (TSpawn h i req final slot # T) w" "shell_spawn env lib c h i req final slot w = (t', w')"
  shows "shell_inv lib hs (t' # T) w'"
proof (cases "t' = TFree h slot")
  case True
  have "shell_inv lib hs (TFree h slot # T) w"
    by (rule replace_task [OF assms(1)]) simp_all
  moreover have "\<exists>msg. w' = sendShellError env (sc_ok c) h i msg w"
    using assms(2) True by (auto simp: shell_spawn_def Let_def split: if_splits option.splits shell_slot.splits)
  ultimately show ?thesis
    using True by (auto intro!: same_inv [OF _ same_error])
next
  case False
  let ?x = "length (w_sessions w)"
  have "sh_streams (hdl w h) i = None"
    and w': "w' = (upd_hdl h (\<lambda>k. k\<lparr>sh_streams := (sh_streams k)(i \<mapsto> ?x)\<rparr>) w)\<lparr>w_sessions := w_sessions w @ [new_shell_session lib h i (hdl w h) req slot]\<rparr>"
    and t': "t' = (case slot of LiveSlot a \<Rightarrow> TSetEvict h i ?x final a (so_pty req) | _ \<Rightarrow> TLaunch h i ?x final slot (so_pty req))"
    using assms(2) False by (auto simp: shell_spawn_def Let_def split: if_splits option.splits)
  then show ?thesis
    using shell_spawn_inv [OF assms(1), of t'] by (cases slot) simp_all
qed

text \<open>The goroutine that stands for nothing any more.\<close>

lemma idle_step: "shell_inv lib hs (t # T) w \<Longrightarrow> idle t \<Longrightarrow> list_all idle ts \<Longrightarrow> same_shells hs w w' \<Longrightarrow> shell_inv lib hs (ts @ T) w'"
  using idle_list idle_task same_inv unfolding idle_def by metis

lemma run_shell_inv:
  assumes "shell_inv lib hs (t # T) w" "run_shell env lib c t w = (ts, w')"
  shows "shell_inv lib hs (ts @ T) w'"
proof (cases t)
  case (TEvictFunc h i req final a d)
  let ?s = "TSpawn h i req final (LiveSlot a)"
  obtain es where ts: "ts = ?s # es" "list_all idle es" "w' = w"
    using assms(2) TEvictFunc by (auto simp: idle_def split: option.splits)
  have "shell_inv lib hs (?s # T) w"
    by (rule replace_task [OF assms(1)]) (simp_all add: TEvictFunc)
  then have "shell_inv lib hs (es @ ?s # T) w"
    by (simp add: idle_list ts(2))
  then show ?thesis
    unfolding ts by (rule shell_inv_mset) simp
next
  case (TSpawn h i req final slot)
  then show ?thesis
    using assms spawn_step_inv by (cases "shell_spawn env lib c h i req final slot w") auto
next
  case (TFree h slot)
  then show ?thesis
    using assms release_inv [OF assms(1)] by auto
next
  case (TSetEvict h i x final a pty)
  have "shell_inv lib hs (TLaunch h i x final (LiveSlot a) pty # T) w"
    by (rule replace_task [OF assms(1)]) (simp_all add: TSetEvict)
  then show ?thesis
    using assms(2) TSetEvict same_inv [OF _ same_evict] by auto
next
  case (TLaunch h i x final slot pty)
  define xs where "xs = TPump x tag_stdout # (if pty then [] else [TPump x tag_stderr])"
  define ys where "ys = (if final \<and> \<not> sh_view (hdl w h) then [TLastInput h i] else [])"
  have ts: "ts = xs @ TWait h x slot # ys" "list_all idle xs" "list_all idle ys" "w' = w"
    using assms(2) TLaunch by (auto simp: idle_def xs_def ys_def)
  have "shell_inv lib hs (TWait h x slot # T) w"
    by (rule replace_task [OF assms(1)]) (simp_all add: TLaunch)
  then have "shell_inv lib hs (xs @ ys @ TWait h x slot # T) w"
    by (simp add: idle_list ts(2,3))
  then show ?thesis
    unfolding ts by (rule shell_inv_mset) simp
next
  case (TWait h x slot)
  let ?w = "upd_ses x (\<lambda>s. s\<lparr>ss_running := False\<rparr>) w"
  show ?thesis
  proof (cases "sc_exit c")
    case True
    have x: "x < length (w_sessions w)"
      using shell_inv_parts(3) [OF assms(1), of t] TWait by (simp add: shell_task_ok_def)
    have "same_shells hs w ?w"
      by (rule same_upd_ses) (simp add: quiet_ses_def)
    then have "shell_inv lib hs (TWait h x slot # T) ?w"
      using same_inv assms(1) TWait by simp
    then have "shell_inv lib hs (TDetach h x slot # T) ?w"
      by (rule replace_task) (use x in \<open>simp_all add: upd_ses_def\<close>)
    then show ?thesis
      using assms(2) TWait True by auto
  qed (use assms TWait in auto)
next
  case (TDetach h x slot)
  have "same_shells hs w (upd_ses x (\<lambda>s. s\<lparr>ss_tty := False\<rparr>) w)" for w
    by (rule same_upd_ses) (simp add: quiet_ses_def)
  then show ?thesis
    using assms TDetach detach_inv same_inv by fastforce
next
  case (TRelease h x slot)
  have "same_shells hs (release h slot w) (upd_ses x (\<lambda>s. s\<lparr>ss_done := True\<rparr>) (release h slot w))"
    by (rule same_upd_ses) (simp add: quiet_ses_def)
  moreover have "shell_inv lib hs T (release h slot w)"
    by (rule release_inv [OF assms(1)]) (simp_all add: TRelease)
  ultimately have "shell_inv lib hs T w'"
    using assms(2) TRelease same_inv by auto
  then show ?thesis
    using assms(2) TRelease by (auto simp: idle_task)
next
  case (TLastInput h i)
  then show ?thesis
    using assms by (intro idle_step [OF assms(1)]) (auto simp: idle_def same_closeStdin)
next
  case (TEvict x)
  then show ?thesis
    using assms by (intro idle_step [OF assms(1)]) (auto simp: idle_def intro: same_trans [OF same_error same_terminate])
next
  case (TPump x tag)
  have "same_shells hs w (upd_ses x (\<lambda>s. s\<lparr>ss_read := f s\<rparr>) w)" "same_shells hs w (upd_ses x (\<lambda>s. s) w)" for f
    by (rule same_upd_ses, simp add: quiet_ses_def)+
  then show ?thesis
    using assms(2) TPump by (intro idle_step [OF assms(1)]) (auto simp: idle_def Let_def split: if_splits)
next
  case (TPumpSend x tag bs eof)
  then show ?thesis
    using assms(2) by (intro idle_step [OF assms(1)]) (auto simp: idle_def split: if_splits)
next
  case (TDrain x)
  have "same_shells hs w (upd_ses x (\<lambda>s. s\<lparr>ss_cancelled := True\<rparr>) w)"
    by (rule same_upd_ses) (simp add: quiet_ses_def)
  then show ?thesis
    using assms(2) TDrain by (intro idle_step [OF assms(1)]) (auto simp: idle_def split: if_splits)
next
  case (TDrainGrace x)
  then show ?thesis
    using assms(2) by (intro idle_step [OF assms(1)]) (auto simp: idle_def split: if_splits)
next
  case (TFin x)
  then show ?thesis
    using assms(2) by (intro idle_step [OF assms(1)]) (auto simp: idle_def)
next
  case (TKill xs)
  have kill: "same_shells hs w (upd_ses x (\<lambda>s. if ss_done s then s else s\<lparr>ss_killed := True\<rparr>) w)" for x w
    by (rule same_upd_ses) (simp add: quiet_ses_def)
  have "same_shells hs w (fold (\<lambda>x. upd_ses x (\<lambda>s. if ss_done s then s else s\<lparr>ss_killed := True\<rparr>)) xs w)" for w
    by (induction xs arbitrary: w) (auto intro: same_trans [OF kill])
  then show ?thesis
    using assms(2) TKill by (intro idle_step [OF assms(1)]) (auto simp: idle_def split: if_splits)
qed

lemma step_shell_inv:
  assumes "shell_inv lib hs (w_tasks w) w"
  shows "shell_inv lib hs (w_tasks (step_shell env lib c k w)) (step_shell env lib c k w)"
proof (cases "k < length (w_tasks w)")
  case True
  let ?T = "w_tasks w" and ?R = "take k (w_tasks w) @ drop (Suc k) (w_tasks w)"
  obtain ts w1 where run: "run_shell env lib c (?T ! k) w = (ts, w1)"
    by (cases "run_shell env lib c (?T ! k) w")
  have "shell_inv lib hs (?T ! k # ?R) w"
    by (rule shell_inv_mset [OF assms mset_nth_out [OF True]])
  then have "shell_inv lib hs (ts @ ?R) w1"
    by (rule run_shell_inv [OF _ run])
  then have "shell_inv lib hs (take k ?T @ ts @ drop (Suc k) ?T) w1"
    by (rule shell_inv_mset) simp
  then show ?thesis
    using True run same_inv [OF _ same_tasks] by (simp add: step_shell_def)
qed (simp add: step_shell_def assms)

section \<open>The callbacks\<close>

lemma same_tasks_field: "shell_inv lib hs T w \<Longrightarrow> shell_inv lib hs T (w\<lparr>w_tasks := ts\<rparr>)"
  by (rule same_inv [OF _ same_tasks])

lemma w_tasks_upd [simp]:
  "w_tasks (upd_hdl h f w) = w_tasks w" "w_tasks (upd_ses x g w) = w_tasks w" "w_tasks (w_send ok h i who fl b w) = w_tasks w"
  "w_tasks (closeInput x w) = w_tasks w" "w_tasks (terminate x w) = w_tasks w" "w_tasks (sendShellError env ok2 h i msg w) = w_tasks w"
  "w_tasks (closeStdin h i w) = w_tasks w"
  by (simp_all add: upd_hdl_def upd_ses_def w_send_def closeInput_def terminate_def sendShellError_def closeStdin_def split: option.split)

lemma added_task:
  assumes "shell_inv lib hs (t # w_tasks w) w"
  shows "shell_inv lib hs (w_tasks (w\<lparr>w_tasks := w_tasks w @ [t]\<rparr>)) (w\<lparr>w_tasks := w_tasks w @ [t]\<rparr>)"
proof -
  have "shell_inv lib hs (w_tasks w @ [t]) w"
    by (rule shell_inv_mset [OF assms]) simp
  then show ?thesis
    using same_tasks_field by simp
qed

lemma shell_admit_tasks: "shell_admit limit protected w = (r, w1) \<Longrightarrow> w_tasks w1 = w_tasks w"
  by (auto simp: shell_admit_def Let_def split: if_splits option.splits)

lemma shell_OnSYN_inv:
  assumes "shell_inv lib hs (w_tasks w) w" "h < length hs"
  shows "shell_inv lib hs (w_tasks (shell_OnSYN env ok h i payload final w)) (shell_OnSYN env ok h i payload final w)"
proof -
  obtain req d where req: "Unmarshal put_shellopen zero_open (js_parse env payload) = (req, d)"
    by fastforce
  have refuse: "shell_inv lib hs (w_tasks (sendShellError env ok h i msg w)) (sendShellError env ok h i msg w)" for msg
    using same_inv [OF assms(1) same_error] by simp
  show ?thesis
  proof (cases d)
    case False
    then show ?thesis
      using req refuse by (simp add: shell_OnSYN_def)
  next
    case d: True
    show ?thesis
    proof (cases "sh_policy (hdl w h)")
      case (RefuseAll msg)
      then show ?thesis
        using req d refuse by (simp add: shell_OnSYN_def)
    next
      case OneTerminal
      let ?w = "upd_hdl h (\<lambda>k. k\<lparr>sh_taken := True\<rparr>) w"
      have "shell_inv lib hs (TSpawn h i req final TerminalSlot # w_tasks ?w) ?w" if "\<not> sh_taken (hdl w h)"
        using take_terminal_inv [OF assms OneTerminal that] by simp
      then show ?thesis
        using req d refuse OneTerminal added_task [of lib hs _ ?w] by (simp add: shell_OnSYN_def)
    next
      case (MaxConcurrent limit)
      show ?thesis
      proof (cases "limit = 0")
        case True
        then show ?thesis
          using req d MaxConcurrent added_task [OF unslotted_spawn [OF assms]] by (simp add: shell_OnSYN_def)
      next
        case False
        obtain r w1 where adm: "shell_admit limit (sh_owner (hdl w h)) w = (r, w1)"
          by fastforce
        show ?thesis
        proof (cases r)
          case None
          then have "w1 = w"
            using adm by (auto simp: shell_admit_def Let_def split: if_splits option.splits)
          then show ?thesis
            using req d MaxConcurrent False adm None refuse by (simp add: shell_OnSYN_def)
        next
          case (Some p)
          obtain a b where p: "p = (a, b)"
            by fastforce
          define t where "t = (case b of None \<Rightarrow> TSpawn h i req final (LiveSlot a) | Some e \<Rightarrow> TEvictFunc h i req final a e)"
          have "shell_inv lib hs (t # w_tasks w1) w1"
            unfolding shell_admit_tasks [OF adm]
            by (rule admit_inv [OF assms adm [unfolded Some p]]) (simp_all add: t_def split: option.split)
          moreover have "shell_OnSYN env ok h i payload final w = w1\<lparr>w_tasks := w_tasks w1 @ [t]\<rparr>"
            using req d MaxConcurrent False adm Some p by (simp add: shell_OnSYN_def t_def split: option.split)
          ultimately show ?thesis
            using added_task by simp
        qed
      qed
    qed
  qed
qed

lemma same_OnDAT:
  assumes "shell_inv lib hs T w" "h < length hs"
  shows "same_shells hs w (shell_OnDAT h i payload w)"
proof -
  note inv = shell_inv_parts [OF assms(1)]
  have view: "sh_view (hdl w h) = sh_view (hs ! h)"
    using handlers_static [OF inv(1) assms(2)] by (simp add: sh_static_def)
  have route: "ss_handler (ses w x) = h" if "sh_streams (hdl w h) i = Some x" for x
    using inv(4) assms(2) that by (auto simp: routes_ok_def)
  have "same_shells hs w (upd_ses x f w)"
    if x: "sh_streams (hdl w h) i = Some x" "\<not> sh_view (hdl w h)" "\<And>s. \<exists>a b. f s = s\<lparr>ss_input := a, ss_signals := b\<rparr>" for x f
  proof (rule same_upd_ses)
    obtain a b where "f (ses w x) = (ses w x)\<lparr>ss_input := a, ss_signals := b\<rparr>"
      using x(3) by blast
    then show "quiet_ses hs (ses w x) (f (ses w x))"
      using route [OF x(1)] x(2) view by (simp add: quiet_ses_def)
  qed
  note upd = this
  have inp: "same_shells hs w (writeInput x body w)" if "sh_streams (hdl w h) i = Some x" "\<not> sh_view (hdl w h)" for x body
    unfolding writeInput_def by (rule upd [OF that]) (metis shell_session.surjective shell_session.update_convs(9,10))
  have sig: "same_shells hs w (upd_ses x (\<lambda>s. s\<lparr>ss_signals := ss_signals s @ [n]\<rparr>) w)" if "sh_streams (hdl w h) i = Some x" "\<not> sh_view (hdl w h)" for x n
    by (rule upd [OF that]) (metis shell_session.surjective shell_session.update_convs(9,10))
  have "same_shells hs w (resize_pty x cols rows w)" for x cols rows
    unfolding resize_pty_def by (rule same_upd_ses) (simp add: quiet_ses_def)
  then show ?thesis
    using inp sig by (simp add: shell_OnDAT_def split: list.split option.split)
qed

lemma same_OnReset: "same_shells hs w (shell_OnReset h i w)"
proof -
  have cancel: "same_shells hs w (upd_ses x (\<lambda>s. s\<lparr>ss_cancelled := True\<rparr>) w)" for x
    by (rule same_upd_ses) (simp add: quiet_ses_def)
  show ?thesis
    using same_trans [OF same_trans [OF cancel same_terminate] same_closeInput]
    by (simp add: shell_OnReset_def split: option.split)
qed

lemma fold_terminate: "same_shells hs w (fold terminate xs w)" "w_tasks (fold terminate xs w) = w_tasks w"
  by (induction xs arbitrary: w) (auto intro: same_trans [OF same_terminate])

lemma CloseShell_inv:
  assumes "shell_inv lib hs (w_tasks w) w"
  shows "shell_inv lib hs (w_tasks (CloseShell h w)) (CloseShell h w)"
proof -
  let ?w = "fold terminate (shell_tabled h w) (upd_hdl h (\<lambda>k. k\<lparr>sh_closed := True\<rparr>) w)"
  have "same_shells hs w (upd_hdl h (\<lambda>k. k\<lparr>sh_closed := True\<rparr>) w)"
    by (rule same_upd_hdl) (simp add: sh_static_def)
  then have "same_shells hs w ?w"
    using same_trans fold_terminate(1) by blast
  then have inv: "shell_inv lib hs (w_tasks ?w) ?w"
    using same_inv [OF assms] fold_terminate(2) by simp
  have "shell_inv lib hs (TKill xs # w_tasks ?w) ?w" for xs
    using inv by (simp add: idle_task)
  then show ?thesis
    using inv assms added_task by (cases "shell_tabled h w = []") (simp_all add: CloseShell_def Let_def)
qed

lemma shell_step_inv:
  assumes "shell_inv lib hs (w_tasks w) w"
  shows "shell_inv lib hs (w_tasks (shell_step env lib ev w)) (shell_step env lib ev w)"
proof -
  have len: "length (w_handlers w) = length hs"
    by (rule handlers_length [OF shell_inv_parts(1) [OF assms]])
  show ?thesis
  proof (cases ev)
    case (ShellSYN h i payload final ok)
    then show ?thesis
      using assms shell_OnSYN_inv [OF assms] len by (simp add: on_handler_def)
  next
    case (ShellDAT h i payload)
    have "w_tasks (shell_OnDAT h i payload w) = w_tasks w"
      by (simp add: shell_OnDAT_def writeInput_def resize_pty_def split: list.split option.split)
    then show ?thesis
      using ShellDAT assms same_inv [OF assms same_OnDAT [OF assms]] len by (simp add: on_handler_def)
  next
    case (ShellFIN h i)
    then show ?thesis
      using assms same_inv [OF assms same_closeStdin] by (simp add: on_handler_def shell_OnFIN_def)
  next
    case (ShellReset h i)
    have "w_tasks (shell_OnReset h i w) = w_tasks w"
      by (simp add: shell_OnReset_def split: option.split)
    then show ?thesis
      using ShellReset assms same_inv [OF assms same_OnReset] by (simp add: on_handler_def)
  next
    case (ShellClose h)
    then show ?thesis
      using assms CloseShell_inv [OF assms] by (simp add: on_handler_def)
  next
    case (ShellPeerGone h)
    have "same_shells hs w (upd_hdl h (\<lambda>k. k\<lparr>sh_gone := True\<rparr>) w)"
      by (rule same_upd_hdl) (simp add: sh_static_def)
    then show ?thesis
      using ShellPeerGone assms same_inv [OF assms] by (simp add: on_handler_def)
  next
    case (ShellTask k c)
    then show ?thesis
      using step_shell_inv [OF assms] by simp
  qed
qed

lemma shell_reachable_inv: "shell_reachable env lib hs w \<Longrightarrow> shell_inv lib hs (w_tasks w) w"
proof (induction rule: shell_reachable.induct)
  case start
  then show ?case
    by (simp add: shell_start_def shell_inv_def handlers_ok_def routes_ok_def slots_ok_def map_filter_simps list_all_length fresh_handler_def)
next
  case (step w ev)
  show ?case
    by (rule shell_step_inv [OF step.IH])
qed

end
