(* ===== verification/Shell_Props.thy ===== *)
theory Shell_Props
  imports Shell_Laws
begin

text \<open>
  The properties of shells, over every interleaving of the callbacks and goroutines of all sessions, and a run
  in which a displaced shell is never told to end.
\<close>

section \<open>The limit\<close>

definition limited :: "nat \<Rightarrow> shell_handler list \<Rightarrow> bool" where
  "limited limit hs \<longleftrightarrow> (\<forall>k \<in> set hs. \<forall>n. sh_policy k = MaxConcurrent n \<longrightarrow> n \<le> limit)"

lemma release_live: "length (w_live (release h slot w)) \<le> length (w_live w)"
  by (simp add: release_def upd_hdl_def length_remove1 split: shell_slot.split)

lemma live_upd [simp]:
  "w_live (upd_hdl h f w) = w_live w" "w_live (upd_ses x g w) = w_live w" "w_live (w_send ok h i who fl b w) = w_live w"
  "w_live (closeInput x w) = w_live w" "w_live (terminate x w) = w_live w" "w_live (sendShellError env ok2 h i msg w) = w_live w"
  "w_live (closeStdin h i w) = w_live w" "w_live (fold terminate xs w) = w_live w"
proof -
  show [simp]: "w_live (upd_hdl h f w) = w_live w" "w_live (upd_ses x g w) = w_live w" "w_live (w_send ok h i who fl b w) = w_live w" for h f x g ok i who fl b w
    by (simp_all add: upd_hdl_def upd_ses_def w_send_def)
  show [simp]: "w_live (closeInput x w) = w_live w" "w_live (terminate x w) = w_live w" for x w
    by (simp_all add: closeInput_def terminate_def)
  show "w_live (sendShellError env ok2 h i msg w) = w_live w" "w_live (closeStdin h i w) = w_live w"
    by (simp_all add: sendShellError_def closeStdin_def split: option.split)
  show "w_live (fold terminate xs w) = w_live w"
    by (induction xs arbitrary: w) simp_all
qed

lemma run_live: "run_shell env lib c t w = (ts, w') \<Longrightarrow> length (w_live w') \<le> length (w_live w)"
proof (cases t)
  case (TKill xs)
  have "w_live (fold (\<lambda>x. upd_ses x (\<lambda>s. if ss_done s then s else s\<lparr>ss_killed := True\<rparr>)) xs w) = w_live w" for w
    by (induction xs arbitrary: w) simp_all
  moreover assume "run_shell env lib c t w = (ts, w')"
  ultimately show ?thesis
    using TKill by (auto split: if_splits)
qed (auto simp: shell_spawn_def Let_def release_live split: if_splits option.splits shell_slot.splits)

lemma admit_live:
  "shell_admit n protected w = (r, w') \<Longrightarrow> 0 < n \<Longrightarrow> length (w_live w') \<le> max n (length (w_live w))"
  by (auto simp: shell_admit_def Let_def split: if_splits option.splits dest!: oldestDisplaceable_Some)

lemma OnSYN_live:
  assumes "limited limit hs" "handlers_ok hs w" "h < length hs" "length (w_live w) \<le> limit"
  shows "length (w_live (shell_OnSYN env ok h i payload final w)) \<le> limit"
proof -
  have n: "n \<le> limit" if "sh_policy (hdl w h) = MaxConcurrent n" for n
  proof -
    have "sh_policy (hs ! h) = MaxConcurrent n"
      using handlers_static [OF assms(2,3)] that by (simp add: sh_static_def)
    then show ?thesis
      using assms(1,3) nth_mem unfolding limited_def by blast
  qed
  show ?thesis
  proof (cases "sh_policy (hdl w h)")
    case (MaxConcurrent m)
    obtain r w1 where adm: "shell_admit m (sh_owner (hdl w h)) w = (r, w1)"
      by fastforce
    have "length (w_live w1) \<le> limit" if "m \<noteq> 0"
      using admit_live [OF adm] n [OF MaxConcurrent] assms(4) that by simp
    then show ?thesis
      using MaxConcurrent adm assms(4) by (simp add: shell_OnSYN_def split: prod.split option.split)
  qed (use assms(4) in \<open>simp_all add: shell_OnSYN_def split: prod.split\<close>)
qed

lemma live_limit:
  assumes "shell_reachable env lib hs w" "limited limit hs"
  shows "length (w_live w) \<le> limit"
  using assms(1)
proof (induction rule: shell_reachable.induct)
  case start
  show ?case
    by (simp add: shell_start_def)
next
  case (step w ev)
  have inv: "handlers_ok hs w"
    by (rule shell_inv_parts(1) [OF shell_reachable_inv [OF step.hyps]])
  show ?case
  proof (cases ev)
    case (ShellSYN h i payload final ok)
    then show ?thesis
      using OnSYN_live [OF assms(2) inv _ step.IH] handlers_length [OF inv] step.IH by (simp add: on_handler_def)
  next
    case (ShellTask k c)
    obtain ts w1 where run: "run_shell env lib c (w_tasks w ! k) w = (ts, w1)"
      by (cases "run_shell env lib c (w_tasks w ! k) w")
    then show ?thesis
      using ShellTask run_live [OF run] step.IH by (simp add: step_shell_def)
  qed (use step.IH in \<open>simp_all add: on_handler_def shell_OnDAT_def writeInput_def resize_pty_def shell_OnFIN_def shell_OnReset_def
         CloseShell_def Let_def split: list.split option.split\<close>)
qed

section \<open>The slot of a running shell\<close>

lemma running_task:
  assumes "shell_inv lib hs (w_tasks w) w" "x < length (w_sessions w)" "ss_running (ses w x)"
  obtains t where "t \<in> set (w_tasks w)" "task_ses t = Some x" "task_slot t = Some (ss_handler (ses w x), ss_slot (ses w x))"
    "slot_ok hs w (ss_handler (ses w x), ss_slot (ses w x))"
proof -
  note inv = shell_inv_parts [OF assms(1)]
  have "x \<in> set (List.map_filter task_ses (w_tasks w))"
    by (rule inv(7) [OF assms(2,3)])
  then obtain t where t: "t \<in> set (w_tasks w)" "task_ses t = Some x"
    by (auto simp: map_filter_def)
  then show thesis
    using inv(3) [OF t(1)] that by (auto simp: shell_task_ok_def)
qed

lemma running_live:
  assumes "shell_inv lib hs (w_tasks w) w" "x < length (w_sessions w)" "ss_running (ses w x)" "ss_slot (ses w x) = LiveSlot a"
  shows "a \<in> set (w_live w) \<or> (\<exists>b. (a, b) \<in> set (w_displaced w) \<and> (sh_owner (hs ! ss_handler (ses w x)) \<longrightarrow> ad_protected (adm w b)))"
proof -
  note inv = shell_inv_parts [OF assms(1)]
  obtain t where t: "t \<in> set (w_tasks w)" "task_slot t = Some (ss_handler (ses w x), LiveSlot a)" "slot_ok hs w (ss_handler (ses w x), LiveSlot a)"
    using running_task [OF assms(1-3)] assms(4) by metis
  then have "task_key t = Some (Inl a)"
    by (simp add: task_key_def slot_key_def)
  then have "Inl a \<in> set (List.map_filter task_key (w_tasks w))"
    using t(1) by (force simp: map_filter_def)
  then have "a \<in> set (w_live w) \<or> a \<in> fst ` set (w_displaced w)"
    using inv(5) by (simp add: slots_ok_def)
  moreover have "ad_protected (adm w a) = sh_owner (hs ! ss_handler (ses w x))"
    using t(3) by (simp add: slot_ok_def)
  moreover have "ad_protected (adm w d) \<longrightarrow> ad_protected (adm w b)" if "(d, b) \<in> set (w_displaced w)" for d b
    using inv(5) that unfolding slots_ok_def by blast
  ultimately show ?thesis
    by force
qed

lemma running_slots_differ:
  assumes "shell_inv lib hs (w_tasks w) w" "x < length (w_sessions w)" "y < length (w_sessions w)"
    "ss_running (ses w x)" "ss_running (ses w y)" "x \<noteq> y" "ss_slot (ses w x) = ss_slot (ses w y)"
  shows "ss_slot (ses w x) = NoSlot \<or> (ss_slot (ses w x) = TerminalSlot \<and> ss_handler (ses w x) \<noteq> ss_handler (ses w y))"
proof (rule ccontr)
  assume neg: "\<not> ?thesis"
  obtain t where t: "t \<in> set (w_tasks w)" "task_ses t = Some x" "task_slot t = Some (ss_handler (ses w x), ss_slot (ses w x))"
    using running_task [OF assms(1,2,4)] by metis
  obtain u where u: "u \<in> set (w_tasks w)" "task_ses u = Some y" "task_slot u = Some (ss_handler (ses w y), ss_slot (ses w y))"
    using running_task [OF assms(1,3,5)] by metis
  have same: "slot_key (ss_handler (ses w x), ss_slot (ses w x)) = slot_key (ss_handler (ses w y), ss_slot (ses w y))"
    "slot_key (ss_handler (ses w x), ss_slot (ses w x)) \<noteq> None"
    using neg assms(7) by (auto simp: slot_key_def split: shell_slot.split)
  then obtain key where key: "task_key t = Some key" "task_key u = Some key"
    using t(3) u(3) by (auto simp: task_key_def)
  obtain xs ys where T: "w_tasks w = xs @ t # ys"
    using t(1) split_list by metis
  then have "u \<in> set (xs @ ys)"
    using u(1,2) t(2) assms(6) by auto
  moreover have "key \<notin> set (List.map_filter task_key (xs @ ys))"
    using shell_inv_parts(5) [OF assms(1)] key(1) unfolding slots_ok_def T by (auto simp: map_filter_def)
  ultimately show False
    using key(2) by (force simp: map_filter_def)
qed

text \<open>A session of a view-only handler, but for the size of its terminal.\<close>

definition unsized :: "shell_session \<Rightarrow> shell_session" where
  "unsized s = s\<lparr>ss_size := (0, 0)\<rparr>"

lemma viewer_frames:
  assumes "shell_inv lib hs T w" "x < length (w_sessions w)" "sh_view (hs ! ss_handler (ses w x))"
  shows "unsized (ses (shell_step env lib (ShellDAT h i payload) w) x) = unsized (ses w x)"
    and "ses (shell_step env lib (ShellFIN h i) w) x = ses w x"
    and "ses (shell_step env lib (ShellReset h i) w) x \<noteq> ses w x \<Longrightarrow> h = ss_handler (ses w x) \<and> i = ss_stream (ses w x)"
proof -
  note inv = shell_inv_parts [OF assms(1)]
  have len: "length (w_handlers w) = length hs"
    using inv(1) unfolding handlers_ok_def by (metis length_map)
  have mine: "h = ss_handler (ses w x) \<and> i = ss_stream (ses w x)" if "sh_streams (hdl w h) i = Some x" "h < length hs"
    using inv(4) that by (auto simp: routes_ok_def)
  have view: "sh_view (hdl w h)" if "sh_streams (hdl w h) i = Some x" "h < length hs"
    using handlers_static [OF inv(1) that(2)] mine [OF that] assms(3) by (simp add: sh_static_def)
  have other: "ses (upd_ses y f w') x = ses w' x" if "y \<noteq> x" for y f w'
    using that by (simp add: upd_ses_def)
  show "unsized (ses (shell_step env lib (ShellDAT h i payload) w) x) = unsized (ses w x)"
  proof (cases "sh_streams (hdl w h) i = Some x \<and> h < length hs")
    case True
    then show ?thesis
      using view assms(2)
      by (auto simp: on_handler_def shell_OnDAT_def resize_pty_def upd_ses_def unsized_def split: list.split)
  next
    case False
    then show ?thesis
      using other by (auto simp: len on_handler_def shell_OnDAT_def resize_pty_def writeInput_def split: list.split option.split)
  qed
  show "ses (shell_step env lib (ShellFIN h i) w) x = ses w x"
    using view other
    by (cases "sh_streams (hdl w h) i = Some x")
      (auto simp: len on_handler_def shell_OnFIN_def closeStdin_def closeInput_def split: option.split)
  show "h = ss_handler (ses w x) \<and> i = ss_stream (ses w x)" if "ses (shell_step env lib (ShellReset h i) w) x \<noteq> ses w x"
    using that mine other
    by (cases "sh_streams (hdl w h) i = Some x")
      (auto simp: len on_handler_def shell_OnReset_def closeInput_def terminate_def split: option.splits if_splits)
qed

section \<open>Properties\<close>


text \<open>
  C38. The limit on shells, across all sessions. The list of live shells never exceeds the limit of the handlers;
  a running shell is in the list or was displaced from it by a later arrival, the owner's only by the owner; and
  no two running shells hold the same slot, so that a connection of a shared terminal has one at most.
\<close>

theorem shell_limit:
  assumes "shell_reachable env lib hs w" "limited limit hs"
  shows "length (w_live w) \<le> limit \<and>
    (\<forall>x < length (w_sessions w). \<forall>a. ss_running (ses w x) \<and> ss_slot (ses w x) = LiveSlot a \<longrightarrow>
       a \<in> set (w_live w) \<or> (\<exists>b. (a, b) \<in> set (w_displaced w) \<and> (sh_owner (hs ! ss_handler (ses w x)) \<longrightarrow> ad_protected (adm w b)))) \<and>
    (\<forall>x < length (w_sessions w). \<forall>y < length (w_sessions w).
       ss_running (ses w x) \<and> ss_running (ses w y) \<and> x \<noteq> y \<and> ss_slot (ses w x) = ss_slot (ses w y) \<longrightarrow>
       ss_slot (ses w x) = NoSlot \<or> (ss_slot (ses w x) = TerminalSlot \<and> ss_handler (ses w x) \<noteq> ss_handler (ses w y)))"
proof -
  note inv = shell_reachable_inv [OF assms(1)]
  show ?thesis
    using live_limit [OF assms] running_live [OF inv] running_slots_differ [OF inv] by blast
qed

text \<open>
  C39. No slot is lost. When no goroutine is left, whatever happened before, no shell is live, no process runs,
  no connection holds its terminal and no handler has a stream.
\<close>

theorem shell_slots_returned:
  assumes "shell_reachable env lib hs w" "w_tasks w = []"
  shows "w_live w = [] \<and> True \<notin> ss_running ` set (w_sessions w) \<and>
    (\<forall>k \<in> set (w_handlers w). \<not> sh_taken k \<and> sh_streams k = Map.empty)"
proof -
  note inv = shell_inv_parts [OF shell_reachable_inv [OF assms(1)], unfolded assms(2)]
  have none: "set (List.map_filter f ([] :: shell_task list)) = {}" for f :: "shell_task \<Rightarrow> 'b option"
    by (simp add: map_filter_simps)
  have "w_live w = []"
    using inv(5) by (cases "w_live w") (auto simp: slots_ok_def map_filter_simps)
  moreover have "\<not> ss_running s" if "s \<in> set (w_sessions w)" for s
    using inv(7) that by (auto simp: in_set_conv_nth map_filter_simps)
  moreover have "\<not> sh_taken (hdl w h) \<and> sh_streams (hdl w h) = Map.empty" if "h < length (w_handlers w)" for h
  proof -
    have h: "h < length hs"
      using that handlers_length [OF inv(1)] by simp
    have "sh_streams (hdl w h) i = None" for i
      using inv(4) h by (cases "sh_streams (hdl w h) i") (auto simp: routes_ok_def map_filter_simps)
    then show ?thesis
      using inv(5) h by (auto simp: slots_ok_def map_filter_simps)
  qed
  ultimately show ?thesis
    by (auto simp: in_set_conv_nth)
qed

section \<open>Runs\<close>

definition shell_request :: json where
  "shell_request = JObj [(''type'', JStr ''shell'')]"

definition shell_demo_env :: go_env where
  "shell_demo_env = indexed_env [shell_request]"

definition demo_lib :: shell_lib where
  "demo_lib = \<lparr>sl_environ = [''A=1''], sl_shell = ''sh''\<rparr>"

definition shell_turn :: shell_choice where
  "shell_turn = \<lparr>sc_fail = None, sc_ok = (True, True), sc_sent = True, sc_data = [], sc_eof = True, sc_exit = True, sc_timeout = False,
     sc_code = 0, sc_signal = []\<rparr>"

lemma shell_request_decoded:
  "Unmarshal put_shellopen zero_open (js_parse shell_demo_env (js_print shell_demo_env shell_request)) = (zero_open, True)"
proof -
  have "readable shell_demo_env shell_request"
    unfolding shell_demo_env_def by (rule indexed_readable) simp_all
  then show ?thesis
    by (simp add: readable_def shell_request_def Unmarshal_def put_shellopen_def as_string_def)
qed

lemma zero_open_fields: "so_argv zero_open = []" "so_pty zero_open = False" "so_cols zero_open = 0" "so_env zero_open = []" "so_cwd zero_open = []"
  by (simp_all add: zero_open_def)

lemmas shell_run_defs = shell_OnSYN_def shell_request_decoded zero_open_fields defaultShellArgv_def on_handler_def shell_start_def NewShell_def shell_admit_def
  step_shell_def shell_spawn_def new_shell_session_def shell_argv_def shell_env_def upd_hdl_def upd_ses_def shell_turn_def shell_OnDAT_def
  release_def Let_def

definition viewer :: shell_handler where
  "viewer = (NewShell [''top''])\<lparr>sh_view := True, sh_policy := OneTerminal\<rparr>"

definition viewed :: shell_world where
  "viewed = fold (shell_step shell_demo_env demo_lib)
     [ShellSYN 0 1 (js_print shell_demo_env shell_request) False (True, True), ShellTask 0 shell_turn, ShellDAT 0 1 [0, 65]] (shell_start [viewer])"

lemma viewed_reachable: "shell_reachable shell_demo_env demo_lib [viewer] viewed"
  unfolding viewed_def
  by (rule shell_reachable_run [OF shell_reachable.start]) (simp add: fresh_handler_def viewer_def NewShell_def)

lemma viewed_run: "map ss_argv (w_sessions viewed) = [[''top'']]"
  by (simp add: viewed_def viewer_def shell_run_defs)


text \<open>Two sessions under a limit of one. The second is admitted while the process of the first is starting.\<close>

definition one_shell :: shell_handler where
  "one_shell = (NewShell [])\<lparr>sh_policy := MaxConcurrent 1\<rparr>"

definition crossed :: shell_world where
  "crossed = fold (shell_step shell_demo_env demo_lib)
     [ShellSYN 0 1 (js_print shell_demo_env shell_request) False (True, True),
      ShellSYN 1 1 (js_print shell_demo_env shell_request) False (True, True),
      ShellTask 1 shell_turn, ShellTask 0 shell_turn, ShellTask 0 shell_turn, ShellTask 1 shell_turn, ShellTask 1 shell_turn]
     (shell_start [one_shell, one_shell])"

lemma crossed_reachable: "shell_reachable shell_demo_env demo_lib [one_shell, one_shell] crossed"
  unfolding crossed_def
  by (rule shell_reachable_run [OF shell_reachable.start]) (simp add: fresh_handler_def one_shell_def NewShell_def)

text \<open>
  The shell displaced while it was starting runs on beside the one that took its slot: nothing was asked of it,
  no goroutine is going to, and the list of live shells no longer knows it.
\<close>

lemma displaced_shell_runs_on:
  "map ss_running (w_sessions crossed) = [True, True] \<and> map ss_hup (w_sessions crossed) = [False, False] \<and> w_live crossed = [1] \<and>
   w_displaced crossed = [(0, 1)] \<and> w_tasks crossed = [TLaunch 0 1 0 False (LiveSlot 0) False, TLaunch 1 1 1 False (LiveSlot 1) False]"
  by (simp add: crossed_def one_shell_def shell_run_defs)

theorem shell_limit_witness: "length (w_live crossed) \<le> 1"
  using shell_limit [OF crossed_reachable, of 1] by (simp add: limited_def one_shell_def NewShell_def)

definition shell_over :: shell_world where
  "shell_over = fold (shell_step shell_demo_env demo_lib)
     (ShellSYN 0 1 (js_print shell_demo_env shell_request) False (True, True) # replicate 9 (ShellTask 0 shell_turn)) (shell_start [viewer])"

lemma shell_over_reachable: "shell_reachable shell_demo_env demo_lib [viewer] shell_over"
  unfolding shell_over_def
  by (rule shell_reachable_run [OF shell_reachable.start]) (simp add: fresh_handler_def viewer_def NewShell_def)

lemma shell_over_run: "w_tasks shell_over = []"
  by (simp add: shell_over_def viewer_def shell_run_defs numeral_eq_Suc pumping_def w_send_def exit_json_def)

theorem shell_slots_returned_witness: "w_live shell_over = [] \<and> True \<notin> sh_taken ` set (w_handlers shell_over)"
  using shell_slots_returned [OF shell_over_reachable shell_over_run] by auto

end
