(* ===== verification/CliArgs.thy ===== *)
theory CliArgs
  imports BB_Prelude
begin

text \<open>
  \<^verbatim>\<open>cmd/bitbang/args.go\<close>: \<open>reorderArgs\<close> moves flags in front of the positional arguments before the
  command line reaches Go's \<^verbatim>\<open>flag\<close> package, which stops at the first argument that is not a flag. The
  parser of that package is modelled as it is, and compared with a parser that accepts flags anywhere.

  A flag set maps a name to whether the flag is boolean and to the values it accepts. The result of
  parsing is the settings made, in order, and then the positional arguments or the error.
\<close>

section \<open>The flag package\<close>

record flag_def =
  fk_bool :: bool
  fk_ok :: "string \<Rightarrow> bool"

type_synonym flag_set = "string \<Rightarrow> flag_def option"

datatype flag_error = BadSyntax string | UndefinedFlag string | HelpAsked | NeedsArg string | BadValue string string

type_synonym flag_result = "(string \<times> string) list \<times> (flag_error, string list) go_result"

definition is_flag :: "string \<Rightarrow> bool" where
  "is_flag s \<longleftrightarrow> 2 \<le> length s \<and> hd s = CHR ''-''"

text \<open>The name and the value after an equals sign, of a token that is a flag; an equals sign cannot come first.\<close>

definition flag_name :: "string \<Rightarrow> string" where
  "flag_name s = (if s ! 1 = CHR ''-'' then drop 2 s else drop 1 s)"

definition split_flag :: "string \<Rightarrow> (string \<times> string option) option" where
  "split_flag s =
     (let name = flag_name s in
      if name = [] \<or> hd name = CHR ''-'' \<or> hd name = CHR ''='' then None
      else case IndexByte name (CHR ''='') of
        None \<Rightarrow> Some (name, None)
      | Some i \<Rightarrow> Some (take i name, Some (drop (Suc i) name)))"

definition set_flag :: "flag_def \<Rightarrow> string \<Rightarrow> string \<Rightarrow> string list \<Rightarrow> (flag_error, (string \<times> string) \<times> string list) go_result" where
  "set_flag k name v rest = (if fk_ok k v then Ok ((name, v), rest) else Err (BadValue name v))"

definition parseOne :: "flag_set \<Rightarrow> string \<Rightarrow> string list \<Rightarrow> (flag_error, (string \<times> string) \<times> string list) go_result" where
  "parseOne fs s rest =
     (case split_flag s of
        None \<Rightarrow> Err (BadSyntax s)
      | Some (name, val) \<Rightarrow>
          (case fs name of
             None \<Rightarrow> Err (if name = ''help'' \<or> name = ''h'' then HelpAsked else UndefinedFlag name)
           | Some k \<Rightarrow>
               (case val of
                  Some v \<Rightarrow> set_flag k name v rest
                | None \<Rightarrow>
                    if fk_bool k then set_flag k name ''true'' rest
                    else (case rest of [] \<Rightarrow> Err (NeedsArg name) | v # r \<Rightarrow> set_flag k name v r))))"

lemma parseOne_shorter: "parseOne fs s rest = Ok (kv, r) \<Longrightarrow> length r \<le> length rest"
  by (auto simp: parseOne_def set_flag_def split: option.splits if_splits list.splits)

function FlagParse :: "flag_set \<Rightarrow> string list \<Rightarrow> flag_result" where
  "FlagParse fs [] = ([], Ok [])"
| "FlagParse fs (s # rest) =
     (if \<not> is_flag s then ([], Ok (s # rest))
      else if s = ''--'' then ([], Ok rest)
      else case parseOne fs s rest of
        Inl e \<Rightarrow> ([], Err e)
      | Inr (kv, r) \<Rightarrow> apfst ((#) kv) (FlagParse fs r))"
  by pat_completeness auto
termination
  by (relation "measure (length \<circ> snd)") (auto dest!: parseOne_shorter simp: less_Suc_eq_le)

declare FlagParse.simps [simp del]

section \<open>Reordering\<close>

definition isBool :: "flag_set \<Rightarrow> string \<Rightarrow> bool" where
  "isBool fs name = (case fs name of None \<Rightarrow> False | Some k \<Rightarrow> fk_bool k)"

fun reorder_loop :: "flag_set \<Rightarrow> string list \<Rightarrow> string list \<times> string list" where
  "reorder_loop fs [] = ([], [])"
| "reorder_loop fs (a # rest) =
     (if a = ''--'' then ([], a # rest)
      else if \<not> prefix ''-'' a \<or> a = ''-'' then apsnd ((#) a) (reorder_loop fs rest)
      else if CHR ''='' \<in> set a then apfst ((#) a) (reorder_loop fs rest)
      else if isBool fs (dropWhile (\<lambda>c. c = CHR ''-'') a) then apfst ((#) a) (reorder_loop fs rest)
      else case rest of
        [] \<Rightarrow> ([a], [])
      | v # rest' \<Rightarrow> apfst (\<lambda>out. a # v # out) (reorder_loop fs rest'))"

definition reorderArgs :: "flag_set \<Rightarrow> string list \<Rightarrow> string list" where
  "reorderArgs fs args = (case reorder_loop fs args of (flagsOut, posOut) \<Rightarrow> flagsOut @ posOut)"

section \<open>Flags anywhere\<close>

text \<open>The parser the reordering stands for. A double dash ends the flags and stays where it is.\<close>

function ParseAnywhere :: "flag_set \<Rightarrow> string list \<Rightarrow> flag_result" where
  "ParseAnywhere fs [] = ([], Ok [])"
| "ParseAnywhere fs (s # rest) =
     (if s = ''--'' then ([], Ok (s # rest))
      else if \<not> is_flag s then apsnd (map_sum id ((#) s)) (ParseAnywhere fs rest)
      else case parseOne fs s rest of
        Inl e \<Rightarrow> ([], Err e)
      | Inr (kv, r) \<Rightarrow> apfst ((#) kv) (ParseAnywhere fs r))"
  by pat_completeness auto
termination
  by (relation "measure (length \<circ> snd)") (auto dest!: parseOne_shorter simp: less_Suc_eq_le)

declare ParseAnywhere.simps [simp del]

text \<open>A double dash in front of everything is consumed by the flag package.\<close>

definition drop_sep :: "string list \<Rightarrow> string list" where
  "drop_sep ps = (case ps of [] \<Rightarrow> [] | p # r \<Rightarrow> if p = ''--'' then r else ps)"

section \<open>The equivalence\<close>

lemma is_flag_prefix: "is_flag s \<longleftrightarrow> prefix ''-'' s \<and> s \<noteq> ''-''"
  by (cases s; cases "tl s") (auto simp: is_flag_def)

text \<open>Whatever follows a token that brings its value, or needs none, is left alone.\<close>

definition self_contained :: "flag_set \<Rightarrow> string \<Rightarrow> bool" where
  "self_contained fs a \<longleftrightarrow> (\<exists>e. \<forall>r. parseOne fs a r = Err e) \<or> (\<exists>kv. \<forall>r. parseOne fs a r = Ok (kv, r))"

definition takes_next :: "flag_set \<Rightarrow> string \<Rightarrow> bool" where
  "takes_next fs a \<longleftrightarrow>
     (\<exists>e. \<forall>r. parseOne fs a r = Err e) \<or>
     (\<exists>k name. \<forall>r. parseOne fs a r = (case r of [] \<Rightarrow> Err (NeedsArg name) | v # r' \<Rightarrow> set_flag k name v r'))"

lemma set_flag_self: "(\<exists>e. \<forall>r. set_flag k name v r = Err e) \<or> (\<exists>kv. \<forall>r. set_flag k name v r = Ok (kv, r))"
  by (auto simp: set_flag_def)

lemma self_contained_value:
  assumes "is_flag a" "CHR ''='' \<in> set a"
  shows "self_contained fs a"
proof (cases "split_flag a")
  case None
  then show ?thesis
    by (simp add: self_contained_def parseOne_def)
next
  case (Some nv)
  have "CHR ''='' \<in> set (flag_name a)"
    using assms by (cases a; cases "tl a") (auto simp: is_flag_def flag_name_def)
  then obtain name v where "nv = (name, Some v)"
    using Some by (auto simp: split_flag_def Let_def split: if_splits option.splits)
  then show ?thesis
    using Some set_flag_self [of _ name v]
    by (cases "fs name") (simp_all add: self_contained_def parseOne_def)
qed

lemma plain_name:
  assumes "is_flag a" "CHR ''='' \<notin> set a"
  shows "split_flag a = None \<or> split_flag a = Some (dropWhile (\<lambda>c. c = CHR ''-'') a, None)"
proof -
  obtain c b where a: "a = CHR ''-'' # c # b"
    using assms(1) by (cases a; cases "tl a") (auto simp: is_flag_def)
  have "CHR ''='' \<notin> set (flag_name a)"
    using assms(2) by (auto simp: a flag_name_def)
  moreover from this have "flag_name a = dropWhile (\<lambda>c. c = CHR ''-'') a" if "flag_name a \<noteq> []" "hd (flag_name a) \<noteq> CHR ''-''"
    using that by (cases b) (auto simp: a flag_name_def split: if_splits)
  ultimately show ?thesis
    by (auto simp: split_flag_def Let_def IndexByte_None [THEN iffD2])
qed

lemma self_contained_bool:
  assumes "is_flag a" "CHR ''='' \<notin> set a" "isBool fs (dropWhile (\<lambda>c. c = CHR ''-'') a)"
  shows "self_contained fs a"
proof -
  obtain k where "fs (dropWhile (\<lambda>c. c = CHR ''-'') a) = Some k" "fk_bool k"
    using assms(3) by (auto simp: isBool_def split: option.splits)
  then show ?thesis
    using plain_name [OF assms(1,2)] set_flag_self [of k "dropWhile (\<lambda>c. c = CHR ''-'') a" "''true''"]
    by (auto simp: self_contained_def parseOne_def)
qed

lemma takes_next_other:
  assumes "is_flag a" "CHR ''='' \<notin> set a" "\<not> isBool fs (dropWhile (\<lambda>c. c = CHR ''-'') a)"
  shows "takes_next fs a"
proof (cases "split_flag a = None \<or> fs (dropWhile (\<lambda>c. c = CHR ''-'') a) = None")
  case True
  then show ?thesis
    using plain_name [OF assms(1,2)] by (auto simp: takes_next_def parseOne_def)
next
  case False
  then obtain k where "fs (dropWhile (\<lambda>c. c = CHR ''-'') a) = Some k" "\<not> fk_bool k"
    using assms(3) by (auto simp: isBool_def)
  moreover have "split_flag a = Some (dropWhile (\<lambda>c. c = CHR ''-'') a, None)"
    using plain_name [OF assms(1,2)] False by blast
  ultimately have "\<forall>r. parseOne fs a r =
      (case r of [] \<Rightarrow> Err (NeedsArg (dropWhile (\<lambda>c. c = CHR ''-'') a)) | v # r' \<Rightarrow> set_flag k (dropWhile (\<lambda>c. c = CHR ''-'') a) v r')"
    by (simp add: parseOne_def)
  then show ?thesis
    unfolding takes_next_def by blast
qed

lemma FlagParse_flag: "is_flag s \<Longrightarrow> s \<noteq> ''--'' \<Longrightarrow>
    FlagParse fs (s # rest) = (case parseOne fs s rest of Inl e \<Rightarrow> ([], Err e) | Inr (kv, r) \<Rightarrow> apfst ((#) kv) (FlagParse fs r))"
  by (simp add: FlagParse.simps)

lemma ParseAnywhere_flag: "is_flag s \<Longrightarrow> s \<noteq> ''--'' \<Longrightarrow>
    ParseAnywhere fs (s # rest) = (case parseOne fs s rest of Inl e \<Rightarrow> ([], Err e) | Inr (kv, r) \<Rightarrow> apfst ((#) kv) (ParseAnywhere fs r))"
  by (simp add: ParseAnywhere.simps)

text \<open>Parsing a front part, whatever comes after it: it ends in its error, or adds its settings.\<close>

definition front_parses :: "flag_set \<Rightarrow> string list \<Rightarrow> string list \<Rightarrow> flag_result \<Rightarrow> bool" where
  "front_parses fs fl pos r \<longleftrightarrow>
     (\<forall>X. FlagParse fs (fl @ X) =
        (case snd r of Inl e \<Rightarrow> r | Inr ps \<Rightarrow> apfst ((@) (fst r)) (FlagParse fs X))) \<and>
     (\<forall>ps. snd r = Ok ps \<longrightarrow> ps = pos)"

lemma front_cons:
  assumes "front_parses fs fl pos r" "is_flag a" "a \<noteq> ''--''" "\<And>X. parseOne fs a (vs @ fl @ X) = Ok (kv, fl @ X)"
  shows "front_parses fs (a # vs @ fl) pos (apfst ((#) kv) r)"
  using assms(1,4) FlagParse_flag [OF assms(2,3), of fs]
  by (cases r; cases "snd r") (auto simp: front_parses_def prod.map_comp comp_def apfst_def map_prod_def split: prod.split)

lemma front_error:
  assumes "is_flag a" "a \<noteq> ''--''" "\<And>X. parseOne fs a (vs @ X) = Err e"
  shows "front_parses fs (a # vs) pos ([], Err e)"
  using FlagParse_flag [OF assms(1,2), of fs] assms(3) by (simp add: front_parses_def)

lemma ParseAnywhere_sep: "ParseAnywhere fs (''--'' # rest) = ([], Ok (''--'' # rest))"
  by (simp add: ParseAnywhere.simps)

lemma ParseAnywhere_positional: "\<not> is_flag s \<Longrightarrow> ParseAnywhere fs (s # rest) = apsnd (map_sum id ((#) s)) (ParseAnywhere fs rest)"
  by (auto simp: ParseAnywhere.simps is_flag_def)

lemma front_positional:
  "front_parses fs fl pos r \<Longrightarrow> front_parses fs fl (a # pos) (apsnd (map_sum id ((#) a)) r)"
  by (cases r; cases "snd r") (auto simp: front_parses_def)

definition missing_arg :: "flag_result \<Rightarrow> bool" where
  "missing_arg r = (case snd r of Inl (NeedsArg n) \<Rightarrow> True | _ \<Rightarrow> False)"

lemma missing_arg_maps [simp]:
  "missing_arg (apfst f r) = missing_arg r" "missing_arg (apsnd (map_sum id g) r) = missing_arg r"
  by (cases r; cases "snd r"; simp add: missing_arg_def)+

lemma apfst_Nil: "apfst ((@) []) r = r"
  by (cases r) simp

lemma reorder_front:
  "\<not> missing_arg (ParseAnywhere fs args) \<Longrightarrow>
     front_parses fs (fst (reorder_loop fs args)) (snd (reorder_loop fs args)) (ParseAnywhere fs args)"
proof (induction fs args rule: reorder_loop.induct)
  case (1 fs)
  show ?case
    by (simp add: ParseAnywhere.simps front_parses_def apfst_Nil)
next
  case (2 fs a rest)
  consider (sep) "a = ''--''" | (plain) "\<not> is_flag a" | (self) "a \<noteq> ''--''" "is_flag a"
      "CHR ''='' \<in> set a \<or> isBool fs (dropWhile (\<lambda>c. c = CHR ''-'') a)"
    | (more) "a \<noteq> ''--''" "is_flag a" "CHR ''='' \<notin> set a" "\<not> isBool fs (dropWhile (\<lambda>c. c = CHR ''-'') a)" by blast
  then show ?case
  proof cases
    case sep
    then show ?thesis
      by (simp add: ParseAnywhere_sep front_parses_def apfst_Nil)
  next
    case plain
    then have p: "a \<noteq> ''--''" "\<not> prefix ''-'' a \<or> a = ''-''"
      by (auto simp: is_flag_prefix)
    have "front_parses fs (fst (reorder_loop fs rest)) (snd (reorder_loop fs rest)) (ParseAnywhere fs rest)"
      using "2.IH"(1) [OF p] "2.prems" by (simp add: ParseAnywhere_positional [OF plain])
    from front_positional [OF this, of a] show ?thesis
      using p by (simp add: ParseAnywhere_positional [OF plain])
  next
    case self
    then have p: "\<not> (\<not> prefix ''-'' a \<or> a = ''-'')"
      by (simp add: is_flag_prefix)
    have step: "reorder_loop fs (a # rest) = apfst ((#) a) (reorder_loop fs rest)"
      using self p by auto
    have "self_contained fs a"
      using self self_contained_value self_contained_bool by blast
    then show ?thesis
      unfolding self_contained_def
    proof (elim disjE exE)
      fix e assume e: "\<forall>r. parseOne fs a r = Err e"
      then show ?thesis
        using front_error [OF self(2,1), of fs "fst (reorder_loop fs rest)" e "snd (reorder_loop fs rest)"] step
        by (simp add: ParseAnywhere_flag [OF self(2,1)])
    next
      fix kv assume kv: "\<forall>r. parseOne fs a r = Ok (kv, r)"
      then have any: "ParseAnywhere fs (a # rest) = apfst ((#) kv) (ParseAnywhere fs rest)"
        by (simp add: ParseAnywhere_flag [OF self(2,1)])
      have "front_parses fs (fst (reorder_loop fs rest)) (snd (reorder_loop fs rest)) (ParseAnywhere fs rest)"
        using "2.IH"(2,3) self p "2.prems" any by (cases "CHR ''='' \<in> set a") auto
      from front_cons [OF this self(2,1), of "[]" kv] show ?thesis
        using kv step any by simp
    qed
  next
    case more
    then have p: "\<not> (\<not> prefix ''-'' a \<or> a = ''-'')"
      by (simp add: is_flag_prefix)
    show ?thesis
      using takes_next_other [OF more(2-4)] unfolding takes_next_def
    proof (elim disjE exE)
      fix e assume e: "\<forall>r. parseOne fs a r = Err e"
      have "\<exists>vs. fst (reorder_loop fs (a # rest)) = a # vs"
        using more p by (cases rest) auto
      then show ?thesis
        using front_error [OF more(2,1)] e by (auto simp: ParseAnywhere_flag [OF more(2,1)] simp del: reorder_loop.simps)
    next
      fix k name
      assume k: "\<forall>r. parseOne fs a r = (case r of [] \<Rightarrow> Err (NeedsArg name) | v # r' \<Rightarrow> set_flag k name v r')"
      show ?thesis
      proof (cases rest)
        case Nil
        then show ?thesis
          using "2.prems" k by (simp add: ParseAnywhere_flag [OF more(2,1)] missing_arg_def)
      next
        case (Cons v rest')
        then have step: "reorder_loop fs (a # rest) = apfst (\<lambda>out. a # v # out) (reorder_loop fs rest')"
          using more p by auto
        show ?thesis
        proof (cases "fk_ok k v")
          case True
          then have any: "ParseAnywhere fs (a # rest) = apfst ((#) (name, v)) (ParseAnywhere fs rest')"
            using k Cons by (simp add: ParseAnywhere_flag [OF more(2,1)] set_flag_def)
          have "front_parses fs (fst (reorder_loop fs rest')) (snd (reorder_loop fs rest')) (ParseAnywhere fs rest')"
            using "2.IH"(4) [OF more(1) p more(3,4) Cons] "2.prems" any by simp
          from front_cons [OF this more(2,1), of "[v]" "(name, v)"] show ?thesis
            using k step any True by (simp add: set_flag_def)
        next
          case False
          then have "parseOne fs a (v # X) = Err (BadValue name v)" for X
            using k by (simp add: set_flag_def)
          then show ?thesis
            using front_error [OF more(2,1), of fs "v # fst (reorder_loop fs rest')"] step Cons
            by (simp add: ParseAnywhere_flag [OF more(2,1)])
        qed
      qed
    qed
  qed
qed

lemma drop_sep_Nil: "drop_sep [] = []"
  by (simp add: drop_sep_def)

lemma reorder_pos:
  "FlagParse fs (snd (reorder_loop fs args)) = ([], Ok (drop_sep (snd (reorder_loop fs args))))"
proof (induction fs args rule: reorder_loop.induct)
  case (1 fs)
  show ?case
    by (simp add: FlagParse.simps drop_sep_def)
next
  case (2 fs a rest)
  have plain: "FlagParse fs (a # X) = ([], Ok (a # X))" if "\<not> is_flag a" for X
    using that by (simp add: FlagParse.simps)
  show ?case
  proof (cases "a = ''--''")
    case True
    then show ?thesis
      by (simp add: FlagParse.simps drop_sep_def is_flag_def)
  next
    case sep: False
    show ?thesis
    proof (cases "is_flag a")
      case False
      then show ?thesis
        using sep plain by (simp add: is_flag_prefix drop_sep_def)
    next
      case True
      then have p: "\<not> (\<not> prefix ''-'' a \<or> a = ''-'')"
        by (simp add: is_flag_prefix)
      have step: "snd (reorder_loop fs (a # rest)) =
          (if CHR ''='' \<in> set a \<or> isBool fs (dropWhile (\<lambda>c. c = CHR ''-'') a) then snd (reorder_loop fs rest)
           else (case rest of [] \<Rightarrow> [] | v # r \<Rightarrow> snd (reorder_loop fs r)))"
        by (subst reorder_loop.simps(2)) (use sep p in \<open>simp del: reorder_loop.simps split: list.split\<close>)
      show ?thesis
        unfolding step using "2.IH"(2-4) [OF sep p]
        by (cases "CHR ''='' \<in> set a"; cases rest) (simp_all del: reorder_loop.simps add: FlagParse.simps(1) drop_sep_Nil)
    qed
  qed
qed

text \<open>
  C40. Reordering the arguments and handing them to the flag package is the same as accepting flags anywhere
  before a double dash: the same settings in the same order, the same positional arguments, the same
  error. The exception is a command line that ends in a flag without its value.
\<close>

theorem reorder_equals_anywhere:
  assumes "\<not> missing_arg (ParseAnywhere fs args)"
  shows "FlagParse fs (reorderArgs fs args) = apsnd (map_sum id drop_sep) (ParseAnywhere fs args)"
proof -
  obtain kvs res where r: "ParseAnywhere fs args = (kvs, res)"
    by fastforce
  then show ?thesis
    using reorder_front [OF assms] reorder_pos [of fs args]
    by (cases res) (auto simp: front_parses_def reorderArgs_def split_def)
qed

text \<open>The flags of a command, for the examples: \<^verbatim>\<open>-v\<close> is boolean, \<^verbatim>\<open>-pin\<close> takes a value.\<close>

definition demo_flags :: flag_set where
  "demo_flags = [''v'' \<mapsto> \<lparr>fk_bool = True, fk_ok = (\<lambda>v. v = ''true'' \<or> v = ''false'')\<rparr>,
                 ''pin'' \<mapsto> \<lparr>fk_bool = False, fk_ok = (\<lambda>v. True)\<rparr>]"

lemmas flag_defs = FlagParse.simps ParseAnywhere.simps parseOne_def split_flag_def flag_name_def is_flag_def set_flag_def isBool_def
  reorderArgs_def demo_flags_def

lemma demo_anywhere:
  "ParseAnywhere demo_flags [''URL'', ''--pin'', ''12'', ''-v'', ''--'', ''ls'', ''-l''] =
    ([(''pin'', ''12''), (''v'', ''true'')], Ok [''URL'', ''--'', ''ls'', ''-l''])"
  by (simp add: flag_defs)

theorem reorder_equals_anywhere_witness:
  "FlagParse demo_flags (reorderArgs demo_flags [''URL'', ''--pin'', ''12'', ''-v'', ''--'', ''ls'', ''-l'']) =
    ([(''pin'', ''12''), (''v'', ''true'')], Ok [''URL'', ''--'', ''ls'', ''-l''])"
  using reorder_equals_anywhere [of demo_flags "[''URL'', ''--pin'', ''12'', ''-v'', ''--'', ''ls'', ''-l'']"]
  by (simp add: demo_anywhere missing_arg_def drop_sep_def)

text \<open>In the exception the flag takes the first positional argument for its value, and it is gone.\<close>

lemma missing_value_swallows_positional:
  "FlagParse demo_flags (reorderArgs demo_flags [''URL'', ''--pin'']) = ([(''pin'', ''URL'')], Ok []) \<and>
    ParseAnywhere demo_flags [''URL'', ''--pin''] = ([], Err (NeedsArg ''pin''))"
  by (simp add: flag_defs)

end
