(* ===== verification/Spec2Isabelle.thy ===== *)
theory Spec2Isabelle
  imports Swsp PeerSet FrameQueue Listener_Laws LinkState_Props Session_Props Handshake_Agreement ClientSession FileShare
    Pairing_Props Connection_Props FileStream_Props TcpStream_Props Shell_Props CliArgs
begin

text \<open>
  A verification library for bitbang-cli, a Go program that reaches a machine from a browser or from another
  copy of itself: a listener registers with a rendezvous server, a connector that holds an access code asks
  for it, and the two speak a framed protocol, SWSP, over a WebRTC data channel. The listener offers files,
  forwarded TCP connections, shells and proxied pages; links narrow what a holder of their code may use.

  \<^bold>\<open>The parts and how they meet.\<close> A request reaches the listener (\<open>Listener\<close>, from \<^verbatim>\<open>serve_listen.go\<close> and
  \<^verbatim>\<open>serve_peer.go\<close>), which counts it, builds a connection (\<open>Connection\<close>) and verifies the answer. The code in
  the answer is looked up in the table of links (\<open>Links\<close>, \<open>LinkState\<close>), whose rows carry grants (\<open>Grant\<close>,
  \<open>Narrowing\<close>) and targets (\<open>Allowlist\<close>). An admitted peer gets a session (\<open>Session\<close>); frames that come
  before it exists wait in a queue (\<open>FrameQueue\<close>). The session authenticates, opens streams and keeps their
  flow-control accounts (\<open>Credit\<close>, \<open>Flow\<close>), and hands frames to the handlers: files (\<open>FileStream\<close> over
  \<open>FileShare\<close> and \<open>FilePath\<close>), TCP forwards (\<open>TcpStream\<close>)
  and shells (\<open>Shell\<close>), which the handlers of all sessions count together. The connector's side is \<open>ClientHandshake\<close>,
  \<open>ClientSession\<close>, \<open>ClientStream\<close> and \<open>FileClient\<close>. \<open>Pairing\<close> is the exchange that hands out a code.

  \<^bold>\<open>Theories and sources.\<close>
  \<^item> \<open>BB_Prelude\<close>: results, strings and the JSON values all the others use; models of the Go library functions
    the code calls on strings. \<open>Contracts\<close>: the interfaces as locales, interpreted by the theories below.
    \<open>Goroutines\<close>: lists of goroutines. \<open>GoJson\<close> and \<open>GoCrypto\<close>: decoding JSON into structs, constant-time comparison, hexadecimal. \<open>Base64\<close>:
    the encoding of keys and answers.
  \<^item> \<open>Swsp\<close>: \<^verbatim>\<open>internal/protocol/swsp.go\<close>, frames and version negotiation.
  \<^item> \<open>Allowlist\<close>: \<^verbatim>\<open>internal/allowlist\<close>. \<open>Grant\<close>, \<open>Grant_Laws\<close>, \<open>Narrowing\<close>: \<^verbatim>\<open>internal/grant\<close> with
    \<^verbatim>\<open>serve_words.go\<close> and \<^verbatim>\<open>capability.go\<close> of \<^verbatim>\<open>cmd/bitbang\<close>. \<open>Links\<close>, \<open>Links_Laws\<close>, \<open>LinkFile\<close>: \<^verbatim>\<open>internal/links\<close>.
    \<open>LinkState\<close>, \<open>LinkState_Props\<close>: \<^verbatim>\<open>serve_links.go\<close>, the table with its file.
  \<^item> \<open>PeerSet\<close>: \<^verbatim>\<open>internal/peerset\<close>. \<open>FrameQueue\<close>: \<^verbatim>\<open>internal/framequeue\<close>. \<open>Listener\<close>, \<open>Listener_Laws\<close>: the
    listener's handlers and its poll of the peers.
  \<^item> \<open>Credit\<close>, \<open>Flow\<close>, \<open>Session\<close>, \<open>Session_Laws\<close>, \<open>Session_Inv\<close>, \<open>Session_Order\<close>, \<open>Session_Quiet\<close>,
    \<open>Session_Props\<close>: \<^verbatim>\<open>internal/session\<close> with the PIN of \<^verbatim>\<open>internal/auth\<close>.
  \<^item> \<open>ClientStream\<close>, \<open>ClientHandshake\<close>, \<open>ClientSession\<close>, \<open>Handshake_Agreement\<close>: \<^verbatim>\<open>internal/client\<close>, and its
    agreement with the session.
  \<^item> \<open>Fingerprint\<close>: \<^verbatim>\<open>internal/sdp/fingerprint.go\<close>. \<open>Pairing\<close>, \<open>Pairing_Props\<close>: \<^verbatim>\<open>internal/pairing\<close> and both
    ends of a pairing. \<open>Connection\<close>, \<open>Connection_Props\<close>: \<^verbatim>\<open>internal/peer\<close>, with the connector's
    \<^verbatim>\<open>internal/client/peer.go\<close>.
  \<^item> \<open>FilePath\<close>, \<open>FileShare\<close>: \<^verbatim>\<open>internal/fileshare\<close> over a model of a file tree with symbolic links.
    \<open>FileStream\<close>, \<open>FileStream_Laws\<close>, \<open>FileStream_Props\<close>, \<open>FileClient\<close>: \<^verbatim>\<open>internal/streamtype/file.go\<close> and
    \<^verbatim>\<open>internal/client/fileops.go\<close>.
  \<^item> \<open>TcpStream\<close>, \<open>TcpStream_Laws\<close>, \<open>TcpStream_Props\<close>: \<^verbatim>\<open>internal/streamtype/tcp.go\<close> with
    \<^verbatim>\<open>internal/bytestream\<close> and the check of targets in \<^verbatim>\<open>internal/tcpforward\<close>.
  \<^item> \<open>Shell\<close>, \<open>Shell_Laws\<close>, \<open>Shell_Props\<close>: \<^verbatim>\<open>internal/streamtype/shell.go\<close>, with the two admission policies of
    \<^verbatim>\<open>internal/share/worker.go\<close>.
  \<^item> \<open>CliArgs\<close>: \<^verbatim>\<open>cmd/bitbang/args.go\<close> with the parser of the \<^verbatim>\<open>flag\<close> package.

  \<^bold>\<open>Conventions.\<close> A struct is a record with the source's fields, an operation a function that returns the new
  state, an error a value. Stream numbers, flags and windows are words of their width. Where goroutines run
  against each other the state holds the list of them, each at the point it has reached; an event runs a
  callback or one step of one goroutine, a critical section at a time, and a state is reachable when some
  sequence of events leads to it. Objects that several goroutines hold live in heaps, lists addressed by
  position. What the outside decides comes in with the event: the outcome of a dial, a read, a write or a send.
  A callback that has to wait changes nothing yet and is tried again later. A wait in a \<^verbatim>\<open>select\<close> is given the
  moments at which it looks at its channels and its timer, and takes one of the arms that are ready.

  \<^bold>\<open>Steps.\<close> In the session, the test whether it is closed, the dispatch of the frame and each call of a handler
  are steps of their own, so that \<open>Close\<close> may come between them. \<open>failStream\<close>, \<open>finishState\<close> and \<open>Close\<close> take two locks
  one after the other and are one step each; the theory \<open>Session\<close> says why no other step can tell. The answer
  of a peer is handled in one step in \<open>Listener\<close>: what could come between its parts removes the connection or the
  link, which the admission at its end looks for.

  \<^bold>\<open>Ghosts.\<close> Fields no operation reads record what happened: the payloads given to a stream (\<open>fp_got\<close>, \<open>ts_given\<close>)
  are recorded when its callback is called, whatever the callback does with them.

  \<^bold>\<open>What the lemmas show.\<close> The \<open>_Laws\<close> and \<open>_Inv\<close> theories carry an invariant through every step; the
  \<open>_Props\<close> theories draw the properties from it. Grants and links: narrowing never widens, printing and parsing
  are inverse, codes stay unique through every operation of the table. Listener: only authorised peers are
  admitted, a poll stops exactly those whose link is gone, slots are never leaked. Session: nothing is served
  before the PIN, the table of streams is exact, a reset is the last frame of its stream, a closed session calls
  no handler but to wind its streams up, closing ends every wait, and both ends agree on handshake and windows.
  A connector that waits in the handshake returns with the error of the timer or the closed channel. Shells: a
  forced command and the deafness of a view-only handler hold for every process, the limit is kept and slots
  come back. Connection and pairing: a proof or a credential leaves
  only after verification, and honest ends agree. Files and forwards: bytes arrive unchanged and in order
  whatever interleaves, and resources are released.

  \<^bold>\<open>Bounds.\<close> A walk along a path has fuel for symbolic links only, the limits of the code: 255 in the path
  library, 40 in the kernel; running out is the error the code returns. The conversation of the two ends of a
  handshake is given five turns, and its theorem says that they are enough for the three attempts at the PIN.
  The operator has three attempts at the short authentication string. No other loop has fuel; the recursive
  functions have measures.

  \<^bold>\<open>Arguments.\<close> JSON text, SHA-256, RSA, RFC 3339, the rendezvous server, WebRTC, the file system under a
  handler and the network are not defined here: they are fields of records that the definitions take, and what
  a theorem needs of them is a hypothesis, such as that a printed message can be read back; each such theorem
  is applied to a concrete instance.

  \<^bold>\<open>Not modelled.\<close> The HTTP and WebSocket proxies and shared terminals, which drive sockets and other programs;
  the mirror of a shell on the operator's console; the signaling client; the terminal's prompts and display, the command line programs that join the
  parts; platform code, name resolution, logging and the embedded pages. Timers appear as events that may
  happen; the duration of a wait does not.
\<close>

end
